(* ===== verification/Prelude.thy ===== *)
theory Prelude
  imports Main "HOL-Library.Word"
begin

text \<open>
  Shared vocabulary of the development: names for the machine integers, the big-endian view of a
  byte sequence as a bit sequence (\<open>bit_at\<close>, \<open>to_bits\<close>, \<open>of_bits\<close>), and the word and list lemmas
  that the component theories rely on. The collection \<open>bits\<close> holds the rules that reduce an equation
  between words to its bits.
\<close>

unbundle bit_operations_syntax

named_theorems bits

type_synonym u8 = "8 word"
type_synonym u16 = "16 word"
type_synonym u32 = "32 word"
type_synonym u64 = "64 word"
type_synonym bytes = "u8 list"

declare bit_simps [bits]

section \<open>Bit sequences\<close>

text \<open>The bit at position \<open>p\<close> of a byte sequence, most significant bit of each byte first.\<close>

definition bit_at :: "bytes \<Rightarrow> nat \<Rightarrow> bool" where
  "bit_at xs p = bit (xs ! (p div 8)) (7 - p mod 8)"

text \<open>The \<open>n\<close> low bits of a word, most significant first, and the number a bit list denotes.\<close>

definition to_bits :: "nat \<Rightarrow> 'a::len word \<Rightarrow> bool list" where
  "to_bits n v = map (\<lambda>i. bit v (n - 1 - i)) [0..<n]"

definition of_bits :: "bool list \<Rightarrow> 'a::len word" where
  "of_bits bs = foldl (\<lambda>v b. 2 * v + of_bool b) 0 bs"

lemma length_to_bits [simp]: "length (to_bits n v) = n"
  by (simp add: to_bits_def)

lemma nth_to_bits: "i < n \<Longrightarrow> to_bits n v ! i = bit v (n - 1 - i)"
  by (simp add: to_bits_def)

lemma of_bits_Nil [simp]: "of_bits [] = 0"
  by (simp add: of_bits_def)

lemma of_bits_snoc [simp]: "of_bits (bs @ [b]) = 2 * of_bits bs + of_bool b"
  by (simp add: of_bits_def)

lemma bit_double_plus: "bit (2 * (v::'a::len word) + of_bool b) i \<longleftrightarrow>
    (if i = 0 then b else i < LENGTH('a) \<and> bit v (i - 1))"
proof -
  have "bit (of_bool b + 2 * v) i = (if i = 0 then odd (of_bool b :: 'a word) else bit (2 * v) i)"
    by (rule bit_sum_mult_2_cases) (simp add: bit_simps)
  then show ?thesis
    by (simp add: bit_double_iff add.commute possible_bit_def)
qed

lemma bit_of_bits: "bit (of_bits bs :: 'a::len word) i \<longleftrightarrow>
    i < length bs \<and> i < LENGTH('a) \<and> bs ! (length bs - 1 - i)"
proof (induction bs arbitrary: i rule: rev_induct)
  case Nil
  then show ?case by simp
next
  case (snoc b bs)
  show ?case
    by (cases i) (auto simp: bit_double_plus nth_append snoc.IH)
qed

lemma of_bits_to_bits: "of_bits (to_bits n v) = take_bit n (v::'a::len word)"
  by (rule bit_word_eqI) (auto simp: bit_of_bits nth_to_bits bit_simps)

lemma to_bits_append:
  "to_bits (m + n) v = to_bits m (drop_bit n v) @ to_bits n (v :: 'a::len word)"
  by (rule nth_equalityI) (auto simp: nth_append nth_to_bits bit_simps intro!: arg_cong [of _ _ "bit v"])

lemma to_bits_0 [simp]: "to_bits 0 v = []"
  by (simp add: to_bits_def)

lemma to_bits_take_bit [simp]: "n \<le> m \<Longrightarrow> to_bits n (take_bit m v) = to_bits n v"
  by (auto simp: to_bits_def bit_simps)

lemma div_8_eqE:
  assumes "(p::nat) div 8 = k"
  obtains r where "p = 8 * k + r" "r < 8" "p mod 8 = r"
proof
  show "p = 8 * k + p mod 8" using assms by (metis mult_div_mod_eq)
qed simp_all

section \<open>Conversion to binary32\<close>

text \<open>
  The value of \<open>(float) x\<close> for an unsigned integer \<open>x\<close>: rounded to 24 significant bits, ties to even.
  \<open>bit_length\<close> is the number of significant bits.
\<close>

fun bit_length :: "nat \<Rightarrow> nat" where
  "bit_length n = (if n = 0 then 0 else Suc (bit_length (n div 2)))"

declare bit_length.simps [simp del]

definition float_of_uint :: "nat \<Rightarrow> nat" where
  "float_of_uint x =
    (let s = bit_length x - 24; q = x div 2 ^ s; r = x mod 2 ^ s; half = 2 ^ s div 2
     in if s = 0 then x
        else if half < r \<or> (r = half \<and> odd q) then (q + 1) * 2 ^ s else q * 2 ^ s)"

lemma bit_length_0 [simp]: "bit_length 0 = 0"
  by (subst bit_length.simps) simp

lemma bit_length_le_iff: "bit_length n \<le> k \<longleftrightarrow> n < 2 ^ k"
proof (induction n arbitrary: k rule: bit_length.induct)
  case (1 n)
  show ?case
  proof (cases "n = 0")
    case False
    then have eq: "bit_length n = Suc (bit_length (n div 2))" by (subst bit_length.simps) simp
    show ?thesis
    proof (cases k)
      case 0
      with False eq show ?thesis by simp
    next
      case (Suc j)
      have "bit_length (n div 2) \<le> j \<longleftrightarrow> n div 2 < 2 ^ j" using 1 False by simp
      moreover have "n div 2 < 2 ^ j \<longleftrightarrow> n < 2 * 2 ^ j" by (simp add: div_less_iff_less_mult mult.commute)
      ultimately show ?thesis using eq Suc by simp
    qed
  qed simp
qed

lemma less_2_bit_length: "n < 2 ^ bit_length n"
  using bit_length_le_iff [of n "bit_length n"] by simp

lemma bit_length_pos [simp]: "0 < bit_length n \<longleftrightarrow> 0 < n"
  using bit_length_le_iff [of n 0] by auto

lemma float_of_uint_exact: "x < 2 ^ 24 \<Longrightarrow> float_of_uint x = x"
  using bit_length_le_iff [of x 24] by (simp add: float_of_uint_def)

section \<open>Words\<close>

lemma take_bit_unat_id: "unat v < 2 ^ n \<Longrightarrow> take_bit n (v::'a::len word) = v"
  by (rule word_unat_eq_iff [THEN iffD2]) (simp add: unsigned_take_bit_eq take_bit_nat_eq_self)

lemma unat_of_nat_eq: "n < 2 ^ LENGTH('a) \<Longrightarrow> unat (of_nat n :: 'a::len word) = n"
  by (simp add: unat_of_nat take_bit_nat_eq_self)

lemma unat_ucast_up:
  assumes "LENGTH('a) \<le> LENGTH('b)"
  shows "unat (ucast (x :: 'a::len word) :: 'b::len word) = unat x"
proof -
  have "unat x < 2 ^ LENGTH('a)" by (rule unsigned_less)
  also have "(2 :: nat) ^ LENGTH('a) \<le> 2 ^ LENGTH('b)" using assms by simp
  finally show ?thesis by (simp only: unsigned_ucast_eq take_bit_nat_eq_self)
qed

lemma of_nat_pred: "0 < k \<Longrightarrow> of_nat k - (1 :: 'a::len word) = of_nat (k - 1)"
  by simp

lemma sint_small:
  assumes "unat (x :: 'a::len word) < 2 ^ (LENGTH('a) - 1)"
  shows "sint x = uint x"
proof -
  have "uint x < 2 ^ (LENGTH('a) - 1)"
    using assms unfolding unat_eq_nat_uint by (simp only: nat_less_iff [OF unsigned_greater_eq]) simp
  moreover have "- (2 ^ (LENGTH('a) - 1)) \<le> uint x" by (rule order_trans [of _ 0]) simp_all
  ultimately show ?thesis
    unfolding sint_uint One_nat_def by (intro signed_take_bit_int_eq_self)
qed

lemma to_bits_ucast:
  "n \<le> LENGTH('a) \<Longrightarrow> n \<le> LENGTH('b) \<Longrightarrow> to_bits n (ucast (x :: 'a::len word) :: 'b::len word) = to_bits n x"
  by (auto simp: to_bits_def bit_simps)

lemma to_bits_scast:
  "n \<le> LENGTH('a) \<Longrightarrow> n \<le> LENGTH('b) \<Longrightarrow> to_bits n (scast (x :: 'a::len word) :: 'b::len word) = to_bits n x"
proof (rule nth_equalityI)
  fix i assume a: "n \<le> LENGTH('a)" "n \<le> LENGTH('b)" "i < length (to_bits n (scast x :: 'b word))"
  moreover have "n - 1 - i = LENGTH('a) - 1 \<or> n - 1 - i < LENGTH('a) - 1" using a by simp linarith
  ultimately show "to_bits n (scast x :: 'b word) ! i = to_bits n x ! i"
    by (auto simp: nth_to_bits bit_simps min_def)
qed simp

lemma unat_less_bit: "unat (x :: 'a::len word) < 2 ^ k \<Longrightarrow> bit x i \<Longrightarrow> i < k"
  by (metis bit_take_bit_iff take_bit_unat_id)

lemma to_bits_pad:
  assumes "unat (x :: 'a::len word) < 2 ^ k" "k \<le> m"
  shows "to_bits m x = replicate (m - k) False @ to_bits k x"
proof -
  have "to_bits (m - k) (drop_bit k x) = replicate (m - k) False"
    by (rule nth_equalityI) (auto simp: nth_to_bits bit_simps dest: unat_less_bit [OF assms(1)])
  then show ?thesis
    using to_bits_append [of "m - k" k x] assms(2) by simp
qed

lemma of_bits_to_bits_id: "unat (x :: 'a::len word) < 2 ^ n \<Longrightarrow> of_bits (to_bits n x) = x"
  by (simp add: of_bits_to_bits take_bit_unat_id)

section \<open>Masks and shifts of the byte code\<close>

text \<open>The mask constants of the packing code as truncations, so that \<open>bits\<close> applies.\<close>

lemma and_masks:
  "x AND 1 = take_bit 1 (x :: 'a::len word)" "x AND 3 = take_bit 2 x" "x AND 7 = take_bit 3 x"
  "x AND 15 = take_bit 4 x" "x AND 31 = take_bit 5 x" "x AND 63 = take_bit 6 x" "x AND 127 = take_bit 7 x"
  "x AND 255 = take_bit 8 x" "x AND 1023 = take_bit 10 x" "x AND 2047 = take_bit 11 x" "x AND 4095 = take_bit 12 x"
  "x AND 65535 = take_bit 16 x" "x AND 262143 = take_bit 18 x"
  by (simp_all add: take_bit_eq_mask mask_numeral mask_Suc_0)

lemma bit_pow: "bit ((2 :: int) ^ k) i \<longleftrightarrow> i = k"
  by (auto simp: bit_exp_iff)

text \<open>Single bit masks; the simplifier reads a bit of a word numeral off the integer numeral.\<close>

lemma bit_numerals:
  "bit (4 :: int) i \<longleftrightarrow> i = 2" "bit (8 :: int) i \<longleftrightarrow> i = 3" "bit (16 :: int) i \<longleftrightarrow> i = 4"
  "bit (32 :: int) i \<longleftrightarrow> i = 5" "bit (64 :: int) i \<longleftrightarrow> i = 6" "bit (128 :: int) i \<longleftrightarrow> i = 7"
  "bit (2 :: int) i \<longleftrightarrow> i = 1"
  using bit_pow [of 2 i] bit_pow [of 3 i] bit_pow [of 4 i] bit_pow [of 5 i] bit_pow [of 6 i] bit_pow [of 7 i]
    bit_pow [of 1 i]
  by simp_all

lemma high_masks:
  "(x :: u8) AND 240 = push_bit 4 (drop_bit 4 x)" "x AND 192 = push_bit 6 (drop_bit 6 x)"
  "x AND 252 = push_bit 2 (drop_bit 2 x)" "x AND 224 = push_bit 5 (drop_bit 5 x)"
  "x AND 248 = push_bit 3 (drop_bit 3 x)"
proof -
  have m: "x AND NOT (mask n) = push_bit n (drop_bit n x)" for n
    by (rule bit_word_eqI) (auto simp: bit_simps)
  have e: "(240 :: u8) = NOT (mask 4)" "(192 :: u8) = NOT (mask 6)" "(252 :: u8) = NOT (mask 2)"
    "(224 :: u8) = NOT (mask 5)" "(248 :: u8) = NOT (mask 3)"
    by (simp_all add: mask_numeral)
  show "(x :: u8) AND 240 = push_bit 4 (drop_bit 4 x)" "x AND 192 = push_bit 6 (drop_bit 6 x)"
    "x AND 252 = push_bit 2 (drop_bit 2 x)" "x AND 224 = push_bit 5 (drop_bit 5 x)"
    "x AND 248 = push_bit 3 (drop_bit 3 x)"
    unfolding e m by (rule refl)+
qed

text \<open>A word below a power of two has no bit from that position on.\<close>

lemma bit_below:
  assumes "(x :: 'a::len word) < 2 ^ n" "bit x i"
  shows "i < n"
proof (cases "n < LENGTH('a)")
  case True
  then have "unat ((2 :: 'a word) ^ n) = 2 ^ n" using unat_of_nat_eq [of "2 ^ n", where 'a = 'a] by simp
  with assms(1) have "unat x < 2 ^ n" by (simp add: word_less_nat_alt)
  then show ?thesis using assms(2) by (rule unat_less_bit)
next
  case False
  then show ?thesis using bit_imp_le_length [OF assms(2)] by simp
qed

lemma take_bit_idE: "take_bit n (x :: 'a::len word) = x \<Longrightarrow> bit x i \<Longrightarrow> i < n"
  by (metis bit_take_bit_iff)

lemma not_bit_take: "take_bit n (x :: 'a::len word) = x \<Longrightarrow> n \<le> i \<Longrightarrow> \<not> bit x i"
  using take_bit_idE by fastforce

lemma and_12: "(x :: u8) AND 12 = push_bit 2 (take_bit 2 (drop_bit 2 x))"
proof -
  have e: "(12 :: u8) = push_bit 2 (mask 2)" by (simp add: mask_numeral)
  show ?thesis unfolding e
    by (rule bit_word_eqI) (auto simp: bits simp del: bit_0 add_2_eq_Suc add_2_eq_Suc')
qed

text \<open>A field in the middle of a 16 bit word, masked and shifted down.\<close>

lemma drop_and_field: "drop_bit k (x AND push_bit k (mask n)) = take_bit n (drop_bit k (x :: 'a::len word))"
  by (rule bit_word_eqI) (auto simp: bits simp del: bit_0 dest: bit_imp_le_length)

lemma field_masks:
  "drop_bit 4 ((x :: u16) AND 0x7F0) = take_bit 7 (drop_bit 4 x)" "drop_bit 8 (x AND 0x700) = take_bit 3 (drop_bit 8 x)"
  "drop_bit 8 (x AND 0x300) = take_bit 2 (drop_bit 8 x)" "drop_bit 8 (x AND 0x7F00) = take_bit 7 (drop_bit 8 x)"
proof -
  have e: "(0x7F0 :: u16) = push_bit 4 (mask 7)" "(0x700 :: u16) = push_bit 8 (mask 3)"
    "(0x300 :: u16) = push_bit 8 (mask 2)" "(0x7F00 :: u16) = push_bit 8 (mask 7)"
    by (simp_all add: mask_numeral)
  show "drop_bit 4 (x AND 0x7F0) = take_bit 7 (drop_bit 4 x)" "drop_bit 8 (x AND 0x700) = take_bit 3 (drop_bit 8 x)"
    "drop_bit 8 (x AND 0x300) = take_bit 2 (drop_bit 8 x)" "drop_bit 8 (x AND 0x7F00) = take_bit 7 (drop_bit 8 x)"
    unfolding e drop_and_field by (rule refl)+
qed

section \<open>Bytes as bits\<close>

definition byte_bits :: "u8 \<Rightarrow> bool list" where
  "byte_bits x = to_bits 8 x"

lemma length_byte_bits [simp]: "length (byte_bits x) = 8"
  by (simp add: byte_bits_def)

lemma to_bits_ucast_u8 [simp]: "to_bits 8 (ucast (x :: u8) :: u64) = byte_bits x"
  by (auto simp: byte_bits_def to_bits_def bit_simps)

lemma of_bits_byte_bits [simp]: "of_bits (byte_bits x) = x"
  by (simp add: byte_bits_def of_bits_to_bits take_bit_word_eq_self)

lemma length_concat_byte_bits [simp]: "length (concat (map byte_bits xs)) = 8 * length xs"
  by (induction xs) simp_all

lemma of_bits_append: "of_bits (xs @ ys) = push_bit (length ys) (of_bits xs) + (of_bits ys :: 'a::len word)"
proof (induction ys rule: rev_induct)
  case (snoc y ys)
  have "of_bits (xs @ ys @ [y]) = 2 * of_bits (xs @ ys) + (of_bool y :: 'a word)"
    by (simp only: append_assoc [symmetric] of_bits_snoc)
  then show ?case
    by (simp add: snoc push_bit_eq_mult algebra_simps)
qed simp

lemma ucast_of_bits: "length bs \<le> LENGTH('b) \<Longrightarrow>
    (ucast (of_bits bs :: 'b::len word) :: 'a::len word) = of_bits bs"
  by (rule bit_word_eqI) (auto simp: bit_simps bit_of_bits)

text \<open>The part of the current byte that one iteration reads.\<close>

lemma to_bits_of_bits: "length bs = n \<Longrightarrow> n \<le> LENGTH('a) \<Longrightarrow> to_bits n (of_bits bs :: 'a::len word) = bs"
  by (rule nth_equalityI) (auto simp: nth_to_bits bit_of_bits)

end
