(* ===== verification/Asn1_Bit_Ref.thy ===== *)
theory Asn1_Bit_Ref
  imports Prelude
begin

text \<open>
  The bit cursor of the ASN.1 library: \<open>bit_ref\<close> and \<open>cbit_ref\<close> of
  \<^verbatim>\<open>lib/include/srsran/asn1/asn1_utils.h\<close>, with \<open>pack\<close>, \<open>unpack\<close>, the byte transfers and the
  alignment operations of \<^verbatim>\<open>lib/src/asn1/asn1_utils.cc\<close>.

  A cursor is the memory from \<open>start_ptr\<close> on, the two pointers as indices into it, and the bit offset
  inside the current byte. An operation returns the \<open>SRSASN_CODE\<close> and the cursor it leaves behind,
  also when it fails half way. The reference semantics are bit lists: what has been written so far
  (\<open>written\<close>) and what is left to read (\<open>remaining\<close>); \<open>pack\<close> appends to the first and \<open>unpack\<close>
  consumes the second.
\<close>

section \<open>Data\<close>

datatype asn_code = SRSASN_SUCCESS | SRSASN_ERROR_ENCODE_FAIL | SRSASN_ERROR_DECODE_FAIL

record bit_ref =
  br_buf :: bytes
  br_ptr :: nat
  br_offset :: nat
  br_max :: nat

text \<open>\<open>HANDLE_CODE\<close>: go on after a success, return any other code at once.\<close>

fun handle_code :: "asn_code \<times> bit_ref \<Rightarrow> (bit_ref \<Rightarrow> asn_code \<times> bit_ref) \<Rightarrow> asn_code \<times> bit_ref" where
  "handle_code (c, b) k = (if c = SRSASN_SUCCESS then k b else (c, b))"

fun handle_val :: "asn_code \<times> 'v \<times> bit_ref \<Rightarrow> ('v \<Rightarrow> bit_ref \<Rightarrow> asn_code \<times> 'w \<times> bit_ref) \<Rightarrow> 'w \<Rightarrow>
    asn_code \<times> 'w \<times> bit_ref" where
  "handle_val (c, v, b) k w = (if c = SRSASN_SUCCESS then k v b else (c, w, b))"

definition bit_ref_new :: "bytes \<Rightarrow> nat \<Rightarrow> bit_ref" where
  "bit_ref_new mem max_size = \<lparr>br_buf = mem, br_ptr = 0, br_offset = 0, br_max = max_size\<rparr>"

definition distance :: "bit_ref \<Rightarrow> int" where
  "distance b = int (br_offset b) + 8 * int (br_ptr b)"

definition distance_bytes :: "bit_ref \<Rightarrow> int" where
  "distance_bytes b = int (br_ptr b) + (if br_offset b \<noteq> 0 then 1 else 0)"

definition distance_bytes_end :: "bit_ref \<Rightarrow> int" where
  "distance_bytes_end b = int (br_max b) - int (br_ptr b) - (if br_offset b \<noteq> 0 then 1 else 0)"

section \<open>Writing\<close>

text \<open>
  The loop of \<open>bit_ref::pack\<close>. The bit offset is below 8 in every cursor the library builds
  (\<open>bit_ref_ok\<close> below); the first guard mentions it only so that the recursion is total.
\<close>

function pack_loop :: "bit_ref \<Rightarrow> u64 \<Rightarrow> nat \<Rightarrow> asn_code \<times> bit_ref" where
  "pack_loop b val n_bits =
    (if n_bits = 0 \<or> 8 \<le> br_offset b then (SRSASN_SUCCESS, b)
     else if br_max b \<le> br_ptr b then (SRSASN_ERROR_ENCODE_FAIL, b)
     else
       let offset = br_offset b; ptr = br_ptr b; cur = br_buf b ! ptr;
           mask = push_bit n_bits 1 - 1;
           val = val AND mask;
           keepmask = (- 1 :: u8) - ucast ((push_bit (8 - offset) 1 :: u32) - 1)
       in if n_bits < 8 - offset
          then let bit = ucast (push_bit (8 - offset - n_bits) val) :: u8
               in (SRSASN_SUCCESS, b\<lparr>br_buf := (br_buf b)[ptr := (cur AND keepmask) + bit],
                                     br_offset := offset + n_bits\<rparr>)
          else let bit = ucast (drop_bit (n_bits + offset - 8) val) :: u8
               in pack_loop (b\<lparr>br_buf := (br_buf b)[ptr := (cur AND keepmask) + bit],
                               br_offset := 0, br_ptr := ptr + 1\<rparr>) val (n_bits - (8 - offset)))"
  by pat_completeness auto
termination
  by (relation "measure (\<lambda>(b, val, n_bits). n_bits)") auto

declare pack_loop.simps [simp del]

definition pack :: "bit_ref \<Rightarrow> u64 \<Rightarrow> nat \<Rightarrow> asn_code \<times> bit_ref" where
  "pack b val n_bits =
    (if 64 \<le> n_bits then (SRSASN_ERROR_ENCODE_FAIL, b) else pack_loop b val n_bits)"

definition align_bytes_zero :: "bit_ref \<Rightarrow> asn_code \<times> bit_ref" where
  "align_bytes_zero b =
    (if br_offset b = 0 then (SRSASN_SUCCESS, b)
     else if br_max b \<le> br_ptr b then (SRSASN_ERROR_ENCODE_FAIL, b)
     else let mask = ucast ((256 :: u32) - push_bit (8 - br_offset b) 1) :: u8
          in (SRSASN_SUCCESS,
              b\<lparr>br_buf := (br_buf b)[br_ptr b := br_buf b ! br_ptr b AND mask],
                br_offset := 0, br_ptr := br_ptr b + 1\<rparr>))"

text \<open>The per-byte loop of \<open>pack_bytes\<close> ignores the codes of its \<open>pack\<close> calls, as the source does.\<close>

fun pack_each :: "bit_ref \<Rightarrow> bytes \<Rightarrow> bit_ref" where
  "pack_each b [] = b"
| "pack_each b (x # xs) = pack_each (snd (pack b (ucast x) 8)) xs"

definition pack_bytes :: "bit_ref \<Rightarrow> bytes \<Rightarrow> asn_code \<times> bit_ref" where
  "pack_bytes b buf =
    (if buf = [] then (SRSASN_SUCCESS, b)
     else if br_max b \<le> br_ptr b + length buf then (SRSASN_ERROR_ENCODE_FAIL, b)
     else if br_offset b = 0
     then (SRSASN_SUCCESS,
           b\<lparr>br_buf := take (br_ptr b) (br_buf b) @ buf @ drop (br_ptr b + length buf) (br_buf b),
             br_ptr := br_ptr b + length buf\<rparr>)
     else (SRSASN_SUCCESS, pack_each b buf))"

section \<open>Reading\<close>

text \<open>
  \<open>unpack_bits<T>\<close> for an integer type of \<open>'a\<close> bits: the value is the in/out parameter \<open>val\<close>. The sum
  is formed modulo the width of \<open>T\<close>, as the assignment to \<open>val\<close> does.
\<close>

function unpack_loop :: "'a::len word \<Rightarrow> bit_ref \<Rightarrow> nat \<Rightarrow> asn_code \<times> 'a word \<times> bit_ref" where
  "unpack_loop val b n_bits =
    (if n_bits = 0 \<or> 8 \<le> br_offset b then (SRSASN_SUCCESS, val, b)
     else if br_max b \<le> br_ptr b then (SRSASN_ERROR_DECODE_FAIL, val, b)
     else
       let offset = br_offset b; ptr = br_ptr b; cur = br_buf b ! ptr
       in if n_bits < 8 - offset
          then let mask = (ucast (push_bit (8 - offset) 1 :: u32) :: u8)
                          - ucast (push_bit (8 - offset - n_bits) 1 :: u32)
               in (SRSASN_SUCCESS,
                   val + ucast (drop_bit (8 - offset - n_bits) (ucast (cur AND mask) :: u32)),
                   b\<lparr>br_offset := offset + n_bits\<rparr>)
          else let mask = ucast ((push_bit (8 - offset) 1 :: u32) - 1) :: u8
               in unpack_loop (val + push_bit (n_bits + offset - 8) (ucast (cur AND mask)))
                    (b\<lparr>br_offset := 0, br_ptr := ptr + 1\<rparr>) (n_bits - (8 - offset)))"
  by pat_completeness auto
termination
  by (relation "measure (\<lambda>(val, b, n_bits). n_bits)") auto

declare unpack_loop.simps [simp del]

definition unpack :: "'a::len word \<Rightarrow> bit_ref \<Rightarrow> nat \<Rightarrow> asn_code \<times> 'a word \<times> bit_ref" where
  "unpack val b n_bits =
    (if LENGTH('a) < n_bits then (SRSASN_ERROR_DECODE_FAIL, val, b) else unpack_loop 0 b n_bits)"

text \<open>\<open>unpack<bool>(val, 1)\<close>: the flag reads of the library all ask for a single bit.\<close>

definition unpack_flag :: "bool \<Rightarrow> bit_ref \<Rightarrow> asn_code \<times> bool \<times> bit_ref" where
  "unpack_flag val b =
    (case unpack (of_bool val :: u8) b 1 of (c, v, b') \<Rightarrow> (c, v \<noteq> 0, b'))"

definition align_bytes :: "bit_ref \<Rightarrow> asn_code \<times> bit_ref" where
  "align_bytes b =
    (if br_offset b = 0 then (SRSASN_SUCCESS, b)
     else if br_max b \<le> br_ptr b then (SRSASN_ERROR_DECODE_FAIL, b)
     else (SRSASN_SUCCESS, b\<lparr>br_offset := 0, br_ptr := br_ptr b + 1\<rparr>))"

text \<open>The per-byte loop of \<open>unpack_bytes\<close>: the bytes read so far are the prefix of the result.\<close>

fun unpack_each :: "bit_ref \<Rightarrow> nat \<Rightarrow> asn_code \<times> bytes \<times> bit_ref" where
  "unpack_each b 0 = (SRSASN_SUCCESS, [], b)"
| "unpack_each b (Suc n) =
    handle_val (unpack (0 :: u8) b 8)
      (\<lambda>x b. case unpack_each b n of (c, xs, b') \<Rightarrow> (c, x # xs, b')) []"

definition unpack_bytes :: "bit_ref \<Rightarrow> nat \<Rightarrow> asn_code \<times> bytes \<times> bit_ref" where
  "unpack_bytes b n_bytes =
    (if n_bytes = 0 then (SRSASN_SUCCESS, [], b)
     else if br_offset b = 0
     then (if br_max b < br_ptr b + n_bytes then (SRSASN_ERROR_DECODE_FAIL, [], b)
           else (SRSASN_SUCCESS, take n_bytes (drop (br_ptr b) (br_buf b)),
                 b\<lparr>br_ptr := br_ptr b + n_bytes\<rparr>))
     else (if br_max b \<le> br_ptr b + n_bytes then (SRSASN_ERROR_DECODE_FAIL, [], b)
           else unpack_each b n_bytes))"

definition advance_bits :: "bit_ref \<Rightarrow> nat \<Rightarrow> asn_code \<times> bit_ref" where
  "advance_bits b n_bits =
    (let extra_bits = (br_offset b + n_bits) mod 8;
         bytes_required = (float_of_uint (br_offset b + n_bits) + 7) div 8;
         bytes_offset = float_of_uint (br_offset b + n_bits) div 8
     in if br_max b < br_ptr b + bytes_required then (SRSASN_ERROR_DECODE_FAIL, b)
        else (SRSASN_SUCCESS, b\<lparr>br_ptr := br_ptr b + bytes_offset, br_offset := extra_bits\<rparr>))"

section \<open>The cursor invariant and the bit list view\<close>

definition bit_ref_ok :: "bit_ref \<Rightarrow> bool" where
  "bit_ref_ok b \<longleftrightarrow> br_offset b < 8 \<and> br_max b \<le> length (br_buf b) \<and>
     8 * br_ptr b + br_offset b \<le> 8 * br_max b"

definition bit_pos :: "bit_ref \<Rightarrow> nat" where
  "bit_pos b = 8 * br_ptr b + br_offset b"

definition written :: "bit_ref \<Rightarrow> bool list" where
  "written b = map (bit_at (br_buf b)) [0..<bit_pos b]"

definition remaining :: "bit_ref \<Rightarrow> bool list" where
  "remaining b = map (bit_at (br_buf b)) [bit_pos b..<8 * br_max b]"

lemma length_written [simp]: "length (written b) = bit_pos b"
  by (simp add: written_def)

lemma length_remaining [simp]: "length (remaining b) = 8 * br_max b - bit_pos b"
  by (simp add: remaining_def)


subsection \<open>One byte of the write loop\<close>

lemma less_8_cases: "(n::nat) < 8 \<longleftrightarrow> n = 0 \<or> n = 1 \<or> n = 2 \<or> n = 3 \<or> n = 4 \<or> n = 5 \<or> n = 6 \<or> n = 7"
  by arith

lemma keepmask_eq:
  "off < 8 \<Longrightarrow> (- 1 :: u8) - ucast ((push_bit (8 - off) 1 :: u32) - 1) = NOT (mask (8 - off))"
  by (auto simp: less_8_cases mask_numeral)

lemma low_mask_eq: "off < 8 \<Longrightarrow> ucast ((push_bit (8 - off) 1 :: u32) - 1) = (mask (8 - off) :: u8)"
  by (auto simp: less_8_cases mask_numeral)

lemma val_mask_eq: "(v :: 'a::len word) AND (push_bit n 1 - 1) = take_bit n v"
  by (simp add: take_bit_eq_mask mask_eq_decr_exp push_bit_of_1)

lemma bit_keep_add:
  fixes c x :: u8
  assumes "take_bit k x = x"
  shows "bit ((c AND NOT (mask k)) + x) i \<longleftrightarrow> (if i < k then bit x i else bit c i)"
proof -
  have x: "bit x j \<Longrightarrow> j < k" for j
    using assms by (metis bit_take_bit_iff)
  have "bit ((c AND NOT (mask k)) + x) i \<longleftrightarrow> bit (c AND NOT (mask k)) i \<or> bit x i"
    by (rule bit_disjunctive_add_iff) (auto simp: bit_simps dest: x)
  then show ?thesis
    by (auto simp: bit_simps dest: x bit_imp_le_length)
qed

lemma bit_short_field:
  fixes v :: u64
  assumes "off + n < 8"
  shows "bit (ucast (push_bit (8 - (off + n)) (take_bit n v)) :: u8) i \<longleftrightarrow>
    8 - (off + n) \<le> i \<and> i < 8 - off \<and> bit v (i - (8 - (off + n)))"
  using assms by (auto simp: bit_simps)

lemma bit_long_field:
  fixes v :: u64
  assumes "off < 8" "8 - off \<le> n"
  shows "bit (ucast (drop_bit (n + off - 8) (take_bit n v)) :: u8) i \<longleftrightarrow>
    i < 8 - off \<and> bit v (i + (n + off - 8))"
  using assms by (auto simp: bit_simps add.commute)

lemma bit_at_update:
  assumes "ptr < length xs" "p < 8 * length xs"
  shows "bit_at (xs[ptr := w]) p = (if p div 8 = ptr then bit w (7 - p mod 8) else bit_at xs p)"
  using assms by (auto simp: bit_at_def)

subsection \<open>What \<open>pack\<close> writes\<close>

text \<open>
  The postcondition of a successful \<open>pack\<close>: the cursor moved by \<open>n\<close> bits, the \<open>n\<close> low bits of the value
  stand there most significant first, the rest of the byte is cleared, everything else is untouched.
\<close>

definition pack_post :: "bit_ref \<Rightarrow> u64 \<Rightarrow> nat \<Rightarrow> bit_ref \<Rightarrow> bool" where
  "pack_post b v n b' \<longleftrightarrow>
     bit_ref_ok b' \<and> bit_pos b' = bit_pos b + n \<and> br_max b' = br_max b \<and>
     length (br_buf b') = length (br_buf b) \<and>
     (\<forall>p < 8 * length (br_buf b). bit_at (br_buf b') p =
        (if p < bit_pos b then bit_at (br_buf b) p
         else if p < bit_pos b + n then bit v (n - 1 - (p - bit_pos b))
         else if 0 < n \<and> p < 8 * ((bit_pos b + n + 7) div 8) then False
         else bit_at (br_buf b) p))"

lemma pack_postD:
  "pack_post b v n b' \<Longrightarrow> p < 8 * length (br_buf b) \<Longrightarrow> bit_at (br_buf b') p =
        (if p < bit_pos b then bit_at (br_buf b) p
         else if p < bit_pos b + n then bit v (n - 1 - (p - bit_pos b))
         else if 0 < n \<and> p < 8 * ((bit_pos b + n + 7) div 8) then False
         else bit_at (br_buf b) p)"
  by (simp add: pack_post_def)

lemma pack_post_frame:
  "pack_post b v n b' \<Longrightarrow> bit_ref_ok b' \<and> bit_pos b' = bit_pos b + n \<and> br_max b' = br_max b \<and>
     length (br_buf b') = length (br_buf b)"
  unfolding pack_post_def by blast

lemma pack_short_post:
  assumes ok: "bit_ref_ok b" and n: "0 < n" "br_offset b + n < 8" and room: "br_ptr b < br_max b"
  shows "pack_post b v n (b\<lparr>br_buf := (br_buf b)[br_ptr b :=
      (br_buf b ! br_ptr b AND NOT (mask (8 - br_offset b))) +
       ucast (push_bit (8 - (br_offset b + n)) (take_bit n v))], br_offset := br_offset b + n\<rparr>)"
proof -
  let ?off = "br_offset b" and ?ptr = "br_ptr b"
  let ?x = "ucast (push_bit (8 - (?off + n)) (take_bit n v)) :: u8"
  have x: "take_bit (8 - ?off) ?x = ?x"
    by (rule bit_word_eqI) (use n in \<open>auto simp: bit_take_bit_iff bit_short_field\<close>)
  have ptr: "?ptr < length (br_buf b)"
    using ok room by (simp add: bit_ref_ok_def)
  have pos: "p div 8 = ?ptr \<longleftrightarrow> 8 * ?ptr \<le> p \<and> p < 8 * ?ptr + 8" for p :: nat
    by arith
  have ceil: "(8 * ?ptr + ?off + n + 7) div 8 = ?ptr + 1"
    using n by arith
  have "bit_at ((br_buf b)[?ptr := (br_buf b ! ?ptr AND NOT (mask (8 - ?off))) + ?x]) p =
      (if p < bit_pos b then bit_at (br_buf b) p
       else if p < bit_pos b + n then bit v (n - 1 - (p - bit_pos b))
       else if 0 < n \<and> p < 8 * ((bit_pos b + n + 7) div 8) then False
       else bit_at (br_buf b) p)" if p: "p < 8 * length (br_buf b)" for p
  proof (cases "p div 8 = ?ptr")
    case True
    then obtain r where r: "p = 8 * ?ptr + r" "r < 8" "p mod 8 = r"
      by (rule div_8_eqE)
    then show ?thesis
      using True n ptr p
      by (auto simp: bit_at_update bit_keep_add [OF x] bit_short_field bit_pos_def ceil bit_at_def
          add.commute [of n])
  next
    case False
    then show ?thesis
      using ptr p n by (auto simp: bit_at_update pos bit_pos_def ceil)
  qed
  then show ?thesis
    using ok n room by (auto simp: pack_post_def bit_ref_ok_def bit_pos_def)
qed

text \<open>The same for a byte that the value fills to its end.\<close>

lemma pack_long_post:
  assumes ok: "bit_ref_ok b" and n: "8 - br_offset b \<le> n" and room: "br_ptr b < br_max b"
    and rec: "pack_post (b\<lparr>br_buf := (br_buf b)[br_ptr b :=
      (br_buf b ! br_ptr b AND NOT (mask (8 - br_offset b))) +
       ucast (drop_bit (n + br_offset b - 8) (take_bit n v))], br_offset := 0, br_ptr := br_ptr b + 1\<rparr>)
      (take_bit n v) (n - (8 - br_offset b)) b'"
  shows "pack_post b v n b'"
proof -
  let ?off = "br_offset b" and ?ptr = "br_ptr b"
  let ?x = "ucast (drop_bit (n + ?off - 8) (take_bit n v)) :: u8"
  let ?b = "b\<lparr>br_buf := (br_buf b)[br_ptr b :=
      (br_buf b ! br_ptr b AND NOT (mask (8 - br_offset b))) + ?x], br_offset := 0, br_ptr := br_ptr b + 1\<rparr>"
  have off: "?off < 8" and ptr: "?ptr < length (br_buf b)"
    using ok room by (simp_all add: bit_ref_ok_def)
  have x: "take_bit (8 - ?off) ?x = ?x"
    by (rule bit_word_eqI) (use n off in \<open>auto simp: bit_take_bit_iff bit_long_field\<close>)
  have n': "8 + (n - (8 - ?off)) = ?off + n"
    using n off by arith
  have "bit_at (br_buf b') p =
      (if p < bit_pos b then bit_at (br_buf b) p
       else if p < bit_pos b + n then bit v (n - 1 - (p - bit_pos b))
       else if 0 < n \<and> p < 8 * ((bit_pos b + n + 7) div 8) then False
       else bit_at (br_buf b) p)" if p: "p < 8 * length (br_buf b)" for p
  proof (cases "p div 8 = ?ptr")
    case True
    then obtain r where r: "p = 8 * ?ptr + r" "r < 8" "p mod 8 = r"
      by (rule div_8_eqE)
    then have "bit_at (br_buf b') p =
        bit ((br_buf b ! ?ptr AND NOT (mask (8 - ?off))) + ?x) (7 - r)"
      using rec p ptr True by (simp add: pack_post_def bit_pos_def bit_at_update)
    then show ?thesis
      using True r n off ptr
      by (auto simp: bit_keep_add [OF x] bit_long_field bit_pos_def bit_at_def
          intro!: arg_cong [of _ _ "bit v"])
  next
    case False
    then have "p < 8 * ?ptr \<or> 8 * ?ptr + 8 \<le> p" by arith
    then show ?thesis
    proof
      assume "p < 8 * ?ptr"
      then show ?thesis
        using rec p ptr False by (simp add: pack_post_def bit_pos_def bit_at_update)
    next
      assume q: "8 * ?ptr + 8 \<le> p"
      have f: "8 * ?ptr + 8 + (n - (8 - ?off)) = 8 * ?ptr + ?off + n"
        using n off by arith
      have pos: "bit_pos ?b = 8 * ?ptr + 8" and len: "length (br_buf ?b) = length (br_buf b)"
        by (simp_all add: bit_pos_def)
      have old: "bit_at (br_buf ?b) p = bit_at (br_buf b) p"
        using ptr p False by (simp add: bit_at_update)
      have nq: "(p < 8 * ?ptr + 8) = False" using q by simp
      have step: "bit_at (br_buf b') p =
          (if p < 8 * ?ptr + ?off + n
           then bit (take_bit n v) (n - (8 - ?off) - 1 - (p - (8 * ?ptr + 8)))
           else if 0 < n - (8 - ?off) \<and> p < 8 * ((8 * ?ptr + ?off + n + 7) div 8) then False
           else bit_at (br_buf b) p)"
        using pack_postD [OF rec, of p] p unfolding pos f len old nq if_False by blast
      show ?thesis
      proof (cases "p < 8 * ?ptr + ?off + n")
        case True
        have e: "n - (8 - ?off) - 1 - (p - (8 * ?ptr + 8)) = n - 1 - (p - bit_pos b)"
          and lt: "n - 1 - (p - bit_pos b) < n"
          using True n off q unfolding bit_pos_def by arith+
        have "\<not> p < bit_pos b" "p < bit_pos b + n" using True q off by (simp_all add: bit_pos_def)
        then show ?thesis
          unfolding step e using True lt by (simp only: bit_take_bit_iff if_True if_False simp_thms)
      next
        case False
        have h: "(0 < n - (8 - ?off) \<and> p < 8 * ((8 * ?ptr + ?off + n + 7) div 8)) =
            (0 < n \<and> p < 8 * ((bit_pos b + n + 7) div 8))"
        proof (cases "n = 8 - ?off")
          case True
          then have "8 * ?ptr + ?off + n + 7 = 15 + ?ptr * 8" using off by simp
          then have "(8 * ?ptr + ?off + n + 7) div 8 = ?ptr + 1" by simp
          with q show ?thesis unfolding bit_pos_def by simp
        next
          case False
          then have "0 < n - (8 - ?off)" using n off by arith
          then show ?thesis unfolding bit_pos_def by simp
        qed
        have "\<not> p < bit_pos b" "\<not> p < bit_pos b + n" using False by (simp_all add: bit_pos_def)
        then show ?thesis
          unfolding step h using False by (simp only: if_False simp_thms)
      qed
    qed
  qed
  then show ?thesis
    using rec n off by (auto simp: pack_post_def bit_pos_def)
qed

lemma pack_loop_unfold:
  "pack_loop b v n =
    (if n = 0 \<or> 8 \<le> br_offset b then (SRSASN_SUCCESS, b)
     else if br_max b \<le> br_ptr b then (SRSASN_ERROR_ENCODE_FAIL, b)
     else if n < 8 - br_offset b
     then (SRSASN_SUCCESS, b\<lparr>br_buf := (br_buf b)[br_ptr b :=
            (br_buf b ! br_ptr b AND NOT (mask (8 - br_offset b))) +
             ucast (push_bit (8 - (br_offset b + n)) (take_bit n v))], br_offset := br_offset b + n\<rparr>)
     else pack_loop (b\<lparr>br_buf := (br_buf b)[br_ptr b :=
            (br_buf b ! br_ptr b AND NOT (mask (8 - br_offset b))) +
             ucast (drop_bit (n + br_offset b - 8) (take_bit n v))],
            br_offset := 0, br_ptr := br_ptr b + 1\<rparr>) (take_bit n v) (n - (8 - br_offset b)))"
proof (cases "8 \<le> br_offset b")
  case True
  then show ?thesis by (simp add: pack_loop.simps [of b v n])
next
  case False
  then have "br_offset b < 8" by simp
  from keepmask_eq [OF this] show ?thesis
    by (subst pack_loop.simps) (simp only: Let_def val_mask_eq diff_diff_left)
qed

text \<open>The cursor after a filled byte, for the induction over the loop.\<close>

abbreviation next_byte :: "bit_ref \<Rightarrow> u64 \<Rightarrow> nat \<Rightarrow> bit_ref" where
  "next_byte b v n \<equiv> b\<lparr>br_buf := (br_buf b)[br_ptr b :=
      (br_buf b ! br_ptr b AND NOT (mask (8 - br_offset b))) +
       ucast (drop_bit (n + br_offset b - 8) (take_bit n v))], br_offset := 0, br_ptr := br_ptr b + 1\<rparr>"

lemma pack_loop_post:
  assumes "bit_ref_ok b" "bit_pos b + n \<le> 8 * br_max b"
  shows "\<exists>b'. pack_loop b v n = (SRSASN_SUCCESS, b') \<and> pack_post b v n b'"
  using assms
proof (induction n arbitrary: b v rule: less_induct)
  case (less n)
  then have off: "br_offset b < 8" by (simp add: bit_ref_ok_def)
  consider "n = 0" | "0 < n" "br_offset b + n < 8" | "0 < n" "8 - br_offset b \<le> n" using off by arith
  then show ?case
  proof cases
    case 1
    with less off show ?thesis
      by (simp add: pack_loop_unfold [of b v 0] pack_post_def)
  next
    case 2
    then have room: "br_ptr b < br_max b" using less by (simp add: bit_pos_def)
    have "n < 8 - br_offset b" using 2 by arith
    with pack_short_post [OF less.prems(1) 2 room, of v] 2 room off show ?thesis
      by (simp add: pack_loop_unfold [of b v n])
  next
    case 3
    then have room: "br_ptr b < br_max b" using less by (simp add: bit_pos_def)
    have "bit_ref_ok (next_byte b v n)"
      "bit_pos (next_byte b v n) + (n - (8 - br_offset b)) \<le> 8 * br_max (next_byte b v n)"
      using less.prems room 3 off by (auto simp: bit_ref_ok_def bit_pos_def)
    moreover have "n - (8 - br_offset b) < n" using 3 off by arith
    ultimately obtain b' where
      "pack_loop (next_byte b v n) (take_bit n v) (n - (8 - br_offset b)) = (SRSASN_SUCCESS, b')"
      "pack_post (next_byte b v n) (take_bit n v) (n - (8 - br_offset b)) b'"
      using less.IH by blast
    with pack_long_post [OF less.prems(1) 3(2) room, of v b'] 3 off room show ?thesis
      by (simp add: pack_loop_unfold [of b v n])
  qed
qed

lemma pack_post_written:
  assumes "bit_ref_ok b" "pack_post b v n b'"
  shows "written b' = written b @ to_bits n v"
proof (rule nth_equalityI)
  show "length (written b') = length (written b @ to_bits n v)"
    using assms by (simp add: pack_post_def)
next
  fix i assume "i < length (written b')"
  then have i: "i < bit_pos b + n" "i < bit_pos b'" using assms by (simp_all add: pack_post_def)
  have "i < 8 * length (br_buf b)"
    using i assms by (simp add: pack_post_def bit_ref_ok_def bit_pos_def)
  from pack_postD [OF assms(2) this] i show "written b' ! i = (written b @ to_bits n v) ! i"
    by (simp add: written_def nth_append nth_to_bits)
qed

text \<open>A write that does not fit is refused, whatever part of it was stored already.\<close>

lemma pack_loop_full:
  assumes "bit_ref_ok b" "8 * br_max b < bit_pos b + n"
  shows "fst (pack_loop b v n) = SRSASN_ERROR_ENCODE_FAIL"
  using assms
proof (induction n arbitrary: b v rule: less_induct)
  case (less n)
  have off: "br_offset b < 8" and n: "0 < n"
    using less.prems by (auto simp: bit_ref_ok_def bit_pos_def)
  show ?case
  proof (cases "br_max b \<le> br_ptr b")
    case True
    with n off show ?thesis by (simp add: pack_loop_unfold [of b v n])
  next
    case False
    then have long: "\<not> n < 8 - br_offset b"
      using less.prems by (auto simp: bit_pos_def)
    have "bit_ref_ok (next_byte b v n)"
      "8 * br_max (next_byte b v n) < bit_pos (next_byte b v n) + (n - (8 - br_offset b))"
      using less.prems False long by (auto simp: bit_ref_ok_def bit_pos_def)
    with less.IH [of "n - (8 - br_offset b)" "next_byte b v n" "take_bit n v"] n off False long
    show ?thesis by (simp add: pack_loop_unfold [of b v n])
  qed
qed

text \<open>Successful or not, a write keeps the cursor inside the buffer and all that stood before it.\<close>

definition keeps :: "bit_ref \<Rightarrow> bit_ref \<Rightarrow> bool" where
  "keeps b b' \<longleftrightarrow> bit_ref_ok b' \<and> br_max b' = br_max b \<and> length (br_buf b') = length (br_buf b) \<and>
     bit_pos b \<le> bit_pos b' \<and> (\<forall>p < bit_pos b. bit_at (br_buf b') p = bit_at (br_buf b) p)"

lemma keeps_refl: "bit_ref_ok b \<Longrightarrow> keeps b b"
  by (simp add: keeps_def)

lemma keeps_trans: "keeps b b' \<Longrightarrow> keeps b' b'' \<Longrightarrow> keeps b b''"
  unfolding keeps_def by auto

lemma keeps_written: "keeps b b' \<Longrightarrow> take (bit_pos b) (written b') = written b"
  by (auto simp: keeps_def written_def take_map intro!: nth_equalityI)

lemma pack_post_keeps:
  assumes "bit_ref_ok b" "pack_post b v n b'"
  shows "keeps b b'"
proof -
  have "bit_pos b \<le> 8 * length (br_buf b)" using assms(1) by (simp add: bit_ref_ok_def bit_pos_def)
  then show ?thesis
    using pack_post_frame [OF assms(2)] pack_postD [OF assms(2)] unfolding keeps_def by simp
qed

lemma next_byte_keeps:
  assumes ok: "bit_ref_ok b" and n: "8 - br_offset b \<le> n" and room: "br_ptr b < br_max b"
  shows "keeps b (next_byte b v n)"
proof -
  let ?off = "br_offset b" and ?ptr = "br_ptr b" and ?x = "ucast (drop_bit (n + br_offset b - 8) (take_bit n v)) :: u8"
  have off: "?off < 8" and ptr: "?ptr < length (br_buf b)"
    using ok room by (simp_all add: bit_ref_ok_def)
  have x: "take_bit (8 - ?off) ?x = ?x"
    by (rule bit_word_eqI) (use n off in \<open>auto simp: bit_take_bit_iff bit_long_field\<close>)
  have "bit_at (br_buf (next_byte b v n)) p = bit_at (br_buf b) p" if p: "p < bit_pos b" for p
  proof (cases "p div 8 = ?ptr")
    case True
    then obtain r where r: "p = 8 * ?ptr + r" "r < 8" "p mod 8 = r" by (rule div_8_eqE)
    with p have "r < ?off" by (simp add: bit_pos_def)
    then have "\<not> 7 - r < 8 - ?off" using off by simp
    with r True ptr show ?thesis by (simp add: bit_at_update bit_keep_add [OF x]) (simp add: bit_at_def)
  next
    case False
    moreover have "p < 8 * length (br_buf b)" using p ptr off by (simp add: bit_pos_def)
    ultimately show ?thesis using ptr by (simp add: bit_at_update)
  qed
  then show ?thesis using ok room off by (auto simp: keeps_def bit_ref_ok_def bit_pos_def)
qed

lemma pack_loop_keeps: "bit_ref_ok b \<Longrightarrow> keeps b (snd (pack_loop b v n))"
proof (induction n arbitrary: b v rule: less_induct)
  case (less n)
  have off: "br_offset b < 8" using less.prems by (simp add: bit_ref_ok_def)
  consider "n = 0 \<or> br_max b \<le> br_ptr b" | "0 < n" "br_ptr b < br_max b" "n < 8 - br_offset b"
    | "0 < n" "br_ptr b < br_max b" "8 - br_offset b \<le> n" by linarith
  then show ?case
  proof cases
    case 1
    with off keeps_refl [OF less.prems] show ?thesis by (auto simp: pack_loop_unfold [of b v n])
  next
    case 2
    with off have "br_offset b + n < 8" by simp
    from pack_post_keeps [OF less.prems pack_short_post [OF less.prems 2(1) this 2(2)]] 2 off
    show ?thesis by (simp add: pack_loop_unfold [of b v n])
  next
    case 3
    note k = next_byte_keeps [OF less.prems 3(3,2), of v]
    then have "bit_ref_ok (next_byte b v n)" by (simp add: keeps_def)
    with less.IH [of "n - (8 - br_offset b)" "next_byte b v n" "take_bit n v"] 3 off keeps_trans [OF k]
    show ?thesis by (simp add: pack_loop_unfold [of b v n])
  qed
qed

lemma pack_keeps: "bit_ref_ok b \<Longrightarrow> keeps b (snd (pack b v n))"
  by (simp add: pack_def pack_loop_keeps keeps_refl)

subsection \<open>What \<open>unpack\<close> reads\<close>

definition advance :: "bit_ref \<Rightarrow> nat \<Rightarrow> bit_ref" where
  "advance b n = b\<lparr>br_ptr := (bit_pos b + n) div 8, br_offset := (bit_pos b + n) mod 8\<rparr>"

lemma advance_simps [simp]:
  "br_buf (advance b n) = br_buf b" "br_max (advance b n) = br_max b"
  "bit_pos (advance b n) = bit_pos b + n"
  by (simp_all add: advance_def bit_pos_def)

lemma advance_ok [simp]:
  "bit_ref_ok b \<Longrightarrow> bit_ref_ok (advance b n) \<longleftrightarrow> bit_pos b + n \<le> 8 * br_max b"
  by (auto simp: bit_ref_ok_def advance_def bit_pos_def)

lemma advance_0 [simp]: "bit_ref_ok b \<Longrightarrow> advance b 0 = b"
  by (simp add: advance_def bit_pos_def bit_ref_ok_def)

lemma advance_advance [simp]: "advance (advance b m) n = advance b (m + n)"
  by (simp add: advance_def bit_pos_def add.assoc)

definition bits_at :: "bit_ref \<Rightarrow> nat \<Rightarrow> bool list" where
  "bits_at b n = map (bit_at (br_buf b)) [bit_pos b..<bit_pos b + n]"

lemma length_bits_at [simp]: "length (bits_at b n) = n"
  by (simp add: bits_at_def)

lemma bits_at_add: "bits_at b (m + n) = bits_at b m @ bits_at (advance b m) n"
  unfolding bits_at_def advance_simps map_append [symmetric] add.assoc [symmetric]
  by (subst upt_add_eq_append) simp_all

lemma nth_bits_at_byte:
  "br_offset b + j < 8 \<Longrightarrow> j < n \<Longrightarrow> bits_at b n ! j = bit (br_buf b ! br_ptr b) (7 - (br_offset b + j))"
  by (simp add: bits_at_def bit_at_def bit_pos_def add.assoc)

lemma read_mask_eq:
  assumes "off + n < 8"
  shows "(ucast (push_bit (8 - off) 1 :: u32) :: u8) - ucast (push_bit (8 - (off + n)) 1 :: u32)
    = mask (8 - off) AND NOT (mask (8 - (off + n)))"
proof -
  have "off < 8" "n < 8" using assms by simp_all
  then show ?thesis
    using assms by (auto simp: less_8_cases mask_numeral)
qed

lemma byte_bits_short:
  assumes n: "br_offset b + n < 8"
  shows "ucast (drop_bit (8 - (br_offset b + n)) (ucast (br_buf b ! br_ptr b AND
      (mask (8 - br_offset b) AND NOT (mask (8 - (br_offset b + n))))) :: u32))
    = (of_bits (bits_at b n) :: 'a::len word)"
proof (rule bit_word_eqI)
  fix i assume i: "i < LENGTH('a)"
  show "bit (ucast (drop_bit (8 - (br_offset b + n)) (ucast (br_buf b ! br_ptr b AND
      (mask (8 - br_offset b) AND NOT (mask (8 - (br_offset b + n))))) :: u32)) :: 'a word) i
    = bit (of_bits (bits_at b n) :: 'a word) i"
  proof (cases "i < n")
    case True
    then have "bits_at b n ! (n - 1 - i) = bit (br_buf b ! br_ptr b) (8 - (br_offset b + n) + i)"
      using n by (subst nth_bits_at_byte) (auto intro!: arg_cong [of _ _ "bit _"])
    then show ?thesis
      using True n i by (auto simp: bit_of_bits bit_simps)
  next
    case False
    then show ?thesis
      using n by (auto simp: bit_of_bits bit_simps)
  qed
qed

lemma byte_bits_long:
  assumes n: "br_offset b < 8"
  shows "ucast (br_buf b ! br_ptr b AND mask (8 - br_offset b))
    = (of_bits (bits_at b (8 - br_offset b)) :: 'a::len word)"
proof (rule bit_word_eqI)
  fix i assume i: "i < LENGTH('a)"
  show "bit (ucast (br_buf b ! br_ptr b AND mask (8 - br_offset b)) :: 'a word) i
    = bit (of_bits (bits_at b (8 - br_offset b)) :: 'a word) i"
  proof (cases "i < 8 - br_offset b")
    case True
    then have "bits_at b (8 - br_offset b) ! (8 - br_offset b - 1 - i) = bit (br_buf b ! br_ptr b) i"
      using n by (subst nth_bits_at_byte) (auto intro!: arg_cong [of _ _ "bit _"])
    then show ?thesis
      using True n i by (auto simp: bit_of_bits bit_simps)
  next
    case False
    then show ?thesis
      using n by (auto simp: bit_of_bits bit_simps)
  qed
qed

lemma unpack_loop_unfold:
  "unpack_loop val b n =
    (if n = 0 \<or> 8 \<le> br_offset b then (SRSASN_SUCCESS, val, b)
     else if br_max b \<le> br_ptr b then (SRSASN_ERROR_DECODE_FAIL, val, b)
     else if n < 8 - br_offset b
     then (SRSASN_SUCCESS, val + of_bits (bits_at b n), b\<lparr>br_offset := br_offset b + n\<rparr>)
     else unpack_loop (val + push_bit (n + br_offset b - 8) (of_bits (bits_at b (8 - br_offset b))))
            (b\<lparr>br_offset := 0, br_ptr := br_ptr b + 1\<rparr>) (n - (8 - br_offset b)))"
proof (cases "8 \<le> br_offset b")
  case True
  then show ?thesis by (simp add: unpack_loop.simps [of val b n])
next
  case False
  then have off: "br_offset b < 8" by simp
  show ?thesis
  proof (cases "br_offset b + n < 8")
    case True
    then have "n < 8 - br_offset b" by arith
    with True False show ?thesis
      by (subst unpack_loop.simps) (simp only: Let_def diff_diff_left read_mask_eq byte_bits_short if_True)
  next
    case no: False
    then have "\<not> n < 8 - br_offset b" by arith
    with False show ?thesis
      by (subst unpack_loop.simps) (simp only: Let_def low_mask_eq [OF off] byte_bits_long [OF off] if_False)
  qed
qed

lemma unpack_loop_reads:
  assumes "bit_ref_ok b" "bit_pos b + n \<le> 8 * br_max b"
  shows "unpack_loop val b n = (SRSASN_SUCCESS, val + of_bits (bits_at b n), advance b n)"
  using assms
proof (induction n arbitrary: val b rule: less_induct)
  case (less n)
  have off: "br_offset b < 8" using less.prems by (simp add: bit_ref_ok_def)
  consider "n = 0" | "0 < n" "br_offset b + n < 8" | "0 < n" "8 - br_offset b \<le> n" using off by arith
  then show ?case
  proof cases
    case 1
    with less.prems show ?thesis
      by (simp add: unpack_loop_unfold [of val b 0] bits_at_def)
  next
    case 2
    then have "br_ptr b < br_max b" "n < 8 - br_offset b" using less.prems by (auto simp: bit_pos_def)
    with 2 off show ?thesis
      by (simp add: unpack_loop_unfold [of val b n] advance_def bit_pos_def add.assoc)
  next
    case 3
    then have room: "br_ptr b < br_max b" using less.prems by (simp add: bit_pos_def)
    let ?k = "8 - br_offset b"
    have b: "b\<lparr>br_offset := 0, br_ptr := br_ptr b + 1\<rparr> = advance b ?k"
      using off by (simp add: advance_def bit_pos_def)
    have "bit_ref_ok (advance b ?k)" "n - ?k < n"
      using less.prems room 3 off by (auto simp: bit_pos_def)
    moreover have "bit_pos (advance b ?k) + (n - ?k) \<le> 8 * br_max (advance b ?k)"
      using less.prems 3 by simp
    ultimately have "unpack_loop (val + push_bit (n + br_offset b - 8) (of_bits (bits_at b ?k))) (advance b ?k) (n - ?k)
      = (SRSASN_SUCCESS, val + push_bit (n + br_offset b - 8) (of_bits (bits_at b ?k))
           + of_bits (bits_at (advance b ?k) (n - ?k)), advance (advance b ?k) (n - ?k))"
      using less.IH by blast
    moreover have "n + br_offset b - 8 = n - ?k" "?k + (n - ?k) = n" using 3 off by arith+
    moreover from this have "bits_at b n = bits_at b ?k @ bits_at (advance b ?k) (n - ?k)"
      by (metis bits_at_add)
    moreover have "(n < ?k) = False" "(n = 0 \<or> 8 \<le> br_offset b) = False" "(br_max b \<le> br_ptr b) = False"
      using 3 off room by auto
    ultimately show ?thesis
      by (simp only: unpack_loop_unfold [of val b n] b of_bits_append length_bits_at
          advance_advance add.assoc if_False)
  qed
qed

lemma unpack_loop_empty:
  assumes "bit_ref_ok b" "8 * br_max b < bit_pos b + n"
  shows "fst (unpack_loop val b n) = SRSASN_ERROR_DECODE_FAIL"
  using assms
proof (induction n arbitrary: b val rule: less_induct)
  case (less n)
  have off: "br_offset b < 8" and n: "0 < n"
    using less.prems by (auto simp: bit_ref_ok_def bit_pos_def)
  show ?case
  proof (cases "br_max b \<le> br_ptr b")
    case True
    with n off show ?thesis by (simp add: unpack_loop_unfold [of val b n])
  next
    case False
    let ?b = "b\<lparr>br_offset := 0, br_ptr := br_ptr b + 1\<rparr>"
    have long: "\<not> n < 8 - br_offset b"
      using less.prems False by (auto simp: bit_pos_def)
    have "bit_ref_ok ?b" "8 * br_max ?b < bit_pos ?b + (n - (8 - br_offset b))"
      "n - (8 - br_offset b) < n"
      using less.prems False long off n by (auto simp: bit_ref_ok_def bit_pos_def)
    with less.IH n off False long show ?thesis by (simp add: unpack_loop_unfold [of val b n])
  qed
qed

section \<open>The operations on bit lists\<close>

text \<open>
  \<open>emits b bs b'\<close>: the step from \<open>b\<close> to \<open>b'\<close> appended the bits \<open>bs\<close> to what was written and kept the
  bounds of the buffer.
\<close>

definition emits :: "bit_ref \<Rightarrow> bool list \<Rightarrow> bit_ref \<Rightarrow> bool" where
  "emits b bs b' \<longleftrightarrow> bit_ref_ok b' \<and> written b' = written b @ bs \<and>
     br_max b' = br_max b \<and> length (br_buf b') = length (br_buf b)"

lemma emits_refl [simp]: "emits b [] b \<longleftrightarrow> bit_ref_ok b"
  by (simp add: emits_def)

lemma emits_trans: "emits b xs b' \<Longrightarrow> emits b' ys b'' \<Longrightarrow> emits b (xs @ ys) b''"
  by (simp add: emits_def)

lemma emits_pos: "emits b bs b' \<Longrightarrow> bit_pos b' = bit_pos b + length bs"
  by (metis emits_def length_append length_written)

lemma emits_ok [dest]: "emits b bs b' \<Longrightarrow> bit_ref_ok b'"
  by (simp add: emits_def)

lemma emits_max: "emits b bs b' \<Longrightarrow> br_max b' = br_max b"
  by (simp add: emits_def)

definition fits :: "bit_ref \<Rightarrow> nat \<Rightarrow> bool" where
  "fits b n \<longleftrightarrow> bit_pos b + n \<le> 8 * br_max b"

lemma fits_mono: "fits b n \<Longrightarrow> m \<le> n \<Longrightarrow> fits b m"
  by (simp add: fits_def)

lemma fits_emits: "fits b (length bs + n) \<Longrightarrow> emits b bs b' \<Longrightarrow> fits b' n"
  by (simp add: fits_def emits_pos emits_max)

lemma pack_emits:
  assumes "bit_ref_ok b" "n < 64" "fits b n"
  shows "\<exists>b'. pack b v n = (SRSASN_SUCCESS, b') \<and> emits b (to_bits n v) b'"
proof -
  obtain b' where b': "pack_loop b v n = (SRSASN_SUCCESS, b')" "pack_post b v n b'"
    using pack_loop_post [OF assms(1), of n v] assms(3) unfolding fits_def by blast
  then have "emits b (to_bits n v) b'"
    using pack_post_written [OF assms(1)] pack_post_frame unfolding emits_def by blast
  with b' assms show ?thesis by (simp add: pack_def)
qed

lemma pack_full: "bit_ref_ok b \<Longrightarrow> \<not> fits b n \<Longrightarrow> fst (pack b v n) = SRSASN_ERROR_ENCODE_FAIL"
  by (simp add: pack_def fits_def pack_loop_full)

lemma remaining_bits_at: "bit_pos b + n \<le> 8 * br_max b \<Longrightarrow> remaining b = bits_at b n @ remaining (advance b n)"
  unfolding remaining_def bits_at_def advance_simps map_append [symmetric]
  by (metis le_add_diff_inverse le_add1 upt_add_eq_append)

lemma remaining_split:
  assumes "bit_ref_ok b" "remaining b = bs @ rest"
  shows "bits_at b (length bs) = bs" "remaining (advance b (length bs)) = rest"
    "bit_pos b + length bs \<le> 8 * br_max b" "bit_ref_ok (advance b (length bs))"
proof -
  have "length (remaining b) = length bs + length rest"
    using assms by simp
  moreover have "bit_pos b \<le> 8 * br_max b"
    using assms by (simp add: bit_ref_ok_def bit_pos_def)
  ultimately show le: "bit_pos b + length bs \<le> 8 * br_max b" by simp
  from remaining_bits_at [OF this] assms
  show "bits_at b (length bs) = bs" "remaining (advance b (length bs)) = rest"
    by (simp_all add: append_eq_append_conv)
  show "bit_ref_ok (advance b (length bs))" using le assms by simp
qed

lemma unpack_reads:
  assumes "bit_ref_ok b" "remaining b = bs @ rest" "length bs \<le> LENGTH('a)" "n = length bs"
  shows "unpack (v :: 'a::len word) b n = (SRSASN_SUCCESS, of_bits bs, advance b n)"
  using remaining_split [OF assms(1,2)] unpack_loop_reads [of b "length bs" 0] assms
  by (simp add: unpack_def)

lemma unpack_flag_reads:
  assumes "bit_ref_ok b" "remaining b = [x] @ rest"
  shows "unpack_flag v b = (SRSASN_SUCCESS, x, advance b 1)"
  using unpack_reads [OF assms, where 'a = 8] by (simp add: unpack_flag_def of_bits_def)

subsection \<open>Alignment\<close>

definition pad_len :: "nat \<Rightarrow> nat" where
  "pad_len p = (if p mod 8 = 0 then 0 else 8 - p mod 8)"

lemma pad_len_aligned [simp]: "(p + pad_len p) mod 8 = 0"
  unfolding pad_len_def by presburger

lemma pad_len_less [simp]: "pad_len p < 8"
  by (simp add: pad_len_def)

lemma pad_len_0 [simp]: "p mod 8 = 0 \<Longrightarrow> pad_len p = 0"
  by (simp add: pad_len_def)

lemma bit_pos_mod: "bit_ref_ok b \<Longrightarrow> bit_pos b mod 8 = br_offset b"
  by (simp add: bit_pos_def bit_ref_ok_def)

lemma aligned_room: "bit_ref_ok b \<Longrightarrow> br_offset b \<noteq> 0 \<Longrightarrow> br_ptr b < br_max b"
  by (auto simp: bit_ref_ok_def)

lemma align_bytes_advance:
  assumes "bit_ref_ok b"
  shows "align_bytes b = (SRSASN_SUCCESS, advance b (pad_len (bit_pos b)))"
  using assms aligned_room [of b]
  by (auto simp: align_bytes_def bit_pos_mod pad_len_def)
     (auto simp: advance_def bit_pos_def bit_ref_ok_def)

lemma high_mask_eq: "off < 8 \<Longrightarrow> ucast ((256 :: u32) - push_bit (8 - off) 1) = (NOT (mask (8 - off)) :: u8)"
  by (auto simp: less_8_cases mask_numeral)

lemma align_bytes_zero_emits:
  assumes "bit_ref_ok b"
  shows "\<exists>b'. align_bytes_zero b = (SRSASN_SUCCESS, b') \<and> emits b (replicate (pad_len (bit_pos b)) False) b'"
proof (cases "br_offset b = 0")
  case True
  with assms show ?thesis by (simp add: align_bytes_zero_def bit_pos_mod)
next
  case False
  let ?off = "br_offset b" and ?ptr = "br_ptr b"
  have off: "?off < 8" and room: "?ptr < br_max b" and ptr: "?ptr < length (br_buf b)"
    using assms aligned_room [OF assms False] by (simp_all add: bit_ref_ok_def)
  let ?b = "b\<lparr>br_buf := (br_buf b)[?ptr := br_buf b ! ?ptr AND NOT (mask (8 - ?off))],
      br_offset := 0, br_ptr := ?ptr + 1\<rparr>"
  have eq: "align_bytes_zero b = (SRSASN_SUCCESS, ?b)"
    using False room
    by (simp only: align_bytes_zero_def Let_def high_mask_eq [OF off] not_le [symmetric] if_False simp_thms)
  have pos: "bit_pos ?b = bit_pos b + (8 - ?off)"
    using off by (simp add: bit_pos_def)
  have pad: "pad_len (bit_pos b) = 8 - ?off"
    using False by (simp add: pad_len_def bit_pos_mod [OF assms])
  have "written ?b = written b @ replicate (8 - ?off) False"
  proof (rule nth_equalityI)
    show "length (written ?b) = length (written b @ replicate (8 - ?off) False)"
      by (simp only: pos length_written length_append length_replicate)
  next
    fix i assume "i < length (written ?b)"
    then have i: "i < 8 * ?ptr + 8" using off unfolding length_written pos by (simp add: bit_pos_def)
    have i8: "i < 8 * length (br_buf b)" using i ptr by simp
    have n: "written ?b ! i = bit_at ((br_buf b)[?ptr := br_buf b ! ?ptr AND NOT (mask (8 - ?off))]) i"
      using i off unfolding written_def pos by (simp add: bit_pos_def)
    show "written ?b ! i = (written b @ replicate (8 - ?off) False) ! i"
    proof (cases "i div 8 = ?ptr")
      case True
      then obtain r where "i = 8 * ?ptr + r" "r < 8" "i mod 8 = r" by (rule div_8_eqE)
      then show ?thesis
        unfolding n using ptr i8 off True
        by (auto simp: bit_at_update nth_append bit_pos_def written_def bit_simps bit_at_def)
    next
      case False
      then have "i < 8 * ?ptr" using i by arith
      then show ?thesis
        unfolding n using ptr i8 False by (simp add: bit_at_update nth_append bit_pos_def written_def)
    qed
  qed
  moreover have "bit_ref_ok ?b" "br_max ?b = br_max b" "length (br_buf ?b) = length (br_buf b)"
    using assms room by (simp_all add: bit_ref_ok_def)
  ultimately have "emits b (replicate (pad_len (bit_pos b)) False) ?b"
    unfolding emits_def pad by blast
  with eq show ?thesis by blast
qed

subsection \<open>Byte transfers\<close>

lemma pack_each_emits:
  "bit_ref_ok b \<Longrightarrow> fits b (8 * length xs) \<Longrightarrow> emits b (concat (map byte_bits xs)) (pack_each b xs)"
proof (induction xs arbitrary: b)
  case (Cons x xs)
  then have "fits b 8" by (auto intro: fits_mono)
  then obtain b' where b': "pack b (ucast x) 8 = (SRSASN_SUCCESS, b')" "emits b (byte_bits x) b'"
    using pack_emits [OF Cons.prems(1), of 8 "ucast x"] by auto
  have "fits b' (8 * length xs)"
    using Cons.prems b' by (auto intro: fits_emits simp: fits_def emits_pos emits_max)
  with Cons.IH b' have "emits b' (concat (map byte_bits xs)) (pack_each b' xs)" by blast
  with b' show ?case by (simp add: emits_trans)
qed simp

lemma unpack_each_reads:
  "bit_ref_ok b \<Longrightarrow> remaining b = concat (map byte_bits xs) @ rest \<Longrightarrow>
   unpack_each b (length xs) = (SRSASN_SUCCESS, xs, advance b (8 * length xs))"
proof (induction xs arbitrary: b)
  case (Cons x xs)
  have rem: "remaining b = byte_bits x @ (concat (map byte_bits xs) @ rest)"
    using Cons.prems by simp
  note split = remaining_split [OF Cons.prems(1) rem]
  have "unpack (0::u8) b 8 = (SRSASN_SUCCESS, x, advance b 8)"
    by (rule unpack_reads [OF Cons.prems(1) rem, THEN trans]) simp_all
  moreover have "unpack_each (advance b 8) (length xs) = (SRSASN_SUCCESS, xs, advance (advance b 8) (8 * length xs))"
    using Cons.IH split by simp
  ultimately show ?case by (simp add: add.commute)
qed simp

end
