(* ===== verification/Asn1_Per.thy ===== *)
theory Asn1_Per
  imports Asn1_Bit_Ref
begin

text \<open>
  The packed encoding rules of \<^verbatim>\<open>lib/src/asn1/asn1_utils.cc\<close> over the bit cursor: constrained and
  normally small whole numbers, length determinants, enumerations, integers, octet strings and
  sequences-of, each with its decoder.

  Integer templates are words \<open>'a word\<close> with a flag \<open>sg\<close> for a signed \<open>IntType\<close> (\<open>ival\<close> reads the
  value). The bit widths go through \<open>ceilf(log2f(x))\<close> in the source. The accuracy of \<open>log2f\<close> is left to
  the implementation by the language, so the functions that use it take it as an argument: a record
  \<open>log2f_impl\<close>. \<open>log2f_exact\<close> says that the results are the mathematical ones for arguments up to
  \<open>2 ^ 21\<close> and at powers of two, which holds for every \<open>log2f\<close> whose error is below one unit in the last
  place; \<open>ideal_log2f\<close> is an instance.
\<close>

section \<open>Floating point logarithms\<close>

record log2f_impl =
  ceil_log2f :: "nat \<Rightarrow> nat"     \<comment> \<open>\<open>(uint32_t) ceilf(log2f(x))\<close>\<close>
  floor_log2f1 :: "nat \<Rightarrow> nat"   \<comment> \<open>\<open>(uint32_t) floorf(log2f(x) + 1)\<close>\<close>
  uwn_octets :: "int \<Rightarrow> nat"     \<comment> \<open>\<open>(IntType) ceilf((log2f(n) + 1) / 8.0f)\<close>\<close>

definition ceil_log2 :: "nat \<Rightarrow> nat" where
  "ceil_log2 x = bit_length (x - 1)"

definition log2f_exact :: "log2f_impl \<Rightarrow> bool" where
  "log2f_exact lg \<longleftrightarrow>
     (\<forall>x. 0 < x \<and> (x \<le> 2 ^ 21 \<or> (\<exists>k<64. x = 2 ^ k)) \<longrightarrow>
        ceil_log2f lg x = ceil_log2 x \<and> floor_log2f1 lg x = bit_length x)"

definition ideal_log2f :: log2f_impl where
  "ideal_log2f = \<lparr>ceil_log2f = ceil_log2, floor_log2f1 = bit_length,
     uwn_octets = (\<lambda>n. let k = bit_length (nat n) in
       if 2 ^ (k - 1) = nat n then (k + 7) div 8 else k div 8 + 1)\<rparr>"

lemma ideal_log2f_exact: "log2f_exact ideal_log2f"
  by (simp add: log2f_exact_def ideal_log2f_def)

definition ceil_frac :: "nat \<Rightarrow> nat \<Rightarrow> nat" where
  "ceil_frac n d = (n + (d - 1)) div d"

section \<open>Whole numbers\<close>

definition ival :: "bool \<Rightarrow> 'a::len word \<Rightarrow> int" where
  "ival sg w = (if sg then sint w else uint w)"

definition as_u64 :: "bool \<Rightarrow> 'a::len word \<Rightarrow> u64" where
  "as_u64 sg w = (if sg then scast w else ucast w)"

text \<open>\<open>ra\<close> is computed in \<open>uint64_t\<close>: the full 64-bit range wraps to 0.\<close>

definition int_range :: "bool \<Rightarrow> 'a::len word \<Rightarrow> 'a word \<Rightarrow> nat" where
  "int_range sg lb ub = (nat (ival sg ub - ival sg lb) + 1) mod 2 ^ 64"

definition pack_constrained_whole_number ::
    "log2f_impl \<Rightarrow> bool \<Rightarrow> bit_ref \<Rightarrow> 'a::len word \<Rightarrow> 'a word \<Rightarrow> 'a word \<Rightarrow> bool \<Rightarrow> asn_code \<times> bit_ref" where
  "pack_constrained_whole_number lg sg b n lb ub aligned =
    (if ival sg ub < ival sg lb \<or> ival sg n < ival sg lb \<or> ival sg ub < ival sg n
     then (SRSASN_ERROR_ENCODE_FAIL, b)
     else let ra = int_range sg lb ub in
       if ra = 1 then (SRSASN_SUCCESS, b)
       else let n_bits = ceil_log2f lg (float_of_uint ra); toencode = n - lb in
         if \<not> aligned
         then (SRSASN_SUCCESS, snd (pack b (as_u64 sg toencode) n_bits))
         else if ra < 256 then pack b (as_u64 sg toencode) n_bits
         else if ra \<le> 65536
         then let n_octets = ceil_frac n_bits 8 in
           handle_code (align_bytes_zero b) (\<lambda>b.
           handle_code (pack b 0 (n_octets * 8 - n_bits)) (\<lambda>b.
           handle_code (pack b (as_u64 sg toencode) n_bits) align_bytes_zero))
         else let n_bits_len = ceil_log2f lg (float_of_uint (ceil_frac n_bits 8));
                  n_bits = floor_log2f1 lg (float_of_uint (nat (max (ival sg toencode) 1)));
                  n_octets = ceil_frac n_bits 8 in
           handle_code (pack b (ucast (of_nat n_octets - 1 :: u32)) n_bits_len) (\<lambda>b.
           handle_code (align_bytes_zero b) (\<lambda>b.
             pack b (as_u64 sg toencode) (n_octets * 8))))"

text \<open>
  The decoder. \<open>n\<close> is the in/out parameter; a failing call leaves in it what the last step stored,
  which is the third component of the failing step here.
\<close>

definition unpack_constrained_whole_number ::
    "log2f_impl \<Rightarrow> bool \<Rightarrow> 'a::len word \<Rightarrow> bit_ref \<Rightarrow> 'a word \<Rightarrow> 'a word \<Rightarrow> bool \<Rightarrow>
      asn_code \<times> 'a word \<times> bit_ref" where
  "unpack_constrained_whole_number lg sg n b lb ub aligned =
    (if ival sg ub < ival sg lb then (SRSASN_ERROR_DECODE_FAIL, n, b)
     else let ra = int_range sg lb ub in
       if ra = 1 then (SRSASN_SUCCESS, lb, b)
       else let n_bits = ceil_log2f lg (float_of_uint ra) in
         if \<not> aligned
         then (case unpack n b n_bits of (c, n, b) \<Rightarrow>
             if c \<noteq> SRSASN_SUCCESS then (c, n, b)
             else if ival sg ub < ival sg (n + lb) then (SRSASN_ERROR_DECODE_FAIL, n + lb, b)
             else (SRSASN_SUCCESS, n + lb, b))
         else if ra < 256
         then (case unpack n b n_bits of (c, n, b) \<Rightarrow>
             if c \<noteq> SRSASN_SUCCESS then (c, n, b) else (SRSASN_SUCCESS, n + lb, b))
         else if ra \<le> 65536
         then (case align_bytes b of (c, b) \<Rightarrow>
             if c \<noteq> SRSASN_SUCCESS then (c, n, b)
             else case unpack n b (ceil_frac n_bits 8 * 8) of (c, n, b) \<Rightarrow>
             if c \<noteq> SRSASN_SUCCESS then (c, n, b)
             else case align_bytes b of (c, b) \<Rightarrow>
             if c \<noteq> SRSASN_SUCCESS then (c, n, b) else (SRSASN_SUCCESS, n + lb, b))
         else (case unpack (0 :: u32) b (ceil_log2f lg (float_of_uint (ceil_frac n_bits 8))) of (c, n_octets, b) \<Rightarrow>
             if c \<noteq> SRSASN_SUCCESS then (c, n, b)
             else case align_bytes b of (c, b) \<Rightarrow>
             if c \<noteq> SRSASN_SUCCESS then (c, n, b)
             else case unpack n b (unat ((n_octets + 1) * 8)) of (c, n, b) \<Rightarrow>
             if c \<noteq> SRSASN_SUCCESS then (c, n, b) else (SRSASN_SUCCESS, n + lb, b)))"

definition pack_norm_small_non_neg_whole_number :: "bit_ref \<Rightarrow> 'a::len word \<Rightarrow> asn_code \<times> bit_ref" where
  "pack_norm_small_non_neg_whole_number b n =
    (if unat n \<le> 63 then pack b (ucast n) 7
     else handle_code (pack b 1 1) (\<lambda>b. (SRSASN_ERROR_ENCODE_FAIL, b)))"

definition unpack_norm_small_non_neg_whole_number ::
    "'a::len word \<Rightarrow> bit_ref \<Rightarrow> asn_code \<times> 'a word \<times> bit_ref" where
  "unpack_norm_small_non_neg_whole_number n b =
    (case unpack_flag False b of (c, ext, b) \<Rightarrow>
       if c \<noteq> SRSASN_SUCCESS then (c, n, b)
       else if \<not> ext then unpack n b 6
       else (SRSASN_ERROR_DECODE_FAIL, n, b))"

definition pack_unconstrained_whole_number ::
    "log2f_impl \<Rightarrow> bool \<Rightarrow> bit_ref \<Rightarrow> 'a::len word \<Rightarrow> bool \<Rightarrow> asn_code \<times> bit_ref" where
  "pack_unconstrained_whole_number lg sg b n aligned =
    (let len = uwn_octets lg (ival sg n) in
     handle_code (if aligned then align_bytes_zero b else (SRSASN_SUCCESS, b)) (\<lambda>b.
       pack b (as_u64 sg n) (len * 8)))"

definition unpack_unconstrained_whole_number ::
    "'a::len word \<Rightarrow> bit_ref \<Rightarrow> nat \<Rightarrow> bool \<Rightarrow> asn_code \<times> 'a word \<times> bit_ref" where
  "unpack_unconstrained_whole_number n b len aligned =
    (case (if aligned then align_bytes b else (SRSASN_SUCCESS, b)) of (c, b) \<Rightarrow>
       if c \<noteq> SRSASN_SUCCESS then (c, n, b) else unpack n b (len * 8))"

section \<open>Length determinants\<close>

definition pack_length :: "bit_ref \<Rightarrow> u32 \<Rightarrow> bool \<Rightarrow> asn_code \<times> bit_ref" where
  "pack_length b val aligned =
    (if \<not> aligned
     then if val < 128 then pack b (ucast val) 8
          else if val < 16384 then handle_code (pack b 2 2) (\<lambda>b. pack b (ucast val) 14)
          else (SRSASN_ERROR_ENCODE_FAIL, b)
     else if 65536 < val then (SRSASN_ERROR_ENCODE_FAIL, b)
     else handle_code (align_bytes b) (\<lambda>b.
       if val < 128 then pack b (ucast val) 8
       else if val < 16384 then handle_code (pack b 2 2) (\<lambda>b. pack b (ucast val) 14)
       else handle_code (pack b 3 2) (\<lambda>b.
         let m = val div 16384 in
         handle_code (pack b (ucast m) 6) (\<lambda>b. pack b (ucast (val - m * 16384)) 16))))"

definition unpack_length :: "u32 \<Rightarrow> bit_ref \<Rightarrow> bool \<Rightarrow> asn_code \<times> u32 \<times> bit_ref" where
  "unpack_length val b aligned =
    (if \<not> aligned
     then case unpack_flag False b of (c, ext, b) \<Rightarrow>
       if c \<noteq> SRSASN_SUCCESS then (c, val, b)
       else if \<not> ext then unpack val b 7
       else case unpack_flag ext b of (c, ext, b) \<Rightarrow>
         if c \<noteq> SRSASN_SUCCESS then (c, val, b)
         else if \<not> ext then unpack val b 14
         else (SRSASN_ERROR_DECODE_FAIL, 0, b)
     else case align_bytes b of (c, b) \<Rightarrow>
       if c \<noteq> SRSASN_SUCCESS then (c, val, b)
       else case unpack val b 8 of (c, val, b) \<Rightarrow>
         if c \<noteq> SRSASN_SUCCESS then (c, val, b)
         else if val < 128 then (SRSASN_SUCCESS, val, b)
         else let val = val - 128 in
           if val < 64
           then case unpack (0 :: u32) b 8 of (c, val_octet_2, b) \<Rightarrow>
             if c \<noteq> SRSASN_SUCCESS then (c, val, b)
             else (SRSASN_SUCCESS, push_bit 8 val + val_octet_2, b)
           else (SRSASN_ERROR_DECODE_FAIL, val, b))"

text \<open>The length of a bounded type: a constrained whole number unless the bound reaches 64K.\<close>

definition pack_length_bounded ::
    "log2f_impl \<Rightarrow> bool \<Rightarrow> bit_ref \<Rightarrow> 'a::len word \<Rightarrow> 'a word \<Rightarrow> 'a word \<Rightarrow> bool \<Rightarrow> asn_code \<times> bit_ref" where
  "pack_length_bounded lg sg b n lb ub aligned =
    (if 65536 \<le> ival sg ub then pack_length b (ucast n) aligned
     else pack_constrained_whole_number lg sg b n lb ub aligned)"

definition unpack_length_bounded ::
    "log2f_impl \<Rightarrow> bool \<Rightarrow> 'a::len word \<Rightarrow> bit_ref \<Rightarrow> 'a word \<Rightarrow> 'a word \<Rightarrow> bool \<Rightarrow>
      asn_code \<times> 'a word \<times> bit_ref" where
  "unpack_length_bounded lg sg n b lb ub aligned =
    (if 65536 \<le> ival sg ub
     then case unpack_length 0 b aligned of (c, len, b) \<Rightarrow> (c, ucast len, b)
     else unpack_constrained_whole_number lg sg n b lb ub aligned)"

section \<open>Enumerations\<close>

definition pack_enum :: "log2f_impl \<Rightarrow> bit_ref \<Rightarrow> u32 \<Rightarrow> u32 \<Rightarrow> u32 \<Rightarrow> bool \<Rightarrow> asn_code \<times> bit_ref" where
  "pack_enum lg b e nof_types nof_exts has_ext =
    (if nof_types \<le> e then (SRSASN_ERROR_ENCODE_FAIL, b)
     else if has_ext
     then let nof_noext = nof_types - nof_exts;
              nof_bits = ceil_log2f lg (float_of_uint (unat nof_noext));
              ext = nof_noext \<le> e
          in handle_code (pack b (of_bool ext) 1) (\<lambda>b.
               if \<not> ext then pack b (ucast e) nof_bits
               else pack_norm_small_non_neg_whole_number b (e - nof_noext))
     else pack b (ucast e) (ceil_log2f lg (float_of_uint (unat nof_types))))"

text \<open>
  The decoder continues to the range check after a failed read, with the value read so far, and the
  check can only turn the code into another error.
\<close>

definition unpack_enum :: "log2f_impl \<Rightarrow> u32 \<Rightarrow> u32 \<Rightarrow> bool \<Rightarrow> bit_ref \<Rightarrow> asn_code \<times> u32 \<times> bit_ref" where
  "unpack_enum lg nof_types nof_exts has_ext b =
    (let range_check = (\<lambda>(c, v, b). if nof_types \<le> v then (SRSASN_ERROR_DECODE_FAIL, v, b) else (c, v, b))
     in if has_ext
     then case unpack_flag False b of (c, ext, b) \<Rightarrow>
       if c \<noteq> SRSASN_SUCCESS then (c, 0, b)
       else if \<not> ext
       then range_check (unpack 0 b (ceil_log2f lg (float_of_uint (unat (nof_types - nof_exts)))))
       else case unpack_norm_small_non_neg_whole_number 0 b of (c, v, b) \<Rightarrow>
         range_check (c, v + (nof_types - nof_exts), b)
     else range_check (unpack 0 b (ceil_log2f lg (float_of_uint (unat nof_types)))))"

section \<open>Integers\<close>

definition int_min :: "bool \<Rightarrow> 'a::len itself \<Rightarrow> int" where
  "int_min sg t = (if sg then - (2 ^ (LENGTH('a) - 1)) else 0)"

definition int_max :: "bool \<Rightarrow> 'a::len itself \<Rightarrow> int" where
  "int_max sg t = (if sg then 2 ^ (LENGTH('a) - 1) - 1 else 2 ^ LENGTH('a) - 1)"

definition pack_integer ::
    "log2f_impl \<Rightarrow> bool \<Rightarrow> bit_ref \<Rightarrow> 'a::len word \<Rightarrow> 'a word \<Rightarrow> 'a word \<Rightarrow> bool \<Rightarrow> bool \<Rightarrow>
      asn_code \<times> bit_ref" where
  "pack_integer lg sg b n lb ub has_ext aligned =
    (let within_bounds = (ival sg lb \<le> ival sg n \<and> ival sg n \<le> ival sg ub);
         lower_bounded = (ival sg lb \<noteq> int_min sg TYPE('a) \<or> \<not> sg);
         upper_bounded = (ival sg ub \<noteq> int_max sg TYPE('a)) in
     if \<not> has_ext \<and> \<not> within_bounds then (SRSASN_ERROR_ENCODE_FAIL, b)
     else handle_code (if has_ext then pack b (of_bool (\<not> within_bounds)) 1 else (SRSASN_SUCCESS, b)) (\<lambda>b.
       if within_bounds \<and> lower_bounded \<and> upper_bounded
       then if lb = ub then (SRSASN_SUCCESS, b)
            else pack_constrained_whole_number lg sg b n lb ub aligned
       else if \<not> within_bounds \<or> (\<not> lower_bounded \<and> \<not> upper_bounded)
       then handle_code (pack_length b (of_nat (uwn_octets lg (ival sg n))) aligned) (\<lambda>b.
              pack_unconstrained_whole_number lg sg b n aligned)
       else (SRSASN_SUCCESS, b)))"

definition unpack_integer ::
    "log2f_impl \<Rightarrow> bool \<Rightarrow> 'a::len word \<Rightarrow> bit_ref \<Rightarrow> 'a word \<Rightarrow> 'a word \<Rightarrow> bool \<Rightarrow> bool \<Rightarrow>
      asn_code \<times> 'a word \<times> bit_ref" where
  "unpack_integer lg sg n b lb ub has_ext aligned =
    (case (if has_ext then unpack_flag True b else (SRSASN_SUCCESS, False, b)) of (c, out_of_bounds, b) \<Rightarrow>
     if c \<noteq> SRSASN_SUCCESS then (c, n, b)
     else let within_bounds = (\<not> out_of_bounds);
              lower_bounded = (ival sg lb \<noteq> int_min sg TYPE('a) \<or> \<not> sg);
              upper_bounded = (ival sg ub \<noteq> int_max sg TYPE('a)) in
       if within_bounds \<and> lower_bounded \<and> upper_bounded
       then if lb = ub then (SRSASN_SUCCESS, n, b)
            else unpack_constrained_whole_number lg sg n b lb ub aligned
       else if \<not> within_bounds \<or> (\<not> lower_bounded \<and> \<not> upper_bounded)
       then case unpack_length 0 b aligned of (c, len, b) \<Rightarrow>
         if c \<noteq> SRSASN_SUCCESS then (c, n, b)
         else unpack_unconstrained_whole_number n b (unat len) aligned
       else (SRSASN_SUCCESS, n, b))"

section \<open>Octet strings and sequences\<close>

fun pack_octets :: "bit_ref \<Rightarrow> bytes \<Rightarrow> asn_code \<times> bit_ref" where
  "pack_octets b [] = (SRSASN_SUCCESS, b)"
| "pack_octets b (x # xs) = handle_code (pack b (ucast x) 8) (\<lambda>b. pack_octets b xs)"

definition unbounded_octstring_pack :: "bit_ref \<Rightarrow> bytes \<Rightarrow> bool \<Rightarrow> asn_code \<times> bit_ref" where
  "unbounded_octstring_pack b octets aligned =
    handle_code (pack_length b (of_nat (length octets)) aligned) (\<lambda>b. pack_octets b octets)"

definition unbounded_octstring_unpack :: "bit_ref \<Rightarrow> bool \<Rightarrow> asn_code \<times> bytes \<times> bit_ref" where
  "unbounded_octstring_unpack b aligned =
    handle_val (unpack_length 0 b aligned) (\<lambda>len b. unpack_each b (unat len)) []"

text \<open>
  The alignment step of the bounded and the fixed octet string ignores its code, as the source does.
\<close>

definition fixed_octstring_pack :: "bit_ref \<Rightarrow> bytes \<Rightarrow> bool \<Rightarrow> asn_code \<times> bit_ref" where
  "fixed_octstring_pack b octets aligned =
    pack_octets (if aligned \<and> 2 < length octets then snd (align_bytes_zero b) else b) octets"

definition fixed_octstring_unpack :: "bit_ref \<Rightarrow> nat \<Rightarrow> bool \<Rightarrow> asn_code \<times> bytes \<times> bit_ref" where
  "fixed_octstring_unpack b n aligned =
    unpack_each (if aligned \<and> 2 < n then snd (align_bytes b) else b) n"

definition bounded_octstring_pack ::
    "log2f_impl \<Rightarrow> bit_ref \<Rightarrow> bytes \<Rightarrow> u32 \<Rightarrow> u32 \<Rightarrow> bool \<Rightarrow> asn_code \<times> bit_ref" where
  "bounded_octstring_pack lg b octets lb ub aligned =
    handle_code (pack_length_bounded lg False b (of_nat (length octets)) lb ub aligned) (\<lambda>b.
      pack_octets (if aligned then snd (align_bytes_zero b) else b) octets)"

definition bounded_octstring_unpack ::
    "log2f_impl \<Rightarrow> bit_ref \<Rightarrow> u32 \<Rightarrow> u32 \<Rightarrow> bool \<Rightarrow> asn_code \<times> bytes \<times> bit_ref" where
  "bounded_octstring_unpack lg b lb ub aligned =
    handle_val (unpack_length_bounded lg False 0 b lb ub aligned) (\<lambda>len b.
      unpack_each (if aligned then snd (align_bytes b) else b) (unat len)) []"

fun pack_items :: "(bit_ref \<Rightarrow> 'v \<Rightarrow> asn_code \<times> bit_ref) \<Rightarrow> bit_ref \<Rightarrow> 'v list \<Rightarrow> asn_code \<times> bit_ref" where
  "pack_items pk b [] = (SRSASN_SUCCESS, b)"
| "pack_items pk b (x # xs) = handle_code (pk b x) (\<lambda>b. pack_items pk b xs)"

fun unpack_items :: "(bit_ref \<Rightarrow> asn_code \<times> 'v \<times> bit_ref) \<Rightarrow> bit_ref \<Rightarrow> nat \<Rightarrow>
    asn_code \<times> 'v list \<times> bit_ref" where
  "unpack_items un b 0 = (SRSASN_SUCCESS, [], b)"
| "unpack_items un b (Suc n) =
    handle_val (un b) (\<lambda>x b. case unpack_items un b n of (c, xs, b') \<Rightarrow> (c, x # xs, b')) []"

definition pack_dyn_seq_of :: "log2f_impl \<Rightarrow> (bit_ref \<Rightarrow> 'v \<Rightarrow> asn_code \<times> bit_ref) \<Rightarrow>
    bit_ref \<Rightarrow> 'v list \<Rightarrow> u32 \<Rightarrow> u32 \<Rightarrow> bool \<Rightarrow> asn_code \<times> bit_ref" where
  "pack_dyn_seq_of lg pk b seqof lb ub aligned =
    handle_code (pack_length_bounded lg False b (of_nat (length seqof)) lb ub aligned)
      (\<lambda>b. pack_items pk b seqof)"

definition unpack_dyn_seq_of :: "log2f_impl \<Rightarrow> (bit_ref \<Rightarrow> asn_code \<times> 'v \<times> bit_ref) \<Rightarrow>
    bit_ref \<Rightarrow> u32 \<Rightarrow> u32 \<Rightarrow> bool \<Rightarrow> asn_code \<times> 'v list \<times> bit_ref" where
  "unpack_dyn_seq_of lg un b lb ub aligned =
    handle_val (unpack_length_bounded lg False 0 b lb ub aligned) (\<lambda>n b. unpack_items un b (unat n)) []"

section \<open>Skipping unknown extensions\<close>

text \<open>
  \<open>varlength_field_unpack_guard\<close>: the constructor reads the length of an open type field, the
  destructor skips what the field's decoder has not consumed, with an \<open>unpack\<close> into a 32-bit integer.
  The distance is taken from the cursor \<open>b0\<close> after the length. Both ignore the codes.
\<close>

definition varlength_field_begin :: "bit_ref \<Rightarrow> bool \<Rightarrow> u32 \<times> bit_ref" where
  "varlength_field_begin b align = (case unpack_length 0 b align of (c, len, b) \<Rightarrow> (len, b))"

definition varlength_field_end :: "u32 \<Rightarrow> bit_ref \<Rightarrow> bit_ref \<Rightarrow> bit_ref" where
  "varlength_field_end len b0 b =
    (case unpack (0 :: u32) b (unat (len * 8 - word_of_int (distance b - distance b0)))
     of (c, pad, b) \<Rightarrow> b)"

text \<open>The destructor of \<open>ext_groups_unpacker_guard\<close>: one open field per unknown group that is present.\<close>

fun skip_unknown_groups :: "bit_ref \<Rightarrow> bool list \<Rightarrow> bit_ref" where
  "skip_unknown_groups b [] = b"
| "skip_unknown_groups b (present # gs) =
    skip_unknown_groups
      (if present then case varlength_field_begin b False of (len, b0) \<Rightarrow> varlength_field_end len b0 b0
       else b) gs"

section \<open>Codecs\<close>

text \<open>
  The contract between an encoder and its decoder. \<open>enc p v\<close> is the bit list that stands for \<open>v\<close> at bit
  position \<open>p\<close> (aligned encodings depend on the position): the encoder appends it, and the decoder
  that finds it ahead returns \<open>v\<close> and moves past it.
\<close>

locale per_codec =
  fixes enc :: "nat \<Rightarrow> 'v \<Rightarrow> bool list"
    and pk :: "bit_ref \<Rightarrow> 'v \<Rightarrow> asn_code \<times> bit_ref"
    and un :: "bit_ref \<Rightarrow> asn_code \<times> 'v \<times> bit_ref"
    and valid :: "'v \<Rightarrow> bool"
  assumes pk_emits: "bit_ref_ok b \<Longrightarrow> valid v \<Longrightarrow> fits b (length (enc (bit_pos b) v)) \<Longrightarrow>
      \<exists>b'. pk b v = (SRSASN_SUCCESS, b') \<and> emits b (enc (bit_pos b) v) b'"
    and un_reads: "bit_ref_ok b \<Longrightarrow> valid v \<Longrightarrow> remaining b = enc (bit_pos b) v @ rest \<Longrightarrow>
      un b = (SRSASN_SUCCESS, v, advance b (length (enc (bit_pos b) v)))"

text \<open>A reader over the buffer an encoder has filled, set back to the position where it started.\<close>

definition rewind :: "bit_ref \<Rightarrow> bit_ref \<Rightarrow> bit_ref" where
  "rewind b b' = b'\<lparr>br_ptr := br_ptr b, br_offset := br_offset b\<rparr>"

lemma rewind_simps [simp]:
  "br_buf (rewind b b') = br_buf b'" "br_max (rewind b b') = br_max b'" "bit_pos (rewind b b') = bit_pos b"
  by (simp_all add: rewind_def bit_pos_def)

lemma rewind_ok: "bit_ref_ok b \<Longrightarrow> emits b bs b' \<Longrightarrow> bit_ref_ok (rewind b b')"
  unfolding bit_ref_ok_def emits_def rewind_def by simp

lemma rewind_remaining:
  assumes "bit_ref_ok b" "emits b bs b'"
  shows "remaining (rewind b b') = bs @ remaining b'"
proof -
  have pos: "bit_pos b' = bit_pos b + length bs" and le: "bit_pos b' \<le> 8 * br_max b'"
    using emits_pos [OF assms(2)] emits_ok [OF assms(2)] by (simp_all add: bit_ref_ok_def bit_pos_def)
  have "map (bit_at (br_buf b')) [0..<bit_pos b + length bs] = written b @ bs"
    using assms(2) unfolding emits_def written_def pos by blast
  moreover have "map (bit_at (br_buf b')) [0..<bit_pos b + length bs] =
      map (bit_at (br_buf b')) [0..<bit_pos b] @ map (bit_at (br_buf b')) [bit_pos b..<bit_pos b + length bs]"
    by (simp only: upt_add_eq_append [of 0 "bit_pos b" "length bs"] map_append le0)
  ultimately have "map (bit_at (br_buf b')) [bit_pos b..<bit_pos b + length bs] = bs"
    by (metis append_eq_append_conv length_map length_upt length_written diff_zero)
  moreover have "[bit_pos b..<8 * br_max b'] = [bit_pos b..<bit_pos b'] @ [bit_pos b'..<8 * br_max b']"
    using le pos by (metis le_add1 le_add_diff_inverse upt_add_eq_append)
  ultimately show ?thesis
    by (simp add: remaining_def pos)
qed

lemma rewind_advance:
  assumes "bit_ref_ok b" "emits b bs b'"
  shows "advance (rewind b b') (length bs) = b'"
proof -
  have "bit_pos (rewind b b') + length bs = 8 * br_ptr b' + br_offset b'" "br_offset b' < 8"
    using emits_pos [OF assms(2)] emits_ok [OF assms(2)]
    by (simp_all add: bit_pos_def bit_ref_ok_def rewind_def)
  then show ?thesis
    unfolding advance_def by (simp add: rewind_def)
qed

text \<open>The bits of a list of items, each at the position where the previous one ended.\<close>

fun enc_items :: "(nat \<Rightarrow> 'v \<Rightarrow> bool list) \<Rightarrow> nat \<Rightarrow> 'v list \<Rightarrow> bool list" where
  "enc_items enc p [] = []"
| "enc_items enc p (x # xs) = enc p x @ enc_items enc (p + length (enc p x)) xs"

context per_codec
begin

lemma roundtrip:
  assumes ok: "bit_ref_ok b" and v: "valid v" and room: "fits b (length (enc (bit_pos b) v))"
  shows "\<exists>b'. pk b v = (SRSASN_SUCCESS, b') \<and> un (rewind b b') = (SRSASN_SUCCESS, v, b')"
proof -
  obtain b' where b': "pk b v = (SRSASN_SUCCESS, b')" "emits b (enc (bit_pos b) v) b'"
    using pk_emits [OF ok v room] by blast
  have "un (rewind b b') = (SRSASN_SUCCESS, v, advance (rewind b b') (length (enc (bit_pos b) v)))"
    using un_reads [OF rewind_ok [OF ok b'(2)] v] rewind_remaining [OF ok b'(2)] by simp
  with b' rewind_advance [OF ok b'(2)] show ?thesis by simp
qed

lemma items_emit:
  "bit_ref_ok b \<Longrightarrow> \<forall>v\<in>set vs. valid v \<Longrightarrow> fits b (length (enc_items enc (bit_pos b) vs)) \<Longrightarrow>
   \<exists>b'. pack_items pk b vs = (SRSASN_SUCCESS, b') \<and> emits b (enc_items enc (bit_pos b) vs) b'"
proof (induction vs arbitrary: b)
  case (Cons v vs)
  let ?bs = "enc (bit_pos b) v"
  have "fits b (length ?bs)" using Cons.prems by (auto simp: fits_def)
  with Cons.prems obtain b1 where b1: "pk b v = (SRSASN_SUCCESS, b1)" "emits b ?bs b1"
    using pk_emits [of b v] by auto
  have "fits b1 (length (enc_items enc (bit_pos b1) vs))"
    using Cons.prems b1 by (auto simp: fits_def emits_pos emits_max)
  with Cons.IH [of b1] Cons.prems b1 obtain b2 where
    "pack_items pk b1 vs = (SRSASN_SUCCESS, b2)" "emits b1 (enc_items enc (bit_pos b1) vs) b2"
    by (metis emits_ok list.set_intros(2))
  with b1 show ?case by (auto simp: emits_pos intro: emits_trans)
qed simp

lemma items_read:
  "bit_ref_ok b \<Longrightarrow> \<forall>v\<in>set vs. valid v \<Longrightarrow> remaining b = enc_items enc (bit_pos b) vs @ rest \<Longrightarrow>
   unpack_items un b (length vs) = (SRSASN_SUCCESS, vs, advance b (length (enc_items enc (bit_pos b) vs)))"
proof (induction vs arbitrary: b)
  case (Cons v vs)
  let ?bs = "enc (bit_pos b) v"
  have rem: "remaining b = ?bs @ (enc_items enc (bit_pos b + length ?bs) vs @ rest)"
    using Cons.prems by simp
  note split = remaining_split [OF Cons.prems(1) rem]
  have "un b = (SRSASN_SUCCESS, v, advance b (length ?bs))"
    using un_reads [OF Cons.prems(1) _ rem] Cons.prems by simp
  moreover have "unpack_items un (advance b (length ?bs)) (length vs) = (SRSASN_SUCCESS, vs,
      advance (advance b (length ?bs)) (length (enc_items enc (bit_pos b + length ?bs) vs)))"
    using Cons.IH [of "advance b (length ?bs)"] Cons.prems split by simp
  ultimately show ?case by simp
qed simp

end

end
