(* ===== verification/Asn1_Codecs.thy ===== *)
theory Asn1_Codecs
  imports Asn1_Per
begin

text \<open>
  Encoder and decoder of each packed encoding as an interpretation of the contract \<open>per_codec\<close>: a
  reference encoding as a bit list (\<open>enc_cwn\<close>, \<open>enc_small\<close>, \<open>enc_length\<close>, \<open>enc_enum\<close>, \<open>enc_octstring\<close>,
  \<open>enc_seq_of\<close>), the values it is meant for, and the two laws. The properties at the end are the round
  trips that the contract gives and the places where the code does not keep to it.
\<close>

section \<open>Shared lemmas\<close>

lemma handle_emits:
  assumes "\<exists>b'. m = (SRSASN_SUCCESS, b') \<and> emits b xs b'"
    and "\<And>b'. emits b xs b' \<Longrightarrow> \<exists>b''. k b' = (SRSASN_SUCCESS, b'') \<and> emits b' ys b''"
  shows "\<exists>b''. handle_code m k = (SRSASN_SUCCESS, b'') \<and> emits b (xs @ ys) b''"
  using assms by (fastforce intro: emits_trans)

lemma as_u64_bits: "n \<le> LENGTH('a) \<Longrightarrow> n \<le> 64 \<Longrightarrow> to_bits n (as_u64 sg (x :: 'a::len word)) = to_bits n x"
  by (simp add: as_u64_def to_bits_ucast to_bits_scast)

section \<open>Constrained whole numbers\<close>

definition enc_cwn :: "bool \<Rightarrow> 'a::len word \<Rightarrow> 'a word \<Rightarrow> bool \<Rightarrow> nat \<Rightarrow> 'a word \<Rightarrow> bool list" where
  "enc_cwn sg lb ub aligned p n =
    (let ra = nat (ival sg ub - ival sg lb) + 1; k = ceil_log2 ra; d = n - lb in
     if ra = 1 then []
     else if \<not> aligned \<or> ra < 256 then to_bits k d
     else if ra \<le> 65536 then replicate (pad_len p) False @ to_bits (8 * ceil_frac k 8) d
     else let o8 = ceil_frac (bit_length (max (unat d) 1)) 8 in
       to_bits 2 (of_nat (o8 - 1) :: u32) @ replicate (pad_len (p + 2)) False @ to_bits (8 * o8) d)"

definition valid_cwn :: "log2f_impl \<Rightarrow> bool \<Rightarrow> 'a::len word \<Rightarrow> 'a word \<Rightarrow> 'a word \<Rightarrow> bool" where
  "valid_cwn lg sg lb ub n \<longleftrightarrow> log2f_exact lg \<and> ival sg lb \<le> ival sg n \<and> ival sg n \<le> ival sg ub \<and>
     ival sg ub - ival sg lb < 2 ^ 21 \<and> LENGTH('a) \<in> {8, 16, 32, 64}"

lemma ival_diff:
  assumes "ival sg lb \<le> ival sg n"
  shows "int (unat (n - lb :: 'a::len word)) = ival sg n - ival sg lb"
proof -
  have r: "ival sg n - ival sg lb < 2 ^ LENGTH('a)"
  proof (cases sg)
    case True
    have "sint n < 2 ^ (LENGTH('a) - 1)" "- (2 ^ (LENGTH('a) - 1)) \<le> sint lb"
      using sint_lt [of n] sint_ge [of lb] by simp_all
    then have "sint n - sint lb < 2 * 2 ^ (LENGTH('a) - 1)" by simp
    also have "\<dots> = 2 ^ LENGTH('a)" by (metis len_gt_0 power_Suc Suc_diff_1)
    finally show ?thesis using True by (simp add: ival_def)
  next
    case False
    have "uint n < 2 ^ LENGTH('a)" "0 \<le> uint lb" by simp_all
    then have "uint n - uint lb < 2 ^ LENGTH('a)" by linarith
    with False show ?thesis by (simp add: ival_def)
  qed
  have "n - lb = word_of_int (ival sg n - ival sg lb)"
    by (simp add: ival_def wi_hom_syms)
  then have "uint (n - lb) = ival sg n - ival sg lb"
    using r assms by (simp only: uint_word_of_int) (simp only: mod_pos_pos_trivial diff_ge_0_iff_ge)
  then show ?thesis by simp
qed

lemma less_2_ceil_log2: "d < x \<Longrightarrow> d < 2 ^ ceil_log2 x"
  using less_2_bit_length [of "x - 1"] by (simp add: ceil_log2_def)

lemma ceil_log2_le: "x \<le> 2 ^ k \<Longrightarrow> ceil_log2 x \<le> k"
  using less_le_trans [of "x - 1" "x" "2 ^ k"] unfolding ceil_log2_def bit_length_le_iff
  by (cases "x = 0") simp_all

lemma ceil_log2_gt: "2 ^ k < x \<Longrightarrow> k < ceil_log2 x"
  using bit_length_le_iff [of "x - 1" k] unfolding ceil_log2_def by linarith

lemma log2f_exactD:
  assumes "log2f_exact lg" "0 < x" "x \<le> 2 ^ 21"
  shows "ceil_log2f lg (float_of_uint x) = ceil_log2 x" "floor_log2f1 lg (float_of_uint x) = bit_length x"
proof -
  have "float_of_uint x = x" using assms(3) by (intro float_of_uint_exact) simp
  with assms show "ceil_log2f lg (float_of_uint x) = ceil_log2 x" "floor_log2f1 lg (float_of_uint x) = bit_length x"
    by (simp_all add: log2f_exact_def)
qed


text \<open>The facts about the range that every case of the codec uses.\<close>

lemma cwn_facts:
  fixes n :: "'a::len word"
  assumes v: "valid_cwn lg sg lb ub n"
  defines "ra \<equiv> nat (ival sg ub - ival sg lb) + 1"
  shows "int_range sg lb ub = ra" "unat (n - lb) < ra" "unat (n - lb) < 2 ^ ceil_log2 ra"
    "ceil_log2 ra \<le> 21" "ceil_log2 ra \<le> LENGTH('a)"
    "ceil_log2f lg (float_of_uint ra) = ceil_log2 ra" "\<not> ival sg ub < ival sg lb"
proof -
  have le: "ival sg lb \<le> ival sg n" "ival sg n \<le> ival sg ub" "ival sg ub - ival sg lb < 2 ^ 21"
    and lg: "log2f_exact lg" using v by (simp_all add: valid_cwn_def)
  have ra: "ra \<le> 2 ^ 21" "0 < ra" using le by (simp_all add: ra_def nat_less_iff)
  then show "int_range sg lb ub = ra" by (simp add: int_range_def ra_def)
  have d: "int (unat (n - lb)) = ival sg n - ival sg lb" using le by (intro ival_diff)
  then show "unat (n - lb) < ra" using le unfolding ra_def by linarith
  then show "unat (n - lb) < 2 ^ ceil_log2 ra" by (rule less_2_ceil_log2)
  show "ceil_log2 ra \<le> 21" using ra by (intro ceil_log2_le)
  have "int (unat (ub - lb)) = ival sg ub - ival sg lb" using le by (intro ival_diff) simp
  then have "ra = unat (ub - lb) + 1" using le unfolding ra_def by linarith
  moreover have "unat (ub - lb) < 2 ^ LENGTH('a)" by (rule unsigned_less)
  ultimately show "ceil_log2 ra \<le> LENGTH('a)" by (intro ceil_log2_le) (simp only: Suc_eq_plus1 [symmetric] Suc_le_eq)
  show "ceil_log2f lg (float_of_uint ra) = ceil_log2 ra" using log2f_exactD(1) [OF lg ra(2,1)] .
  show "\<not> ival sg ub < ival sg lb" using le by simp
qed

lemma cwn_large:
  fixes n :: "'a::len word"
  assumes v: "valid_cwn lg sg lb ub n" and ra: "65536 < nat (ival sg ub - ival sg lb) + 1"
  defines "k \<equiv> bit_length (max (unat (n - lb)) 1)"
  shows "ceil_log2f lg (float_of_uint (ceil_frac (ceil_log2 (nat (ival sg ub - ival sg lb) + 1)) 8)) = 2"
    "floor_log2f1 lg (float_of_uint (nat (max (ival sg (n - lb)) 1))) = k"
    "ceil_frac k 8 \<in> {1, 2, 3}" "unat (n - lb) < 2 ^ (8 * ceil_frac k 8)" "24 \<le> LENGTH('a)"
proof -
  let ?ra = "nat (ival sg ub - ival sg lb) + 1"
  note f = cwn_facts [OF v]
  have lg: "log2f_exact lg" and len: "LENGTH('a) \<in> {8, 16, 32, 64}"
    using v by (simp_all add: valid_cwn_def)
  have "16 < ceil_log2 ?ra" using ra by (intro ceil_log2_gt) simp
  with f(4) have "ceil_frac (ceil_log2 ?ra) 8 = 3" unfolding ceil_frac_def by simp
  moreover have "ceil_log2 3 = 2" by (simp add: ceil_log2_def bit_length.simps)
  ultimately show "ceil_log2f lg (float_of_uint (ceil_frac (ceil_log2 ?ra) 8)) = 2"
    using log2f_exactD(1) [OF lg, of 3] by simp
  show len24: "24 \<le> LENGTH('a)" using \<open>16 < ceil_log2 ?ra\<close> f(5) len by auto
  have d: "unat (n - lb) < 2 ^ 21" 
  proof -
    have "ival sg ub - ival sg lb < 2 ^ 21" "ival sg lb \<le> ival sg ub" using v by (simp_all add: valid_cwn_def)
    then have "nat (ival sg ub - ival sg lb) + 1 \<le> 2 ^ 21" by (simp add: nat_less_iff Suc_le_eq)
    with f(2) show ?thesis by (rule less_le_trans)
  qed
  have "sint (n - lb) = uint (n - lb)"
  proof (rule sint_small)
    have "(2::nat) ^ 21 \<le> 2 ^ (LENGTH('a) - 1)" using len24 by (intro power_increasing) simp_all
    with d show "unat (n - lb) < 2 ^ (LENGTH('a) - 1)" by (rule less_le_trans)
  qed
  then have "ival sg (n - lb) = int (unat (n - lb))" by (simp add: ival_def)
  then have i: "nat (max (ival sg (n - lb)) 1) = max (unat (n - lb)) 1" by linarith
  then show "floor_log2f1 lg (float_of_uint (nat (max (ival sg (n - lb)) 1))) = k"
    using log2f_exactD(2) [OF lg, of "max (unat (n - lb)) 1"] d by (simp add: k_def)
  have "k \<le> 21" "0 < k" using d unfolding k_def by (simp_all add: bit_length_le_iff)
  then show "ceil_frac k 8 \<in> {1, 2, 3}" unfolding ceil_frac_def by auto
  have "unat (n - lb) < 2 ^ k" using less_2_bit_length [of "max (unat (n - lb)) 1"] by (simp add: k_def)
  also have "(2::nat) ^ k \<le> 2 ^ (8 * ceil_frac k 8)" unfolding ceil_frac_def by (intro power_increasing) simp_all
  finally show "unat (n - lb) < 2 ^ (8 * ceil_frac k 8)" .
qed


lemma enc_cwn_cases:
  assumes "ra = nat (ival sg ub - ival sg lb) + 1" "k = ceil_log2 ra"
  shows "ra = 1 \<Longrightarrow> enc_cwn sg lb ub al p n = []"
    "ra \<noteq> 1 \<Longrightarrow> \<not> al \<or> ra < 256 \<Longrightarrow> enc_cwn sg lb ub al p n = to_bits k (n - lb)"
    "al \<Longrightarrow> 256 \<le> ra \<Longrightarrow> ra \<le> 65536 \<Longrightarrow>
       enc_cwn sg lb ub al p n = replicate (pad_len p) False @ to_bits (8 * ceil_frac k 8) (n - lb)"
    "al \<Longrightarrow> 65536 < ra \<Longrightarrow> o8 = ceil_frac (bit_length (max (unat (n - lb)) 1)) 8 \<Longrightarrow>
       enc_cwn sg lb ub al p n =
         to_bits 2 (of_nat (o8 - 1) :: u32) @ replicate (pad_len (p + 2)) False @ to_bits (8 * o8) (n - lb)"
  unfolding enc_cwn_def Let_def assms(1) [symmetric] assms(2) [symmetric] by simp_all

lemma pack_emits_as:
  fixes x :: "'a::len word"
  assumes "bit_ref_ok b" "fits b n" "n < 64" "n \<le> LENGTH('a)"
  shows "\<exists>b'. pack b (as_u64 sg x) n = (SRSASN_SUCCESS, b') \<and> emits b (to_bits n x) b'"
  using pack_emits [OF assms(1,3,2), of "as_u64 sg x"] assms by (simp add: as_u64_bits)

lemma pack_cwn_eq:
  assumes v: "valid_cwn lg sg lb ub n" and ra_def: "ra = nat (ival sg ub - ival sg lb) + 1"
  shows "pack_constrained_whole_number lg sg b n lb ub al =
    (if ra = 1 then (SRSASN_SUCCESS, b)
     else if \<not> al then (SRSASN_SUCCESS, snd (pack b (as_u64 sg (n - lb)) (ceil_log2 ra)))
     else if ra < 256 then pack b (as_u64 sg (n - lb)) (ceil_log2 ra)
     else if ra \<le> 65536 then
       handle_code (align_bytes_zero b) (\<lambda>b.
       handle_code (pack b 0 (ceil_frac (ceil_log2 ra) 8 * 8 - ceil_log2 ra)) (\<lambda>b.
       handle_code (pack b (as_u64 sg (n - lb)) (ceil_log2 ra)) align_bytes_zero))
     else let o8 = ceil_frac (bit_length (max (unat (n - lb)) 1)) 8 in
       handle_code (pack b (ucast (of_nat o8 - 1 :: u32)) 2) (\<lambda>b.
       handle_code (align_bytes_zero b) (\<lambda>b. pack b (as_u64 sg (n - lb)) (o8 * 8))))"
proof -
  note f = cwn_facts [OF v]
  have g: "\<not> (ival sg ub < ival sg lb \<or> ival sg n < ival sg lb \<or> ival sg ub < ival sg n)"
    using v by (simp add: valid_cwn_def)
  show ?thesis
  proof (cases "65536 < ra")
    case True
    then have r: "\<not> ra < 256" "ra \<noteq> 1" "\<not> ra \<le> 65536" by simp_all
    show ?thesis
      using g r cwn_large(1,2) [OF v True [unfolded ra_def]] f(1,6)
      unfolding pack_constrained_whole_number_def Let_def ra_def by (simp only: if_False if_True simp_thms)
  next
    case False
    then have "ra \<le> 65536" by simp
    then show ?thesis
      using g f(1,6) unfolding pack_constrained_whole_number_def Let_def ra_def
      by (simp only: if_False if_True simp_thms)
  qed
qed

lemma cwn_emits_mid:
  fixes n :: "'a::len word"
  assumes ok: "bit_ref_ok b" and v: "valid_cwn lg sg lb ub n"
    and ra: "ra = nat (ival sg ub - ival sg lb) + 1" "256 \<le> ra" "ra \<le> 65536"
    and room: "fits b (length (enc_cwn sg lb ub True (bit_pos b) n))"
  shows "\<exists>b'. pack_constrained_whole_number lg sg b n lb ub True = (SRSASN_SUCCESS, b') \<and>
     emits b (enc_cwn sg lb ub True (bit_pos b) n) b'"
proof -
  note f = cwn_facts [OF v]
  let ?k = "ceil_log2 ra" and ?d = "n - lb"
  let ?m = "ceil_frac ?k 8 * 8" and ?pad = "replicate (pad_len (bit_pos b)) False"
  have k: "?k \<le> ?m" "?m < 64" using f(4) ra(1) unfolding ceil_frac_def by auto
  have e: "enc_cwn sg lb ub True (bit_pos b) n =
      ?pad @ to_bits (?m - ?k) (0::u64) @ to_bits ?k ?d @ []"
    using enc_cwn_cases(3) [OF ra(1) refl, of True] ra k to_bits_pad [of ?d ?k ?m] f(3)
      to_bits_pad [of "0::u64" 0 "?m - ?k"] by (simp add: mult.commute)
  have room': "fits b (length ?pad + (?m - ?k + ?k))" using room unfolding e by (simp add: add.assoc)
  have "\<exists>b'. handle_code (align_bytes_zero b) (\<lambda>b. handle_code (pack b 0 (?m - ?k)) (\<lambda>b.
      handle_code (pack b (as_u64 sg ?d) ?k) align_bytes_zero)) = (SRSASN_SUCCESS, b') \<and>
      emits b (?pad @ to_bits (?m - ?k) (0::u64) @ to_bits ?k ?d @ []) b'"
  proof (intro handle_emits align_bytes_zero_emits pack_emits pack_emits_as)
    fix b1 assume b1: "emits b ?pad b1"
    have r1: "fits b1 (?m - ?k + ?k)" by (rule fits_emits [OF room' b1])
    from b1 show "bit_ref_ok b1" by blast
    from r1 show "fits b1 (?m - ?k)" by (rule fits_mono) simp
    fix b2 assume b2: "emits b1 (to_bits (?m - ?k) (0::u64)) b2"
    then show "bit_ref_ok b2" by blast
    show "fits b2 ?k" using fits_emits [OF _ b2, of ?k] r1 by simp
    fix b3 assume b3: "emits b2 (to_bits ?k ?d) b3"
    have "bit_pos b3 = bit_pos b + pad_len (bit_pos b) + ?m"
      using emits_pos [OF b1] emits_pos [OF b2] emits_pos [OF b3] k by simp
    then have "pad_len (bit_pos b3) = 0"
      using pad_len_aligned [of "bit_pos b"] by (intro pad_len_0) presburger
    with align_bytes_zero_emits [of b3] b3
    show "\<exists>b''. align_bytes_zero b3 = (SRSASN_SUCCESS, b'') \<and> emits b3 [] b''" by auto
  qed (use ok k f(5) ra(1) in auto)
  moreover have "pack_constrained_whole_number lg sg b n lb ub True =
      handle_code (align_bytes_zero b) (\<lambda>b. handle_code (pack b 0 (?m - ?k)) (\<lambda>b.
        handle_code (pack b (as_u64 sg ?d) ?k) align_bytes_zero))"
    using ra(2,3) unfolding pack_cwn_eq [OF v ra(1), of b True] by simp
  ultimately show ?thesis unfolding e by simp
qed


lemma cwn_emits_large:
  fixes n :: "'a::len word"
  assumes ok: "bit_ref_ok b" and v: "valid_cwn lg sg lb ub n"
    and ra: "ra = nat (ival sg ub - ival sg lb) + 1" "65536 < ra"
    and room: "fits b (length (enc_cwn sg lb ub True (bit_pos b) n))"
  shows "\<exists>b'. pack_constrained_whole_number lg sg b n lb ub True = (SRSASN_SUCCESS, b') \<and>
     emits b (enc_cwn sg lb ub True (bit_pos b) n) b'"
proof -
  define o8 where "o8 = ceil_frac (bit_length (max (unat (n - lb)) 1)) 8"
  note l = cwn_large [OF v ra(2) [unfolded ra(1)], folded o8_def]
  let ?l = "of_nat (o8 - 1) :: u32" and ?d = "n - lb" and ?pad = "replicate (pad_len (bit_pos b + 2)) False"
  have o8: "o8 * 8 < 64" "o8 * 8 \<le> LENGTH('a)" "0 < o8" using l(3,5) by auto
  note e = enc_cwn_cases(4) [OF ra(1) refl, of True o8 n "bit_pos b", OF TrueI ra(2) o8_def]
  have room': "fits b (2 + (length ?pad + o8 * 8))" using room unfolding e by (simp add: mult.commute)
  have "\<exists>b'. handle_code (pack b (ucast ?l) 2) (\<lambda>b. handle_code (align_bytes_zero b) (\<lambda>b.
      pack b (as_u64 sg ?d) (o8 * 8))) = (SRSASN_SUCCESS, b') \<and>
      emits b (to_bits 2 (ucast ?l :: u64) @ ?pad @ to_bits (o8 * 8) ?d) b'"
  proof (intro handle_emits pack_emits pack_emits_as)
    from room' show "fits b 2" by (rule fits_mono) simp
    fix b1 assume b1: "emits b (to_bits 2 (ucast ?l :: u64)) b1"
    have r1: "fits b1 (length ?pad + o8 * 8)" using fits_emits [OF _ b1] room' by simp
    have "bit_pos b1 = bit_pos b + 2" using emits_pos [OF b1] by simp
    then show "\<exists>b'. align_bytes_zero b1 = (SRSASN_SUCCESS, b') \<and> emits b1 ?pad b'"
      using align_bytes_zero_emits [of b1] b1 by auto
    fix b2 assume b2: "emits b1 ?pad b2"
    then show "bit_ref_ok b2" by blast
    show "fits b2 (o8 * 8)" by (rule fits_emits [OF r1 b2])
  qed (use ok o8 in auto)
  moreover have "to_bits 2 (ucast ?l :: u64) = to_bits 2 ?l" by (rule to_bits_ucast) simp_all
  moreover have "pack_constrained_whole_number lg sg b n lb ub True =
      handle_code (pack b (ucast ?l) 2) (\<lambda>b. handle_code (align_bytes_zero b) (\<lambda>b.
        pack b (as_u64 sg ?d) (o8 * 8)))"
    using ra(2) o8(3) unfolding pack_cwn_eq [OF v ra(1), of b True] Let_def o8_def [symmetric]
    by (simp only: of_nat_pred) simp
  ultimately show ?thesis unfolding e by (simp add: mult.commute)
qed

lemma cwn_emits:
  fixes n :: "'a::len word"
  assumes ok: "bit_ref_ok b" and v: "valid_cwn lg sg lb ub n"
    and room: "fits b (length (enc_cwn sg lb ub al (bit_pos b) n))"
  shows "\<exists>b'. pack_constrained_whole_number lg sg b n lb ub al = (SRSASN_SUCCESS, b') \<and>
     emits b (enc_cwn sg lb ub al (bit_pos b) n) b'"
proof -
  obtain ra where ra: "ra = nat (ival sg ub - ival sg lb) + 1" by blast
  note f = cwn_facts [OF v, folded ra] and eq = pack_cwn_eq [OF v ra, of b al]
    and e = enc_cwn_cases [OF ra refl]
  consider "ra = 1" | "ra \<noteq> 1" "\<not> al \<or> ra < 256" | "al" "256 \<le> ra" "ra \<le> 65536" | "al" "65536 < ra"
    by linarith
  then show ?thesis
  proof cases
    case 1
    then show ?thesis using ok by (simp add: eq e(1))
  next
    case 2
    note e2 = e(2) [OF 2, of "bit_pos b" n]
    have "fits b (ceil_log2 ra)" using room unfolding e2 by simp
    from pack_emits_as [OF ok this, of sg "n - lb"] f(4,5)
    show ?thesis unfolding eq e2 using 2 by auto
  next
    case 3
    then show ?thesis using cwn_emits_mid [OF ok v ra] room by simp
  next
    case 4
    then show ?thesis using cwn_emits_large [OF ok v ra] room by simp
  qed
qed


lemma unpack_reads_word:
  fixes x v :: "'a::len word"
  assumes "bit_ref_ok b" "remaining b = to_bits n x @ rest" "unat x < 2 ^ n" "n \<le> LENGTH('a)"
  shows "unpack v b n = (SRSASN_SUCCESS, x, advance b n)"
  using unpack_reads [OF assms(1,2), of n v] assms(3,4) by (simp add: of_bits_to_bits_id)

lemma cwn_reads_mid:
  fixes n :: "'a::len word"
  assumes ok: "bit_ref_ok b" and v: "valid_cwn lg sg lb ub n"
    and ra: "ra = nat (ival sg ub - ival sg lb) + 1" "256 \<le> ra" "ra \<le> 65536"
    and rem: "remaining b = enc_cwn sg lb ub True (bit_pos b) n @ rest"
  shows "unpack_constrained_whole_number lg sg w b lb ub True =
     (SRSASN_SUCCESS, n, advance b (length (enc_cwn sg lb ub True (bit_pos b) n)))"
proof -
  note f = cwn_facts [OF v, folded ra(1)]
  let ?m = "ceil_frac (ceil_log2 ra) 8 * 8" and ?pad = "replicate (pad_len (bit_pos b)) False"
  let ?b1 = "advance b (pad_len (bit_pos b))"
  have e: "enc_cwn sg lb ub True (bit_pos b) n = ?pad @ to_bits ?m (n - lb)"
    using enc_cwn_cases(3) [OF ra(1) refl TrueI ra(2,3)] by (simp add: mult.commute)
  have m: "ceil_log2 ra \<le> ?m" "?m \<le> LENGTH('a)"
    using f(4,5) v unfolding ceil_frac_def valid_cwn_def by auto
  have d: "unat (n - lb) < 2 ^ ?m"
    using f(3) by (rule less_le_trans) (use m in \<open>simp add: power_increasing\<close>)
  have r1: "remaining b = ?pad @ (to_bits ?m (n - lb) @ rest)" using rem e by simp
  note s1 = remaining_split [OF ok r1, simplified]
  note r2 = unpack_reads_word [OF s1(4,2) d m(2)]
  note s2 = remaining_split [OF s1(4,2), simplified]
  have "pad_len (bit_pos b + (pad_len (bit_pos b) + ?m)) = 0"
    using pad_len_aligned [of "bit_pos b"] by (intro pad_len_0) presburger
  then have a2: "align_bytes (advance b (pad_len (bit_pos b) + ?m)) =
      (SRSASN_SUCCESS, advance b (pad_len (bit_pos b) + ?m))"
    using align_bytes_advance [OF s2(4)] by simp
  have "\<not> ra < 256" "ra \<noteq> 1" using ra by auto
  then show ?thesis
    unfolding unpack_constrained_whole_number_def Let_def f(1,6) e
    using f(7) ra(3) by (simp add: align_bytes_advance [OF ok] r2 a2)
qed

lemma cwn_reads_large:
  fixes n :: "'a::len word"
  assumes ok: "bit_ref_ok b" and v: "valid_cwn lg sg lb ub n"
    and ra: "ra = nat (ival sg ub - ival sg lb) + 1" "65536 < ra"
    and rem: "remaining b = enc_cwn sg lb ub True (bit_pos b) n @ rest"
  shows "unpack_constrained_whole_number lg sg w b lb ub True =
     (SRSASN_SUCCESS, n, advance b (length (enc_cwn sg lb ub True (bit_pos b) n)))"
proof -
  define o8 where "o8 = ceil_frac (bit_length (max (unat (n - lb)) 1)) 8"
  note f = cwn_facts [OF v, folded ra(1)] and l = cwn_large [OF v ra(2) [unfolded ra(1)], folded o8_def ra(1)]
  let ?l = "of_nat (o8 - 1) :: u32" and ?pad = "replicate (pad_len (bit_pos b + 2)) False"
  note e = enc_cwn_cases(4) [OF ra(1) refl, of True o8 n "bit_pos b", OF TrueI ra(2) o8_def]
  have o8: "8 * o8 \<le> LENGTH('a)" "unat ?l < 2 ^ 2" "unat ((?l + 1) * 8) = 8 * o8"
    "unat (?l * 8 + 8) = 8 * o8" using l(3,5) by auto
  have r0: "remaining b = to_bits 2 ?l @ (?pad @ to_bits (8 * o8) (n - lb) @ rest)" using rem e by simp
  have u0: "unpack (0::u32) b 2 = (SRSASN_SUCCESS, ?l, advance b 2)"
    using unpack_reads_word [OF ok r0 o8(2)] by simp
  note s0 = remaining_split [OF ok r0, simplified]
  note s1 = remaining_split [OF s0(4,2), simplified]
  have u1: "unpack w (advance b (2 + pad_len (bit_pos b + 2))) (8 * o8) =
      (SRSASN_SUCCESS, n - lb, advance b (2 + pad_len (bit_pos b + 2) + 8 * o8))"
    using unpack_reads_word [OF s1(4,2) l(4) o8(1)] by simp
  have "\<not> ra < 256" "ra \<noteq> 1" "\<not> ra \<le> 65536" using ra by auto
  then show ?thesis
    unfolding unpack_constrained_whole_number_def Let_def f(1,6) e l(1)
    using f(7) u1 o8(4) by (simp add: u0 align_bytes_advance [OF s0(4)] add.assoc del: add_2_eq_Suc add_2_eq_Suc')
qed

lemma cwn_reads:
  fixes n :: "'a::len word"
  assumes ok: "bit_ref_ok b" and v: "valid_cwn lg sg lb ub n"
    and rem: "remaining b = enc_cwn sg lb ub al (bit_pos b) n @ rest"
  shows "unpack_constrained_whole_number lg sg w b lb ub al =
     (SRSASN_SUCCESS, n, advance b (length (enc_cwn sg lb ub al (bit_pos b) n)))"
proof -
  obtain ra where ra: "ra = nat (ival sg ub - ival sg lb) + 1" by blast
  note f = cwn_facts [OF v, folded ra] and e = enc_cwn_cases [OF ra refl]
  consider "ra = 1" | "ra \<noteq> 1" "\<not> al \<or> ra < 256" | "al" "256 \<le> ra" "ra \<le> 65536" | "al" "65536 < ra"
    by linarith
  then show ?thesis
  proof cases
    case 1
    then have "n - lb = 0" using f(2) by (simp add: unat_eq_zero)
    with 1 f(1,7) show ?thesis using ok by (simp add: e(1) unpack_constrained_whole_number_def)
  next
    case 2
    note e2 = e(2) [OF 2, of "bit_pos b" n]
    have u: "unpack w b (ceil_log2 ra) = (SRSASN_SUCCESS, n - lb, advance b (ceil_log2 ra))"
      using unpack_reads_word [OF ok _ f(3,5)] rem unfolding e2 by simp
    show ?thesis
      unfolding unpack_constrained_whole_number_def Let_def f(1,6) e2
      using f(7) 2 v by (auto simp: u valid_cwn_def)
  next
    case 3
    then show ?thesis using cwn_reads_mid [OF ok v ra] rem by simp
  next
    case 4
    then show ?thesis using cwn_reads_large [OF ok v ra] rem by simp
  qed
qed

interpretation cwn: per_codec "enc_cwn sg lb ub al" "\<lambda>b n. pack_constrained_whole_number lg sg b n lb ub al"
    "\<lambda>b. unpack_constrained_whole_number lg sg w b lb ub al" "valid_cwn lg sg lb ub"
  for lg :: log2f_impl and sg al :: bool and lb ub w :: "'a::len word"
  by unfold_locales (use cwn_emits cwn_reads in \<open>blast+\<close>)


section \<open>Normally small numbers, lengths and enumerations\<close>

text \<open>A word whose value fits in \<open>n\<close> bits can be packed through the 64-bit parameter of \<open>pack\<close>.\<close>

lemma pack_emits_ucast:
  fixes x :: "'a::len word"
  assumes "bit_ref_ok b" "fits b n" "n < 64" "n \<le> LENGTH('a)"
  shows "\<exists>b'. pack b (ucast x) n = (SRSASN_SUCCESS, b') \<and> emits b (to_bits n x) b'"
  using pack_emits_as [OF assms, of False x] by (simp add: as_u64_def)

definition enc_small :: "nat \<Rightarrow> u32 \<Rightarrow> bool list" where
  "enc_small p n = to_bits 7 n"

lemma to_bits_flag: "unat (x :: 'a::len word) < 2 ^ n \<Longrightarrow> to_bits (Suc n) x = False # to_bits n x"
  using to_bits_pad [of x n "Suc n"] by simp

interpretation small: per_codec enc_small pack_norm_small_non_neg_whole_number
    "unpack_norm_small_non_neg_whole_number w" "\<lambda>n. unat n \<le> 63" for w :: u32
proof
  fix b and v :: u32
  assume "bit_ref_ok b" "unat v \<le> 63" "fits b (length (enc_small (bit_pos b) v))"
  then show "\<exists>b'. pack_norm_small_non_neg_whole_number b v = (SRSASN_SUCCESS, b') \<and>
      emits b (enc_small (bit_pos b) v) b'"
    using pack_emits_ucast [of b 7 v] by (simp add: pack_norm_small_non_neg_whole_number_def enc_small_def)
next
  fix b and v :: u32 and rest
  assume ok: "bit_ref_ok b" and v: "unat v \<le> 63" and rem: "remaining b = enc_small (bit_pos b) v @ rest"
  have e: "remaining b = [False] @ (to_bits 6 v @ rest)"
    using rem v to_bits_flag [of v 6] by (simp add: enc_small_def)
  note s = remaining_split [OF ok e, simplified]
  have "unpack w (advance b 1) 6 = (SRSASN_SUCCESS, v, advance (advance b 1) 6)"
    using v by (intro unpack_reads_word) (use s in simp_all)
  then show "unpack_norm_small_non_neg_whole_number w b =
      (SRSASN_SUCCESS, v, advance b (length (enc_small (bit_pos b) v)))"
    using unpack_flag_reads [OF ok e, of False]
    by (simp add: unpack_norm_small_non_neg_whole_number_def enc_small_def)
qed

text \<open>Length determinants below 16K: one octet, or two with the prefix \<open>10\<close>.\<close>

definition enc_length :: "nat \<Rightarrow> u32 \<Rightarrow> bool list" where
  "enc_length p n = (if n < 128 then to_bits 8 n else [True, False] @ to_bits 14 n)"

lemma length_emits:
  assumes ok: "bit_ref_ok b" and n: "n < 16384" and room: "fits b (length (enc_length p n))"
  shows "\<exists>b'. pack_length b n False = (SRSASN_SUCCESS, b') \<and> emits b (enc_length p n) b'"
proof (cases "n < 128")
  case True
  then show ?thesis
    using pack_emits_ucast [OF ok, of 8 n] room by (simp add: pack_length_def enc_length_def)
next
  case False
  have two: "to_bits 2 (2 :: u64) = [True, False]" by (simp add: to_bits_def bit_2_iff upt_rec)
  have "\<exists>b'. handle_code (pack b 2 2) (\<lambda>b. pack b (ucast n) 14) = (SRSASN_SUCCESS, b') \<and>
      emits b (to_bits 2 (2 :: u64) @ to_bits 14 n) b'"
  proof (intro handle_emits pack_emits pack_emits_ucast)
    show "fits b 2" using room False by (auto simp: enc_length_def intro: fits_mono)
    fix b1 assume b1: "emits b (to_bits 2 (2 :: u64)) b1"
    then show "bit_ref_ok b1" by blast
    show "fits b1 14" using fits_emits [OF _ b1, of 14] room False by (simp add: enc_length_def)
  qed (use ok in simp_all)
  with False n two show ?thesis by (simp add: pack_length_def enc_length_def)
qed

lemma length_reads:
  assumes ok: "bit_ref_ok b" and n: "n < 16384" and rem: "remaining b = enc_length p n @ rest"
  shows "unpack_length w b False = (SRSASN_SUCCESS, n, advance b (length (enc_length p n)))"
proof (cases "n < 128")
  case True
  then have u: "unat n < 2 ^ 7" by (simp add: word_less_nat_alt)
  have e: "remaining b = [False] @ (to_bits 7 n @ rest)"
    using rem True to_bits_flag [OF u] by (simp add: enc_length_def)
  note s = remaining_split [OF ok e, simplified]
  have "unpack w (advance b 1) 7 = (SRSASN_SUCCESS, n, advance (advance b 1) 7)"
    using u by (intro unpack_reads_word) (use s in simp_all)
  then show ?thesis
    using True unpack_flag_reads [OF ok e, of False] by (simp add: unpack_length_def enc_length_def)
next
  case False
  have e: "remaining b = [True] @ ([False] @ (to_bits 14 n @ rest))"
    using rem False by (simp add: enc_length_def)
  note s = remaining_split [OF ok e, simplified]
  have e': "remaining (advance b 1) = [False] @ (to_bits 14 n @ rest)" using s by simp
  have ok': "bit_ref_ok (advance b 1)" using s by simp
  note s' = remaining_split [OF ok' e']
  have u: "unat n < 2 ^ 14" using n by (simp add: word_less_nat_alt)
  have "unpack w (advance b (Suc 1)) 14 = (SRSASN_SUCCESS, n, advance (advance b (Suc 1)) 14)"
    using u by (intro unpack_reads_word) (use s' in simp_all)
  then show ?thesis
    using False unpack_flag_reads [OF ok e, of False] unpack_flag_reads [OF ok' e', of True]
    by (simp add: unpack_length_def enc_length_def)
qed

interpretation len: per_codec enc_length "\<lambda>b n. pack_length b n False"
    "\<lambda>b. unpack_length w b False" "\<lambda>n. n < 16384" for w :: u32
  by unfold_locales (use length_emits length_reads in \<open>blast+\<close>)

text \<open>The aligned determinant is the unaligned one after the step to the next byte.\<close>

lemma pack_length_aligned:
  assumes "bit_ref_ok b" "n < 16384"
  shows "pack_length b n True = pack_length (advance b (pad_len (bit_pos b))) n False"
proof -
  have "\<not> 65536 < n" using assms(2) by (simp add: word_less_nat_alt)
  then show ?thesis using assms by (simp add: pack_length_def align_bytes_advance)
qed

lemma length_reads_aligned:
  assumes ok: "bit_ref_ok b" and n: "n < 16384" and al: "bit_pos b mod 8 = 0"
    and rem: "remaining b = enc_length p n @ rest"
  shows "unpack_length w b True = (SRSASN_SUCCESS, n, advance b (length (enc_length p n)))"
proof (cases "n < 128")
  case True
  then have e: "remaining b = to_bits 8 n @ rest" using rem by (simp add: enc_length_def)
  have "unpack w b 8 = (SRSASN_SUCCESS, n, advance b 8)"
    using True by (intro unpack_reads_word [OF ok e]) (simp_all add: word_less_nat_alt)
  with True al ok show ?thesis
    by (simp add: unpack_length_def enc_length_def align_bytes_advance)
next
  case False
  let ?h = "drop_bit 8 n" and ?l = "take_bit 8 n"
  have h: "unat ?h < 2 ^ 6"
    using n by (simp add: word_less_nat_alt unat_div drop_bit_eq_div less_mult_imp_div_less)
  have e: "remaining b = ([True, False] @ to_bits 6 ?h) @ (to_bits 8 ?l @ rest)"
    using rem False to_bits_append [of 6 8 n] by (simp add: enc_length_def)
  note s = remaining_split [OF ok e, simplified]
  have two: "of_bits [True, False] = (2 :: u32)" by (simp add: of_bits_def)
  have "of_bits ([True, False] @ to_bits 6 ?h) = 128 + ?h"
    unfolding of_bits_append two using h by (simp add: of_bits_to_bits_id)
  then have u1: "unpack w b 8 = (SRSASN_SUCCESS, 128 + ?h, advance b 8)"
    using unpack_reads [OF ok e, of 8 w] by simp
  have u2: "unpack (0::u32) (advance b 8) 8 = (SRSASN_SUCCESS, ?l, advance (advance b 8) 8)"
  proof (rule unpack_reads_word)
    show "unat ?l < 2 ^ 8" by (simp only: unsigned_take_bit_eq take_bit_nat_less_exp)
  qed (use s in simp_all)
  have lt: "\<not> 128 + ?h < 128" "?h < 64"
    using h by (simp_all add: word_less_nat_alt unat_word_ariths)
  have "push_bit 8 ?h + ?l = n" by (rule bits_ident)
  with False al ok u1 u2 lt show ?thesis
    by (simp add: unpack_length_def enc_length_def align_bytes_advance)
qed

lemma rewind_align:
  assumes "bit_ref_ok b" "emits (advance b (pad_len (bit_pos b))) bs b'"
  shows "align_bytes (rewind b b') = (SRSASN_SUCCESS, rewind (advance b (pad_len (bit_pos b))) b')"
proof -
  have "br_max b' = br_max b" "bit_ref_ok b'" using assms(2) unfolding emits_def by simp_all
  then have "bit_ref_ok (rewind b b')"
    using assms(1) unfolding bit_ref_ok_def by (simp add: rewind_def)
  from align_bytes_advance [OF this]
  show ?thesis by (simp add: advance_def rewind_def bit_pos_def)
qed

lemma unpack_length_align:
  "align_bytes b = (SRSASN_SUCCESS, b1) \<Longrightarrow> bit_ref_ok b1 \<Longrightarrow> bit_pos b1 mod 8 = 0 \<Longrightarrow>
   unpack_length w b True = unpack_length w b1 True"
  by (simp add: unpack_length_def align_bytes_advance)

lemma length_aligned_roundtrip:
  assumes ok: "bit_ref_ok b" and n: "n < 16384"
    and room: "fits b (pad_len (bit_pos b) + length (enc_length (bit_pos b) n))"
  shows "\<exists>b'. pack_length b n True = (SRSASN_SUCCESS, b') \<and>
    unpack_length w (rewind b b') True = (SRSASN_SUCCESS, n, b')"
proof -
  let ?b = "advance b (pad_len (bit_pos b))" and ?e = "enc_length (bit_pos b) n"
  have ok1: "bit_ref_ok ?b" and r: "fits ?b (length ?e)"
    using ok room by (simp_all add: fits_def)
  obtain b' where b': "pack_length ?b n False = (SRSASN_SUCCESS, b')" "emits ?b ?e b'"
    using length_emits [OF ok1 n r] by blast
  note ok2 = rewind_ok [OF ok1 b'(2)]
  have "unpack_length w (rewind ?b b') True = (SRSASN_SUCCESS, n, b')"
    using length_reads_aligned [OF ok2 n _ rewind_remaining [OF ok1 b'(2)]] rewind_advance [OF ok1 b'(2)]
    by simp
  with unpack_length_align [OF rewind_align [OF ok b'(2)] ok2] b'(1) pack_length_aligned [OF ok n]
  show ?thesis by simp
qed


text \<open>Enumerations: the index, or for an extension value the flag and a normally small number.\<close>

definition enc_enum :: "u32 \<Rightarrow> u32 \<Rightarrow> bool \<Rightarrow> nat \<Rightarrow> u32 \<Rightarrow> bool list" where
  "enc_enum nof_types nof_exts has_ext p e =
    (if \<not> has_ext then to_bits (ceil_log2 (unat nof_types)) e
     else if e < nof_types - nof_exts
     then False # to_bits (ceil_log2 (unat (nof_types - nof_exts))) e
     else True # enc_small (p + 1) (e - (nof_types - nof_exts)))"

definition valid_enum :: "log2f_impl \<Rightarrow> u32 \<Rightarrow> u32 \<Rightarrow> bool \<Rightarrow> u32 \<Rightarrow> bool" where
  "valid_enum lg nof_types nof_exts has_ext e \<longleftrightarrow> log2f_exact lg \<and> e < nof_types \<and>
     unat nof_types \<le> 2 ^ 21 \<and>
     (has_ext \<longrightarrow> nof_exts < nof_types \<and> unat nof_exts \<le> 64)"

lemma enum_index:
  assumes "log2f_exact lg" "e < m" "unat (m::u32) \<le> 2 ^ 21"
  shows "ceil_log2f lg (float_of_uint (unat m)) = ceil_log2 (unat m)" "unat e < 2 ^ ceil_log2 (unat m)"
    "ceil_log2 (unat m) \<le> 21"
proof -
  have "unat e < unat m" using assms(2) by (simp add: word_less_nat_alt)
  then show "ceil_log2f lg (float_of_uint (unat m)) = ceil_log2 (unat m)" "unat e < 2 ^ ceil_log2 (unat m)"
    "ceil_log2 (unat m) \<le> 21"
    using assms log2f_exactD(1) [of lg "unat m"] less_2_ceil_log2 ceil_log2_le by simp_all
qed

lemma enum_exts:
  assumes "valid_enum lg nof_types nof_exts True e"
  shows "unat (nof_types - nof_exts) \<le> 2 ^ 21" "0 < nof_types - nof_exts"
    "\<not> e < nof_types - nof_exts \<Longrightarrow> unat (e - (nof_types - nof_exts)) \<le> 63"
proof -
  have v: "unat e < unat nof_types" "unat nof_types \<le> 2 ^ 21" "unat nof_exts < unat nof_types" "unat nof_exts \<le> 64"
    using assms by (simp_all add: valid_enum_def word_less_nat_alt)
  have d: "unat (nof_types - nof_exts) = unat nof_types - unat nof_exts"
    using v by (simp add: unat_sub word_le_nat_alt)
  with v show "unat (nof_types - nof_exts) \<le> 2 ^ 21" "0 < nof_types - nof_exts"
    by (simp_all add: word_less_nat_alt)
  assume "\<not> e < nof_types - nof_exts"
  then have "unat (e - (nof_types - nof_exts)) = unat e - unat (nof_types - nof_exts)"
    by (simp add: unat_sub not_less word_le_nat_alt)
  with v d show "unat (e - (nof_types - nof_exts)) \<le> 63" by simp
qed

lemma enum_emits:
  assumes ok: "bit_ref_ok b" and v: "valid_enum lg nof_types nof_exts has_ext e"
    and room: "fits b (length (enc_enum nof_types nof_exts has_ext (bit_pos b) e))"
  shows "\<exists>b'. pack_enum lg b e nof_types nof_exts has_ext = (SRSASN_SUCCESS, b') \<and>
     emits b (enc_enum nof_types nof_exts has_ext (bit_pos b) e) b'"
proof -
  let ?m = "nof_types - nof_exts" and ?ext = "\<not> e < nof_types - nof_exts"
  have lg: "log2f_exact lg" and e: "\<not> nof_types \<le> e" "e < nof_types" "unat nof_types \<le> 2 ^ 21"
    using v by (simp_all add: valid_enum_def not_le)
  show ?thesis
  proof (cases has_ext)
    case False
    with enum_index [OF lg e(2,3)] show ?thesis
      using pack_emits_ucast [OF ok, of "ceil_log2 (unat nof_types)" e] room e
      by (simp add: pack_enum_def enc_enum_def)
  next
    case True
    note x = enum_exts [OF v [unfolded eqTrueI [OF True]]]
    let ?rest = "if ?ext then enc_small (bit_pos b + 1) (e - ?m) else to_bits (ceil_log2 (unat ?m)) e"
    have "\<exists>b'. handle_code (pack b (of_bool ?ext) 1) (\<lambda>b.
        if \<not> ?ext then pack b (ucast e) (ceil_log2f lg (float_of_uint (unat ?m)))
        else pack_norm_small_non_neg_whole_number b (e - ?m)) = (SRSASN_SUCCESS, b') \<and>
        emits b (to_bits 1 (of_bool ?ext :: u64) @ ?rest) b'"
    proof (intro handle_emits pack_emits)
      show "fits b 1" using room True by (auto simp: enc_enum_def intro: fits_mono)
      fix b1 assume b1: "emits b (to_bits 1 (of_bool ?ext :: u64)) b1"
      have r1: "fits b1 (length ?rest)" using fits_emits [OF _ b1] room True by (auto simp: enc_enum_def)
      have ok1: "bit_ref_ok b1" using b1 by blast
      have "?ext \<Longrightarrow> \<exists>b'. pack_norm_small_non_neg_whole_number b1 (e - ?m) = (SRSASN_SUCCESS, b') \<and>
          emits b1 (enc_small (bit_pos b + 1) (e - ?m)) b'"
        using small.pk_emits [OF ok1 x(3)] r1 by (simp add: enc_small_def)
      moreover have "\<not> ?ext \<Longrightarrow> \<exists>b'. pack b1 (ucast e) (ceil_log2f lg (float_of_uint (unat ?m))) =
          (SRSASN_SUCCESS, b') \<and> emits b1 (to_bits (ceil_log2 (unat ?m)) e) b'"
        using pack_emits_ucast [OF ok1, of "ceil_log2 (unat ?m)" e] r1 enum_index [OF lg _ x(1), of e] by simp
      ultimately show "\<exists>b''. (if \<not> ?ext then pack b1 (ucast e) (ceil_log2f lg (float_of_uint (unat ?m)))
          else pack_norm_small_non_neg_whole_number b1 (e - ?m)) = (SRSASN_SUCCESS, b'') \<and> emits b1 ?rest b''"
        by simp
    qed (use ok in simp_all)
    moreover have "to_bits 1 (of_bool ?ext :: u64) = [?ext]" by (simp add: to_bits_def)
    moreover have "pack_enum lg b e nof_types nof_exts has_ext = handle_code (pack b (of_bool ?ext) 1) (\<lambda>b.
        if \<not> ?ext then pack b (ucast e) (ceil_log2f lg (float_of_uint (unat ?m)))
        else pack_norm_small_non_neg_whole_number b (e - ?m))"
      using True e(1) unfolding pack_enum_def Let_def by (simp only: if_True if_False not_less)
    moreover have "enc_enum nof_types nof_exts has_ext (bit_pos b) e = [?ext] @ ?rest"
      using True by (simp add: enc_enum_def)
    ultimately show ?thesis by (simp only:)
  qed
qed

lemma enum_reads:
  assumes ok: "bit_ref_ok b" and v: "valid_enum lg nof_types nof_exts has_ext e"
    and rem: "remaining b = enc_enum nof_types nof_exts has_ext (bit_pos b) e @ rest"
  shows "unpack_enum lg nof_types nof_exts has_ext b =
     (SRSASN_SUCCESS, e, advance b (length (enc_enum nof_types nof_exts has_ext (bit_pos b) e)))"
proof -
  let ?m = "nof_types - nof_exts"
  have lg: "log2f_exact lg" and e: "\<not> nof_types \<le> e" "e < nof_types" "unat nof_types \<le> 2 ^ 21"
    using v by (simp_all add: valid_enum_def not_le)
  consider "\<not> has_ext" | "has_ext" "e < ?m" | "has_ext" "\<not> e < ?m" by blast
  then show ?thesis
  proof cases
    case 1
    with enum_index [OF lg e(2,3)] unpack_reads_word [OF ok, of "ceil_log2 (unat nof_types)" e rest 0] rem e
    show ?thesis by (simp add: unpack_enum_def enc_enum_def)
  next
    case 2
    note i = enum_index [OF lg 2(2) enum_exts(1) [OF v [unfolded eqTrueI [OF 2(1)]]]]
    have r: "remaining b = [False] @ (to_bits (ceil_log2 (unat ?m)) e @ rest)"
      using rem 2 by (simp add: enc_enum_def)
    note s = remaining_split [OF ok r, simplified]
    have "unpack 0 (advance b 1) (ceil_log2 (unat ?m)) =
        (SRSASN_SUCCESS, e, advance (advance b 1) (ceil_log2 (unat ?m)))"
      using s i by (intro unpack_reads_word) simp_all
    with 2 e i(1) unpack_flag_reads [OF ok r] show ?thesis
      by (simp add: unpack_enum_def enc_enum_def)
  next
    case 3
    have r: "remaining b = [True] @ (enc_small (bit_pos b + 1) (e - ?m) @ rest)"
      using rem 3 by (simp add: enc_enum_def)
    note s = remaining_split [OF ok r, simplified]
    have "unpack_norm_small_non_neg_whole_number 0 (advance b 1) =
        (SRSASN_SUCCESS, e - ?m, advance (advance b 1) 7)"
      using small.un_reads [of "advance b 1" "e - ?m" rest] s enum_exts(3) [OF v [unfolded eqTrueI [OF 3(1)]] 3(2)]
      by (simp add: enc_small_def)
    with 3 e unpack_flag_reads [OF ok r] show ?thesis
      by (simp add: unpack_enum_def enc_enum_def enc_small_def)
  qed
qed

interpretation enum: per_codec "enc_enum nof_types nof_exts has_ext"
    "\<lambda>b e. pack_enum lg b e nof_types nof_exts has_ext" "unpack_enum lg nof_types nof_exts has_ext"
    "valid_enum lg nof_types nof_exts has_ext"
  for lg :: log2f_impl and nof_types nof_exts :: u32 and has_ext :: bool
  by unfold_locales (use enum_emits enum_reads in \<open>blast+\<close>)


section \<open>Octet strings and sequences-of\<close>

lemma octets_emits:
  "bit_ref_ok b \<Longrightarrow> fits b (8 * length xs) \<Longrightarrow>
   \<exists>b'. pack_octets b xs = (SRSASN_SUCCESS, b') \<and> emits b (concat (map byte_bits xs)) b'"
proof (induction xs arbitrary: b)
  case (Cons x xs)
  have "\<exists>b''. handle_code (pack b (ucast x) 8) (\<lambda>b. pack_octets b xs) = (SRSASN_SUCCESS, b'') \<and>
      emits b (to_bits 8 x @ concat (map byte_bits xs)) b''"
  proof (intro handle_emits pack_emits_ucast Cons.IH)
    show "fits b 8" using Cons.prems(2) by (auto intro: fits_mono)
    fix b1 assume b1: "emits b (to_bits 8 x) b1"
    then show "bit_ref_ok b1" by blast
    show "fits b1 (8 * length xs)" using fits_emits [OF _ b1] Cons.prems(2) by simp
  qed (use Cons.prems in simp_all)
  then show ?case by (simp add: byte_bits_def [of x])
qed simp

text \<open>A string behind its length: the unaligned variants of the unbounded and bounded octet string.\<close>

definition enc_octstring :: "nat \<Rightarrow> bytes \<Rightarrow> bool list" where
  "enc_octstring p xs = enc_length p (of_nat (length xs)) @ concat (map byte_bits xs)"

interpretation octstring: per_codec enc_octstring "\<lambda>b xs. unbounded_octstring_pack b xs False"
    "\<lambda>b. unbounded_octstring_unpack b False" "\<lambda>xs. length xs < 16384"
proof
  fix b and xs :: bytes
  assume ok: "bit_ref_ok b" and l: "length xs < 16384" and room: "fits b (length (enc_octstring (bit_pos b) xs))"
  let ?n = "of_nat (length xs) :: u32"
  have n: "?n < 16384" using l by (simp add: word_less_nat_alt unat_of_nat_eq)
  show "\<exists>b'. unbounded_octstring_pack b xs False = (SRSASN_SUCCESS, b') \<and> emits b (enc_octstring (bit_pos b) xs) b'"
    unfolding unbounded_octstring_pack_def enc_octstring_def
  proof (intro handle_emits length_emits octets_emits)
    show "fits b (length (enc_length (bit_pos b) ?n))"
      using room unfolding enc_octstring_def by (auto intro: fits_mono)
    fix b1 assume b1: "emits b (enc_length (bit_pos b) ?n) b1"
    then show "bit_ref_ok b1" by blast
    show "fits b1 (8 * length xs)" using fits_emits [OF _ b1] room by (simp add: enc_octstring_def)
  qed (use ok n in simp_all)
next
  fix b and xs :: bytes and rest
  assume ok: "bit_ref_ok b" and l: "length xs < 16384" and rem: "remaining b = enc_octstring (bit_pos b) xs @ rest"
  let ?n = "of_nat (length xs) :: u32"
  have n: "?n < 16384" "unat ?n = length xs" using l by (simp_all add: word_less_nat_alt unat_of_nat_eq)
  have r: "remaining b = enc_length (bit_pos b) ?n @ (concat (map byte_bits xs) @ rest)"
    using rem by (simp add: enc_octstring_def)
  note s = remaining_split [OF ok r]
  show "unbounded_octstring_unpack b False =
      (SRSASN_SUCCESS, xs, advance b (length (enc_octstring (bit_pos b) xs)))"
    using length_reads [OF ok n(1) r, of 0] unpack_each_reads [OF s(4,2)] n(2)
    by (simp add: unbounded_octstring_unpack_def enc_octstring_def)
qed

text \<open>
  A sequence-of behind its bounded length: the codec of the items gives the codec of the sequence.
  The bound of the length stays below 64K, as every constrained sequence of the message schemas does.
\<close>

definition enc_seq_of :: "(nat \<Rightarrow> 'v \<Rightarrow> bool list) \<Rightarrow> u32 \<Rightarrow> u32 \<Rightarrow> bool \<Rightarrow> nat \<Rightarrow> 'v list \<Rightarrow> bool list" where
  "enc_seq_of enc lb ub al p vs =
    (let l = enc_cwn False lb ub al p (of_nat (length vs)) in l @ enc_items enc (p + length l) vs)"

definition valid_seq_of :: "log2f_impl \<Rightarrow> ('v \<Rightarrow> bool) \<Rightarrow> u32 \<Rightarrow> u32 \<Rightarrow> 'v list \<Rightarrow> bool" where
  "valid_seq_of lg valid lb ub vs \<longleftrightarrow> (\<forall>v\<in>set vs. valid v) \<and> log2f_exact lg \<and> unat ub < 65536 \<and>
     unat lb \<le> length vs \<and> length vs \<le> unat ub"

lemma valid_seq_of_length:
  assumes "valid_seq_of lg valid lb ub vs"
  shows "valid_cwn lg False lb ub (of_nat (length vs))" "unat (of_nat (length vs) :: u32) = length vs"
    "\<not> 65536 \<le> ival False ub"
proof -
  have v: "unat ub < 65536" "unat lb \<le> length vs" "length vs \<le> unat ub" "log2f_exact lg"
    using assms by (simp_all add: valid_seq_of_def)
  then show l: "unat (of_nat (length vs) :: u32) = length vs" by (simp add: unat_of_nat_eq)
  have u: "ival False w = int (unat w)" for w :: u32 by (simp add: ival_def)
  show "\<not> 65536 \<le> ival False ub" unfolding u using v by linarith
  show "valid_cwn lg False lb ub (of_nat (length vs))"
    unfolding valid_cwn_def u l using v by (intro conjI) (simp_all del: of_nat_unat)
qed

context per_codec
begin

lemma seq_of_emits:
  assumes ok: "bit_ref_ok b" and v: "valid_seq_of lg valid lb ub vs"
    and room: "fits b (length (enc_seq_of enc lb ub al (bit_pos b) vs))"
  shows "\<exists>b'. pack_dyn_seq_of lg pk b vs lb ub al = (SRSASN_SUCCESS, b') \<and>
     emits b (enc_seq_of enc lb ub al (bit_pos b) vs) b'"
proof -
  let ?l = "enc_cwn False lb ub al (bit_pos b) (of_nat (length vs))"
  note l = valid_seq_of_length [OF v]
  show ?thesis
    unfolding pack_dyn_seq_of_def enc_seq_of_def Let_def pack_length_bounded_def if_not_P [OF l(3)]
  proof (intro handle_emits cwn.pk_emits)
    show "fits b (length ?l)" using room unfolding enc_seq_of_def by (auto simp: Let_def intro: fits_mono)
    fix b1 assume b1: "emits b ?l b1"
    have "fits b1 (length (enc_items enc (bit_pos b1) vs))"
      using fits_emits [OF _ b1] room by (simp add: enc_seq_of_def Let_def emits_pos [OF b1])
    then show "\<exists>b''. pack_items pk b1 vs = (SRSASN_SUCCESS, b'') \<and> emits b1 (enc_items enc (bit_pos b + length ?l) vs) b''"
      using items_emit [of b1 vs] b1 v by (auto simp: valid_seq_of_def emits_pos)
  qed (use ok l in simp_all)
qed

lemma seq_of_reads:
  assumes ok: "bit_ref_ok b" and v: "valid_seq_of lg valid lb ub vs"
    and rem: "remaining b = enc_seq_of enc lb ub al (bit_pos b) vs @ rest"
  shows "unpack_dyn_seq_of lg un b lb ub al =
     (SRSASN_SUCCESS, vs, advance b (length (enc_seq_of enc lb ub al (bit_pos b) vs)))"
proof -
  let ?l = "enc_cwn False lb ub al (bit_pos b) (of_nat (length vs))"
  note l = valid_seq_of_length [OF v]
  have r: "remaining b = ?l @ (enc_items enc (bit_pos b + length ?l) vs @ rest)"
    using rem by (simp add: enc_seq_of_def Let_def)
  note s = remaining_split [OF ok r]
  have "unpack_items un (advance b (length ?l)) (length vs) = (SRSASN_SUCCESS, vs,
      advance (advance b (length ?l)) (length (enc_items enc (bit_pos b + length ?l) vs)))"
    using items_read [OF s(4), of vs rest] s(2) v by (simp add: valid_seq_of_def)
  then show ?thesis
    using cwn.un_reads [OF ok l(1) r, of 0] l(2,3)
    by (simp add: unpack_dyn_seq_of_def unpack_length_bounded_def enc_seq_of_def Let_def)
qed

lemma seq_of_codec: "per_codec (enc_seq_of enc lb ub al) (\<lambda>b vs. pack_dyn_seq_of lg pk b vs lb ub al)
    (\<lambda>b. unpack_dyn_seq_of lg un b lb ub al) (valid_seq_of lg valid lb ub)"
  by unfold_locales (use seq_of_emits seq_of_reads in \<open>blast+\<close>)

end

interpretation cwn_seq: per_codec "enc_seq_of (enc_cwn sg lo hi al) lb ub al"
    "\<lambda>b vs. pack_dyn_seq_of lg (\<lambda>b n. pack_constrained_whole_number lg sg b n lo hi al) b vs lb ub al"
    "\<lambda>b. unpack_dyn_seq_of lg (\<lambda>b. unpack_constrained_whole_number lg sg w b lo hi al) b lb ub al"
    "valid_seq_of lg (valid_cwn lg sg lo hi) lb ub"
  for lg :: log2f_impl and sg al :: bool and lo hi w :: "'a::len word" and lb ub :: u32
  by (rule cwn.seq_of_codec)

interpretation octstring_seq: per_codec "enc_seq_of enc_octstring lb ub False"
    "\<lambda>b vs. pack_dyn_seq_of lg (\<lambda>b xs. unbounded_octstring_pack b xs False) b vs lb ub False"
    "\<lambda>b. unpack_dyn_seq_of lg (\<lambda>b. unbounded_octstring_unpack b False) b lb ub False"
    "valid_seq_of lg (\<lambda>xs. length xs < 16384) lb ub"
  for lg :: log2f_impl and lb ub :: u32
  by (rule octstring.seq_of_codec)

section \<open>Properties\<close>

text \<open>
  C15: a value that \<open>pack\<close> wrote in \<open>n\<close> bits is the value \<open>unpack\<close> reads back, reduced to those bits, and
  reader and writer end at the same position. No bit before the start position changes.
\<close>

theorem pack_unpack_roundtrip:
  assumes "bit_ref_ok b" "n < 64" "fits b n" "n \<le> LENGTH('a)"
  shows "\<exists>b'. pack b v n = (SRSASN_SUCCESS, b') \<and> bit_ref_ok b' \<and> bit_pos b' = bit_pos b + n \<and>
     take (bit_pos b) (written b') = written b \<and>
     unpack (w :: 'a::len word) (rewind b b') n = (SRSASN_SUCCESS, ucast (take_bit n v), b')"
proof -
  obtain b' where b': "pack b v n = (SRSASN_SUCCESS, b')" "emits b (to_bits n v) b'"
    using pack_emits assms by blast
  have "of_bits (to_bits n v) = (ucast (take_bit n v) :: 'a word)"
    using ucast_of_bits [of "to_bits n v", where 'b = 64 and 'a = 'a] assms(2)
    by (simp add: of_bits_to_bits)
  then have "unpack w (rewind b b') n = (SRSASN_SUCCESS, ucast (take_bit n v), b')"
    using unpack_reads [OF rewind_ok [OF assms(1) b'(2)] rewind_remaining [OF assms(1) b'(2)], of n w]
      rewind_advance [OF assms(1) b'(2)] assms(4) by simp
  moreover have "take (bit_pos b) (written b') = written b"
    using b'(2) unfolding emits_def by (metis append_eq_conv_conj length_written)
  ultimately show ?thesis using b' emits_pos [OF b'(2)] by auto
qed

theorem pack_unpack_roundtrip_witness:
  "\<exists>b'. pack (bit_ref_new [0, 0] 2) 1337 11 = (SRSASN_SUCCESS, b') \<and> bit_ref_ok b' \<and>
     bit_pos b' = bit_pos (bit_ref_new [0, 0] 2) + 11 \<and>
     take (bit_pos (bit_ref_new [0, 0] 2)) (written b') = written (bit_ref_new [0, 0] 2) \<and>
     unpack (0 :: u16) (rewind (bit_ref_new [0, 0] 2) b') 11 = (SRSASN_SUCCESS, ucast (take_bit 11 (1337 :: u64)), b')"
  by (rule pack_unpack_roundtrip) (simp_all add: bit_ref_ok_def bit_ref_new_def fits_def bit_pos_def)

text \<open>
  C19: \<open>pack\<close> fails exactly when it is asked for 64 bits or more or when the bits do not fit between the
  cursor and the end of the buffer. It never leaves the buffer: the invariant holds afterwards in
  every case, the memory keeps its length and what had been written stays.
\<close>

theorem pack_outcome:
  assumes "bit_ref_ok b"
  shows "fst (pack b v n) = (if n < 64 \<and> fits b n then SRSASN_SUCCESS else SRSASN_ERROR_ENCODE_FAIL) \<and>
    bit_ref_ok (snd (pack b v n)) \<and> length (br_buf (snd (pack b v n))) = length (br_buf b) \<and>
    take (bit_pos b) (written (snd (pack b v n))) = written b"
proof -
  have "fst (pack b v n) = (if n < 64 \<and> fits b n then SRSASN_SUCCESS else SRSASN_ERROR_ENCODE_FAIL)"
    using pack_emits [OF assms, of n v] pack_full [OF assms, of n v] by (auto simp: pack_def)
  with keeps_written [OF pack_keeps] pack_keeps assms show ?thesis by (simp add: keeps_def)
qed

theorem pack_outcome_witness:
  "fst (pack (bit_ref_new [7] 1) 5 9) = (if (9::nat) < 64 \<and> fits (bit_ref_new [7] 1) 9 then SRSASN_SUCCESS
     else SRSASN_ERROR_ENCODE_FAIL) \<and>
   bit_ref_ok (snd (pack (bit_ref_new [7] 1) 5 9)) \<and>
   length (br_buf (snd (pack (bit_ref_new [7] 1) 5 9))) = length (br_buf (bit_ref_new [7] 1)) \<and>
   take (bit_pos (bit_ref_new [7] 1)) (written (snd (pack (bit_ref_new [7] 1) 5 9))) = written (bit_ref_new [7] 1)"
  by (rule pack_outcome) (simp add: bit_ref_ok_def bit_ref_new_def)



text \<open>
  : a length determinant below 16K that fits is encoded and decoded to itself, at any bit position
  and in both alignments (the aligned one needs room for the padding as well).
\<close>

theorem length_determinant_roundtrip:
  assumes "bit_ref_ok b" "n < 16384"
    and "fits b ((if aligned then pad_len (bit_pos b) else 0) + (if n < 128 then 8 else 16))"
  shows "\<exists>b'. pack_length b n aligned = (SRSASN_SUCCESS, b') \<and>
    unpack_length w (rewind b b') aligned = (SRSASN_SUCCESS, n, b')"
proof -
  have l: "length (enc_length p n) = (if n < 128 then 8 else 16)" for p
    by (simp add: enc_length_def)
  show ?thesis
  proof (cases aligned)
    case True
    then show ?thesis using length_aligned_roundtrip [OF assms(1,2)] assms(3) by (simp only: l if_True)
  next
    case False
    then show ?thesis using len.roundtrip [OF assms(1,2)] assms(3) by (simp only: l if_False add_0)
  qed
qed

theorem length_determinant_roundtrip_witness:
  "\<exists>b'. pack_length (bit_ref_new [0, 0] 2) 300 True = (SRSASN_SUCCESS, b') \<and>
    unpack_length 0 (rewind (bit_ref_new [0, 0] 2) b') True = (SRSASN_SUCCESS, 300, b')"
  by (rule length_determinant_roundtrip) (simp_all add: bit_ref_ok_def bit_ref_new_def fits_def bit_pos_def)

text \<open>
  : an enumerated value, of the root or of the extension part, is encoded and decoded to itself.
\<close>

theorem enum_roundtrip:
  assumes "bit_ref_ok b" "valid_enum lg nof_types nof_exts has_ext e"
    and "fits b (length (enc_enum nof_types nof_exts has_ext (bit_pos b) e))"
  shows "\<exists>b'. pack_enum lg b e nof_types nof_exts has_ext = (SRSASN_SUCCESS, b') \<and>
    unpack_enum lg nof_types nof_exts has_ext (rewind b b') = (SRSASN_SUCCESS, e, b')"
  using assms by (rule enum.roundtrip)

theorem enum_roundtrip_witness:
  "\<exists>b'. pack_enum ideal_log2f (bit_ref_new [0] 1) 6 7 2 True = (SRSASN_SUCCESS, b') \<and>
    unpack_enum ideal_log2f 7 2 True (rewind (bit_ref_new [0] 1) b') = (SRSASN_SUCCESS, 6, b')"
  by (rule enum_roundtrip)
    (simp_all add: bit_ref_ok_def bit_ref_new_def fits_def bit_pos_def valid_enum_def ideal_log2f_exact
      enc_enum_def enc_small_def)

text \<open>
  : a sequence-of octet strings, behind its constrained length, is encoded and decoded to itself:
  the composition of the length, the item loop and the string codec.
\<close>

theorem octstring_seq_roundtrip:
  assumes "bit_ref_ok b" "valid_seq_of lg (\<lambda>xs. length xs < 16384) lb ub xss"
    and "fits b (length (enc_seq_of enc_octstring lb ub False (bit_pos b) xss))"
  shows "\<exists>b'. pack_dyn_seq_of lg (\<lambda>b xs. unbounded_octstring_pack b xs False) b xss lb ub False =
      (SRSASN_SUCCESS, b') \<and>
    unpack_dyn_seq_of lg (\<lambda>b. unbounded_octstring_unpack b False) (rewind b b') lb ub False =
      (SRSASN_SUCCESS, xss, b')"
  using assms by (rule octstring_seq.roundtrip)

theorem octstring_seq_roundtrip_witness:
  "\<exists>b'. pack_dyn_seq_of ideal_log2f (\<lambda>b xs. unbounded_octstring_pack b xs False)
        (bit_ref_new (replicate 8 0) 8) [[1, 2], [3]] 1 4 False = (SRSASN_SUCCESS, b') \<and>
    unpack_dyn_seq_of ideal_log2f (\<lambda>b. unbounded_octstring_unpack b False)
        (rewind (bit_ref_new (replicate 8 0) 8) b') 1 4 False = (SRSASN_SUCCESS, [[1, 2], [3]], b')"
  by (rule octstring_seq_roundtrip)
    (simp_all add: bit_ref_ok_def bit_ref_new_def fits_def bit_pos_def valid_seq_of_def ideal_log2f_exact
      enc_seq_of_def enc_cwn_def ival_def enc_octstring_def enc_length_def ceil_log2_def bit_length.simps)

text \<open>
  : the unaligned encoder of a constrained whole number drops the code of \<open>Pack\<close>: when the bits do not
  fit it reports success, although \<open>pack\<close> itself failed.
\<close>

theorem constrained_whole_number_silent_overflow:
  assumes "bit_ref_ok b" "valid_cwn lg sg lb ub n" "\<not> fits b (length (enc_cwn sg lb ub False (bit_pos b) n))"
  shows "fst (pack_constrained_whole_number lg sg b n lb ub False) = SRSASN_SUCCESS \<and>
    fst (pack b (as_u64 sg (n - lb)) (ceil_log2f lg (float_of_uint (int_range sg lb ub)))) =
      SRSASN_ERROR_ENCODE_FAIL"
proof -
  obtain ra where ra: "ra = nat (ival sg ub - ival sg lb) + 1" by blast
  note f = cwn_facts [OF assms(2), folded ra]
  have "ra \<noteq> 1"
    using assms(1,3) enc_cwn_cases(1) [OF ra refl] by (auto simp: fits_def bit_ref_ok_def bit_pos_def)
  moreover from this have "\<not> fits b (ceil_log2 ra)"
    using assms(3) enc_cwn_cases(2) [OF ra refl, of False "bit_pos b" n] by simp
  ultimately show ?thesis
    using pack_cwn_eq [OF assms(2) ra, of b False] pack_full [OF assms(1)] f(1,6) by simp
qed

theorem constrained_whole_number_silent_overflow_witness:
  "fst (pack_constrained_whole_number ideal_log2f False (bit_ref_new [] 0) (5 :: u8) 0 7 False) = SRSASN_SUCCESS \<and>
    fst (pack (bit_ref_new [] 0) (as_u64 False (5 - 0 :: u8))
      (ceil_log2f ideal_log2f (float_of_uint (int_range False (0 :: u8) 7)))) = SRSASN_ERROR_ENCODE_FAIL"
  by (rule constrained_whole_number_silent_overflow)
    (simp_all add: bit_ref_ok_def bit_ref_new_def fits_def bit_pos_def valid_cwn_def ideal_log2f_exact
      ival_def enc_cwn_def ceil_log2_def ceil_frac_def bit_length.simps)

text \<open>
  : the destructor of \<open>Varlength_field_unpack_guard\<close> skips an unread open type field only when the
  field has at most four octets; a longer one is left where it is, since the read into a 32-bit
  integer is refused. The next field is then decoded from the wrong position.
\<close>

theorem varlength_field_skip:
  assumes "bit_ref_ok b" "unat len < 2 ^ 29" "fits b (8 * unat len)"
  shows "varlength_field_end len b b = (if unat len \<le> 4 then advance b (8 * unat len) else b)"
proof -
  have n: "unat (len * 8) = 8 * unat len" using assms(2) by (simp add: unat_word_ariths)
  have "remaining b = bits_at b (8 * unat len) @ remaining (advance b (8 * unat len))"
    using assms(3) by (intro remaining_bits_at) (simp add: fits_def)
  from unpack_reads [OF assms(1) this, where 'a = 32 and v = 0 and n = "8 * unat len"]
  show ?thesis by (auto simp: varlength_field_end_def n unpack_def)
qed

theorem varlength_field_skip_witness:
  "varlength_field_end 5 (bit_ref_new [1, 2, 3, 4, 5] 5) (bit_ref_new [1, 2, 3, 4, 5] 5) =
    (if unat (5 :: u32) \<le> 4 then advance (bit_ref_new [1, 2, 3, 4, 5] 5) (8 * unat (5 :: u32))
     else bit_ref_new [1, 2, 3, 4, 5] 5)"
  by (rule varlength_field_skip) (simp_all add: bit_ref_ok_def bit_ref_new_def fits_def bit_pos_def)

end
