(* ===== verification/Byte_Buffer.thy ===== *)
theory Byte_Buffer
  imports Prelude
begin

text \<open>
  \<open>byte_buffer_t\<close> of \<^verbatim>\<open>lib/include/srsran/common/byte_buffer.h\<close>: a fixed array with a movable start of
  message. The start pointer is an index into the array. Layers strip and prepend their headers by
  moving it, so the contract of the buffer (\<open>packet_buffer\<close>) speaks about the message it holds.

  A memory access outside the array is undefined in the source; here it has no result (\<open>None\<close>).
\<close>

section \<open>The buffer\<close>

record byte_buffer =
  bb_buffer :: bytes
  bb_msg :: nat
  bb_n :: nat
  bb_pdcp_sn :: u32

definition SRSRAN_BUFFER_HEADER_OFFSET :: nat where
  "SRSRAN_BUFFER_HEADER_OFFSET = 1020"

definition bb_new :: "bytes \<Rightarrow> byte_buffer" where
  "bb_new mem = \<lparr>bb_buffer = mem, bb_msg = SRSRAN_BUFFER_HEADER_OFFSET, bb_n = 0, bb_pdcp_sn = 0\<rparr>"

definition bb_clear :: "byte_buffer \<Rightarrow> byte_buffer" where
  "bb_clear bb = bb\<lparr>bb_msg := SRSRAN_BUFFER_HEADER_OFFSET, bb_n := 0, bb_pdcp_sn := 0\<rparr>"

definition get_headroom :: "byte_buffer \<Rightarrow> nat" where
  "get_headroom bb = bb_msg bb"

text \<open>The tailroom is computed modulo \<open>2 ^ 32\<close>.\<close>

definition get_tailroom :: "byte_buffer \<Rightarrow> u32" where
  "get_tailroom bb = of_nat (length (bb_buffer bb)) - of_nat (bb_msg bb) - of_nat (bb_n bb)"

text \<open>\<open>memcpy\<close> into the array at an index.\<close>

definition mem_write :: "bytes \<Rightarrow> nat \<Rightarrow> bytes \<Rightarrow> bytes option" where
  "mem_write mem i xs =
    (if i + length xs \<le> length mem then Some (take i mem @ xs @ drop (i + length xs) mem) else None)"

definition append_bytes :: "byte_buffer \<Rightarrow> bytes \<Rightarrow> byte_buffer option" where
  "append_bytes bb xs =
    map_option (\<lambda>m. bb\<lparr>bb_buffer := m, bb_n := bb_n bb + length xs\<rparr>)
      (mem_write (bb_buffer bb) (bb_msg bb + bb_n bb) xs)"

text \<open>
  The header idiom of the layers: \<open>msg -= len; N_bytes += len\<close> and a write of the header there, and its
  inverse \<open>msg += len; N_bytes -= len\<close>.
\<close>

definition push_header :: "byte_buffer \<Rightarrow> bytes \<Rightarrow> byte_buffer option" where
  "push_header bb hdr =
    (if bb_msg bb < length hdr then None
     else map_option (\<lambda>m. bb\<lparr>bb_buffer := m, bb_msg := bb_msg bb - length hdr, bb_n := bb_n bb + length hdr\<rparr>)
       (mem_write (bb_buffer bb) (bb_msg bb - length hdr) hdr))"

definition pull_header :: "byte_buffer \<Rightarrow> nat \<Rightarrow> byte_buffer option" where
  "pull_header bb k =
    (if bb_n bb < k then None else Some (bb\<lparr>bb_msg := bb_msg bb + k, bb_n := bb_n bb - k\<rparr>))"

text \<open>\<open>msg += k; N_bytes -= k\<close> on the unsigned 32 bit length.\<close>

definition strip :: "nat \<Rightarrow> byte_buffer \<Rightarrow> byte_buffer" where
  "strip k pdu = pdu\<lparr>bb_msg := bb_msg pdu + k, bb_n := unat (of_nat (bb_n pdu) - of_nat k :: u32)\<rparr>"

section \<open>Its contract\<close>

definition bb_ok :: "byte_buffer \<Rightarrow> bool" where
  "bb_ok bb \<longleftrightarrow> bb_msg bb + bb_n bb \<le> length (bb_buffer bb)"

definition bb_data :: "byte_buffer \<Rightarrow> bytes" where
  "bb_data bb = take (bb_n bb) (drop (bb_msg bb) (bb_buffer bb))"

lemma length_bb_data [simp]: "bb_ok bb \<Longrightarrow> length (bb_data bb) = bb_n bb"
  by (auto simp: bb_ok_def bb_data_def)

text \<open>The octet at an index of the message.\<close>

definition msg_at :: "byte_buffer \<Rightarrow> nat \<Rightarrow> u8" where
  "msg_at bb i = bb_buffer bb ! (bb_msg bb + i)"

lemma msg_at_data: "bb_ok bb \<Longrightarrow> i < bb_n bb \<Longrightarrow> msg_at bb i = bb_data bb ! i"
  by (simp add: msg_at_def bb_data_def bb_ok_def)

locale packet_buffer =
  fixes ok :: "'b \<Rightarrow> bool"
    and data :: "'b \<Rightarrow> bytes"
    and room_front room_back :: "'b \<Rightarrow> nat"
    and push :: "'b \<Rightarrow> bytes \<Rightarrow> 'b option"
    and pull :: "'b \<Rightarrow> nat \<Rightarrow> 'b option"
    and append :: "'b \<Rightarrow> bytes \<Rightarrow> 'b option"
  assumes push_ok: "ok b \<Longrightarrow> length hdr \<le> room_front b \<Longrightarrow>
      \<exists>b'. push b hdr = Some b' \<and> ok b' \<and> data b' = hdr @ data b \<and>
        room_front b' = room_front b - length hdr \<and> room_back b' = room_back b"
    and pull_ok: "ok b \<Longrightarrow> k \<le> length (data b) \<Longrightarrow>
      \<exists>b'. pull b k = Some b' \<and> ok b' \<and> data b' = drop k (data b) \<and>
        room_front b' = room_front b + k \<and> room_back b' = room_back b"
    and append_ok: "ok b \<Longrightarrow> length xs \<le> room_back b \<Longrightarrow>
      \<exists>b'. append b xs = Some b' \<and> ok b' \<and> data b' = data b @ xs \<and>
        room_front b' = room_front b \<and> room_back b' = room_back b - length xs"
begin

text \<open>A receiver that strips what the sender prepended has the message the sender started from.\<close>

lemma pull_push:
  assumes "ok b" "length hdr \<le> room_front b"
  obtains b1 b2 where "push b hdr = Some b1" "ok b1" "data b1 = hdr @ data b"
    "pull b1 (length hdr) = Some b2" "ok b2" "data b2 = data b" "room_front b2 = room_front b"
proof -
  obtain b1 where b1: "push b hdr = Some b1" "ok b1" "data b1 = hdr @ data b"
    "room_front b1 = room_front b - length hdr"
    using push_ok [OF assms] by blast
  moreover obtain b2 where "pull b1 (length hdr) = Some b2" "ok b2" "data b2 = drop (length hdr) (data b1)"
    "room_front b2 = room_front b1 + length hdr"
    using pull_ok [OF b1(2), of "length hdr"] b1(3) by auto
  ultimately show ?thesis using that assms(2) by simp
qed

end

lemma mem_write_Some:
  "i + length xs \<le> length mem \<Longrightarrow> mem_write mem i xs = Some (take i mem @ xs @ drop (i + length xs) mem)"
  by (simp add: mem_write_def)

interpretation bb: packet_buffer bb_ok bb_data get_headroom
    "\<lambda>bb. length (bb_buffer bb) - bb_msg bb - bb_n bb" push_header pull_header append_bytes
proof
  fix b :: byte_buffer and hdr :: bytes
  assume ok: "bb_ok b" and h: "length hdr \<le> get_headroom b"
  then have "bb_msg b - length hdr + length hdr \<le> length (bb_buffer b)"
    by (simp add: bb_ok_def get_headroom_def)
  with ok h show "\<exists>b'. push_header b hdr = Some b' \<and> bb_ok b' \<and> bb_data b' = hdr @ bb_data b \<and>
      get_headroom b' = get_headroom b - length hdr \<and>
      length (bb_buffer b') - bb_msg b' - bb_n b' = length (bb_buffer b) - bb_msg b - bb_n b"
    by (simp add: push_header_def mem_write_Some bb_ok_def bb_data_def get_headroom_def)
next
  fix b :: byte_buffer and k
  assume "bb_ok b" "k \<le> length (bb_data b)"
  then show "\<exists>b'. pull_header b k = Some b' \<and> bb_ok b' \<and> bb_data b' = drop k (bb_data b) \<and>
      get_headroom b' = get_headroom b + k \<and>
      length (bb_buffer b') - bb_msg b' - bb_n b' = length (bb_buffer b) - bb_msg b - bb_n b"
    by (auto simp: pull_header_def bb_ok_def bb_data_def get_headroom_def drop_take add.commute)
next
  fix b :: byte_buffer and xs :: bytes
  assume ok: "bb_ok b" and h: "length xs \<le> length (bb_buffer b) - bb_msg b - bb_n b"
  then have "bb_msg b + bb_n b + length xs \<le> length (bb_buffer b)"
    by (auto simp: bb_ok_def)
  then have l: "length (bb_data b) = bb_n b" "length (take (bb_msg b) (bb_buffer b)) = bb_msg b"
    using ok by (simp_all add: bb_data_def bb_ok_def)
  let ?m = "take (bb_msg b + bb_n b) (bb_buffer b) @ xs @ drop (bb_msg b + bb_n b + length xs) (bb_buffer b)"
  have m: "append_bytes b xs = Some (b\<lparr>bb_buffer := ?m, bb_n := bb_n b + length xs\<rparr>)"
    using \<open>bb_msg b + bb_n b + length xs \<le> length (bb_buffer b)\<close>
    by (simp add: append_bytes_def mem_write_Some)
  have "take (bb_msg b + bb_n b) (bb_buffer b) = take (bb_msg b) (bb_buffer b) @ bb_data b"
    by (simp add: bb_data_def take_add)
  then have "take (bb_n b + length xs) (drop (bb_msg b) ?m) = bb_data b @ xs"
    using l by simp
  moreover have "length ?m = length (bb_buffer b)"
    using \<open>bb_msg b + bb_n b + length xs \<le> length (bb_buffer b)\<close> by simp
  ultimately show "\<exists>b'. append_bytes b xs = Some b' \<and> bb_ok b' \<and> bb_data b' = bb_data b @ xs \<and>
      get_headroom b' = get_headroom b \<and>
      length (bb_buffer b') - bb_msg b' - bb_n b' = length (bb_buffer b) - bb_msg b - bb_n b - length xs"
    using m h ok \<open>bb_msg b + bb_n b + length xs \<le> length (bb_buffer b)\<close>
    by (simp add: bb_ok_def bb_data_def get_headroom_def del: length_append)
qed

lemma strip_data:
  assumes "bb_ok b" "k \<le> bb_n b" "bb_n b < 2 ^ 32"
  shows "strip k b = b\<lparr>bb_msg := bb_msg b + k, bb_n := bb_n b - k\<rparr>" "bb_ok (strip k b)" "bb_data (strip k b) = drop k (bb_data b)"
proof -
  have "(of_nat (bb_n b) - of_nat k :: u32) = of_nat (bb_n b - k)" using assms(2) by (simp add: of_nat_diff)
  then have "unat (of_nat (bb_n b) - of_nat k :: u32) = bb_n b - k"
    using assms(3) by (simp add: unat_of_nat_eq del: of_nat_diff)
  then show e: "strip k b = b\<lparr>bb_msg := bb_msg b + k, bb_n := bb_n b - k\<rparr>" by (simp add: strip_def)
  show "bb_ok (strip k b)" "bb_data (strip k b) = drop k (bb_data b)"
    using assms(1,2) unfolding e by (auto simp: bb_ok_def bb_data_def drop_take add.commute)
qed

text \<open>The octets of the message; nothing when it does not lie in the array.\<close>

definition bb_read :: "byte_buffer \<Rightarrow> bytes option" where
  "bb_read bb = (if bb_ok bb then Some (bb_data bb) else None)"

end
