(* ===== verification/Rlc_Am_Nr_Packing.thy ===== *)
theory Rlc_Am_Nr_Packing
  imports Byte_Buffer
begin

text \<open>
  PDU formats of the NR acknowledged mode, \<^verbatim>\<open>lib/src/rlc/rlc_am_nr_packing.cc\<close>: the data PDU header, the
  status PDU container with its merging of NACKs, and the status PDU reader and writer for 12 and
  18 bit sequence numbers.

  A reader takes the memory from the payload pointer on; it has no result (\<open>None\<close>) when it would read
  past that memory. The out-parameters \<open>header\<close> and \<open>status\<close> are passed in and returned.
\<close>

section \<open>Data\<close>

datatype rlc_dc_field = RLC_DC_FIELD_CONTROL_PDU | RLC_DC_FIELD_DATA_PDU

datatype rlc_nr_si_field = full_sdu | first_segment | last_segment | neither_first_nor_last_segment

datatype rlc_am_nr_sn_size = size12bits | size18bits

definition cardinality :: "rlc_am_nr_sn_size \<Rightarrow> u32" where
  "cardinality s = (case s of size12bits \<Rightarrow> push_bit 12 1 | size18bits \<Rightarrow> push_bit 18 1)"

definition dc_bit :: "rlc_dc_field \<Rightarrow> u8" where
  "dc_bit dc = (case dc of RLC_DC_FIELD_CONTROL_PDU \<Rightarrow> 0 | RLC_DC_FIELD_DATA_PDU \<Rightarrow> 1)"

definition dc_of :: "u8 \<Rightarrow> rlc_dc_field" where
  "dc_of w = (if w = 0 then RLC_DC_FIELD_CONTROL_PDU else RLC_DC_FIELD_DATA_PDU)"

definition si_bits :: "rlc_nr_si_field \<Rightarrow> u8" where
  "si_bits si = (case si of full_sdu \<Rightarrow> 0 | first_segment \<Rightarrow> 1 | last_segment \<Rightarrow> 2
     | neither_first_nor_last_segment \<Rightarrow> 3)"

definition si_of :: "u8 \<Rightarrow> rlc_nr_si_field" where
  "si_of w = (if w = 0 then full_sdu else if w = 1 then first_segment else if w = 2 then last_segment
     else neither_first_nor_last_segment)"

record rlc_am_nr_pdu_header =
  h_dc :: rlc_dc_field
  h_p :: u8
  h_si :: rlc_nr_si_field
  h_sn_size :: rlc_am_nr_sn_size
  h_sn :: u32
  h_so :: u16

record rlc_status_nack =
  nack_sn :: u32
  has_so :: bool
  so_start :: u16
  so_end :: u16
  has_nack_range :: bool
  nack_range :: u8

definition so_end_of_sdu :: u16 where
  "so_end_of_sdu = 0xFFFF"

definition nack_default :: rlc_status_nack where
  "nack_default = \<lparr>nack_sn = 0, has_so = False, so_start = 0, so_end = so_end_of_sdu,
     has_nack_range = False, nack_range = 0\<rparr>"

record rlc_am_nr_status_pdu =
  st_sn_size :: rlc_am_nr_sn_size
  st_cpt :: u8
  st_ack_sn :: u32
  st_nacks :: "rlc_status_nack list"
  st_packed_size :: u32

definition INVALID_RLC_SN :: u32 where
  "INVALID_RLC_SN = 0xFFFFFFFF"

section \<open>The status container\<close>

definition status_new :: "rlc_am_nr_sn_size \<Rightarrow> rlc_am_nr_status_pdu" where
  "status_new s = \<lparr>st_sn_size = s, st_cpt = 0, st_ack_sn = INVALID_RLC_SN, st_nacks = [], st_packed_size = 3\<rparr>"

definition status_reset :: "rlc_am_nr_status_pdu \<Rightarrow> rlc_am_nr_status_pdu" where
  "status_reset st = st\<lparr>st_cpt := 0, st_ack_sn := INVALID_RLC_SN, st_nacks := [], st_packed_size := 3\<rparr>"

definition is_continuous_sequence :: "rlc_am_nr_sn_size \<Rightarrow> rlc_status_nack \<Rightarrow> rlc_status_nack \<Rightarrow> bool" where
  "is_continuous_sequence s left right \<longleftrightarrow>
     nack_sn right = (if has_nack_range left then nack_sn left + ucast (nack_range left)
                      else nack_sn left + 1) mod cardinality s \<and>
     (has_so left \<longrightarrow> so_end left = so_end_of_sdu) \<and>
     (has_so right \<longrightarrow> so_start right = 0)"

definition nack_size :: "rlc_am_nr_sn_size \<Rightarrow> rlc_status_nack \<Rightarrow> u32" where
  "nack_size s nack = (case s of size12bits \<Rightarrow> 2 | size18bits \<Rightarrow> 3) +
     (if has_so nack then 4 else 0) + (if has_nack_range nack then 1 else 0)"

definition merge_nack :: "rlc_status_nack \<Rightarrow> rlc_status_nack \<Rightarrow> rlc_status_nack" where
  "merge_nack prev nack =
    (let prev = (if has_nack_range nack
                 then if has_nack_range prev then prev\<lparr>nack_range := nack_range prev + nack_range nack\<rparr>
                      else prev\<lparr>nack_range := nack_range nack + 1, has_nack_range := True\<rparr>
                 else if has_nack_range prev then prev\<lparr>nack_range := nack_range prev + 1\<rparr>
                      else prev\<lparr>nack_range := 2, has_nack_range := True\<rparr>)
     in if has_so nack
        then (if has_so prev then prev else prev\<lparr>has_so := True, so_start := 0\<rparr>)\<lparr>so_end := so_end nack\<rparr>
        else if has_so prev then prev\<lparr>so_end := so_end_of_sdu\<rparr> else prev)"

definition push_nack :: "rlc_am_nr_status_pdu \<Rightarrow> rlc_status_nack \<Rightarrow> rlc_am_nr_status_pdu" where
  "push_nack st nack =
    (let s = st_sn_size st; ns = st_nacks st in
     if ns = [] \<or> \<not> is_continuous_sequence s (last ns) nack
     then st\<lparr>st_nacks := ns @ [nack], st_packed_size := st_packed_size st + nack_size s nack\<rparr>
     else let prev = merge_nack (last ns) nack in
       st\<lparr>st_nacks := butlast ns @ [prev],
          st_packed_size := st_packed_size st - nack_size s (last ns) + nack_size s prev\<rparr>)"

text \<open>The loop of \<open>trim\<close>: NACKs leave from the back.\<close>

function trim_loop :: "u32 \<Rightarrow> rlc_am_nr_status_pdu \<Rightarrow> rlc_am_nr_status_pdu" where
  "trim_loop max_size st =
    (if st_nacks st \<noteq> [] \<and> (max_size < st_packed_size st \<or> nack_sn (last (st_nacks st)) = st_ack_sn st)
     then trim_loop max_size
       (st\<lparr>st_packed_size := st_packed_size st - nack_size (st_sn_size st) (last (st_nacks st)),
           st_ack_sn := nack_sn (last (st_nacks st)), st_nacks := butlast (st_nacks st)\<rparr>)
     else st)"
  by pat_completeness auto
termination
  by (relation "measure (\<lambda>(m, st). length (st_nacks st))") auto

declare trim_loop.simps [simp del]

definition trim :: "rlc_am_nr_status_pdu \<Rightarrow> u32 \<Rightarrow> bool \<times> rlc_am_nr_status_pdu" where
  "trim st max_packed_size =
    (if st_packed_size st \<le> max_packed_size then (True, st)
     else if max_packed_size < 3 then (False, st)
     else (True, trim_loop max_packed_size st))"

definition refresh_packed_size :: "rlc_am_nr_status_pdu \<Rightarrow> rlc_am_nr_status_pdu" where
  "refresh_packed_size st =
     st\<lparr>st_packed_size := foldl (\<lambda>n nack. n + nack_size (st_sn_size st) nack) 3 (st_nacks st)\<rparr>"

section \<open>Data PDU header\<close>

text \<open>The reader has the length of the PDU as an argument and does not look at it.\<close>

definition rlc_am_nr_read_data_pdu_header ::
    "bytes \<Rightarrow> nat \<Rightarrow> rlc_am_nr_sn_size \<Rightarrow> rlc_am_nr_pdu_header \<Rightarrow> (u32 \<times> rlc_am_nr_pdu_header) option" where
  "rlc_am_nr_read_data_pdu_header payload nof_bytes sn_size hdr =
    (case payload of [] \<Rightarrow> None
     | b0 # rest \<Rightarrow>
       let hdr = hdr\<lparr>h_sn_size := sn_size, h_dc := dc_of (drop_bit 7 b0 AND 1), h_p := drop_bit 6 b0 AND 1,
                    h_si := si_of (drop_bit 4 b0 AND 3)\<rparr>;
           read_so = (\<lambda>hdr n rest.
             if h_si hdr = last_segment \<or> h_si hdr = neither_first_nor_last_segment
             then case rest of x # y # _ \<Rightarrow>
                    Some (n + 2, hdr\<lparr>h_so := push_bit 8 (ucast (x AND 0xFF)) OR ucast (y AND 0xFF)\<rparr>)
                  | _ \<Rightarrow> None
             else Some (n, hdr))
       in case sn_size of
         size12bits \<Rightarrow>
           (case rest of [] \<Rightarrow> None
            | b1 # rest \<Rightarrow>
              read_so (hdr\<lparr>h_sn := push_bit 8 (ucast (b0 AND 0x0F)) OR ucast (b1 AND 0xFF)\<rparr>) 2 rest)
       | size18bits \<Rightarrow>
           if b0 AND 0x0C \<noteq> 0 then Some (0, hdr)
           else (case rest of b1 # b2 # rest \<Rightarrow>
                  read_so (hdr\<lparr>h_sn := push_bit 16 (ucast (b0 AND 0x03)) OR push_bit 8 (ucast (b1 AND 0xFF))
                                OR ucast (b2 AND 0xFF)\<rparr>) 3 rest
                | _ \<Rightarrow> None))"

definition rlc_am_nr_packed_length :: "rlc_am_nr_pdu_header \<Rightarrow> nat" where
  "rlc_am_nr_packed_length hdr =
    (if h_si hdr = full_sdu \<or> h_si hdr = first_segment
     then if h_sn_size hdr = size18bits then 3 else 2
     else if h_sn_size hdr = size18bits then 5 else 4)"

text \<open>The bytes the header writer stores from the payload pointer on.\<close>

definition rlc_am_nr_data_pdu_header_bytes :: "rlc_am_nr_pdu_header \<Rightarrow> bytes" where
  "rlc_am_nr_data_pdu_header_bytes hdr =
    (let b0 = push_bit 7 (dc_bit (h_dc hdr) AND 1) OR push_bit 6 (h_p hdr AND 1) OR push_bit 4 (si_bits (h_si hdr) AND 3)
     in (case h_sn_size hdr of
           size12bits \<Rightarrow> [b0 OR ucast (drop_bit 8 (h_sn hdr) AND 0x0F), ucast (h_sn hdr AND 0xFF)]
         | size18bits \<Rightarrow> [b0 OR ucast (drop_bit 16 (h_sn hdr) AND 0x3), ucast (drop_bit 8 (h_sn hdr)),
                          ucast (h_sn hdr AND 0xFF)])
        @ (if h_so hdr \<noteq> 0 then [ucast (drop_bit 8 (h_so hdr)), ucast (h_so hdr AND 0xFF)] else []))"

definition rlc_am_nr_write_data_pdu_header :: "rlc_am_nr_pdu_header \<Rightarrow> bytes \<Rightarrow> (nat \<times> bytes) option" where
  "rlc_am_nr_write_data_pdu_header hdr payload =
     map_option (\<lambda>m. (rlc_am_nr_packed_length hdr, m))
       (mem_write payload 0 (rlc_am_nr_data_pdu_header_bytes hdr))"

text \<open>
  The overload on a \<open>byte_buffer_t\<close>: the message grows to the front by the packed length, and the
  header is written at the new start.
\<close>

definition rlc_am_nr_write_data_pdu_header_buf ::
    "rlc_am_nr_pdu_header \<Rightarrow> byte_buffer \<Rightarrow> (nat \<times> byte_buffer) option" where
  "rlc_am_nr_write_data_pdu_header_buf hdr pdu =
    (let len = rlc_am_nr_packed_length hdr in
     if bb_msg pdu < len then None
     else map_option (\<lambda>m. (len, pdu\<lparr>bb_buffer := m, bb_msg := bb_msg pdu - len, bb_n := bb_n pdu + len\<rparr>))
       (mem_write (bb_buffer pdu) (bb_msg pdu - len) (rlc_am_nr_data_pdu_header_bytes hdr)))"

section \<open>Status PDU\<close>

text \<open>The optional part of a NACK, which both sequence number sizes share.\<close>

definition read_nack_ext :: "u8 \<Rightarrow> u8 \<Rightarrow> rlc_status_nack \<Rightarrow> bytes \<Rightarrow> (rlc_status_nack \<times> bytes) option" where
  "read_nack_ext e2 e3 nack xs =
    (case (if e2 \<noteq> 0
           then (case xs of a # b # c # d # rest \<Rightarrow>
                   Some (nack\<lparr>has_so := True, so_start := push_bit 8 (ucast a) OR ucast b,
                              so_end := push_bit 8 (ucast c) OR ucast d\<rparr>, rest)
                 | _ \<Rightarrow> None)
           else Some (nack, xs)) of
       None \<Rightarrow> None
     | Some (nack, xs) \<Rightarrow>
         if e3 \<noteq> 0
         then (case xs of a # rest \<Rightarrow> Some (nack\<lparr>has_nack_range := True, nack_range := a\<rparr>, rest) | [] \<Rightarrow> None)
         else Some (nack, xs))"

lemma read_nack_ext_shorter: "read_nack_ext e2 e3 nack xs = Some (n, ys) \<Longrightarrow> length ys \<le> length xs"
  by (auto simp: read_nack_ext_def split: if_splits option.splits list.splits)

text \<open>
  The NACK loops. \<open>mem_len\<close> is the length of the memory from the payload pointer on, so that
  \<open>mem_len - length xs\<close> is \<open>ptr - payload\<close>. The code is 0 (\<open>SRSRAN_SUCCESS\<close>) on the error exits too.
\<close>

function read_nacks_12bit_sn ::
    "nat \<Rightarrow> nat \<Rightarrow> u8 \<Rightarrow> bytes \<Rightarrow> rlc_am_nr_status_pdu \<Rightarrow> (u32 \<times> rlc_am_nr_status_pdu) option" where
  "read_nacks_12bit_sn mem_len nof_bytes e1 xs st =
    (if e1 = 0 then Some (0, st)
     else if nof_bytes \<le> mem_len - length xs then Some (0, st)
     else case xs of
       a # b # rest \<Rightarrow>
         if b AND 0x01 \<noteq> 0 then Some (0, st)
         else (case read_nack_ext (b AND 0x04) (b AND 0x02)
                 (nack_default\<lparr>nack_sn := push_bit 4 (ucast (a AND 0xFF)) OR drop_bit 4 (ucast (b AND 0xF0))\<rparr>) rest of
               None \<Rightarrow> None
             | Some (nack, rest') \<Rightarrow>
                 read_nacks_12bit_sn mem_len nof_bytes (b AND 0x08) rest' (push_nack st nack))
     | _ \<Rightarrow> None)"
  by pat_completeness auto
termination
  by (relation "measure (\<lambda>(t, n, e, xs, st). length xs)") (auto dest: read_nack_ext_shorter)

declare read_nacks_12bit_sn.simps [simp del]

definition rlc_am_nr_read_status_pdu_12bit_sn ::
    "bytes \<Rightarrow> nat \<Rightarrow> rlc_am_nr_status_pdu \<Rightarrow> (u32 \<times> rlc_am_nr_status_pdu) option" where
  "rlc_am_nr_read_status_pdu_12bit_sn payload nof_bytes st =
    (case payload of [] \<Rightarrow> None
     | b0 # rest \<Rightarrow>
       let st = (status_reset st)\<lparr>st_cpt := drop_bit 4 b0 AND 0x07\<rparr> in
       if st_cpt st \<noteq> 0 then Some (0, st)
       else case rest of
         b1 # b2 # rest \<Rightarrow>
           let st = st\<lparr>st_ack_sn := push_bit 8 (ucast (b0 AND 0x0F)) OR ucast (b1 AND 0xFF)\<rparr> in
           if b2 AND 0x7F \<noteq> 0 then Some (0, st)
           else read_nacks_12bit_sn (length payload) nof_bytes (b2 AND 0x80) rest st
       | _ \<Rightarrow> None)"

function read_nacks_18bit_sn ::
    "nat \<Rightarrow> nat \<Rightarrow> u8 \<Rightarrow> bytes \<Rightarrow> rlc_am_nr_status_pdu \<Rightarrow> (u32 \<times> rlc_am_nr_status_pdu) option" where
  "read_nacks_18bit_sn mem_len nof_bytes e1 xs st =
    (if e1 = 0 then Some (0, st)
     else if nof_bytes \<le> mem_len - length xs then Some (0, st)
     else case xs of
       a # b # c # rest \<Rightarrow>
         if c AND 0x07 \<noteq> 0 then Some (0, st)
         else (case read_nack_ext (c AND 0x10) (c AND 0x08)
                 (nack_default\<lparr>nack_sn := push_bit 10 (ucast (a AND 0xFF)) OR push_bit 2 (ucast (b AND 0xFF))
                                 OR drop_bit 6 (ucast (c AND 0xC0))\<rparr>) rest of
               None \<Rightarrow> None
             | Some (nack, rest') \<Rightarrow>
                 read_nacks_18bit_sn mem_len nof_bytes (c AND 0x20) rest' (push_nack st nack))
     | _ \<Rightarrow> None)"
  by pat_completeness auto
termination
  by (relation "measure (\<lambda>(t, n, e, xs, st). length xs)") (auto dest: read_nack_ext_shorter)

declare read_nacks_18bit_sn.simps [simp del]

definition rlc_am_nr_read_status_pdu_18bit_sn ::
    "bytes \<Rightarrow> nat \<Rightarrow> rlc_am_nr_status_pdu \<Rightarrow> (u32 \<times> rlc_am_nr_status_pdu) option" where
  "rlc_am_nr_read_status_pdu_18bit_sn payload nof_bytes st =
    (case payload of [] \<Rightarrow> None
     | b0 # rest \<Rightarrow>
       let st = (status_reset st)\<lparr>st_cpt := drop_bit 4 b0 AND 0x07\<rparr> in
       if st_cpt st \<noteq> 0 then Some (0, st)
       else case rest of
         b1 # b2 # rest \<Rightarrow>
           let st = st\<lparr>st_ack_sn := push_bit 14 (ucast (b0 AND 0x0F)) OR push_bit 6 (ucast (b1 AND 0xFF))
                         OR drop_bit 2 (ucast (b2 AND 0xFC))\<rparr> in
           if b2 AND 0x01 \<noteq> 0 then Some (0, st)
           else read_nacks_18bit_sn (length payload) nof_bytes (b2 AND 0x02) rest st
       | _ \<Rightarrow> None)"

definition rlc_am_nr_read_status_pdu ::
    "bytes \<Rightarrow> nat \<Rightarrow> rlc_am_nr_sn_size \<Rightarrow> rlc_am_nr_status_pdu \<Rightarrow> (u32 \<times> rlc_am_nr_status_pdu) option" where
  "rlc_am_nr_read_status_pdu payload nof_bytes sn_size st =
    (case sn_size of size12bits \<Rightarrow> rlc_am_nr_read_status_pdu_12bit_sn payload nof_bytes st
     | size18bits \<Rightarrow> rlc_am_nr_read_status_pdu_18bit_sn payload nof_bytes st)"

text \<open>The writers, as the bytes from the start of the message on; their number becomes \<open>N_bytes\<close>.\<close>

definition write_nack_ext :: "rlc_status_nack \<Rightarrow> bytes" where
  "write_nack_ext n =
    (if has_so n then [ucast (drop_bit 8 (so_start n)), ucast (so_start n),
                       ucast (drop_bit 8 (so_end n)), ucast (so_end n)] else [])
    @ (if has_nack_range n then [nack_range n] else [])"

fun write_nacks_12bit_sn :: "rlc_status_nack list \<Rightarrow> bytes" where
  "write_nacks_12bit_sn [] = []"
| "write_nacks_12bit_sn (n # ns) =
    [ucast (drop_bit 4 (nack_sn n) AND 0xFF),
     ucast (push_bit 4 (nack_sn n AND 0x0F)) OR (if ns \<noteq> [] then 0x08 else 0)
       OR (if has_so n then 0x04 else 0) OR (if has_nack_range n then 0x02 else 0)]
    @ write_nack_ext n @ write_nacks_12bit_sn ns"

definition rlc_am_nr_write_status_pdu_12bit_sn :: "rlc_am_nr_status_pdu \<Rightarrow> bytes" where
  "rlc_am_nr_write_status_pdu_12bit_sn st =
    [ucast (drop_bit 8 (st_ack_sn st) AND 0x0F), ucast (st_ack_sn st AND 0xFF),
     (if st_nacks st \<noteq> [] then 0x80 else 0)] @ write_nacks_12bit_sn (st_nacks st)"

fun write_nacks_18bit_sn :: "rlc_status_nack list \<Rightarrow> bytes" where
  "write_nacks_18bit_sn [] = []"
| "write_nacks_18bit_sn (n # ns) =
    [ucast (drop_bit 10 (nack_sn n) AND 0xFF), ucast (drop_bit 2 (nack_sn n) AND 0xFF),
     ucast (push_bit 6 (nack_sn n) AND 0xC0) OR (if ns \<noteq> [] then 0x20 else 0)
       OR (if has_so n then 0x10 else 0) OR (if has_nack_range n then 0x08 else 0)]
    @ write_nack_ext n @ write_nacks_18bit_sn ns"

definition rlc_am_nr_write_status_pdu_18bit_sn :: "rlc_am_nr_status_pdu \<Rightarrow> bytes" where
  "rlc_am_nr_write_status_pdu_18bit_sn st =
    [ucast (drop_bit 14 (st_ack_sn st) AND 0x0F), ucast (drop_bit 6 (st_ack_sn st) AND 0xFF),
     ucast (push_bit 2 (st_ack_sn st) AND 0xFC) OR (if st_nacks st \<noteq> [] then 0x02 else 0)]
    @ write_nacks_18bit_sn (st_nacks st)"

definition rlc_am_nr_write_status_pdu ::
    "rlc_am_nr_status_pdu \<Rightarrow> rlc_am_nr_sn_size \<Rightarrow> byte_buffer \<Rightarrow> byte_buffer option" where
  "rlc_am_nr_write_status_pdu st sn_size pdu =
    (let xs = (case sn_size of size12bits \<Rightarrow> rlc_am_nr_write_status_pdu_12bit_sn st
               | size18bits \<Rightarrow> rlc_am_nr_write_status_pdu_18bit_sn st)
     in map_option (\<lambda>m. pdu\<lparr>bb_buffer := m, bb_n := length xs\<rparr>) (mem_write (bb_buffer pdu) (bb_msg pdu) xs))"

section \<open>The data PDU header\<close>

definition data_header_ok :: "rlc_am_nr_pdu_header \<Rightarrow> bool" where
  "data_header_ok h \<longleftrightarrow> h_p h \<le> 1 \<and> h_sn h < cardinality (h_sn_size h) \<and>
     (h_so h \<noteq> 0 \<longleftrightarrow> h_si h = last_segment \<or> h_si h = neither_first_nor_last_segment)"

lemma dc_of_bit: "dc_of (dc_bit dc) = dc"
  by (cases dc) (simp_all add: dc_of_def dc_bit_def)

lemma si_of_bits: "si_of (si_bits si) = si"
  by (cases si) (simp_all add: si_of_def si_bits_def)

lemma dc_bit_small: "take_bit 1 (dc_bit dc) = dc_bit dc"
  by (cases dc) (simp_all add: dc_bit_def)

lemma si_bits_small: "take_bit 2 (si_bits si) = si_bits si"
  by (cases si) (simp_all add: si_bits_def)

lemma p_small: "p \<le> 1 \<Longrightarrow> take_bit 1 p = (p :: u8)"
  by (rule take_bit_unat_id) (simp add: word_le_nat_alt)

text \<open>The first octet: flags above, the leading bits of the sequence number below.\<close>

lemma first_octet:
  fixes d p s x :: u8
  assumes a: "take_bit 1 d = d" "take_bit 1 p = p" "take_bit 2 s = s" "take_bit 4 x = x"
  defines "b \<equiv> push_bit 7 d OR push_bit 6 p OR push_bit 4 s OR x"
  shows "drop_bit 7 b AND 1 = d" "drop_bit 6 b AND 1 = p" "drop_bit 4 b AND 3 = s" "b AND 15 = x" "b AND 3 = x AND 3"
    "b AND 12 = x AND 12"
  unfolding b_def and_masks and_12
  by (rule bit_word_eqI, auto simp: bits simp del: bit_0 take_bit_Suc_0 dest: a [THEN take_bit_idE])+

lemma octets_16: "push_bit 8 (ucast (ucast (drop_bit 8 x) AND 255 :: u8)) OR ucast (ucast (x AND 255) AND 255 :: u8) = (x :: u16)"
  unfolding and_masks by (rule bit_word_eqI) (auto simp: bits simp del: bit_0)

lemma sn_12:
  assumes "(x :: u32) < 2 ^ 12"
  shows "push_bit 8 (ucast (ucast (drop_bit 8 x AND 15) :: u8)) OR ucast (ucast (x AND 255) AND 255 :: u8) = x"
  unfolding and_masks
  by (rule bit_word_eqI) (auto simp: bits simp del: bit_0 dest: bit_below [OF assms])

lemma sn_18:
  assumes "(x :: u32) < 2 ^ 18"
  shows "push_bit 16 (ucast (ucast (drop_bit 16 x AND 3) AND 3 :: u8)) OR push_bit 8 (ucast (ucast (drop_bit 8 x) AND 255 :: u8))
     OR ucast (ucast (x AND 255) AND 255 :: u8) = x"
  unfolding and_masks
  by (rule bit_word_eqI) (auto simp: bits simp del: bit_0 dest: bit_below [OF assms])

lemma nibble_small:
  "take_bit 4 (ucast (x AND 15) :: u8) = ucast (x AND 15 :: u32)" "take_bit 4 (ucast (x AND 3) :: u8) = ucast (x AND 3 :: u32)"
  "ucast (x AND 3 :: u32) AND (12 :: u8) = 0"
  unfolding and_masks and_12
  by (rule bit_word_eqI, auto simp: bits simp del: bit_0)+

lemma data_header_length: "data_header_ok h \<Longrightarrow> length (rlc_am_nr_data_pdu_header_bytes h) = rlc_am_nr_packed_length h"
  by (cases "h_si h"; cases "h_sn_size h")
     (auto simp: data_header_ok_def rlc_am_nr_data_pdu_header_bytes_def rlc_am_nr_packed_length_def Let_def)


text \<open>The header octets, with the first one given by what the reader extracts from it.\<close>

lemma data_header_bytes_12:
  assumes ok: "data_header_ok h" and s: "h_sn_size h = size12bits"
  obtains b0 b1 where "rlc_am_nr_data_pdu_header_bytes h =
      b0 # b1 # (if h_so h \<noteq> 0 then [ucast (drop_bit 8 (h_so h)), ucast (h_so h AND 0xFF)] else [])"
    "dc_of (drop_bit 7 b0 AND 1) = h_dc h" "drop_bit 6 b0 AND 1 = h_p h" "si_of (drop_bit 4 b0 AND 3) = h_si h"
    "push_bit 8 (ucast (b0 AND 15)) OR ucast (b1 AND 255) = h_sn h"
proof -
  have p: "h_p h \<le> 1" and sn: "h_sn h < 2 ^ 12"
    using ok s by (simp_all add: data_header_ok_def cardinality_def)
  note o = first_octet [OF dc_bit_small p_small [OF p] si_bits_small nibble_small(1)]
  show ?thesis
    by (rule that [of "push_bit 7 (dc_bit (h_dc h)) OR push_bit 6 (h_p h) OR push_bit 4 (si_bits (h_si h)) OR
          ucast (drop_bit 8 (h_sn h) AND 15)" "ucast (h_sn h AND 255)"])
      (unfold o dc_of_bit si_of_bits sn_12 [OF sn],
       simp_all only: rlc_am_nr_data_pdu_header_bytes_def Let_def s rlc_am_nr_sn_size.case and_masks(1,2) dc_bit_small
         p_small [OF p] si_bits_small or.assoc append.simps)
qed

lemma data_header_bytes_18:
  assumes ok: "data_header_ok h" and s: "h_sn_size h = size18bits"
  obtains b0 b1 b2 where "rlc_am_nr_data_pdu_header_bytes h =
      b0 # b1 # b2 # (if h_so h \<noteq> 0 then [ucast (drop_bit 8 (h_so h)), ucast (h_so h AND 0xFF)] else [])"
    "dc_of (drop_bit 7 b0 AND 1) = h_dc h" "drop_bit 6 b0 AND 1 = h_p h" "si_of (drop_bit 4 b0 AND 3) = h_si h"
    "push_bit 16 (ucast (b0 AND 3)) OR push_bit 8 (ucast (b1 AND 255)) OR ucast (b2 AND 255) = h_sn h" "b0 AND 12 = 0"
proof -
  have p: "h_p h \<le> 1" and sn: "h_sn h < 2 ^ 18"
    using ok s by (simp_all add: data_header_ok_def cardinality_def)
  note o = first_octet [OF dc_bit_small p_small [OF p] si_bits_small nibble_small(2)]
  show ?thesis
    by (rule that [of "push_bit 7 (dc_bit (h_dc h)) OR push_bit 6 (h_p h) OR push_bit 4 (si_bits (h_si h)) OR
          ucast (drop_bit 16 (h_sn h) AND 3)" "ucast (drop_bit 8 (h_sn h))" "ucast (h_sn h AND 255)"])
      (unfold o dc_of_bit si_of_bits sn_18 [OF sn] nibble_small(3),
       simp_all only: rlc_am_nr_data_pdu_header_bytes_def Let_def s rlc_am_nr_sn_size.case and_masks(1,2) dc_bit_small
         p_small [OF p] si_bits_small or.assoc append.simps)
qed

lemma data_header_reads:
  assumes ok: "data_header_ok h" and h0: "h_so h0 = 0"
  shows "rlc_am_nr_read_data_pdu_header (rlc_am_nr_data_pdu_header_bytes h @ rest) n (h_sn_size h) h0 =
    Some (of_nat (rlc_am_nr_packed_length h), h)"
proof -
  have so: "h_so h \<noteq> 0 \<longleftrightarrow> h_si h = last_segment \<or> h_si h = neither_first_nor_last_segment"
    using ok by (simp add: data_header_ok_def)
  show ?thesis
  proof (cases "h_sn_size h")
    case size12bits
    obtain b0 b1 where b: "rlc_am_nr_data_pdu_header_bytes h =
        b0 # b1 # (if h_so h \<noteq> 0 then [ucast (drop_bit 8 (h_so h)), ucast (h_so h AND 0xFF)] else [])"
      "dc_of (drop_bit 7 b0 AND 1) = h_dc h" "drop_bit 6 b0 AND 1 = h_p h" "si_of (drop_bit 4 b0 AND 3) = h_si h"
      "push_bit 8 (ucast (b0 AND 15)) OR ucast (b1 AND 255) = h_sn h"
      by (rule data_header_bytes_12 [OF ok size12bits])
    show ?thesis
      using so h0 size12bits octets_16 [of "h_so h"]
      by (cases "h_si h") (auto simp: b rlc_am_nr_read_data_pdu_header_def rlc_am_nr_packed_length_def)
  next
    case size18bits
    obtain b0 b1 b2 where b: "rlc_am_nr_data_pdu_header_bytes h =
        b0 # b1 # b2 # (if h_so h \<noteq> 0 then [ucast (drop_bit 8 (h_so h)), ucast (h_so h AND 0xFF)] else [])"
      "dc_of (drop_bit 7 b0 AND 1) = h_dc h" "drop_bit 6 b0 AND 1 = h_p h" "si_of (drop_bit 4 b0 AND 3) = h_si h"
      "push_bit 16 (ucast (b0 AND 3)) OR push_bit 8 (ucast (b1 AND 255)) OR ucast (b2 AND 255) = h_sn h" "b0 AND 12 = 0"
      by (rule data_header_bytes_18 [OF ok size18bits])
    show ?thesis
      using so h0 size18bits octets_16 [of "h_so h"]
      by (cases "h_si h") (auto simp: b rlc_am_nr_read_data_pdu_header_def rlc_am_nr_packed_length_def)
  qed
qed

section \<open>The status PDU\<close>

definition nack_ok :: "rlc_am_nr_sn_size \<Rightarrow> rlc_status_nack \<Rightarrow> bool" where
  "nack_ok s n \<longleftrightarrow> nack_sn n < cardinality s \<and>
     (\<not> has_so n \<longrightarrow> so_start n = 0 \<and> so_end n = so_end_of_sdu) \<and> (\<not> has_nack_range n \<longrightarrow> nack_range n = 0)"

text \<open>
  The invariant of the container: every NACK is well formed, no two neighbours could have been merged,
  and the cached size is the size of the packed PDU.
\<close>

definition status_inv :: "rlc_am_nr_status_pdu \<Rightarrow> bool" where
  "status_inv st \<longleftrightarrow> (\<forall>n\<in>set (st_nacks st). nack_ok (st_sn_size st) n) \<and>
     successively (\<lambda>l r. \<not> is_continuous_sequence (st_sn_size st) l r) (st_nacks st) \<and>
     st_packed_size st = 3 + sum_list (map (nack_size (st_sn_size st)) (st_nacks st))"

lemma status_new_inv: "status_inv (status_new s)" "status_inv (status_reset st)"
  by (simp_all add: status_inv_def status_new_def status_reset_def)

lemma merge_nack_keeps:
  "nack_sn (merge_nack p n) = nack_sn p" "has_nack_range (merge_nack p n)"
  "has_so (merge_nack p n) = (has_so p \<or> has_so n)"
  "nack_ok s p \<Longrightarrow> nack_ok s (merge_nack p n)"
  "is_continuous_sequence s l (merge_nack p n) = is_continuous_sequence s l p"
  by (auto simp: merge_nack_def nack_ok_def is_continuous_sequence_def Let_def)

lemma push_nack_inv:
  assumes "status_inv st" "nack_ok (st_sn_size st) n"
  shows "status_inv (push_nack st n)"
proof (cases "st_nacks st = [] \<or> \<not> is_continuous_sequence (st_sn_size st) (last (st_nacks st)) n")
  case True
  then show ?thesis
    using assms by (auto simp: status_inv_def push_nack_def successively_append_iff Let_def)
next
  case False
  let ?s = "st_sn_size st"
  obtain ns p where ns: "st_nacks st = ns @ [p]" using False by (cases "st_nacks st" rule: rev_cases) auto
  have inv: "\<forall>m\<in>set ns. nack_ok ?s m" "nack_ok ?s p"
    "successively (\<lambda>l r. \<not> is_continuous_sequence ?s l r) (ns @ [p])"
    "st_packed_size st = 3 + sum_list (map (nack_size ?s) (ns @ [p]))"
    using assms(1) unfolding status_inv_def ns by simp_all
  have "push_nack st n = st\<lparr>st_nacks := ns @ [merge_nack p n],
      st_packed_size := st_packed_size st - nack_size ?s p + nack_size ?s (merge_nack p n)\<rparr>"
    using False ns by (simp add: push_nack_def Let_def)
  moreover have "successively (\<lambda>l r. \<not> is_continuous_sequence ?s l r) (ns @ [merge_nack p n])"
    using inv(3) by (simp add: successively_append_iff merge_nack_keeps)
  ultimately show ?thesis
    using inv by (simp add: status_inv_def merge_nack_keeps)
qed

lemma push_nack_sn_size [simp]: "st_sn_size (push_nack st n) = st_sn_size st"
  by (simp add: push_nack_def Let_def)

text \<open>NACKs that cannot be merged are appended one by one.\<close>

lemma foldl_push_nack:
  "successively (\<lambda>l r. \<not> is_continuous_sequence (st_sn_size st) l r) (st_nacks st @ ns) \<Longrightarrow>
   foldl push_nack st ns = st\<lparr>st_nacks := st_nacks st @ ns,
     st_packed_size := st_packed_size st + sum_list (map (nack_size (st_sn_size st)) ns)\<rparr>"
proof (induction ns arbitrary: st)
  case (Cons n ns)
  have "st_nacks st = [] \<or> \<not> is_continuous_sequence (st_sn_size st) (last (st_nacks st)) n"
    using Cons.prems by (auto simp: successively_append_iff)
  then have "push_nack st n = st\<lparr>st_nacks := st_nacks st @ [n],
      st_packed_size := st_packed_size st + nack_size (st_sn_size st) n\<rparr>"
    by (simp add: push_nack_def Let_def)
  with Cons.IH [of "push_nack st n"] Cons.prems show ?case by (simp add: add.assoc)
qed simp

subsection \<open>Reading what was written\<close>

lemma octets_16': "push_bit 8 (ucast (ucast (drop_bit 8 x) :: u8)) OR ucast (ucast x :: u8) = (x :: u16)"
  by (rule bit_word_eqI) (auto simp: bits simp del: bit_0)

lemma read_nack_ext_written:
  assumes "nack_ok s n" "e2 \<noteq> 0 \<longleftrightarrow> has_so n" "e3 \<noteq> 0 \<longleftrightarrow> has_nack_range n"
  shows "read_nack_ext e2 e3 (nack_default\<lparr>nack_sn := nack_sn n\<rparr>) (write_nack_ext n @ rest) = Some (n, rest)"
  using assms
  by (auto simp: read_nack_ext_def write_nack_ext_def nack_ok_def nack_default_def octets_16')

lemma nack_sn_12:
  fixes x :: u32 and f :: u8
  assumes x: "x < 2 ^ 12" and f: "take_bit 4 f = f"
  shows "push_bit 4 (ucast (ucast (drop_bit 4 x AND 255) AND 255 :: u8)) OR
     drop_bit 4 (ucast ((ucast (push_bit 4 (x AND 15)) OR f) AND 240)) = x"
  unfolding and_masks high_masks
proof (rule bit_word_eqI)
  fix n assume "n < LENGTH(32)"
  then show "bit (push_bit 4 (ucast (take_bit 8 (ucast (take_bit 8 (drop_bit 4 x)) :: u8))) OR
      drop_bit 4 (ucast (push_bit 4 (drop_bit 4 (ucast (push_bit 4 (take_bit 4 x)) OR f)))) :: u32) n = bit x n"
    by (cases "n < 4") (auto simp: bits simp del: bit_0 dest: bit_below [OF x] take_bit_idE [OF f])
qed

lemma nack_flags_12:
  fixes u :: u8 and m so r :: bool
  defines "b \<equiv> push_bit 4 u OR (if m then 8 else 0) OR (if so then 4 else 0) OR (if r then 2 else 0)"
  shows "b AND 1 = 0" "b AND 8 \<noteq> 0 \<longleftrightarrow> m" "b AND 4 \<noteq> 0 \<longleftrightarrow> so" "b AND 2 \<noteq> 0 \<longleftrightarrow> r"
proof -
  have e: "b AND 2 ^ k = 0 \<longleftrightarrow> \<not> bit b k" for k by (rule and_exp_eq_0_iff_not_bit)
  show "b AND 1 = 0" "b AND 8 \<noteq> 0 \<longleftrightarrow> m" "b AND 4 \<noteq> 0 \<longleftrightarrow> so" "b AND 2 \<noteq> 0 \<longleftrightarrow> r"
    using e [of 0] e [of 3] e [of 2] e [of 1]
    by (simp_all add: b_def and_masks bits bit_numerals del: bit_0)
qed

lemma nack_sn_18:
  fixes x :: u32 and f :: u8
  assumes x: "x < 2 ^ 18" and f: "take_bit 6 f = f"
  shows "push_bit 10 (ucast (ucast (drop_bit 10 x AND 255) AND 255 :: u8)) OR
      push_bit 2 (ucast (ucast (drop_bit 2 x AND 255) AND 255 :: u8)) OR
      drop_bit 6 (ucast ((push_bit 6 (ucast x) OR f) AND 192)) = x"
  unfolding and_masks high_masks
proof (rule bit_word_eqI)
  fix n assume "n < LENGTH(32)"
  then show "bit (push_bit 10 (ucast (take_bit 8 (ucast (take_bit 8 (drop_bit 10 x)) :: u8))) OR
      push_bit 2 (ucast (take_bit 8 (ucast (take_bit 8 (drop_bit 2 x)) :: u8))) OR
      drop_bit 6 (ucast (push_bit 6 (drop_bit 6 (push_bit 6 (ucast x) OR f)))) :: u32) n = bit x n"
    by (cases "n < 2"; cases "n < 10")
      (auto simp: bits simp del: bit_0 add_2_eq_Suc add_2_eq_Suc' dest: bit_below [OF x] take_bit_idE [OF f])
qed

lemma nack_flags_18:
  fixes u :: u8 and m so r :: bool
  defines "c \<equiv> push_bit 6 u OR (if m then 32 else 0) OR (if so then 16 else 0) OR (if r then 8 else 0)"
  shows "c AND 7 = 0" "c AND 32 \<noteq> 0 \<longleftrightarrow> m" "c AND 16 \<noteq> 0 \<longleftrightarrow> so" "c AND 8 \<noteq> 0 \<longleftrightarrow> r"
proof -
  have e: "c AND 2 ^ k = 0 \<longleftrightarrow> \<not> bit c k" for k by (rule and_exp_eq_0_iff_not_bit)
  show "c AND 32 \<noteq> 0 \<longleftrightarrow> m" "c AND 16 \<noteq> 0 \<longleftrightarrow> so" "c AND 8 \<noteq> 0 \<longleftrightarrow> r"
    using e [of 5] e [of 4] e [of 3]
    by (simp_all add: c_def bits bit_numerals del: bit_0)
  show "c AND 7 = 0"
    unfolding c_def and_masks
    by (rule bit_word_eqI) (auto simp: bits bit_numerals simp del: bit_0)
qed

lemma low_bits_ucast: "ucast (push_bit 6 (x :: u32) AND 192) = (push_bit 6 (ucast x) :: u8)"
  "ucast (push_bit 4 (x AND 15)) = (push_bit 4 (ucast (x AND 15)) :: u8)"
  "ucast (push_bit 2 x AND 252) = (push_bit 2 (ucast x) :: u8)"
proof -
  have h: "ucast (y AND 192) = (ucast y :: u8) AND 192" "ucast (y AND 252) = (ucast y :: u8) AND 252" for y :: u32
    by (simp_all add: unsigned_and_eq)
  show "ucast (push_bit 6 (x :: u32) AND 192) = (push_bit 6 (ucast x) :: u8)"
    "ucast (push_bit 4 (x AND 15)) = (push_bit 4 (ucast (x AND 15)) :: u8)"
    "ucast (push_bit 2 x AND 252) = (push_bit 2 (ucast x) :: u8)"
    unfolding h high_masks and_masks by (rule bit_word_eqI, auto simp: bits simp del: bit_0)+
qed

lemma flags_small:
  "take_bit 4 ((if m then 8 else 0) OR (if so then 4 else 0) OR (if r then 2 else 0) :: u8) =
     (if m then 8 else 0) OR (if so then 4 else 0) OR (if r then 2 else 0)"
  "take_bit 6 ((if m then 32 else 0) OR (if so then 16 else 0) OR (if r then 8 else 0) :: u8) =
     (if m then 32 else 0) OR (if so then 16 else 0) OR (if r then 8 else 0)"
  by (cases m; cases so; cases r; simp)+

text \<open>One NACK: the loop reads it and goes on with what follows.\<close>

lemma read_nacks_12_step:
  assumes "e1 \<noteq> 0" "mem_len - length (a # b # ys) < nof" "b AND 1 = 0"
    "push_bit 4 (ucast (a AND 255)) OR drop_bit 4 (ucast (b AND 240)) = sn"
    "read_nack_ext (b AND 4) (b AND 2) (nack_default\<lparr>nack_sn := sn\<rparr>) ys = Some (n, zs)"
  shows "read_nacks_12bit_sn mem_len nof e1 (a # b # ys) st = read_nacks_12bit_sn mem_len nof (b AND 8) zs (push_nack st n)"
  using assms by (subst read_nacks_12bit_sn.simps) (simp add: not_le)

lemma read_nacks_18_step:
  assumes "e1 \<noteq> 0" "mem_len - length (a # b # c # ys) < nof" "c AND 7 = 0"
    "push_bit 10 (ucast (a AND 255)) OR push_bit 2 (ucast (b AND 255)) OR drop_bit 6 (ucast (c AND 192)) = sn"
    "read_nack_ext (c AND 16) (c AND 8) (nack_default\<lparr>nack_sn := sn\<rparr>) ys = Some (n, zs)"
  shows "read_nacks_18bit_sn mem_len nof e1 (a # b # c # ys) st = read_nacks_18bit_sn mem_len nof (c AND 32) zs (push_nack st n)"
  using assms by (subst read_nacks_18bit_sn.simps) (simp add: not_le)

lemma read_nack_12:
  assumes ok: "nack_ok size12bits n" and e1: "e1 \<noteq> 0" and pos: "mem_len - length (write_nacks_12bit_sn (n # ns) @ rest) < nof"
  shows "\<exists>e. (e \<noteq> 0 \<longleftrightarrow> ns \<noteq> []) \<and>
    read_nacks_12bit_sn mem_len nof e1 (write_nacks_12bit_sn (n # ns) @ rest) st =
    read_nacks_12bit_sn mem_len nof e (write_nacks_12bit_sn ns @ rest) (push_nack st n)"
proof -
  let ?f = "(if ns \<noteq> [] then 8 else 0) OR (if has_so n then 4 else 0) OR (if has_nack_range n then 2 else 0) :: u8"
  let ?b = "ucast (push_bit 4 (nack_sn n AND 15)) OR ?f"
  have x: "nack_sn n < 2 ^ 12" using ok by (simp add: nack_ok_def cardinality_def)
  note f = nack_flags_12 [of "ucast (nack_sn n AND 15)" "ns \<noteq> []" "has_so n" "has_nack_range n",
      folded low_bits_ucast(2)]
  have "read_nack_ext (?b AND 4) (?b AND 2) (nack_default\<lparr>nack_sn := nack_sn n\<rparr>)
      (write_nack_ext n @ write_nacks_12bit_sn ns @ rest) = Some (n, write_nacks_12bit_sn ns @ rest)"
    by (rule read_nack_ext_written [OF ok f(3,4)])
  moreover note nack_sn_12 [OF x flags_small(1), of "ns \<noteq> []" "has_so n" "has_nack_range n"]
  moreover have "write_nacks_12bit_sn (n # ns) @ rest =
      ucast (drop_bit 4 (nack_sn n) AND 255) # ?b # write_nack_ext n @ write_nacks_12bit_sn ns @ rest"
    by (simp only: write_nacks_12bit_sn.simps append.simps append.assoc or.assoc)
  ultimately have "read_nacks_12bit_sn mem_len nof e1 (write_nacks_12bit_sn (n # ns) @ rest) st =
      read_nacks_12bit_sn mem_len nof (?b AND 8) (write_nacks_12bit_sn ns @ rest) (push_nack st n)"
    using read_nacks_12_step [OF e1 _ f(1)] pos by (simp only:)
  with f(2) show ?thesis by blast
qed

lemma read_nacks_12_written:
  "\<forall>n\<in>set ns. nack_ok size12bits n \<Longrightarrow> (e1 \<noteq> 0 \<longleftrightarrow> ns \<noteq> []) \<Longrightarrow>
   length (write_nacks_12bit_sn ns @ rest) \<le> mem_len \<Longrightarrow> mem_len - length rest \<le> nof \<Longrightarrow>
   read_nacks_12bit_sn mem_len nof e1 (write_nacks_12bit_sn ns @ rest) st = Some (0, foldl push_nack st ns)"
proof (induction ns arbitrary: e1 st)
  case Nil
  then show ?case by (simp add: read_nacks_12bit_sn.simps)
next
  case (Cons n ns)
  have "mem_len - length (write_nacks_12bit_sn (n # ns) @ rest) < nof"
    using Cons.prems(3,4) by simp
  then obtain e where e: "e \<noteq> 0 \<longleftrightarrow> ns \<noteq> []"
    "read_nacks_12bit_sn mem_len nof e1 (write_nacks_12bit_sn (n # ns) @ rest) st =
      read_nacks_12bit_sn mem_len nof e (write_nacks_12bit_sn ns @ rest) (push_nack st n)"
    using read_nack_12 [of n e1 mem_len ns rest nof st] Cons.prems(1,2) by auto
  then show ?case using Cons.IH [OF _ e(1)] Cons.prems by simp
qed

lemma read_nack_18:
  assumes ok: "nack_ok size18bits n" and e1: "e1 \<noteq> 0" and pos: "mem_len - length (write_nacks_18bit_sn (n # ns) @ rest) < nof"
  shows "\<exists>e. (e \<noteq> 0 \<longleftrightarrow> ns \<noteq> []) \<and>
    read_nacks_18bit_sn mem_len nof e1 (write_nacks_18bit_sn (n # ns) @ rest) st =
    read_nacks_18bit_sn mem_len nof e (write_nacks_18bit_sn ns @ rest) (push_nack st n)"
proof -
  let ?f = "(if ns \<noteq> [] then 32 else 0) OR (if has_so n then 16 else 0) OR (if has_nack_range n then 8 else 0) :: u8"
  let ?c = "push_bit 6 (ucast (nack_sn n)) OR ?f"
  have x: "nack_sn n < 2 ^ 18" using ok by (simp add: nack_ok_def cardinality_def)
  note f = nack_flags_18 [of "ucast (nack_sn n)" "ns \<noteq> []" "has_so n" "has_nack_range n"]
  have "read_nack_ext (?c AND 16) (?c AND 8) (nack_default\<lparr>nack_sn := nack_sn n\<rparr>)
      (write_nack_ext n @ write_nacks_18bit_sn ns @ rest) = Some (n, write_nacks_18bit_sn ns @ rest)"
    by (rule read_nack_ext_written [OF ok f(3,4)])
  moreover note nack_sn_18 [OF x flags_small(2), of "ns \<noteq> []" "has_so n" "has_nack_range n"]
  moreover have "write_nacks_18bit_sn (n # ns) @ rest =
      ucast (drop_bit 10 (nack_sn n) AND 255) # ucast (drop_bit 2 (nack_sn n) AND 255) # ?c #
        write_nack_ext n @ write_nacks_18bit_sn ns @ rest"
    by (simp only: write_nacks_18bit_sn.simps append.simps append.assoc or.assoc low_bits_ucast(1))
  ultimately have "read_nacks_18bit_sn mem_len nof e1 (write_nacks_18bit_sn (n # ns) @ rest) st =
      read_nacks_18bit_sn mem_len nof (?c AND 32) (write_nacks_18bit_sn ns @ rest) (push_nack st n)"
    using read_nacks_18_step [OF e1 _ f(1)] pos by (simp only:)
  with f(2) show ?thesis by blast
qed

lemma read_nacks_18_written:
  "\<forall>n\<in>set ns. nack_ok size18bits n \<Longrightarrow> (e1 \<noteq> 0 \<longleftrightarrow> ns \<noteq> []) \<Longrightarrow>
   length (write_nacks_18bit_sn ns @ rest) \<le> mem_len \<Longrightarrow> mem_len - length rest \<le> nof \<Longrightarrow>
   read_nacks_18bit_sn mem_len nof e1 (write_nacks_18bit_sn ns @ rest) st = Some (0, foldl push_nack st ns)"
proof (induction ns arbitrary: e1 st)
  case Nil
  then show ?case by (simp add: read_nacks_18bit_sn.simps)
next
  case (Cons n ns)
  have "mem_len - length (write_nacks_18bit_sn (n # ns) @ rest) < nof"
    using Cons.prems(3,4) by simp
  then obtain e where e: "e \<noteq> 0 \<longleftrightarrow> ns \<noteq> []"
    "read_nacks_18bit_sn mem_len nof e1 (write_nacks_18bit_sn (n # ns) @ rest) st =
      read_nacks_18bit_sn mem_len nof e (write_nacks_18bit_sn ns @ rest) (push_nack st n)"
    using read_nack_18 [of n e1 mem_len ns rest nof st] Cons.prems(1,2) by auto
  then show ?case using Cons.IH [OF _ e(1)] Cons.prems by simp
qed

definition status_written_ok :: "rlc_am_nr_status_pdu \<Rightarrow> bool" where
  "status_written_ok st \<longleftrightarrow> status_inv st \<and> st_cpt st = 0 \<and> st_ack_sn st < cardinality (st_sn_size st)"

lemma ack_sn_12:
  assumes x: "(x :: u32) < 2 ^ 12"
  shows "push_bit 8 (ucast (ucast (drop_bit 8 x AND 15) AND 15 :: u8)) OR ucast (ucast (x AND 255) AND 255 :: u8) = x"
    "drop_bit 4 (ucast (drop_bit 8 x AND 15) :: u8) AND 7 = 0"
  unfolding and_masks
  by (rule bit_word_eqI, auto simp: bits simp del: bit_0 dest: bit_below [OF x])+

lemma ack_sn_18:
  assumes x: "(x :: u32) < 2 ^ 18" and f: "take_bit 2 (f :: u8) = f"
  shows "push_bit 14 (ucast (ucast (drop_bit 14 x AND 15) AND 15 :: u8)) OR
      push_bit 6 (ucast (ucast (drop_bit 6 x AND 255) AND 255 :: u8)) OR drop_bit 2 (ucast ((push_bit 2 (ucast x) OR f) AND 252)) = x"
    "drop_bit 4 (ucast (drop_bit 14 x AND 15) :: u8) AND 7 = 0"
proof -
  show "push_bit 14 (ucast (ucast (drop_bit 14 x AND 15) AND 15 :: u8)) OR
      push_bit 6 (ucast (ucast (drop_bit 6 x AND 255) AND 255 :: u8)) OR drop_bit 2 (ucast ((push_bit 2 (ucast x) OR f) AND 252)) = x"
    unfolding and_masks high_masks
  proof (rule bit_word_eqI)
    fix n assume "n < LENGTH(32)"
    then show "bit (push_bit 14 (ucast (take_bit 4 (ucast (take_bit 4 (drop_bit 14 x)) :: u8))) OR
        push_bit 6 (ucast (take_bit 8 (ucast (take_bit 8 (drop_bit 6 x)) :: u8))) OR
        drop_bit 2 (ucast (push_bit 2 (drop_bit 2 (push_bit 2 (ucast x) OR f)))) :: u32) n = bit x n"
      by (cases "n < 6"; cases "n < 14")
        (auto simp: bits simp del: bit_0 add_2_eq_Suc add_2_eq_Suc' dest: bit_below [OF x] take_bit_idE [OF f])
  qed
  show "drop_bit 4 (ucast (drop_bit 14 x AND 15) :: u8) AND 7 = 0"
    unfolding and_masks by (rule bit_word_eqI) (auto simp: bits simp del: bit_0)
qed

lemma status_flags_18:
  fixes u :: u8 and m :: bool
  shows "(push_bit 2 u OR (if m then 2 else 0) :: u8) AND 1 = 0"
  "(push_bit 2 u OR (if m then 2 else 0) :: u8) AND 2 \<noteq> 0 \<longleftrightarrow> m"
  "take_bit 2 (if m then 2 else 0 :: u8) = (if m then 2 else 0)"
proof -
  let ?c = "push_bit 2 u OR (if m then 2 else 0) :: u8"
  have e: "?c AND 2 ^ k = 0 \<longleftrightarrow> \<not> bit ?c k" for k by (rule and_exp_eq_0_iff_not_bit)
  show "?c AND 1 = 0" "?c AND 2 \<noteq> 0 \<longleftrightarrow> m"
    using e [of 0] e [of 1] by (simp_all add: bits bit_numerals del: bit_0)
qed simp

lemma read_written_nacks:
  assumes "status_inv st" "st_nacks st0 = []" "st_sn_size st0 = st_sn_size st" "st_packed_size st0 = 3"
    "st_cpt st0 = st_cpt st" "st_ack_sn st0 = st_ack_sn st"
  shows "foldl push_nack st0 (st_nacks st) = st"
  using foldl_push_nack [of st0 "st_nacks st"] assms by (simp add: status_inv_def)

text \<open>A reader that is given at least the written bytes returns the container that was written.\<close>

lemma status_12_reads:
  assumes st: "status_written_ok st" "st_sn_size st = size12bits" and st0: "st_sn_size st0 = size12bits"
  defines "xs \<equiv> rlc_am_nr_write_status_pdu_12bit_sn st"
  assumes n: "length xs \<le> n"
  shows "rlc_am_nr_read_status_pdu_12bit_sn (xs @ rest) n st0 = Some (0, st)"
proof -
  have inv: "status_inv st" "st_cpt st = 0" and sn: "st_ack_sn st < 2 ^ 12"
    using st by (simp_all add: status_written_ok_def cardinality_def)
  let ?e = "if st_nacks st \<noteq> [] then 128 else 0 :: u8"
  have e: "?e AND 127 = 0" "?e AND 128 \<noteq> 0 \<longleftrightarrow> st_nacks st \<noteq> []" by simp_all
  let ?st = "(status_reset st0)\<lparr>st_ack_sn := st_ack_sn st\<rparr>"
  have "read_nacks_12bit_sn (length (xs @ rest)) n (?e AND 128) (write_nacks_12bit_sn (st_nacks st) @ rest) ?st =
      Some (0, foldl push_nack ?st (st_nacks st))"
    using inv(1) n e(2) st(2)
    by (intro read_nacks_12_written) (simp_all add: xs_def rlc_am_nr_write_status_pdu_12bit_sn_def status_inv_def)
  moreover have "foldl push_nack ?st (st_nacks st) = st"
    using inv st0 st(2) by (intro read_written_nacks) (simp_all add: status_reset_def)
  moreover have "(status_reset st0)\<lparr>st_cpt := 0, st_ack_sn := st_ack_sn st\<rparr> = ?st" by (simp add: status_reset_def)
  ultimately show ?thesis
    using ack_sn_12 [OF sn] e(1)
    by (simp add: rlc_am_nr_read_status_pdu_12bit_sn_def xs_def rlc_am_nr_write_status_pdu_12bit_sn_def Let_def
      del: write_nacks_12bit_sn.simps)
qed

lemma status_18_reads:
  assumes st: "status_written_ok st" "st_sn_size st = size18bits" and st0: "st_sn_size st0 = size18bits"
  defines "xs \<equiv> rlc_am_nr_write_status_pdu_18bit_sn st"
  assumes n: "length xs \<le> n"
  shows "rlc_am_nr_read_status_pdu_18bit_sn (xs @ rest) n st0 = Some (0, st)"
proof -
  have inv: "status_inv st" "st_cpt st = 0" and sn: "st_ack_sn st < 2 ^ 18"
    using st by (simp_all add: status_written_ok_def cardinality_def)
  let ?f = "if st_nacks st \<noteq> [] then 2 else 0 :: u8"
  obtain c where c: "c = push_bit 2 (ucast (st_ack_sn st)) OR ?f" by blast
  note e = status_flags_18(1,2) [of "ucast (st_ack_sn st)" "st_nacks st \<noteq> []", folded c]
    and f = status_flags_18(3) [of "st_nacks st \<noteq> []"]
  let ?st = "(status_reset st0)\<lparr>st_ack_sn := st_ack_sn st\<rparr>"
  have xs: "xs = ucast (drop_bit 14 (st_ack_sn st) AND 15) # ucast (drop_bit 6 (st_ack_sn st) AND 255) # c #
      write_nacks_18bit_sn (st_nacks st)"
    by (simp add: xs_def rlc_am_nr_write_status_pdu_18bit_sn_def c low_bits_ucast(3))
  have "read_nacks_18bit_sn (length (xs @ rest)) n (c AND 2) (write_nacks_18bit_sn (st_nacks st) @ rest) ?st =
      Some (0, foldl push_nack ?st (st_nacks st))"
    using inv(1) n e(2) st(2) by (intro read_nacks_18_written) (simp_all add: xs status_inv_def)
  moreover have "foldl push_nack ?st (st_nacks st) = st"
    using inv st0 st(2) by (intro read_written_nacks) (simp_all add: status_reset_def)
  moreover have "(status_reset st0)\<lparr>st_cpt := 0, st_ack_sn := st_ack_sn st\<rparr> = ?st" by (simp add: status_reset_def)
  ultimately show ?thesis
    using ack_sn_18 [OF sn f] e(1)
    by (simp add: rlc_am_nr_read_status_pdu_18bit_sn_def xs Let_def c [symmetric] del: write_nacks_18bit_sn.simps)
qed

text \<open>The cached size is the number of bytes the writer produces.\<close>

lemma write_nack_ext_size:
  "of_nat (length (write_nack_ext n)) = (if has_so n then 4 else 0) + (if has_nack_range n then 1 else 0 :: u32)"
  by (simp add: write_nack_ext_def)

lemma write_nacks_12_size:
  "of_nat (length (write_nacks_12bit_sn ns)) = sum_list (map (nack_size size12bits) ns)"
  by (induction ns) (simp_all add: nack_size_def write_nack_ext_size)

lemma write_nacks_18_size:
  "of_nat (length (write_nacks_18bit_sn ns)) = sum_list (map (nack_size size18bits) ns)"
  by (induction ns) (simp_all add: nack_size_def write_nack_ext_size)

definition status_bytes :: "rlc_am_nr_status_pdu \<Rightarrow> bytes" where
  "status_bytes st = (case st_sn_size st of size12bits \<Rightarrow> rlc_am_nr_write_status_pdu_12bit_sn st
     | size18bits \<Rightarrow> rlc_am_nr_write_status_pdu_18bit_sn st)"

lemma status_bytes_size: "status_inv st \<Longrightarrow> of_nat (length (status_bytes st)) = st_packed_size st"
  by (cases "st_sn_size st")
     (simp_all add: status_bytes_def status_inv_def rlc_am_nr_write_status_pdu_12bit_sn_def
       rlc_am_nr_write_status_pdu_18bit_sn_def write_nacks_12_size write_nacks_18_size)

subsection \<open>Trimming\<close>

lemma trim_loop_keeps:
  "status_inv st \<Longrightarrow> status_inv (trim_loop m st) \<and> st_sn_size (trim_loop m st) = st_sn_size st \<and>
     (\<exists>k. st_nacks (trim_loop m st) = take k (st_nacks st) \<and>
       st_ack_sn (trim_loop m st) = (if k < length (st_nacks st) then nack_sn (st_nacks st ! k) else st_ack_sn st)) \<and>
     (st_nacks (trim_loop m st) \<noteq> [] \<longrightarrow> st_packed_size (trim_loop m st) \<le> m \<and>
       nack_sn (last (st_nacks (trim_loop m st))) \<noteq> st_ack_sn (trim_loop m st))"
proof (induction m st rule: trim_loop.induct)
  case (1 m st)
  let ?s = "st_sn_size st"
  show ?case
  proof (cases "st_nacks st \<noteq> [] \<and> (m < st_packed_size st \<or> nack_sn (last (st_nacks st)) = st_ack_sn st)")
    case False
    then have "trim_loop m st = st" by (subst trim_loop.simps) (simp only: if_False)
    moreover have "\<exists>k. st_nacks st = take k (st_nacks st) \<and>
        st_ack_sn st = (if k < length (st_nacks st) then nack_sn (st_nacks st ! k) else st_ack_sn st)"
      by (rule exI [of _ "length (st_nacks st)"]) simp
    ultimately show ?thesis using False 1(2) by (auto simp: not_less)
  next
    case True
    obtain ns p where ns: "st_nacks st = ns @ [p]" using True by (cases "st_nacks st" rule: rev_cases) auto
    let ?st = "st\<lparr>st_packed_size := st_packed_size st - nack_size ?s p, st_ack_sn := nack_sn p, st_nacks := ns\<rparr>"
    have step: "trim_loop m st = trim_loop m ?st"
      using True by (subst trim_loop.simps) (simp add: ns)
    have inv: "status_inv ?st" using 1(2) unfolding status_inv_def ns by (simp add: successively_append_iff)
    have sel: "st_nacks ?st = ns" "st_ack_sn ?st = nack_sn p" "st_sn_size ?st = ?s" by simp_all
    note IH = 1(1) [OF True, unfolded ns last_snoc butlast_snoc, OF inv, unfolded sel]
    then have "\<exists>k. st_nacks (trim_loop m ?st) = take k ns \<and>
      st_ack_sn (trim_loop m ?st) = (if k < length ns then nack_sn (ns ! k) else nack_sn p)" by blast
    then obtain k where k: "st_nacks (trim_loop m ?st) = take k ns"
      "st_ack_sn (trim_loop m ?st) = (if k < length ns then nack_sn (ns ! k) else nack_sn p)" by blast
    have "st_nacks (trim_loop m ?st) = take (min k (length ns)) (ns @ [p])" using k(1) by (simp add: min_def)
    moreover have "st_ack_sn (trim_loop m ?st) = nack_sn ((ns @ [p]) ! min k (length ns))"
      using k(2) by (simp add: min_def nth_append)
    ultimately have "\<exists>k. st_nacks (trim_loop m ?st) = take k (ns @ [p]) \<and>
        st_ack_sn (trim_loop m ?st) = (if k < length (ns @ [p]) then nack_sn ((ns @ [p]) ! k) else st_ack_sn st)"
      by (intro exI [of _ "min k (length ns)"]) (simp add: less_Suc_eq_le)
    with IH show ?thesis unfolding step ns by blast
  qed
qed

lemma trim_loop_fits:
  assumes "status_inv st" "3 \<le> m"
  shows "st_packed_size (trim_loop m st) \<le> m"
  using trim_loop_keeps [OF assms(1), of m] assms(2)
  by (cases "st_nacks (trim_loop m st) = []") (auto simp: status_inv_def)

subsection \<open>What a NACK means\<close>

text \<open>The sequence numbers a NACK reports as missing, in the sequence number space of its PDU.\<close>

definition nack_count :: "rlc_status_nack \<Rightarrow> nat" where
  "nack_count n = (if has_nack_range n then unat (nack_range n) else 1)"

definition nacked_sns :: "rlc_am_nr_sn_size \<Rightarrow> rlc_status_nack \<Rightarrow> u32 set" where
  "nacked_sns s n = (\<lambda>i. (nack_sn n + of_nat i) mod cardinality s) ` {0..<nack_count n}"

lemma take_bit_add_left: "take_bit n (take_bit n x + y) = take_bit n (x + (y :: 'a::len word))"
  by transfer (simp add: take_bit_eq_mod mod_simps)

lemma mod_cardinality: "x mod cardinality s = take_bit (case s of size12bits \<Rightarrow> 12 | size18bits \<Rightarrow> 18) x"
  by (cases s) (simp_all add: cardinality_def take_bit_eq_mod)

lemma add_mod_cardinality: "((x mod cardinality s) + y) mod cardinality s = (x + y) mod cardinality s"
  unfolding mod_cardinality by (rule take_bit_add_left)

lemma nack_count_merge:
  "nack_count p + nack_count n < 256 \<Longrightarrow> nack_count (merge_nack p n) = nack_count p + nack_count n"
  by (auto simp: nack_count_def merge_nack_def Let_def unat_word_ariths)

lemma continuous_sn:
  "is_continuous_sequence s p n \<Longrightarrow> nack_sn n = (nack_sn p + of_nat (nack_count p)) mod cardinality s"
  by (auto simp: is_continuous_sequence_def nack_count_def unsigned_ucast_eq)

lemma nacked_merge:
  assumes c: "is_continuous_sequence s p n" and lt: "nack_count p + nack_count n < 256"
  shows "nacked_sns s (merge_nack p n) = nacked_sns s p \<union> nacked_sns s n"
proof -
  let ?f = "\<lambda>i. (nack_sn p + of_nat i) mod cardinality s"
  have "{0..<nack_count p + nack_count n} = {0..<nack_count p} \<union> {nack_count p..<nack_count p + nack_count n}"
    by (simp add: ivl_disj_un_two(3))
  moreover have "{nack_count p..<nack_count p + nack_count n} = (+) (nack_count p) ` {0..<nack_count n}"
    by (simp add: add.commute)
  moreover have "?f (nack_count p + i) = (nack_sn n + of_nat i) mod cardinality s" for i
    unfolding continuous_sn [OF c] add_mod_cardinality by (simp add: add.assoc)
  ultimately have "?f ` {0..<nack_count p + nack_count n} =
      ?f ` {0..<nack_count p} \<union> (\<lambda>i. (nack_sn n + of_nat i) mod cardinality s) ` {0..<nack_count n}"
    by (simp only: image_Un image_image)
  then show ?thesis
    unfolding nacked_sns_def nack_count_merge [OF lt] merge_nack_keeps(1) .
qed

definition status_nacked :: "rlc_am_nr_status_pdu \<Rightarrow> u32 set" where
  "status_nacked st = (\<Union>n\<in>set (st_nacks st). nacked_sns (st_sn_size st) n)"

lemma push_nack_nacked:
  assumes "st_nacks st \<noteq> [] \<Longrightarrow> nack_count (last (st_nacks st)) + nack_count n < 256"
  shows "status_nacked (push_nack st n) = status_nacked st \<union> nacked_sns (st_sn_size st) n"
proof (cases "st_nacks st = [] \<or> \<not> is_continuous_sequence (st_sn_size st) (last (st_nacks st)) n")
  case True
  then show ?thesis by (simp add: status_nacked_def push_nack_def Let_def Un_commute)
next
  case False
  obtain ns p where ns: "st_nacks st = ns @ [p]" using False by (cases "st_nacks st" rule: rev_cases) auto
  have "nacked_sns (st_sn_size st) (merge_nack p n) = nacked_sns (st_sn_size st) p \<union> nacked_sns (st_sn_size st) n"
    using False ns assms by (intro nacked_merge) auto
  with False ns show ?thesis by (auto simp: status_nacked_def push_nack_def Let_def)
qed

text \<open>Consecutive SDUs that are reported one by one end up in a single NACK with an 8 bit range.\<close>

definition sdu_nack :: "u32 \<Rightarrow> rlc_status_nack" where
  "sdu_nack sn = nack_default\<lparr>nack_sn := sn\<rparr>"

lemma push_nack_single:
  "st_nacks st = [p] \<Longrightarrow> st_sn_size st = s \<Longrightarrow> is_continuous_sequence s p n \<Longrightarrow>
   st_nacks (push_nack st n) = [merge_nack p n]"
  by (simp add: push_nack_def Let_def)

lemma push_consecutive:
  assumes "k \<le> 254"
  shows "st_nacks (foldl (\<lambda>st i. push_nack st (sdu_nack (of_nat i))) (status_new size12bits) [0..<k + 2]) =
    [nack_default\<lparr>nack_sn := 0, has_nack_range := True, nack_range := of_nat (k + 2)\<rparr>]"
  using assms
proof (induction k)
  case 0
  show ?case
    by (simp add: upt_rec push_nack_def status_new_def sdu_nack_def nack_default_def is_continuous_sequence_def
      merge_nack_def cardinality_def Let_def)
next
  case (Suc k)
  let ?st = "foldl (\<lambda>st i. push_nack st (sdu_nack (of_nat i))) (status_new size12bits) [0..<k + 2]"
  let ?p = "nack_default\<lparr>nack_sn := 0, has_nack_range := True, nack_range := of_nat (k + 2)\<rparr>"
  have st: "st_nacks ?st = [?p]" using Suc by simp
  have sz: "st_sn_size (foldl (\<lambda>st i. push_nack st (sdu_nack (of_nat i))) st xs) = st_sn_size st" for st xs
    by (induction xs arbitrary: st) simp_all
  have u: "unat (of_nat (k + 2) :: u8) = k + 2" using Suc.prems by (intro unat_of_nat_eq) simp
  have v: "unat (of_nat (k + 2) :: u32) = k + 2" using Suc.prems by (intro unat_of_nat_eq) simp
  have w: "ucast (of_nat (k + 2) :: u8) = (of_nat (k + 2) :: u32)"
    by (rule word_unat_eq_iff [THEN iffD2]) (simp only: unsigned_ucast_eq u v, use Suc.prems in \<open>simp add: take_bit_nat_eq_self\<close>)
  have m: "of_nat (k + 2) mod 4096 = (of_nat (k + 2) :: u32)"
    by (rule word_unat_eq_iff [THEN iffD2]) (simp only: unat_mod v, use Suc.prems in simp)
  have c: "is_continuous_sequence size12bits ?p (sdu_nack (of_nat (k + 2)))"
    using w m by (simp add: is_continuous_sequence_def sdu_nack_def nack_default_def cardinality_def)
  have "merge_nack ?p (sdu_nack (of_nat (k + 2))) = ?p\<lparr>nack_range := of_nat (Suc k + 2)\<rparr>"
    by (simp add: merge_nack_def sdu_nack_def nack_default_def)
  moreover have "st_nacks (push_nack ?st (sdu_nack (of_nat (k + 2)))) = [merge_nack ?p (sdu_nack (of_nat (k + 2)))]"
    by (rule push_nack_single [OF st _ c]) (simp add: sz status_new_def)
  ultimately show ?case by (simp add: numeral_2_eq_2)
qed

section \<open>Properties\<close>

text \<open>
  C9: a data PDU header written in front of an SDU is read back as it was, the SDU is untouched, and
  stripping the reported number of bytes gives the SDU again. The segment offset has to be zero
  exactly for the segments that carry none.
\<close>

theorem data_pdu_header_roundtrip:
  assumes "bb_ok pdu" "data_header_ok h" "rlc_am_nr_packed_length h \<le> get_headroom pdu" "h_so h0 = 0"
  shows "\<exists>pdu' sdu. rlc_am_nr_write_data_pdu_header_buf h pdu = Some (rlc_am_nr_packed_length h, pdu') \<and> bb_ok pdu' \<and>
    rlc_am_nr_read_data_pdu_header (bb_data pdu') (bb_n pdu') (h_sn_size h) h0 =
      Some (of_nat (rlc_am_nr_packed_length h), h) \<and>
    pull_header pdu' (rlc_am_nr_packed_length h) = Some sdu \<and> bb_data sdu = bb_data pdu"
proof -
  let ?xs = "rlc_am_nr_data_pdu_header_bytes h"
  note len = data_header_length [OF assms(2)]
  obtain p1 p2 where p: "push_header pdu ?xs = Some p1" "bb_ok p1" "bb_data p1 = ?xs @ bb_data pdu"
    "pull_header p1 (length ?xs) = Some p2" "bb_data p2 = bb_data pdu"
    using bb.pull_push [OF assms(1), of ?xs] assms(3) len by metis
  have "rlc_am_nr_write_data_pdu_header_buf h pdu = Some (rlc_am_nr_packed_length h, p1)"
    using p(1) assms(3) len
    by (auto simp: rlc_am_nr_write_data_pdu_header_buf_def push_header_def get_headroom_def Let_def split: if_splits)
  with p len data_header_reads [OF assms(2,4)] show ?thesis by auto
qed

theorem data_pdu_header_roundtrip_witness:
  "let h = \<lparr>h_dc = RLC_DC_FIELD_DATA_PDU, h_p = 1, h_si = last_segment, h_sn_size = size18bits,
      h_sn = 0x2A5C3, h_so = 700\<rparr>;
      pdu = \<lparr>bb_buffer = replicate 8 0 @ [1, 2], bb_msg = 8, bb_n = 2, bb_pdcp_sn = 0\<rparr>
   in \<exists>pdu' sdu. rlc_am_nr_write_data_pdu_header_buf h pdu = Some (rlc_am_nr_packed_length h, pdu') \<and> bb_ok pdu' \<and>
    rlc_am_nr_read_data_pdu_header (bb_data pdu') (bb_n pdu') (h_sn_size h) (h\<lparr>h_so := 0\<rparr>) =
      Some (of_nat (rlc_am_nr_packed_length h), h) \<and>
    pull_header pdu' (rlc_am_nr_packed_length h) = Some sdu \<and> bb_data sdu = bb_data pdu"
  unfolding Let_def
  by (rule data_pdu_header_roundtrip)
    (simp_all add: bb_ok_def data_header_ok_def cardinality_def rlc_am_nr_packed_length_def get_headroom_def)

text \<open>
  C7: \<open>push_nack\<close> keeps the container well formed: every NACK in range, no neighbours left unmerged, the
  cached size equal to the number of bytes the writer will produce; and as long as the merged range
  stays below 256 the reported sequence numbers are exactly the old ones and the new ones.
\<close>

theorem push_nack_correct:
  assumes "status_inv st" "nack_ok (st_sn_size st) n"
    and "st_nacks st = [] \<or> nack_count (last (st_nacks st)) + nack_count n < 256"
  shows "status_inv (push_nack st n) \<and>
    status_nacked (push_nack st n) = status_nacked st \<union> nacked_sns (st_sn_size st) n \<and>
    of_nat (length (status_bytes (push_nack st n))) = st_packed_size (push_nack st n)"
  using push_nack_inv [OF assms(1,2)] push_nack_nacked [of st n] assms(3)
    status_bytes_size [OF push_nack_inv [OF assms(1,2)]] by auto

theorem push_nack_correct_witness:
  "let st = push_nack (status_new size12bits) (sdu_nack 4095) in
   status_inv (push_nack st (sdu_nack 0)) \<and>
   status_nacked (push_nack st (sdu_nack 0)) = status_nacked st \<union> nacked_sns (st_sn_size st) (sdu_nack 0) \<and>
   of_nat (length (status_bytes (push_nack st (sdu_nack 0)))) = st_packed_size (push_nack st (sdu_nack 0))"
  unfolding Let_def
  by (rule push_nack_correct)
    (simp_all add: push_nack_inv status_new_inv nack_ok_def sdu_nack_def nack_default_def cardinality_def
      status_new_def push_nack_def nack_count_def status_inv_def Let_def)

text \<open>
  C4: a status PDU built by the container is read back as it was written, for both sequence number
  sizes, from any buffer that starts with the written bytes.
\<close>

theorem status_pdu_roundtrip:
  assumes "status_written_ok st" "st_sn_size st0 = st_sn_size st" "length (status_bytes st) \<le> nof_bytes"
  shows "rlc_am_nr_read_status_pdu (status_bytes st @ rest) nof_bytes (st_sn_size st) st0 = Some (0, st)"
  using assms status_12_reads [of st st0] status_18_reads [of st st0]
  by (cases "st_sn_size st") (simp_all add: status_bytes_def rlc_am_nr_read_status_pdu_def)

theorem status_pdu_roundtrip_witness:
  "let n = \<lparr>nack_sn = 9, has_so = True, so_start = 100, so_end = 65535, has_nack_range = True, nack_range = 3\<rparr>;
     st = (push_nack (status_new size18bits) n)\<lparr>st_ack_sn := 200000\<rparr>
   in rlc_am_nr_read_status_pdu (status_bytes st @ [7]) 100 (st_sn_size st) (status_new size18bits) = Some (0, st)"
  unfolding Let_def
  by (rule status_pdu_roundtrip)
    (simp_all add: status_written_ok_def status_inv_def push_nack_def status_new_def nack_ok_def
      cardinality_def status_bytes_def rlc_am_nr_write_status_pdu_18bit_sn_def write_nack_ext_def)

text \<open>
  C25: \<open>trim\<close> fails only when not even the fixed part fits. Otherwise the result is well formed, fits in
  the given space and holds a prefix of the NACKs; the first NACK that was dropped gives the new
  \<open>ACK_SN\<close>, and no segment NACK of that sequence number is left at the end.
\<close>

theorem trim_correct:
  assumes "status_inv st"
  shows "(fst (trim st m) \<longleftrightarrow> st_packed_size st \<le> m \<or> 3 \<le> m) \<and>
    (fst (trim st m) \<longrightarrow> (let st' = snd (trim st m) in
      status_inv st' \<and> st_packed_size st' \<le> m \<and>
      (\<exists>k. st_nacks st' = take k (st_nacks st) \<and>
        st_ack_sn st' = (if k < length (st_nacks st) then nack_sn (st_nacks st ! k) else st_ack_sn st)) \<and>
      (st_packed_size st \<le> m \<or> st_nacks st' = [] \<or> nack_sn (last (st_nacks st')) \<noteq> st_ack_sn st')))"
proof -
  consider "st_packed_size st \<le> m" | "m < st_packed_size st" "m < 3" | "m < st_packed_size st" "3 \<le> m" by fastforce
  then show ?thesis
  proof cases
    case 1
    then have "trim st m = (True, st)" by (simp add: trim_def)
    moreover have "\<exists>k. st_nacks st = take k (st_nacks st) \<and>
        st_ack_sn st = (if k < length (st_nacks st) then nack_sn (st_nacks st ! k) else st_ack_sn st)"
      by (rule exI [of _ "length (st_nacks st)"]) simp
    ultimately show ?thesis using 1 assms by simp
  next
    case 2
    then have "\<not> st_packed_size st \<le> m" "\<not> 3 \<le> m" by simp_all
    with 2 show ?thesis by (simp add: trim_def)
  next
    case 3
    then have "\<not> st_packed_size st \<le> m" "\<not> m < 3" by simp_all
    then have "trim st m = (True, trim_loop m st)" by (simp add: trim_def)
    then show ?thesis using 3 trim_loop_keeps [OF assms, of m] trim_loop_fits [OF assms 3(2)] by auto
  qed
qed

theorem trim_correct_witness:
  "let st = push_nack (push_nack (status_new size12bits) (sdu_nack 3)) (sdu_nack 8) in
   fst (trim st 5) \<and> status_inv (snd (trim st 5)) \<and> st_packed_size (snd (trim st 5)) \<le> 5"
proof -
  let ?st = "push_nack (push_nack (status_new size12bits) (sdu_nack 3)) (sdu_nack 8)"
  have "status_inv ?st"
    by (intro push_nack_inv status_new_inv)
      (simp_all add: nack_ok_def sdu_nack_def nack_default_def cardinality_def status_new_def)
  from trim_correct [OF this, of 5] show ?thesis by (simp add: Let_def)
qed

text \<open>
  : the range of a merged NACK is an 8 bit number. When 256 consecutive SDUs are reported missing one
  after the other, it wraps to zero and the status PDU reports none of them.
\<close>

theorem push_nack_range_wraps:
  "st_nacks (foldl (\<lambda>st i. push_nack st (sdu_nack (of_nat i))) (status_new size12bits) [0..<256]) =
     [nack_default\<lparr>has_nack_range := True, nack_range := 0\<rparr>] \<and>
   status_nacked (foldl (\<lambda>st i. push_nack st (sdu_nack (of_nat i))) (status_new size12bits) [0..<256]) = {}"
proof -
  let ?st = "foldl (\<lambda>st i. push_nack st (sdu_nack (of_nat i))) (status_new size12bits) [0..<254 + 2]"
  have "st_nacks ?st = [nack_default\<lparr>nack_sn := 0, has_nack_range := True, nack_range := of_nat (254 + 2)\<rparr>]"
    by (rule push_consecutive) simp
  then have "st_nacks ?st = [nack_default\<lparr>has_nack_range := True, nack_range := 0\<rparr>]"
    by (simp add: nack_default_def del: upt_rec_numeral)
  moreover from this have "status_nacked ?st = {}"
    by (simp add: status_nacked_def nacked_sns_def nack_count_def)
  ultimately show ?thesis by (simp del: upt_rec_numeral)
qed

end
