(* ===== verification/Rlc_Am_Lte_Packing.thy ===== *)
theory Rlc_Am_Lte_Packing
  imports Byte_Buffer Rlc_Am_Nr_Packing
begin

text \<open>
  PDU formats of the LTE acknowledged mode, \<^verbatim>\<open>lib/src/rlc/rlc_am_lte_packing.cc\<close>: the data PDU header
  with its chain of 11 bit length indicators, the status PDU, and the check of a received status PDU
  against the window. The status code works on unpacked bits through \<open>srsran_bit_pack\<close> and
  \<open>srsran_bit_unpack\<close> of \<^verbatim>\<open>lib/src/phy/utils/bit.c\<close>; an unpacked bit (a byte 0 or 1) is a \<open>bool\<close> here.

  The length indicators are the list of the first \<open>N_li\<close> entries of the array \<open>li\<close>. Reading past the
  memory of the PDU and writing past the arrays \<open>li\<close> and \<open>nacks\<close> have no result.
\<close>

section \<open>Unpacked bits\<close>

definition srsran_bit_unpack :: "'a::len word \<Rightarrow> nat \<Rightarrow> bool list" where
  "srsran_bit_unpack value n = to_bits n value"

definition srsran_bit_pack :: "bool list \<Rightarrow> nat \<Rightarrow> (u32 \<times> bool list) option" where
  "srsran_bit_pack bs n = (if length bs < n then None else Some (of_bits (take n bs), drop n bs))"

definition srsran_bit_unpack_vector :: "bytes \<Rightarrow> nat \<Rightarrow> bool list option" where
  "srsran_bit_unpack_vector packed nof_bits =
    (let nbytes = nof_bits div 8 in
     if length packed < (nof_bits + 7) div 8 then None
     else Some (concat (map (\<lambda>x. srsran_bit_unpack x 8) (take nbytes packed)) @
       (if nof_bits mod 8 \<noteq> 0
        then srsran_bit_unpack (drop_bit (8 - nof_bits mod 8) (packed ! nbytes)) (nof_bits mod 8) else [])))"

fun srsran_bit_pack_vector :: "bool list \<Rightarrow> bytes" where
  "srsran_bit_pack_vector (a # b # c # d # e # f # g # h # rest) =
     of_bits [a, b, c, d, e, f, g, h] # srsran_bit_pack_vector rest"
| "srsran_bit_pack_vector [] = []"
| "srsran_bit_pack_vector bs = [push_bit (8 - length bs) (of_bits bs)]"

section \<open>Data PDU header\<close>

definition RLC_AM_WINDOW_SIZE :: nat where
  "RLC_AM_WINDOW_SIZE = 512"

record rlc_amd_pdu_header =
  lh_dc :: rlc_dc_field
  lh_rf :: u8
  lh_p :: u8
  lh_fi :: u8
  lh_sn :: u16
  lh_lsf :: u8
  lh_so :: u16
  lh_li :: "u16 list"

text \<open>
  The extension loop. At an even index the pointer stays on the byte whose high half belongs to the
  entry; at an odd index it moves past both bytes.
\<close>

function read_li :: "u8 \<Rightarrow> bytes \<Rightarrow> u16 list \<Rightarrow> (u16 list \<times> bytes) option" where
  "read_li ext xs li =
    (if ext = 0 then Some (li, xs)
     else if RLC_AM_WINDOW_SIZE \<le> length li then None
     else case xs of
       a # b # rest \<Rightarrow>
         if even (length li)
         then read_li (drop_bit 7 a AND 1) (b # rest)
                (li @ [push_bit 4 (ucast (a AND 0x7F)) OR drop_bit 4 (ucast (b AND 0xF0))])
         else read_li (drop_bit 3 a AND 1) rest
                (li @ [push_bit 8 (ucast (a AND 0x07)) OR ucast (b AND 0xFF)])
     | _ \<Rightarrow> None)"
  by pat_completeness auto
termination
  by (relation "measure (\<lambda>(e, xs, li). length xs)") auto

declare read_li.simps [simp del]

text \<open>
  The reader on a raw pointer: it returns the rest of the memory behind the header (the new
  \<open>*payload\<close>) and the reduced \<open>*nof_bytes\<close>. A control PDU is left alone but for \<open>dc\<close>.
\<close>

definition rlc_am_read_data_pdu_header ::
    "bytes \<Rightarrow> u32 \<Rightarrow> rlc_amd_pdu_header \<Rightarrow> (bytes \<times> u32 \<times> rlc_amd_pdu_header) option" where
  "rlc_am_read_data_pdu_header payload nof_bytes hdr =
    (case payload of [] \<Rightarrow> None
     | b0 # rest \<Rightarrow>
       let hdr = hdr\<lparr>lh_dc := dc_of (drop_bit 7 b0 AND 1)\<rparr> in
       if lh_dc hdr \<noteq> RLC_DC_FIELD_DATA_PDU then Some (payload, nof_bytes, hdr)
       else case rest of [] \<Rightarrow> None
         | b1 # rest \<Rightarrow>
           let hdr = hdr\<lparr>lh_rf := drop_bit 6 b0 AND 1, lh_p := drop_bit 5 b0 AND 1, lh_fi := drop_bit 3 b0 AND 3,
                         lh_sn := push_bit 8 (ucast (b0 AND 0x03)) OR ucast (b1 AND 0xFF)\<rparr>;
               ext = drop_bit 2 b0 AND 1
           in case (if lh_rf hdr \<noteq> 0
                    then (case rest of s0 # s1 # rest \<Rightarrow>
                            Some (hdr\<lparr>lh_lsf := drop_bit 7 s0 AND 1,
                                      lh_so := push_bit 8 (ucast (s0 AND 0x7F)) OR ucast (s1 AND 0xFF)\<rparr>, rest)
                          | _ \<Rightarrow> None)
                    else Some (hdr, rest)) of
                None \<Rightarrow> None
              | Some (hdr, rest) \<Rightarrow>
                (case read_li ext rest [] of
                   None \<Rightarrow> None
                 | Some (li, rest) \<Rightarrow>
                   let rest = (if odd (length li) then tl rest else rest)
                   in Some (rest, nof_bytes - of_nat (length payload - length rest), hdr\<lparr>lh_li := li\<rparr>)))"

fun write_li :: "u16 list \<Rightarrow> bytes" where
  "write_li [] = []"
| "write_li [l] = [ucast (drop_bit 4 (l AND 0x7F0)), ucast (push_bit 4 (l AND 0x00F))]"
| "write_li (l # m # ls) =
    [push_bit 7 1 OR ucast (drop_bit 4 (l AND 0x7F0)),
     ucast (push_bit 4 (l AND 0x00F)) OR push_bit 3 (if ls = [] then 0 else 1) OR ucast (drop_bit 8 (m AND 0x700)),
     ucast (m AND 0x0FF)] @ write_li ls"

definition rlc_am_write_data_pdu_header :: "rlc_amd_pdu_header \<Rightarrow> bytes" where
  "rlc_am_write_data_pdu_header hdr =
    (let ext = (if 0 < length (lh_li hdr) then 1 else 0 :: u8) in
     [push_bit 7 (dc_bit (lh_dc hdr) AND 1) OR push_bit 6 (lh_rf hdr AND 1) OR push_bit 5 (lh_p hdr AND 1)
        OR push_bit 3 (lh_fi hdr AND 3) OR push_bit 2 (ext AND 1) OR ucast (drop_bit 8 (lh_sn hdr AND 0x300)),
      ucast (lh_sn hdr AND 0xFF)]
     @ (if lh_rf hdr \<noteq> 0
        then [push_bit 7 (lh_lsf hdr AND 1) OR ucast (drop_bit 8 (lh_so hdr AND 0x7F00)), ucast (lh_so hdr AND 0x00FF)]
        else [])
     @ write_li (lh_li hdr))"

text \<open>\<open>len += N_li * 1.5 + 0.5\<close>, rounded down on the conversion to \<open>uint32_t\<close>.\<close>

definition rlc_am_packed_length :: "rlc_amd_pdu_header \<Rightarrow> nat" where
  "rlc_am_packed_length hdr =
    2 + (if lh_rf hdr \<noteq> 0 then 2 else 0) + (3 * length (lh_li hdr) + 1) div 2"

section \<open>Status PDU\<close>

record rlc_status_pdu =
  ls_ack_sn :: u16
  ls_n_nack :: nat
  ls_nacks :: "rlc_status_nack list"

definition rlc_status_pdu_new :: rlc_status_pdu where
  "rlc_status_pdu_new = \<lparr>ls_ack_sn = 0, ls_n_nack = 0, ls_nacks = replicate RLC_AM_WINDOW_SIZE nack_default\<rparr>"

text \<open>The NACK loop of the reader; an entry keeps the fields that the PDU does not carry.\<close>

lemma srsran_bit_pack_shorter: "srsran_bit_pack bs n = Some (v, bs') \<Longrightarrow> length bs = n + length bs'"
  by (auto simp: srsran_bit_pack_def split: if_splits)

function read_lte_nacks :: "u32 \<Rightarrow> bool list \<Rightarrow> rlc_status_pdu \<Rightarrow> rlc_status_pdu option" where
  "read_lte_nacks ext1 bs st =
    (if ext1 = 0 then Some st
     else if length (ls_nacks st) \<le> ls_n_nack st then None
     else case srsran_bit_pack bs 10 of None \<Rightarrow> None
     | Some (sn, bs1) \<Rightarrow>
     (case srsran_bit_pack bs1 1 of None \<Rightarrow> None
     | Some (ext1, bs2) \<Rightarrow>
     (case srsran_bit_pack bs2 1 of None \<Rightarrow> None
     | Some (ext2, bs3) \<Rightarrow>
       let nack = (ls_nacks st ! ls_n_nack st)\<lparr>nack_sn := sn\<rparr> in
       if ext2 \<noteq> 0
       then (case srsran_bit_pack bs3 15 of None \<Rightarrow> None
         | Some (s, bs4) \<Rightarrow>
         (case srsran_bit_pack bs4 15 of None \<Rightarrow> None
         | Some (e, bs5) \<Rightarrow>
           read_lte_nacks ext1 bs5 (st\<lparr>ls_n_nack := ls_n_nack st + 1,
             ls_nacks := (ls_nacks st)[ls_n_nack st := nack\<lparr>has_so := True, so_start := ucast s, so_end := ucast e\<rparr>]\<rparr>)))
       else read_lte_nacks ext1 bs3 (st\<lparr>ls_n_nack := ls_n_nack st + 1, ls_nacks := (ls_nacks st)[ls_n_nack st := nack]\<rparr>))))"
  by pat_completeness auto
termination
  by (relation "measure (\<lambda>(e, bs, st). length bs)") (auto dest!: srsran_bit_pack_shorter)

declare read_lte_nacks.simps [simp del]

definition rlc_am_read_status_pdu :: "bytes \<Rightarrow> nat \<Rightarrow> rlc_status_pdu \<Rightarrow> rlc_status_pdu option" where
  "rlc_am_read_status_pdu payload nof_bytes st =
    (case srsran_bit_unpack_vector payload (nof_bytes * 8) of None \<Rightarrow> None
     | Some bs \<Rightarrow>
     (case srsran_bit_pack bs 1 of None \<Rightarrow> None
     | Some (dc, bs) \<Rightarrow>
       if dc_of (ucast dc) \<noteq> RLC_DC_FIELD_CONTROL_PDU then Some st
       else (case srsran_bit_pack bs 3 of None \<Rightarrow> None
         | Some (cpt, bs) \<Rightarrow>
           if cpt \<noteq> 0 then Some st
           else (case srsran_bit_pack bs 10 of None \<Rightarrow> None
             | Some (ack, bs) \<Rightarrow>
             (case srsran_bit_pack bs 1 of None \<Rightarrow> None
             | Some (ext1, bs) \<Rightarrow> read_lte_nacks ext1 bs (st\<lparr>ls_ack_sn := ucast ack, ls_n_nack := 0\<rparr>))))))"

fun write_lte_nacks :: "rlc_status_nack list \<Rightarrow> bool list" where
  "write_lte_nacks [] = []"
| "write_lte_nacks (n # ns) =
    srsran_bit_unpack (nack_sn n) 10 @ srsran_bit_unpack (if ns = [] then 0 else 1 :: u8) 1
    @ (if has_so n
       then srsran_bit_unpack (1 :: u8) 1 @ srsran_bit_unpack (so_start n) 15 @ srsran_bit_unpack (so_end n) 15
       else srsran_bit_unpack (0 :: u8) 1)
    @ write_lte_nacks ns"

definition status_pdu_bits :: "rlc_status_pdu \<Rightarrow> bool list" where
  "status_pdu_bits st =
    srsran_bit_unpack (dc_bit RLC_DC_FIELD_CONTROL_PDU) 1 @ srsran_bit_unpack (0 :: u8) 3
    @ srsran_bit_unpack (ls_ack_sn st) 10 @ srsran_bit_unpack (if ls_n_nack st = 0 then 0 else 1 :: u8) 1
    @ write_lte_nacks (take (ls_n_nack st) (ls_nacks st))"

definition rlc_am_write_status_pdu :: "rlc_status_pdu \<Rightarrow> nat \<times> bytes" where
  "rlc_am_write_status_pdu st =
    (let bs = status_pdu_bits st;
         n_pad = 8 - length bs mod 8;
         bs = bs @ srsran_bit_unpack (0 :: u8) n_pad
     in (length bs div 8, srsran_bit_pack_vector bs))"

definition rlc_am_status_packed_length :: "rlc_status_pdu \<Rightarrow> nat" where
  "rlc_am_status_packed_length st =
    (foldl (\<lambda>len n. len + (if has_so n then 42 else 12)) 15 (take (ls_n_nack st) (ls_nacks st)) + 7) div 8"

definition rlc_am_is_pdu_segment :: "bytes \<Rightarrow> bool option" where
  "rlc_am_is_pdu_segment payload = (case payload of [] \<Rightarrow> None | b # _ \<Rightarrow> Some (drop_bit 6 b AND 1 = 1))"

definition rlc_am_is_valid_status_pdu :: "rlc_status_pdu \<Rightarrow> u32 \<Rightarrow> bool" where
  "rlc_am_is_valid_status_pdu st rx_win_min =
    (let ack = ucast (ls_ack_sn st) :: u32 in
     if 512 < (1024 + ack - rx_win_min) mod 1024 then False
     else list_all (\<lambda>n. \<not> 512 < (1024 + ack - nack_sn n) mod 1024 \<and> nack_sn n \<noteq> ack)
       (take (ls_n_nack st) (ls_nacks st)))"

section \<open>Framing information\<close>

definition rlc_am_start_aligned :: "u8 \<Rightarrow> bool" where
  "rlc_am_start_aligned fi \<longleftrightarrow> fi = 0 \<or> fi = 1"

definition rlc_am_end_aligned :: "u8 \<Rightarrow> bool" where
  "rlc_am_end_aligned fi \<longleftrightarrow> fi = 0 \<or> fi = 2"

definition rlc_am_is_unaligned :: "u8 \<Rightarrow> bool" where
  "rlc_am_is_unaligned fi \<longleftrightarrow> fi = 3"

definition rlc_am_not_start_aligned :: "u8 \<Rightarrow> bool" where
  "rlc_am_not_start_aligned fi \<longleftrightarrow> fi = 2 \<or> fi = 3"

section \<open>The data PDU header round trip\<close>

definition lte_header_ok :: "rlc_amd_pdu_header \<Rightarrow> bool" where
  "lte_header_ok h \<longleftrightarrow> lh_dc h = RLC_DC_FIELD_DATA_PDU \<and> lh_rf h \<le> 1 \<and> lh_p h \<le> 1 \<and> lh_fi h \<le> 3 \<and>
     lh_lsf h \<le> 1 \<and> lh_sn h < 2 ^ 10 \<and> lh_so h < 2 ^ 15 \<and>
     (\<forall>l\<in>set (lh_li h). l < 2 ^ 11) \<and> length (lh_li h) \<le> RLC_AM_WINDOW_SIZE"

lemma li_low: "ucast (push_bit 4 ((l :: u16) AND 15)) = (push_bit 4 (ucast l) :: u8)"
  unfolding and_masks by (rule bit_word_eqI) (auto simp: bits simp del: bit_0)

lemma li_even:
  assumes l: "(l :: u16) < 2 ^ 11" and f: "take_bit 4 (f :: u8) = f" and g: "take_bit 7 (g :: u8) = 0"
  shows "push_bit 4 (ucast ((g OR ucast (take_bit 7 (drop_bit 4 l)) :: u8) AND 127)) OR
      drop_bit 4 (ucast ((push_bit 4 (ucast l) OR f) AND 240)) = l"
  unfolding and_masks high_masks
proof (rule bit_word_eqI)
  fix n assume "n < LENGTH(16)"
  have g': "bit g i \<Longrightarrow> 7 \<le> i" for i
    using bit_take_bit_iff [of 7 g i] unfolding g by (simp add: not_less [symmetric])
  show "bit (push_bit 4 (ucast (take_bit 7 (g OR ucast (take_bit 7 (drop_bit 4 l)) :: u8))) OR
      drop_bit 4 (ucast (push_bit 4 (drop_bit 4 (push_bit 4 (ucast l) OR f)))) :: u16) n = bit l n"
    using \<open>n < LENGTH(16)\<close>
    by (cases "n < 4") (auto simp: bits simp del: bit_0 dest: bit_below [OF l] take_bit_idE [OF f] g')
qed

lemma li_odd:
  fixes m :: u16 and u f :: u8
  assumes m: "m < 2 ^ 11" and f: "take_bit 1 f = f"
  defines "b \<equiv> push_bit 4 u OR push_bit 3 f OR ucast (take_bit 3 (drop_bit 8 m))"
  shows "push_bit 8 (ucast (b AND 7)) OR ucast (ucast (m AND 255) AND 255 :: u8) = m" "drop_bit 3 b AND 1 = f"
    "take_bit 4 (push_bit 3 f OR ucast (take_bit 3 (drop_bit 8 m))) = push_bit 3 f OR ucast (take_bit 3 (drop_bit 8 m))"
  unfolding and_masks b_def
  by (rule bit_word_eqI, auto simp: bits simp del: bit_0 take_bit_Suc_0 dest: bit_below [OF m] take_bit_idE [OF f])+

lemma read_li_even:
  assumes "even (length li)" "length li < RLC_AM_WINDOW_SIZE" "ext \<noteq> 0"
    "push_bit 4 (ucast (a AND 0x7F)) OR drop_bit 4 (ucast (b AND 0xF0)) = l"
  shows "read_li ext (a # b # rest) li = read_li (drop_bit 7 a AND 1) (b # rest) (li @ [l])"
  using assms by (subst read_li.simps) (simp add: not_le)

lemma read_li_odd:
  assumes "odd (length li)" "length li < RLC_AM_WINDOW_SIZE" "ext \<noteq> 0"
    "push_bit 8 (ucast (a AND 0x07)) OR ucast (b AND 0xFF) = l"
  shows "read_li ext (a # b # rest) li = read_li (drop_bit 3 a AND 1) rest (li @ [l])"
  using assms by (subst read_li.simps) (simp add: not_le)

lemma read_li_written:
  "even (length li) \<Longrightarrow> length li + length ls \<le> RLC_AM_WINDOW_SIZE \<Longrightarrow> \<forall>l\<in>set ls. l < 2 ^ 11 \<Longrightarrow>
   (ext \<noteq> 0 \<longleftrightarrow> ls \<noteq> []) \<Longrightarrow>
   read_li ext (write_li ls @ rest) li =
     Some (li @ ls, (if odd (length ls) then [last (write_li ls)] else []) @ rest)"
proof (induction ls arbitrary: ext li rule: write_li.induct)
  case 1
  then show ?case by (simp add: read_li.simps)
next
  case (2 l)
  have l: "l < 2 ^ 11" using 2 by simp
  have e: "push_bit 4 (ucast (ucast (take_bit 7 (drop_bit 4 l)) AND 127 :: u8)) OR
      drop_bit 4 (ucast (push_bit 4 (ucast l) AND 240 :: u8)) = l"
    using li_even [OF l, of 0 0] by simp
  have z: "drop_bit 7 (ucast (take_bit 7 (drop_bit 4 l)) :: u8) AND 1 = 0"
    unfolding and_masks by (rule bit_word_eqI) (auto simp: bits simp del: bit_0 take_bit_Suc_0)
  have w: "write_li [l] = [ucast (take_bit 7 (drop_bit 4 l)), push_bit 4 (ucast l)]"
    by (simp only: write_li.simps field_masks li_low)
  have "read_li ext (write_li [l] @ rest) li = read_li 0 (push_bit 4 (ucast l) # rest) (li @ [l])"
    unfolding w using read_li_even [OF 2(1) _ _ e, of ext rest] 2 z by (simp del: take_bit_Suc_0)
  moreover have "last (write_li [l]) = push_bit 4 (ucast l)" unfolding w by simp
  ultimately show ?case by (simp add: read_li.simps [of 0])
next
  case (3 l m ls)
  have l: "l < 2 ^ 11" and m: "m < 2 ^ 11" using 3 by simp_all
  let ?f = "if ls = [] then 0 else 1 :: u8"
  let ?a = "push_bit 7 1 OR ucast (take_bit 7 (drop_bit 4 l)) :: u8"
  let ?b = "push_bit 4 (ucast l) OR push_bit 3 ?f OR ucast (take_bit 3 (drop_bit 8 m)) :: u8"
  have f: "take_bit 1 ?f = ?f" by simp
  note o = li_odd(1,2) [OF m f, of "ucast l"] li_odd(3) [OF m f]
  have e: "push_bit 4 (ucast (?a AND 127)) OR drop_bit 4 (ucast (?b AND 240)) = l"
    by (rule li_even [OF l o(3)]) simp
  have z: "drop_bit 7 ?a AND 1 = 1"
    unfolding and_masks by (rule bit_word_eqI) (auto simp: bits simp del: bit_0 take_bit_Suc_0)
  have w: "write_li (l # m # ls) @ rest = ?a # ?b # ucast (m AND 255) # write_li ls @ rest"
    by (simp only: write_li.simps field_masks li_low or.assoc append.simps)
  have "read_li ext (write_li (l # m # ls) @ rest) li =
      read_li 1 (?b # ucast (m AND 255) # write_li ls @ rest) (li @ [l])"
    unfolding w using read_li_even [OF 3(2) _ _ e, of ext] 3 z by (simp del: take_bit_Suc_0)
  also have "\<dots> = read_li ?f (write_li ls @ rest) (li @ [l] @ [m])"
    using read_li_odd [OF _ _ _ o(1), of "li @ [l]" 1] 3 o(2) by simp
  also have "\<dots> = Some ((li @ [l] @ [m]) @ ls, (if odd (length ls) then [last (write_li ls)] else []) @ rest)"
    using 3 by (intro 3(1)) simp_all
  moreover have "last (write_li (l # m # ls)) = last (write_li ls)" if "odd (length ls)"
  proof -
    have "write_li ls \<noteq> []" using that by (cases ls rule: write_li.cases) simp_all
    then show ?thesis by simp
  qed
  ultimately show ?case by (simp del: write_li.simps)
qed

text \<open>The fixed part.\<close>

lemma low_bits_eqI:
  assumes "bit (a :: u8) 0 = bit b 0" "bit a 1 = bit b 1" "\<And>i. 2 \<le> i \<Longrightarrow> \<not> bit a i" "\<And>i. 2 \<le> i \<Longrightarrow> \<not> bit b i"
  shows "a = b"
proof (rule bit_word_eqI)
  fix n :: nat
  consider "n = 0" | "n = 1" | "2 \<le> n" by linarith
  then show "bit a n = bit b n" by cases (use assms in simp_all)
qed

lemma lte_first_octet:
  fixes d r p f e x :: u8
  assumes a: "take_bit 1 d = d" "take_bit 1 r = r" "take_bit 1 p = p" "take_bit 2 f = f" "take_bit 1 e = e" "take_bit 2 x = x"
  defines "b \<equiv> push_bit 7 d OR push_bit 6 r OR push_bit 5 p OR push_bit 3 f OR push_bit 2 e OR x"
  shows "drop_bit 7 b AND 1 = d" "drop_bit 6 b AND 1 = r" "drop_bit 5 b AND 1 = p" "drop_bit 3 b AND 3 = f"
    "drop_bit 2 b AND 1 = e" "b AND 3 = x"
  unfolding b_def and_masks
  by (rule low_bits_eqI, simp_all add: bits not_bit_take [OF a(1)] not_bit_take [OF a(2)]
      not_bit_take [OF a(3)] not_bit_take [OF a(4)] not_bit_take [OF a(5)] not_bit_take [OF a(6)]
      del: bit_0 take_bit_Suc_0 add_2_eq_Suc add_2_eq_Suc')+

lemma sn_10:
  assumes "(x :: u16) < 2 ^ 10"
  shows "push_bit 8 (ucast (ucast (take_bit 2 (drop_bit 8 x)) :: u8)) OR ucast (ucast (x AND 255) AND 255 :: u8) = x"
    "take_bit 2 (ucast (take_bit 2 (drop_bit 8 x)) :: u8) = ucast (take_bit 2 (drop_bit 8 x))"
  unfolding and_masks
  by (rule bit_word_eqI, auto simp: bits simp del: bit_0 dest: bit_below [OF assms])+

lemma so_15:
  fixes x :: u16 and l :: u8
  assumes x: "x < 2 ^ 15" and l: "take_bit 1 l = l"
  defines "b \<equiv> push_bit 7 l OR ucast (take_bit 7 (drop_bit 8 x))"
  shows "push_bit 8 (ucast (b AND 127)) OR ucast (ucast (x AND 255) AND 255 :: u8) = x" "drop_bit 7 b AND 1 = l"
  unfolding and_masks b_def
  by (rule bit_word_eqI, auto simp: bits simp del: bit_0 take_bit_Suc_0 dest: bit_below [OF x] take_bit_idE [OF l])+

lemma fi_small: "f \<le> 3 \<Longrightarrow> take_bit 2 f = (f :: u8)"
  by (rule take_bit_unat_id) (simp add: word_le_nat_alt)

lemma length_write_li: "length (write_li ls) = (3 * length ls + 1) div 2"
  by (induction ls rule: write_li.induct) auto

lemma lte_header_length: "length (rlc_am_write_data_pdu_header h) = rlc_am_packed_length h"
  by (simp add: rlc_am_write_data_pdu_header_def rlc_am_packed_length_def length_write_li Let_def)

lemma lte_header_bytes:
  assumes ok: "lte_header_ok h"
  obtains b0 b1 s0 s1 where
    "rlc_am_write_data_pdu_header h = b0 # b1 # (if lh_rf h \<noteq> 0 then [s0, s1] else []) @ write_li (lh_li h)"
    "dc_of (drop_bit 7 b0 AND 1) = RLC_DC_FIELD_DATA_PDU" "drop_bit 6 b0 AND 1 = lh_rf h" "drop_bit 5 b0 AND 1 = lh_p h"
    "drop_bit 3 b0 AND 3 = lh_fi h" "drop_bit 2 b0 AND 1 \<noteq> 0 \<longleftrightarrow> lh_li h \<noteq> []"
    "push_bit 8 (ucast (b0 AND 3)) OR ucast (b1 AND 255) = lh_sn h"
    "drop_bit 7 s0 AND 1 = lh_lsf h" "push_bit 8 (ucast (s0 AND 127)) OR ucast (s1 AND 255) = lh_so h"
proof -
  let ?e = "if 0 < length (lh_li h) then 1 else 0 :: u8"
  have le: "lh_rf h \<le> 1" "lh_p h \<le> 1" "lh_fi h \<le> 3" "lh_lsf h \<le> 1"
    and h1: "lh_dc h = RLC_DC_FIELD_DATA_PDU" "lh_sn h < 2 ^ 10" "lh_so h < 2 ^ 15"
    using ok by (simp_all add: lte_header_ok_def)
  note h = h1(1) p_small [OF le(1)] p_small [OF le(2)] fi_small [OF le(3)] p_small [OF le(4)] h1(2,3)
  have e: "take_bit 1 ?e = ?e" by simp
  note o = lte_first_octet [OF dc_bit_small h(2,3,4) e sn_10(2) [OF h(6)], of "RLC_DC_FIELD_DATA_PDU"]
  show ?thesis
    by (rule that [of "push_bit 7 (dc_bit RLC_DC_FIELD_DATA_PDU) OR push_bit 6 (lh_rf h) OR push_bit 5 (lh_p h) OR
          push_bit 3 (lh_fi h) OR push_bit 2 ?e OR ucast (take_bit 2 (drop_bit 8 (lh_sn h)))" "ucast (lh_sn h AND 255)"
          "push_bit 7 (lh_lsf h) OR ucast (take_bit 7 (drop_bit 8 (lh_so h)))" "ucast (lh_so h AND 255)"])
      (unfold o dc_of_bit sn_10 [OF h(6)] so_15 [OF h(7,5)],
       simp_all only: rlc_am_write_data_pdu_header_def Let_def h e and_masks(1,2) field_masks dc_bit_small
         or.assoc append.simps, simp_all)
qed

lemma lte_header_reads:
  assumes ok: "lte_header_ok h" and h0: "lh_rf h \<noteq> 0 \<or> (lh_lsf h0 = lh_lsf h \<and> lh_so h0 = lh_so h)"
  shows "rlc_am_read_data_pdu_header (rlc_am_write_data_pdu_header h @ rest) n h0 =
    Some (rest, n - of_nat (rlc_am_packed_length h), h)"
proof -
  obtain b0 b1 s0 s1 where b:
    "rlc_am_write_data_pdu_header h = b0 # b1 # (if lh_rf h \<noteq> 0 then [s0, s1] else []) @ write_li (lh_li h)"
    "dc_of (drop_bit 7 b0 AND 1) = RLC_DC_FIELD_DATA_PDU" "drop_bit 6 b0 AND 1 = lh_rf h" "drop_bit 5 b0 AND 1 = lh_p h"
    "drop_bit 3 b0 AND 3 = lh_fi h" "drop_bit 2 b0 AND 1 \<noteq> 0 \<longleftrightarrow> lh_li h \<noteq> []"
    "push_bit 8 (ucast (b0 AND 3)) OR ucast (b1 AND 255) = lh_sn h"
    "drop_bit 7 s0 AND 1 = lh_lsf h" "push_bit 8 (ucast (s0 AND 127)) OR ucast (s1 AND 255) = lh_so h"
    by (rule lte_header_bytes [OF ok])
  have li: "read_li (drop_bit 2 b0 AND 1) (write_li (lh_li h) @ rest) [] =
      Some ([] @ lh_li h, (if odd (length (lh_li h)) then [last (write_li (lh_li h))] else []) @ rest)"
    using ok by (intro read_li_written b(6)) (simp_all add: lte_header_ok_def)
  have len: "of_nat (rlc_am_packed_length h) =
      2 + (if lh_rf h \<noteq> 0 then 2 else 0) + (of_nat (length (write_li (lh_li h))) :: u32)"
    by (simp add: rlc_am_packed_length_def length_write_li)
  have "lh_dc h = RLC_DC_FIELD_DATA_PDU" using ok by (simp add: lte_header_ok_def)
  then show ?thesis
    using li h0 len b(2-5,7-9)
    by (cases "lh_rf h = 0") (auto simp: rlc_am_read_data_pdu_header_def b(1))
qed

section \<open>The status PDU round trip\<close>

lemma bit_pack_reads:
  assumes "n \<le> 32"
  shows "srsran_bit_pack (srsran_bit_unpack (x :: 'a::len word) n @ rest) n = Some (ucast (take_bit n x), rest)"
proof -
  have "of_bits (to_bits n x) = (ucast (of_bits (to_bits n x) :: 'a word) :: u32)"
  proof (rule bit_word_eqI)
    fix i assume "i < LENGTH(32)"
    then show "bit (of_bits (to_bits n x) :: u32) i = bit (ucast (of_bits (to_bits n x) :: 'a word) :: u32) i"
      using assms by (auto simp: bit_of_bits bits nth_to_bits dest: bit_imp_le_length simp del: bit_0)
  qed
  then show ?thesis by (simp add: srsran_bit_pack_def srsran_bit_unpack_def of_bits_to_bits)
qed

lemma byte_unpack: "srsran_bit_unpack (of_bits [a, b, c, d, e, f, g, h] :: u8) 8 = [a, b, c, d, e, f, g, h]"
  by (simp add: srsran_bit_unpack_def to_bits_of_bits)

lemma bit_vector_roundtrip:
  "8 dvd length bs \<Longrightarrow> concat (map (\<lambda>x. srsran_bit_unpack x 8) (srsran_bit_pack_vector bs)) = bs \<and>
     length (srsran_bit_pack_vector bs) = length bs div 8"
proof (induction bs rule: srsran_bit_pack_vector.induct)
  case (1 a b c d e f g h rest)
  then have "8 dvd length rest" by (simp add: dvd_def) presburger
  with 1 show ?case by (simp add: byte_unpack)
qed (auto dest: dvd_imp_le)

lemma unpack_vector_roundtrip:
  assumes "8 dvd length bs"
  shows "srsran_bit_unpack_vector (srsran_bit_pack_vector bs @ rest) (length bs div 8 * 8) = Some bs"
proof -
  note r = bit_vector_roundtrip [OF assms]
  have "length bs div 8 * 8 = length bs" using assms by simp
  moreover have "(length bs + 7) div 8 = length bs div 8" using assms by (auto elim!: dvdE)
  moreover have "length bs mod 8 = 0" using assms by simp
  ultimately show ?thesis using r by (simp add: srsran_bit_unpack_vector_def)
qed

definition lte_nack_ok :: "rlc_status_nack \<Rightarrow> bool" where
  "lte_nack_ok n \<longleftrightarrow> nack_sn n < 2 ^ 10 \<and> \<not> has_nack_range n \<and> nack_range n = 0 \<and>
     (if has_so n then so_start n < 2 ^ 15 \<and> so_end n < 2 ^ 15 else so_start n = 0 \<and> so_end n = so_end_of_sdu)"

lemma small_take: "(x :: 'a::len word) < 2 ^ n \<Longrightarrow> n < LENGTH('a) \<Longrightarrow> take_bit n x = x"
  by (rule bit_word_eqI) (auto simp: bits dest: bit_below simp del: bit_0)

lemma ucast_up_down: "ucast (ucast (x :: u16) :: u32) = x"
  by (rule bit_word_eqI) (auto simp: bits simp del: bit_0)

text \<open>One NACK of the loop.\<close>

lemma read_lte_nack:
  assumes n: "lte_nack_ok n" and e: "ext \<noteq> 0" and i: "ls_n_nack st < length (ls_nacks st)"
    and d: "ls_nacks st ! ls_n_nack st = nack_default"
  shows "\<exists>ext'. (ext' \<noteq> 0 \<longleftrightarrow> ns \<noteq> []) \<and> read_lte_nacks ext (write_lte_nacks (n # ns) @ rest) st =
    read_lte_nacks ext' (write_lte_nacks ns @ rest)
      (st\<lparr>ls_n_nack := ls_n_nack st + 1, ls_nacks := (ls_nacks st)[ls_n_nack st := n]\<rparr>)"
proof -
  let ?e = "ucast (take_bit 1 (if ns = [] then 0 else 1 :: u8)) :: u32"
  have e': "?e \<noteq> 0 \<longleftrightarrow> ns \<noteq> []" by simp
  have sn: "take_bit 10 (nack_sn n) = nack_sn n" using n by (intro small_take) (simp_all add: lte_nack_ok_def)
  show ?thesis
  proof (cases "has_so n")
    case True
    then have so: "take_bit 15 (so_start n) = so_start n" "take_bit 15 (so_end n) = so_end n"
      using n by (auto intro!: small_take simp: lte_nack_ok_def)
    have "nack_default\<lparr>nack_sn := nack_sn n, has_so := True, so_start := so_start n, so_end := so_end n\<rparr> = n"
      using n True by (simp add: nack_default_def lte_nack_ok_def)
    then have "read_lte_nacks ext (write_lte_nacks (n # ns) @ rest) st = read_lte_nacks ?e (write_lte_nacks ns @ rest)
      (st\<lparr>ls_n_nack := ls_n_nack st + 1, ls_nacks := (ls_nacks st)[ls_n_nack st := n]\<rparr>)"
      using e i True by (subst read_lte_nacks.simps) (simp add: bit_pack_reads sn so d ucast_up_down)
    with e' show ?thesis by blast
  next
    case False
    then have "nack_default\<lparr>nack_sn := nack_sn n\<rparr> = n"
      using n by (simp add: nack_default_def lte_nack_ok_def)
    then have "read_lte_nacks ext (write_lte_nacks (n # ns) @ rest) st = read_lte_nacks ?e (write_lte_nacks ns @ rest)
      (st\<lparr>ls_n_nack := ls_n_nack st + 1, ls_nacks := (ls_nacks st)[ls_n_nack st := n]\<rparr>)"
      using e i False by (subst read_lte_nacks.simps) (simp add: bit_pack_reads sn d)
    with e' show ?thesis by blast
  qed
qed

lemma read_lte_nacks_written:
  "\<forall>n\<in>set ns. lte_nack_ok n \<Longrightarrow> (ext \<noteq> 0 \<longleftrightarrow> ns \<noteq> []) \<Longrightarrow>
   ls_n_nack st + length ns \<le> length (ls_nacks st) \<Longrightarrow>
   \<forall>i. ls_n_nack st \<le> i \<and> i < length (ls_nacks st) \<longrightarrow> ls_nacks st ! i = nack_default \<Longrightarrow>
   read_lte_nacks ext (write_lte_nacks ns @ rest) st =
     Some (st\<lparr>ls_n_nack := ls_n_nack st + length ns,
       ls_nacks := take (ls_n_nack st) (ls_nacks st) @ ns @ drop (ls_n_nack st + length ns) (ls_nacks st)\<rparr>)"
proof (induction ns arbitrary: ext st)
  case Nil
  then show ?case by (simp add: read_lte_nacks.simps [of 0])
next
  case (Cons n ns)
  let ?i = "ls_n_nack st"
  let ?st = "st\<lparr>ls_n_nack := ?i + 1, ls_nacks := (ls_nacks st)[?i := n]\<rparr>"
  have i: "?i < length (ls_nacks st)" using Cons.prems by simp
  obtain e where e: "e \<noteq> 0 \<longleftrightarrow> ns \<noteq> []"
    "read_lte_nacks ext (write_lte_nacks (n # ns) @ rest) st = read_lte_nacks e (write_lte_nacks ns @ rest) ?st"
    using read_lte_nack [of n ext st ns rest] Cons.prems i by auto
  have "read_lte_nacks e (write_lte_nacks ns @ rest) ?st = Some (?st\<lparr>ls_n_nack := ?i + 1 + length ns,
      ls_nacks := take (?i + 1) ((ls_nacks st)[?i := n]) @ ns @ drop (?i + 1 + length ns) ((ls_nacks st)[?i := n])\<rparr>)"
    using Cons.IH [OF _ e(1), of ?st] Cons.prems by (simp add: nth_list_update)
  moreover have "take (?i + 1) ((ls_nacks st)[?i := n]) = take ?i (ls_nacks st) @ [n]"
    using i by (simp add: take_Suc_conv_app_nth)
  ultimately show ?case using e(2) i by simp
qed

lemma read_lte_nacks_overflow:
  "\<forall>n\<in>set ns. lte_nack_ok n \<Longrightarrow> ext \<noteq> 0 \<Longrightarrow> ls_n_nack st \<le> length (ls_nacks st) \<Longrightarrow>
   length (ls_nacks st) < ls_n_nack st + length ns \<Longrightarrow>
   \<forall>i. ls_n_nack st \<le> i \<and> i < length (ls_nacks st) \<longrightarrow> ls_nacks st ! i = nack_default \<Longrightarrow>
   read_lte_nacks ext (write_lte_nacks ns @ rest) st = None"
proof (induction ns arbitrary: ext st)
  case (Cons n ns)
  let ?i = "ls_n_nack st"
  let ?st = "st\<lparr>ls_n_nack := ?i + 1, ls_nacks := (ls_nacks st)[?i := n]\<rparr>"
  show ?case
  proof (cases "?i < length (ls_nacks st)")
    case False
    with Cons.prems show ?thesis by (subst read_lte_nacks.simps) simp
  next
    case True
    then have "ns \<noteq> []" using Cons.prems(4) by auto
    with True obtain e where e: "e \<noteq> 0"
      "read_lte_nacks ext (write_lte_nacks (n # ns) @ rest) st = read_lte_nacks e (write_lte_nacks ns @ rest) ?st"
      using read_lte_nack [of n ext st ns rest] Cons.prems by auto
    have "read_lte_nacks e (write_lte_nacks ns @ rest) ?st = None"
      using True Cons.prems by (intro Cons.IH e(1)) (simp_all add: nth_list_update)
    with e(2) show ?thesis by simp
  qed
qed simp

definition lte_status_ok :: "rlc_status_pdu \<Rightarrow> bool" where
  "lte_status_ok st \<longleftrightarrow> ls_ack_sn st < 2 ^ 10 \<and> length (ls_nacks st) = RLC_AM_WINDOW_SIZE \<and>
     ls_n_nack st \<le> RLC_AM_WINDOW_SIZE \<and> (\<forall>n\<in>set (take (ls_n_nack st) (ls_nacks st)). lte_nack_ok n)"

text \<open>The fixed part and every NACK have an even number of bits but for one: the PDU is never aligned.\<close>

lemma write_lte_nacks_length:
  "length (write_lte_nacks ns) + k = foldl (\<lambda>len n. len + (if has_so n then 42 else 12)) k ns"
proof (induction ns arbitrary: k)
  case (Cons n ns)
  show ?case
    using Cons.IH [of "k + (if has_so n then 42 else 12)"]
    by (cases "has_so n") (simp_all add: srsran_bit_unpack_def ac_simps)
qed simp

lemma status_bits_length: "length (status_pdu_bits st) =
    foldl (\<lambda>len n. len + (if has_so n then 42 else 12)) 15 (take (ls_n_nack st) (ls_nacks st))"
  using write_lte_nacks_length [of "take (ls_n_nack st) (ls_nacks st)" 15] by (simp add: status_pdu_bits_def srsran_bit_unpack_def add.commute)

lemma nack_bits_odd: "odd k \<Longrightarrow> odd (foldl (\<lambda>len n. len + (if has_so n then 42 else 12 :: nat)) k ns)"
  by (induction ns arbitrary: k) auto

lemma round_up_bytes:
  fixes n :: nat
  assumes "n mod 8 \<noteq> 0"
  shows "8 dvd n + (8 - n mod 8)" "(n + (8 - n mod 8)) div 8 = (n + 7) div 8"
proof -
  obtain q r where n: "n = 8 * q + r" "r < 8" "n mod 8 = r" using div_8_eqE [OF refl] by metis
  then have "n + (8 - n mod 8) = 8 * (q + 1)" by simp
  then show "8 dvd n + (8 - n mod 8)" by (metis dvd_triv_left)
  have "n + 7 = 8 * (q + 1) + (r - 1)" "r - 1 < 8" using n assms by simp_all
  then have "(n + 7) div 8 = q + 1" by (metis add.commute div_mult_self2 div_less add_0 zero_neq_numeral)
  with \<open>n + (8 - n mod 8) = 8 * (q + 1)\<close> show "(n + (8 - n mod 8)) div 8 = (n + 7) div 8" by simp
qed

lemma status_padding:
  "8 dvd length (status_pdu_bits st) + (8 - length (status_pdu_bits st) mod 8)"
  "(length (status_pdu_bits st) + (8 - length (status_pdu_bits st) mod 8)) div 8 = rlc_am_status_packed_length st"
proof -
  have "odd (length (status_pdu_bits st))" unfolding status_bits_length by (rule nack_bits_odd) simp
  then have "length (status_pdu_bits st) mod 8 \<noteq> 0" by presburger
  note r = round_up_bytes [OF this]
  show "8 dvd length (status_pdu_bits st) + (8 - length (status_pdu_bits st) mod 8)" by (rule r(1))
  show "(length (status_pdu_bits st) + (8 - length (status_pdu_bits st) mod 8)) div 8 = rlc_am_status_packed_length st"
    unfolding r(2) by (simp add: rlc_am_status_packed_length_def status_bits_length)
qed

lemma lte_status_reads:
  assumes ok: "lte_status_ok st"
  defines "w \<equiv> rlc_am_write_status_pdu st"
  shows "rlc_am_read_status_pdu (snd w @ rest) (fst w) rlc_status_pdu_new =
    Some \<lparr>ls_ack_sn = ls_ack_sn st, ls_n_nack = ls_n_nack st,
      ls_nacks = take (ls_n_nack st) (ls_nacks st) @ replicate (RLC_AM_WINDOW_SIZE - ls_n_nack st) nack_default\<rparr>"
proof -
  obtain pad where pad: "pad = srsran_bit_unpack (0 :: u8) (8 - length (status_pdu_bits st) mod 8)" by blast
  let ?ns = "take (ls_n_nack st) (ls_nacks st)"
  let ?e = "if ls_n_nack st = 0 then 0 else 1 :: u8"
  have bits: "srsran_bit_unpack_vector (snd w @ rest) (fst w * 8) = Some (status_pdu_bits st @ pad)"
    using unpack_vector_roundtrip [of "status_pdu_bits st @ pad" rest] status_padding(1) [of st]
    by (simp add: w_def rlc_am_write_status_pdu_def Let_def srsran_bit_unpack_def pad)
  have ack: "take_bit 10 (ls_ack_sn st) = ls_ack_sn st" and len: "length ?ns = ls_n_nack st"
    using ok by (auto simp: lte_status_ok_def intro!: small_take)
  have ne: "?ns \<noteq> [] \<longleftrightarrow> ls_n_nack st \<noteq> 0" using len by auto
  let ?st = "rlc_status_pdu_new\<lparr>ls_ack_sn := ls_ack_sn st, ls_n_nack := 0\<rparr>"
  have "read_lte_nacks (ucast (take_bit 1 ?e)) (write_lte_nacks ?ns @ pad) ?st =
      Some (?st\<lparr>ls_n_nack := ls_n_nack ?st + length ?ns,
       ls_nacks := take (ls_n_nack ?st) (ls_nacks ?st) @ ?ns @ drop (ls_n_nack ?st + length ?ns) (ls_nacks ?st)\<rparr>)"
    using ok ne len
    by (intro read_lte_nacks_written) (auto simp: lte_status_ok_def rlc_status_pdu_new_def split: if_splits)
  then show ?thesis
    unfolding rlc_am_read_status_pdu_def bits
    by (simp add: status_pdu_bits_def bit_pack_reads dc_of_def dc_bit_def ack ucast_up_down len rlc_status_pdu_new_def min_def
      del: take_bit_Suc_0 length_take)
qed

section \<open>Properties\<close>

text \<open>
  C11: an LTE data PDU header, with any chain of up to 512 length indicators, takes exactly the
  announced number of bytes, and the reader returns it and stops behind it.
\<close>

theorem amd_header_roundtrip:
  assumes "lte_header_ok h" "lh_rf h \<noteq> 0 \<or> (lh_lsf h0 = lh_lsf h \<and> lh_so h0 = lh_so h)"
  shows "length (rlc_am_write_data_pdu_header h) = rlc_am_packed_length h \<and>
    rlc_am_read_data_pdu_header (rlc_am_write_data_pdu_header h @ sdu) nof_bytes h0 =
      Some (sdu, nof_bytes - of_nat (rlc_am_packed_length h), h)"
  using lte_header_length lte_header_reads [OF assms] by blast

theorem amd_header_roundtrip_witness:
  "let h = \<lparr>lh_dc = RLC_DC_FIELD_DATA_PDU, lh_rf = 1, lh_p = 1, lh_fi = 2, lh_sn = 1000, lh_lsf = 1, lh_so = 20000,
      lh_li = [2047, 3, 1100]\<rparr>
   in length (rlc_am_write_data_pdu_header h) = rlc_am_packed_length h \<and>
    rlc_am_read_data_pdu_header (rlc_am_write_data_pdu_header h @ [9, 8]) 11 h =
      Some ([9, 8], 11 - of_nat (rlc_am_packed_length h), h)"
  unfolding Let_def
  by (rule amd_header_roundtrip) (simp_all add: lte_header_ok_def RLC_AM_WINDOW_SIZE_def)

text \<open>
  C13: an LTE status PDU takes the announced number of bytes, although the writer always adds padding
  (the PDU without it never ends on a byte boundary), and a fresh container reads it back.
\<close>

theorem lte_status_roundtrip:
  assumes "lte_status_ok st"
  shows "fst (rlc_am_write_status_pdu st) = rlc_am_status_packed_length st \<and>
    rlc_am_read_status_pdu (snd (rlc_am_write_status_pdu st) @ rest) (fst (rlc_am_write_status_pdu st)) rlc_status_pdu_new =
    Some \<lparr>ls_ack_sn = ls_ack_sn st, ls_n_nack = ls_n_nack st,
      ls_nacks = take (ls_n_nack st) (ls_nacks st) @ replicate (RLC_AM_WINDOW_SIZE - ls_n_nack st) nack_default\<rparr>"
proof
  show "fst (rlc_am_write_status_pdu st) = rlc_am_status_packed_length st"
    using status_padding(2) [of st] by (simp add: rlc_am_write_status_pdu_def Let_def srsran_bit_unpack_def)
qed (rule lte_status_reads [OF assms])

theorem lte_status_roundtrip_witness:
  "let st = \<lparr>ls_ack_sn = 77, ls_n_nack = 1, ls_nacks = sdu_nack 70 # replicate 511 nack_default\<rparr>
   in fst (rlc_am_write_status_pdu st) = rlc_am_status_packed_length st \<and>
    rlc_am_read_status_pdu (snd (rlc_am_write_status_pdu st) @ []) (fst (rlc_am_write_status_pdu st)) rlc_status_pdu_new =
    Some \<lparr>ls_ack_sn = ls_ack_sn st, ls_n_nack = ls_n_nack st,
      ls_nacks = take (ls_n_nack st) (ls_nacks st) @ replicate (RLC_AM_WINDOW_SIZE - ls_n_nack st) nack_default\<rparr>"
  unfolding Let_def
  by (rule lte_status_roundtrip)
    (simp add: lte_status_ok_def RLC_AM_WINDOW_SIZE_def lte_nack_ok_def sdu_nack_def nack_default_def so_end_of_sdu_def)

text \<open>
  : the reader takes as many NACKs as the extension bits announce. When a received PDU carries more
  than the 512 entries of the \<open>Nacks\<close> array, the loop stores past its end (no result in the model),
  although all the bits it reads are there.
\<close>

theorem lte_status_nack_overflow:
  assumes "\<forall>n\<in>set ns. lte_nack_ok n" "512 < length ns"
  shows "read_lte_nacks 1 (write_lte_nacks ns @ rest) rlc_status_pdu_new = None"
  using assms by (intro read_lte_nacks_overflow) (simp_all add: rlc_status_pdu_new_def RLC_AM_WINDOW_SIZE_def)

theorem lte_status_nack_overflow_witness:
  "read_lte_nacks 1 (write_lte_nacks (replicate 513 (sdu_nack 5)) @ []) rlc_status_pdu_new = None"
  by (rule lte_status_nack_overflow) (simp_all add: lte_nack_ok_def sdu_nack_def nack_default_def so_end_of_sdu_def)

text \<open>The distance from one sequence number up to another, modulo 1024.\<close>

definition sn_dist :: "nat \<Rightarrow> nat \<Rightarrow> nat" where
  "sn_dist to from = (to + 1024 - from) mod 1024"

lemma sn_dist_0:
  assumes "a < 1024" "b < 1024"
  shows "sn_dist a b = 0 \<longleftrightarrow> a = b"
proof (cases "b \<le> a")
  case True
  have "sn_dist a b = (a - b + 1024) mod 1024" unfolding sn_dist_def using True by simp
  also have "\<dots> = a - b" using assms by (simp only: mod_add_self2) simp
  finally show ?thesis using True by auto
next
  case False
  then have "a + 1024 - b < 1024" "0 < a + 1024 - b" using assms by simp_all
  with False show ?thesis by (simp add: sn_dist_def)
qed

lemma sn_dist_word:
  assumes "unat (a :: u32) < 1024" "unat b < 1024"
  shows "unat ((1024 + a - b) mod 1024) = sn_dist (unat a) (unat b)"
proof -
  have s: "unat (1024 + a) = 1024 + unat a" using assms(1) by (simp add: unat_word_ariths)
  moreover have "b \<le> 1024 + a" using assms by (simp add: word_le_nat_alt s)
  ultimately have "unat (1024 + a - b) = 1024 + unat a - unat b" by (simp add: unat_sub)
  moreover have "unat ((1024 + a - b) mod 1024) = unat (1024 + a - b) mod unat (1024 :: u32)" by (rule unat_mod)
  moreover have "unat (1024 :: u32) = 1024" by simp
  ultimately show ?thesis by (simp only: sn_dist_def add.commute)
qed

text \<open>
  : the check of a received status PDU accepts exactly the PDUs whose \<open>ACK_SN\<close> lies at most half the
  sequence number space above the start of the window, and whose NACKs lie strictly below \<open>ACK_SN\<close>
  and at most that far away, counted modulo 1024.
\<close>

theorem valid_status_pdu_iff:
  assumes "unat (ls_ack_sn st) < 1024" "unat win < 1024" "\<forall>n\<in>set (take (ls_n_nack st) (ls_nacks st)). unat (nack_sn n) < 1024"
  shows "rlc_am_is_valid_status_pdu st win \<longleftrightarrow> sn_dist (unat (ls_ack_sn st)) (unat win) \<le> 512 \<and>
    (\<forall>n\<in>set (take (ls_n_nack st) (ls_nacks st)).
       0 < sn_dist (unat (ls_ack_sn st)) (unat (nack_sn n)) \<and> sn_dist (unat (ls_ack_sn st)) (unat (nack_sn n)) \<le> 512)"
proof -
  let ?a = "ucast (ls_ack_sn st) :: u32"
  have a: "unat ?a = unat (ls_ack_sn st)" by (rule unat_ucast_up) simp
  have le: "\<not> 512 < (1024 + ?a - w) mod 1024 \<longleftrightarrow> sn_dist (unat (ls_ack_sn st)) (unat w) \<le> 512" if "unat w < 1024" for w
    using sn_dist_word [of ?a w] assms(1) that by (simp add: a not_less word_le_nat_alt)
  have ne: "w \<noteq> ?a \<longleftrightarrow> 0 < sn_dist (unat (ls_ack_sn st)) (unat w)" if "unat w < 1024" for w
  proof -
    have "sn_dist (unat (ls_ack_sn st)) (unat w) = 0 \<longleftrightarrow> unat (ls_ack_sn st) = unat w"
      using assms(1) that by (rule sn_dist_0)
    moreover have "w = ?a \<longleftrightarrow> unat w = unat (ls_ack_sn st)" unfolding word_unat_eq_iff [of w ?a] a by (rule refl)
    ultimately show ?thesis by linarith
  qed
  show ?thesis
    unfolding rlc_am_is_valid_status_pdu_def Let_def list_all_iff
    using le ne assms(2,3) by auto
qed

theorem valid_status_pdu_iff_witness:
  "rlc_am_is_valid_status_pdu \<lparr>ls_ack_sn = 3, ls_n_nack = 1, ls_nacks = sdu_nack 1022 # replicate 511 nack_default\<rparr> 1020"
  by (subst valid_status_pdu_iff) (simp_all add: sdu_nack_def sn_dist_def)

end
