(* ===== verification/Int_Helpers.thy ===== *)
theory Int_Helpers
  imports Prelude
begin

text \<open>
  The conversions between integers and big-endian byte sequences of
  \<^verbatim>\<open>lib/include/srsran/common/int_helpers.h\<close>. A writer returns the octets it stores; a reader takes
  the octets it loads as arguments.
\<close>

definition uint16_to_uint8 :: "u16 \<Rightarrow> bytes" where
  "uint16_to_uint8 i = [ucast (drop_bit 8 i AND 0xFF), ucast (i AND 0xFF)]"

definition uint8_to_uint16 :: "u8 \<Rightarrow> u8 \<Rightarrow> u16" where
  "uint8_to_uint16 b0 b1 = ucast (push_bit 8 (ucast b0 :: u32) OR (ucast b1 :: u32))"

definition uint24_to_uint8 :: "u32 \<Rightarrow> bytes" where
  "uint24_to_uint8 i = [ucast (drop_bit 16 i AND 0xFF), ucast (drop_bit 8 i AND 0xFF), ucast (i AND 0xFF)]"

definition uint8_to_uint24 :: "u8 \<Rightarrow> u8 \<Rightarrow> u8 \<Rightarrow> u32" where
  "uint8_to_uint24 b0 b1 b2 = push_bit 16 (ucast b0) OR push_bit 8 (ucast b1) OR ucast b2"

definition uint32_to_uint8 :: "u32 \<Rightarrow> bytes" where
  "uint32_to_uint8 i =
    [ucast (drop_bit 24 i AND 0xFF), ucast (drop_bit 16 i AND 0xFF), ucast (drop_bit 8 i AND 0xFF),
     ucast (i AND 0xFF)]"

definition uint8_to_uint32 :: "u8 \<Rightarrow> u8 \<Rightarrow> u8 \<Rightarrow> u8 \<Rightarrow> u32" where
  "uint8_to_uint32 b0 b1 b2 b3 =
    push_bit 24 (ucast b0) OR push_bit 16 (ucast b1) OR push_bit 8 (ucast b2) OR ucast b3"

lemmas uint_writers = uint16_to_uint8_def uint24_to_uint8_def uint32_to_uint8_def
lemmas uint_readers = uint8_to_uint16_def uint8_to_uint24_def uint8_to_uint32_def

lemma length_uint_writers [simp]:
  "length (uint16_to_uint8 x) = 2" "length (uint24_to_uint8 y) = 3" "length (uint32_to_uint8 y) = 4"
  by (simp_all add: uint_writers)

text \<open>The numbers of a known width as a bit condition.\<close>

lemma uint16_roundtrip: "uint8_to_uint16 (uint16_to_uint8 i ! 0) (uint16_to_uint8 i ! 1) = i"
  unfolding uint_writers uint_readers and_masks
  by (rule bit_word_eqI) (auto simp: bits simp del: bit_0)

lemma ucast_ucast_u8: "ucast (ucast (x :: 'a::len word) :: u8) = (take_bit 8 (ucast x) :: 'b::len word)"
  by (rule bit_word_eqI) (auto simp: bits simp del: bit_0)

lemma take_bit_ucast_u8 [simp]: "take_bit 8 (ucast (x :: u8) :: 'b::len word) = ucast x"
  by (rule bit_word_eqI) (auto simp: bits simp del: bit_0 dest: bit_imp_le_length)

lemma word_bytes:
  "(x :: 'a::len word) = push_bit 8 (drop_bit 8 x) OR take_bit 8 x"
  by (rule bit_word_eqI) (auto simp: bits simp del: bit_0)

lemma uint32_roundtrip:
  "uint8_to_uint32 (uint32_to_uint8 i ! 0) (uint32_to_uint8 i ! 1) (uint32_to_uint8 i ! 2) (uint32_to_uint8 i ! 3) = i"
proof -
  have "uint8_to_uint32 (uint32_to_uint8 i ! 0) (uint32_to_uint8 i ! 1) (uint32_to_uint8 i ! 2) (uint32_to_uint8 i ! 3)
    = push_bit 24 (take_bit 8 (drop_bit 24 i)) OR push_bit 16 (take_bit 8 (drop_bit 16 i)) OR
      push_bit 8 (take_bit 8 (drop_bit 8 i)) OR take_bit 8 i"
    by (simp add: uint_writers uint_readers and_masks ucast_ucast_u8 del: take_bit_ucast_u8)
  also have "\<dots> = i"
  proof (rule bit_word_eqI)
    fix n :: nat
    consider "n < 8" | "8 \<le> n" "n < 16" | "16 \<le> n" "n < 24" | "24 \<le> n" by linarith
    then show "bit (push_bit 24 (take_bit 8 (drop_bit 24 i)) OR push_bit 16 (take_bit 8 (drop_bit 16 i)) OR
      push_bit 8 (take_bit 8 (drop_bit 8 i)) OR take_bit 8 i) n = bit i n"
      by cases (auto simp: bits simp del: bit_0 dest: bit_imp_le_length)
  qed
  finally show ?thesis .
qed

text \<open>A number of at most 24 bits survives the three octet form.\<close>

lemma uint24_roundtrip:
  "uint8_to_uint24 (uint24_to_uint8 i ! 0) (uint24_to_uint8 i ! 1) (uint24_to_uint8 i ! 2) = take_bit 24 i"
proof -
  have "uint8_to_uint24 (uint24_to_uint8 i ! 0) (uint24_to_uint8 i ! 1) (uint24_to_uint8 i ! 2)
    = push_bit 16 (take_bit 8 (drop_bit 16 i)) OR push_bit 8 (take_bit 8 (drop_bit 8 i)) OR take_bit 8 i"
    by (simp add: uint_writers uint_readers and_masks ucast_ucast_u8 del: take_bit_ucast_u8)
  also have "\<dots> = take_bit 24 i"
  proof (rule bit_word_eqI)
    fix n :: nat
    consider "n < 8" | "8 \<le> n" "n < 16" | "16 \<le> n" "n < 24" | "24 \<le> n" by linarith
    then show "bit (push_bit 16 (take_bit 8 (drop_bit 16 i)) OR push_bit 8 (take_bit 8 (drop_bit 8 i)) OR
      take_bit 8 i) n = bit (take_bit 24 i) n"
      by cases (auto simp: bits simp del: bit_0 dest: bit_imp_le_length)
  qed
  finally show ?thesis .
qed

end
