(* ===== verification/Pdcp_Base.thy ===== *)
theory Pdcp_Base
  imports Byte_Buffer Int_Helpers
begin

text \<open>
  The part of PDCP that the LTE and NR entities share
  (\<^verbatim>\<open>lib/src/pdcp/pdcp_entity_base.cc\<close>, \<^verbatim>\<open>lib/include/srsran/upper/pdcp_entity_base.h\<close>): configuration,
  COUNT arithmetic, the data header, the message authentication code and ciphering. The algorithms
  128-EIA1..3 and 128-EEA1..3 are the argument \<open>security_suite\<close>; what a lemma needs of them is the
  hypothesis \<open>suite_ok\<close>, whose two clauses say that an integrity algorithm yields four octets and that a
  ciphering algorithm is a stream cipher.

  An operation that would read or write outside an array has the result \<open>None\<close>.
\<close>

section \<open>Configuration\<close>

datatype pdcp_rb_type = PDCP_RB_IS_SRB | PDCP_RB_IS_DRB

datatype security_direction = SECURITY_DIRECTION_UPLINK | SECURITY_DIRECTION_DOWNLINK

datatype srsran_direction = DIRECTION_NONE | DIRECTION_TX | DIRECTION_RX | DIRECTION_TXRX

datatype integrity_algorithm = EIA0 | EIA1 | EIA2 | EIA3

datatype ciphering_algorithm = EEA0 | EEA1 | EEA2 | EEA3

datatype srsran_rat = RAT_LTE | RAT_NR | RAT_NULLTYPE

text \<open>Timer values of the configuration: a number of milliseconds, or \<open>infinity\<close>.\<close>

datatype pdcp_time = Ms nat | Infinity

record pdcp_config =
  bearer_id :: u8
  rb_type :: pdcp_rb_type
  tx_direction :: security_direction
  rx_direction :: security_direction
  sn_len :: nat
  hdr_len_bytes :: nat
  t_reordering :: pdcp_time
  discard_timer :: pdcp_time
  rat :: srsran_rat
  status_report_required :: bool

definition pdcp_config_new ::
  "u8 \<Rightarrow> pdcp_rb_type \<Rightarrow> security_direction \<Rightarrow> security_direction \<Rightarrow> nat \<Rightarrow> pdcp_time \<Rightarrow> pdcp_time \<Rightarrow> bool \<Rightarrow>
    srsran_rat \<Rightarrow> pdcp_config" where
  "pdcp_config_new b ty tx rx sn tr td sr r =
    \<lparr>bearer_id = b, rb_type = ty, tx_direction = tx, rx_direction = rx, sn_len = sn,
     hdr_len_bytes = (sn + 7) div 8, t_reordering = tr, discard_timer = td, rat = r, status_report_required = sr\<rparr>"

record as_security_config =
  k_rrc_int :: bytes
  k_rrc_enc :: bytes
  k_up_int :: bytes
  k_up_enc :: bytes
  integ_algo :: integrity_algorithm
  cipher_algo :: ciphering_algorithm

text \<open>
  \<open>security_128_eia1\<close> .. \<open>3\<close>: key, count, bearer, direction and message to the code;
  \<open>security_128_eea1\<close> .. \<open>3\<close>: the same to the output message.
\<close>

type_synonym security_fun = "bytes \<Rightarrow> u32 \<Rightarrow> u32 \<Rightarrow> security_direction \<Rightarrow> bytes \<Rightarrow> bytes"

record security_suite =
  security_128_eia1 :: security_fun
  security_128_eia2 :: security_fun
  security_128_eia3 :: security_fun
  security_128_eea1 :: security_fun
  security_128_eea2 :: security_fun
  security_128_eea3 :: security_fun

section \<open>State of an entity\<close>

record pdcp_entity_base =
  pb_active :: bool
  pb_lcid :: u32
  integrity_direction :: srsran_direction
  encryption_direction :: srsran_direction
  enable_security_tx_sn :: int
  enable_security_rx_sn :: int
  cfg :: pdcp_config
  sec_cfg :: as_security_config

definition is_srb :: "'a pdcp_entity_base_scheme \<Rightarrow> bool" where
  "is_srb pe \<longleftrightarrow> rb_type (cfg pe) = PDCP_RB_IS_SRB"

definition is_drb :: "'a pdcp_entity_base_scheme \<Rightarrow> bool" where
  "is_drb pe \<longleftrightarrow> rb_type (cfg pe) = PDCP_RB_IS_DRB"

definition set_enabled :: "bool \<Rightarrow> 'a pdcp_entity_base_scheme \<Rightarrow> 'a pdcp_entity_base_scheme" where
  "set_enabled b pe = pe\<lparr>pb_active := b\<rparr>"

definition enable_integrity :: "srsran_direction \<Rightarrow> 'a pdcp_entity_base_scheme \<Rightarrow> 'a pdcp_entity_base_scheme" where
  "enable_integrity direction pe =
    (if integrity_direction pe = DIRECTION_TX \<and> direction = DIRECTION_RX then
       pe\<lparr>integrity_direction := DIRECTION_TXRX\<rparr>
     else if integrity_direction pe = DIRECTION_RX \<and> direction = DIRECTION_TX then
       pe\<lparr>integrity_direction := DIRECTION_TXRX\<rparr>
     else pe\<lparr>integrity_direction := direction\<rparr>)"

definition enable_encryption :: "srsran_direction \<Rightarrow> 'a pdcp_entity_base_scheme \<Rightarrow> 'a pdcp_entity_base_scheme" where
  "enable_encryption direction pe =
    (if encryption_direction pe = DIRECTION_TX \<and> direction = DIRECTION_RX then
       pe\<lparr>encryption_direction := DIRECTION_TXRX\<rparr>
     else if encryption_direction pe = DIRECTION_RX \<and> direction = DIRECTION_TX then
       pe\<lparr>encryption_direction := DIRECTION_TXRX\<rparr>
     else pe\<lparr>encryption_direction := direction\<rparr>)"

text \<open>The sequence number is stored in a signed 32 bit field.\<close>

definition enable_security_timed ::
  "srsran_direction \<Rightarrow> u32 \<Rightarrow> 'a pdcp_entity_base_scheme \<Rightarrow> 'a pdcp_entity_base_scheme" where
  "enable_security_timed direction sn pe =
    (case direction of
       DIRECTION_TX \<Rightarrow> pe\<lparr>enable_security_tx_sn := sint sn\<rparr>
     | DIRECTION_RX \<Rightarrow> pe\<lparr>enable_security_rx_sn := sint sn\<rparr>
     | _ \<Rightarrow> pe)"

definition config_security :: "as_security_config \<Rightarrow> 'a pdcp_entity_base_scheme \<Rightarrow> 'a pdcp_entity_base_scheme" where
  "config_security sc pe = pe\<lparr>sec_cfg := sc\<rparr>"

section \<open>COUNT, HFN and SN\<close>

definition HFN :: "pdcp_config \<Rightarrow> u32 \<Rightarrow> u32" where
  "HFN c count = drop_bit (sn_len c) count"

definition SN :: "pdcp_config \<Rightarrow> u32 \<Rightarrow> u32" where
  "SN c count = count AND drop_bit (32 - sn_len c) 0xFFFFFFFF"

definition COUNT :: "pdcp_config \<Rightarrow> u32 \<Rightarrow> u32 \<Rightarrow> u32" where
  "COUNT c hfn sn = push_bit (sn_len c) hfn OR sn"

section \<open>Security functions\<close>

definition k_int :: "'a pdcp_entity_base_scheme \<Rightarrow> bytes" where
  "k_int pe = (if is_srb pe then k_rrc_int (sec_cfg pe) else k_up_int (sec_cfg pe))"

definition k_enc :: "'a pdcp_entity_base_scheme \<Rightarrow> bytes" where
  "k_enc pe = (if is_srb pe then k_rrc_enc (sec_cfg pe) else k_up_enc (sec_cfg pe))"

text \<open>\<open>cfg.bearer_id - 1\<close>, computed as an \<open>int\<close> and converted to the unsigned parameter.\<close>

definition bearer_minus_1 :: "pdcp_config \<Rightarrow> u32" where
  "bearer_minus_1 c = ucast (bearer_id c) - 1"

definition integrity_generate :: "security_suite \<Rightarrow> 'a pdcp_entity_base_scheme \<Rightarrow> bytes \<Rightarrow> u32 \<Rightarrow> bytes \<Rightarrow> bytes" where
  "integrity_generate S pe msg count mac =
    (case integ_algo (sec_cfg pe) of
       EIA0 \<Rightarrow> mac
     | EIA1 \<Rightarrow> security_128_eia1 S (drop 16 (k_int pe)) count (bearer_minus_1 (cfg pe)) (tx_direction (cfg pe)) msg
     | EIA2 \<Rightarrow> security_128_eia2 S (drop 16 (k_int pe)) count (bearer_minus_1 (cfg pe)) (tx_direction (cfg pe)) msg
     | EIA3 \<Rightarrow> security_128_eia3 S (drop 16 (k_int pe)) count (bearer_minus_1 (cfg pe)) (tx_direction (cfg pe)) msg)"

definition integrity_verify :: "security_suite \<Rightarrow> 'a pdcp_entity_base_scheme \<Rightarrow> bytes \<Rightarrow> u32 \<Rightarrow> bytes \<Rightarrow> bool" where
  "integrity_verify S pe msg count mac =
    (let mac_exp =
       (case integ_algo (sec_cfg pe) of
          EIA0 \<Rightarrow> [0, 0, 0, 0]
        | EIA1 \<Rightarrow> security_128_eia1 S (drop 16 (k_int pe)) count (bearer_minus_1 (cfg pe)) (rx_direction (cfg pe)) msg
        | EIA2 \<Rightarrow> security_128_eia2 S (drop 16 (k_int pe)) count (bearer_minus_1 (cfg pe)) (rx_direction (cfg pe)) msg
        | EIA3 \<Rightarrow> security_128_eia3 S (drop 16 (k_int pe)) count (bearer_minus_1 (cfg pe)) (rx_direction (cfg pe)) msg)
     in integ_algo (sec_cfg pe) \<noteq> EIA0 \<longrightarrow> list_all (\<lambda>i. mac ! i = mac_exp ! i) [0, 1, 2, 3])"

text \<open>
  The cipher runs over the message from offset \<open>off\<close> to its end, through a local array of
  \<open>PDCP_MAX_SDU_SIZE\<close> octets.
\<close>

definition PDCP_MAX_SDU_SIZE :: nat where
  "PDCP_MAX_SDU_SIZE = 9000"

definition cipher_in_place :: "byte_buffer \<Rightarrow> nat \<Rightarrow> (bytes \<Rightarrow> bytes) \<Rightarrow> byte_buffer option" where
  "cipher_in_place bb off f =
    (if off \<le> bb_n bb \<and> bb_n bb - off \<le> PDCP_MAX_SDU_SIZE then
       map_option (\<lambda>m. bb\<lparr>bb_buffer := m\<rparr>) (mem_write (bb_buffer bb) (bb_msg bb + off) (f (drop off (bb_data bb))))
     else None)"

definition cipher_encrypt ::
  "security_suite \<Rightarrow> 'a pdcp_entity_base_scheme \<Rightarrow> byte_buffer \<Rightarrow> nat \<Rightarrow> u32 \<Rightarrow> byte_buffer option" where
  "cipher_encrypt S pe bb off count =
    (case cipher_algo (sec_cfg pe) of
       EEA0 \<Rightarrow> Some bb
     | EEA1 \<Rightarrow> cipher_in_place bb off
         (security_128_eea1 S (drop 16 (k_enc pe)) count (bearer_minus_1 (cfg pe)) (tx_direction (cfg pe)))
     | EEA2 \<Rightarrow> cipher_in_place bb off
         (security_128_eea2 S (drop 16 (k_enc pe)) count (bearer_minus_1 (cfg pe)) (tx_direction (cfg pe)))
     | EEA3 \<Rightarrow> cipher_in_place bb off
         (security_128_eea3 S (drop 16 (k_enc pe)) count (bearer_minus_1 (cfg pe)) (tx_direction (cfg pe))))"

definition cipher_decrypt ::
  "security_suite \<Rightarrow> 'a pdcp_entity_base_scheme \<Rightarrow> byte_buffer \<Rightarrow> nat \<Rightarrow> u32 \<Rightarrow> byte_buffer option" where
  "cipher_decrypt S pe bb off count =
    (case cipher_algo (sec_cfg pe) of
       EEA0 \<Rightarrow> Some bb
     | EEA1 \<Rightarrow> cipher_in_place bb off
         (security_128_eea1 S (drop 16 (k_enc pe)) count (bearer_minus_1 (cfg pe)) (rx_direction (cfg pe)))
     | EEA2 \<Rightarrow> cipher_in_place bb off
         (security_128_eea2 S (drop 16 (k_enc pe)) count (bearer_minus_1 (cfg pe)) (rx_direction (cfg pe)))
     | EEA3 \<Rightarrow> cipher_in_place bb off
         (security_128_eea3 S (drop 16 (k_enc pe)) count (bearer_minus_1 (cfg pe)) (rx_direction (cfg pe))))"

section \<open>Headers\<close>

definition is_control_pdu :: "byte_buffer \<Rightarrow> bool" where
  "is_control_pdu pdu \<longleftrightarrow> drop_bit 7 (msg_at pdu 0) AND 1 = 0"

datatype pdcp_pdu_type = PDCP_PDU_TYPE_STATUS_REPORT | PDCP_PDU_TYPE_INTERSPERSED_ROHC_FEEDBACK_PACKET
  | PDCP_PDU_TYPE_LWA_STATUS_REPORT | PDCP_PDU_TYPE_LWA_END_MARKER_PACKET

definition get_control_pdu_type :: "byte_buffer \<Rightarrow> pdcp_pdu_type" where
  "get_control_pdu_type pdu =
    (let t = drop_bit 4 (msg_at pdu 0) AND 3 in
     if t = 0 then PDCP_PDU_TYPE_STATUS_REPORT
     else if t = 1 then PDCP_PDU_TYPE_INTERSPERSED_ROHC_FEEDBACK_PACKET
     else if t = 2 then PDCP_PDU_TYPE_LWA_STATUS_REPORT
     else PDCP_PDU_TYPE_LWA_END_MARKER_PACKET)"

definition read_data_header :: "pdcp_config \<Rightarrow> byte_buffer \<Rightarrow> u32" where
  "read_data_header c pdu =
    (if bb_n pdu \<le> hdr_len_bytes c then 0
     else if sn_len c = 5 then SN c (ucast (msg_at pdu 0))
     else if sn_len c = 7 then SN c (ucast (msg_at pdu 0))
     else if sn_len c = 12 then SN c (ucast (uint8_to_uint16 (msg_at pdu 0) (msg_at pdu 1)))
     else if sn_len c = 18 then SN c (uint8_to_uint24 (msg_at pdu 0) (msg_at pdu 1) (msg_at pdu 2))
     else 0)"

text \<open>The length field is an unsigned 32 bit number: it wraps around when the header is longer than the PDU.\<close>

definition discard_data_header :: "pdcp_config \<Rightarrow> byte_buffer \<Rightarrow> byte_buffer" where
  "discard_data_header c pdu =
    pdu\<lparr>bb_msg := bb_msg pdu + hdr_len_bytes c,
        bb_n := unat (of_nat (bb_n pdu) - of_nat (hdr_len_bytes c) :: u32)\<rparr>"

definition data_header_bytes :: "pdcp_config \<Rightarrow> u32 \<Rightarrow> bytes" where
  "data_header_bytes c count =
    (let d = (\<lambda>xs. (hd xs OR 0x80) # tl xs); drb = (rb_type c = PDCP_RB_IS_DRB) in
     if sn_len c = 5 then [ucast (SN c count)]
     else if sn_len c = 7 then (if drb then d [ucast (SN c count)] else [ucast (SN c count)])
     else if sn_len c = 12 then
       (if drb then d (uint16_to_uint8 (ucast (SN c count))) else uint16_to_uint8 (ucast (SN c count)))
     else if sn_len c = 18 then d (uint24_to_uint8 (SN c count))
     else [])"

definition write_data_header :: "pdcp_config \<Rightarrow> byte_buffer \<Rightarrow> u32 \<Rightarrow> byte_buffer option" where
  "write_data_header c sdu count =
    (if get_headroom sdu < hdr_len_bytes c then Some sdu
     else
       (let s = sdu\<lparr>bb_msg := bb_msg sdu - hdr_len_bytes c, bb_n := bb_n sdu + hdr_len_bytes c\<rparr> in
        map_option (\<lambda>m. s\<lparr>bb_buffer := m\<rparr>) (mem_write (bb_buffer s) (bb_msg s) (data_header_bytes c count))))"

definition extract_mac :: "byte_buffer \<Rightarrow> bytes \<Rightarrow> byte_buffer \<times> bytes" where
  "extract_mac pdu mac =
    (if bb_n pdu < 4 then (pdu, mac)
     else (pdu\<lparr>bb_n := bb_n pdu - 4\<rparr>, map (\<lambda>i. msg_at pdu (bb_n pdu - 4 + i)) [0, 1, 2, 3]))"

definition append_mac :: "byte_buffer \<Rightarrow> bytes \<Rightarrow> byte_buffer option" where
  "append_mac sdu mac =
    (if of_nat (bb_n sdu) + 4 > get_tailroom sdu then Some sdu else append_bytes sdu (take 4 mac))"

section \<open>COUNT arithmetic\<close>

text \<open>The configurations of RRC: a header long enough for the sequence number, whose length is one of four.\<close>

definition config_ok :: "pdcp_config \<Rightarrow> bool" where
  "config_ok c \<longleftrightarrow> sn_len c \<in> {5, 7, 12, 18} \<and> hdr_len_bytes c = (sn_len c + 7) div 8"

lemma config_new_ok:
  "sn \<in> {5, 7, 12, 18} \<Longrightarrow> config_ok (pdcp_config_new b ty tx rx sn tr td sr r)"
  by (auto simp: config_ok_def pdcp_config_new_def)

lemma config_ok_cases:
  assumes "config_ok c"
  obtains "sn_len c = 5" "hdr_len_bytes c = 1" | "sn_len c = 7" "hdr_len_bytes c = 1"
    | "sn_len c = 12" "hdr_len_bytes c = 2" | "sn_len c = 18" "hdr_len_bytes c = 3"
  using assms by (auto simp: config_ok_def)

lemma SN_take_bit: "sn_len c \<le> 32 \<Longrightarrow> SN c count = take_bit (sn_len c) count"
proof -
  have m: "(0xFFFFFFFF :: u32) = mask 32" by (simp add: mask_numeral)
  assume "sn_len c \<le> 32"
  then have "drop_bit (32 - sn_len c) (mask 32) = (mask (sn_len c) :: u32)"
    by (intro bit_word_eqI) (auto simp: bits simp del: bit_0)
  then show ?thesis unfolding SN_def m take_bit_eq_mask by (rule arg_cong)
qed

lemma SN_less: "sn_len c \<le> 32 \<Longrightarrow> unat (SN c count) < 2 ^ sn_len c"
  by (simp add: SN_take_bit unsigned_take_bit_eq)

lemma COUNT_HFN_SN: "sn_len c \<le> 32 \<Longrightarrow> COUNT c (HFN c count) (SN c count) = count"
  unfolding COUNT_def HFN_def SN_take_bit
  by (rule bit_word_eqI) (auto simp: bits SN_take_bit simp del: bit_0)

lemma unat_count: "sn_len c \<le> 32 \<Longrightarrow> unat count = unat (HFN c count) * 2 ^ sn_len c + unat (SN c count)"
  unfolding HFN_def
  by (simp only: SN_take_bit unsigned_take_bit_eq unsigned_drop_bit_eq)
    (use unsigned_less [of count, where 'a = nat] in \<open>simp add: take_bit_eq_mod drop_bit_eq_div div_mult_mod_eq\<close>)

text \<open>A COUNT assembled from parts that fit has the value the parts denote.\<close>

lemma unat_COUNT:
  assumes "sn_len c \<le> 32" "unat sn < 2 ^ sn_len c" "unat hfn * 2 ^ sn_len c < 2 ^ 32"
  shows "unat (COUNT c hfn sn) = unat hfn * 2 ^ sn_len c + unat sn"
proof -
  have "COUNT c hfn sn = push_bit (sn_len c) hfn + sn"
    unfolding COUNT_def
    by (rule disjunctive_add [symmetric]) (auto simp: bit_simps dest: unat_less_bit [OF assms(2)])
  moreover have "unat hfn * 2 ^ sn_len c + unat sn < 2 ^ 32"
  proof -
    have "unat hfn * 2 ^ sn_len c + 2 ^ sn_len c \<le> 2 ^ 32"
    proof -
      have "unat hfn < 2 ^ (32 - sn_len c)"
      proof (rule ccontr)
        assume "\<not> unat hfn < 2 ^ (32 - sn_len c)"
        then have "2 ^ (32 - sn_len c) * 2 ^ sn_len c \<le> unat hfn * 2 ^ sn_len c"
          by (intro mult_right_mono) simp_all
        with assms(1,3) show False by (simp flip: power_add)
      qed
      then have "(unat hfn + 1) * 2 ^ sn_len c \<le> 2 ^ (32 - sn_len c) * 2 ^ sn_len c"
        by (intro mult_right_mono) simp_all
      also have "\<dots> = 2 ^ 32" using assms(1) by (simp flip: power_add)
      finally show ?thesis by (simp add: algebra_simps)
    qed
    with assms(2) show ?thesis by linarith
  qed
  moreover have "unat (push_bit (sn_len c) hfn) = unat hfn * 2 ^ sn_len c"
    using assms(3) unfolding unsigned_push_bit_eq by (simp add: take_bit_nat_eq_self push_bit_eq_mult)
  ultimately show ?thesis
    using unat_add_lem [of "push_bit (sn_len c) hfn" sn] by simp
qed

section \<open>The header and the code\<close>

lemma length_data_header_bytes: "config_ok c \<Longrightarrow> length (data_header_bytes c n) = hdr_len_bytes c"
  by (erule config_ok_cases) (simp_all add: data_header_bytes_def Let_def)

lemma write_data_header_push:
  "config_ok c \<Longrightarrow> hdr_len_bytes c \<le> get_headroom sdu \<Longrightarrow>
    write_data_header c sdu count = push_header sdu (data_header_bytes c count)"
  by (simp add: write_data_header_def push_header_def length_data_header_bytes get_headroom_def Let_def)
    (rule option.map_cong0, simp)

text \<open>What the header reader finds behind a header that the writer produced.\<close>

definition header_sn :: "pdcp_config \<Rightarrow> bytes \<Rightarrow> u32" where
  "header_sn c xs =
    (if sn_len c = 12 then SN c (ucast (uint8_to_uint16 (xs ! 0) (xs ! 1)))
     else if sn_len c = 18 then SN c (uint8_to_uint24 (xs ! 0) (xs ! 1) (xs ! 2))
     else SN c (ucast (xs ! 0)))"

lemma read_data_header_data:
  "config_ok c \<Longrightarrow> bb_ok bb \<Longrightarrow> hdr_len_bytes c < bb_n bb \<Longrightarrow> read_data_header c bb = header_sn c (bb_data bb)"
  by (erule config_ok_cases) (simp_all add: read_data_header_def header_sn_def msg_at_data)

lemma header_sn_append: "config_ok c \<Longrightarrow> length h = hdr_len_bytes c \<Longrightarrow> header_sn c (h @ xs) = header_sn c h"
  by (erule config_ok_cases) (simp_all add: header_sn_def nth_append)

lemma take_bit_or_high: "k \<le> n \<Longrightarrow> take_bit k (x OR push_bit n y) = take_bit k (x :: 'a::len word)"
  by (rule bit_word_eqI) (auto simp: bits simp del: bit_0)

lemma header_sn_written:
  assumes "config_ok c"
  shows "header_sn c (data_header_bytes c count) = SN c count"
  using assms
proof (cases rule: config_ok_cases)
  case 1
  then show ?thesis
    by (simp add: header_sn_def data_header_bytes_def SN_take_bit)
      (rule bit_word_eqI, auto simp: bits simp del: bit_0)
next
  case 2
  have "(0x80 :: u8) = push_bit 7 1" by simp
  then show ?thesis using 2
    by (auto simp: header_sn_def data_header_bytes_def SN_take_bit Let_def)
      (rule bit_word_eqI, auto simp: bits bit_numerals simp del: bit_0)+
next
  case 3
  have rt: "uint8_to_uint16 (ucast (take_bit 8 (drop_bit 8 i))) (ucast (take_bit 8 i)) = i" for i
    using uint16_roundtrip [of i] by (simp add: uint16_to_uint8_def and_masks)
  have d: "take_bit 12 (ucast (uint8_to_uint16 (a OR 0x80) b) :: u32) = take_bit 12 (ucast (uint8_to_uint16 a b))"
    for a b
    unfolding uint8_to_uint16_def by (rule bit_word_eqI) (auto simp: bits bit_numerals simp del: bit_0)
  have u: "take_bit 12 (ucast (ucast (take_bit 12 count) :: u16) :: u32) = take_bit 12 count"
    by (rule bit_word_eqI) (auto simp: bits simp del: bit_0)
  show ?thesis using 3
    by (simp add: header_sn_def data_header_bytes_def SN_take_bit Let_def uint16_to_uint8_def and_masks rt d u)
next
  case 4
  have rt: "uint8_to_uint24 (ucast (take_bit 8 (drop_bit 16 i))) (ucast (take_bit 8 (drop_bit 8 i)))
      (ucast (take_bit 8 i)) = take_bit 24 i" for i
    using uint24_roundtrip [of i] by (simp add: uint24_to_uint8_def and_masks)
  have d: "take_bit 18 (uint8_to_uint24 (a OR 0x80) b e) = take_bit 18 (uint8_to_uint24 a b e)" for a b e
    unfolding uint8_to_uint24_def by (rule bit_word_eqI) (auto simp: bits bit_numerals simp del: bit_0)
  show ?thesis using 4 rt [of "take_bit 18 count", simplified]
    by (simp add: header_sn_def data_header_bytes_def SN_take_bit Let_def uint24_to_uint8_def and_masks d)
qed

section \<open>Effect of the security functions\<close>

definition suite_ok :: "security_suite \<Rightarrow> bool" where
  "suite_ok S \<longleftrightarrow>
    (\<forall>eia \<in> {security_128_eia1 S, security_128_eia2 S, security_128_eia3 S}. \<forall>k n b d m. length (eia k n b d m) = 4) \<and>
    (\<forall>eea \<in> {security_128_eea1 S, security_128_eea2 S, security_128_eea3 S}. \<forall>k n b d m.
       length (eea k n b d m) = length m \<and> eea k n b d (eea k n b d m) = m)"

text \<open>The functions that a configuration selects.\<close>

definition mac_of :: "security_suite \<Rightarrow> 'a pdcp_entity_base_scheme \<Rightarrow> security_direction \<Rightarrow> u32 \<Rightarrow> bytes \<Rightarrow> bytes" where
  "mac_of S pe d count msg =
    (case integ_algo (sec_cfg pe) of
       EIA0 \<Rightarrow> [0, 0, 0, 0]
     | EIA1 \<Rightarrow> security_128_eia1 S (drop 16 (k_int pe)) count (bearer_minus_1 (cfg pe)) d msg
     | EIA2 \<Rightarrow> security_128_eia2 S (drop 16 (k_int pe)) count (bearer_minus_1 (cfg pe)) d msg
     | EIA3 \<Rightarrow> security_128_eia3 S (drop 16 (k_int pe)) count (bearer_minus_1 (cfg pe)) d msg)"

definition cipher_of :: "security_suite \<Rightarrow> 'a pdcp_entity_base_scheme \<Rightarrow> security_direction \<Rightarrow> u32 \<Rightarrow> bytes \<Rightarrow> bytes" where
  "cipher_of S pe d count msg =
    (case cipher_algo (sec_cfg pe) of
       EEA0 \<Rightarrow> msg
     | EEA1 \<Rightarrow> security_128_eea1 S (drop 16 (k_enc pe)) count (bearer_minus_1 (cfg pe)) d msg
     | EEA2 \<Rightarrow> security_128_eea2 S (drop 16 (k_enc pe)) count (bearer_minus_1 (cfg pe)) d msg
     | EEA3 \<Rightarrow> security_128_eea3 S (drop 16 (k_enc pe)) count (bearer_minus_1 (cfg pe)) d msg)"

lemma length_mac_of [simp]: "suite_ok S \<Longrightarrow> length (mac_of S pe d n msg) = 4"
  by (simp add: mac_of_def suite_ok_def split: integrity_algorithm.split)

lemma length_cipher_of [simp]: "suite_ok S \<Longrightarrow> length (cipher_of S pe d n msg) = length msg"
  by (simp add: cipher_of_def suite_ok_def split: ciphering_algorithm.split)

lemma cipher_of_involution [simp]: "suite_ok S \<Longrightarrow> cipher_of S pe d n (cipher_of S pe d n msg) = msg"
  by (simp add: cipher_of_def suite_ok_def split: ciphering_algorithm.split)

lemma integrity_generate_mac:
  "integrity_generate S pe msg count [0, 0, 0, 0] = mac_of S pe (tx_direction (cfg pe)) count msg"
  by (simp add: integrity_generate_def mac_of_def)

lemma integrity_verify_iff:
  assumes "suite_ok S" "length mac = 4"
  shows "integrity_verify S pe msg count mac \<longleftrightarrow>
    integ_algo (sec_cfg pe) = EIA0 \<or> mac = mac_of S pe (rx_direction (cfg pe)) count msg"
proof -
  have "list_all (\<lambda>i. xs ! i = ys ! i) [0, 1, 2, 3] \<longleftrightarrow> xs = ys" if "length xs = 4" "length ys = 4"
    for xs ys :: bytes
    using that by (auto simp: list_eq_iff_nth_eq less_Suc_eq numeral_eq_Suc)
  then have "list_all (\<lambda>i. mac ! i = mac_of S pe (rx_direction (cfg pe)) count msg ! i) [0, 1, 2, 3] \<longleftrightarrow>
      mac = mac_of S pe (rx_direction (cfg pe)) count msg"
    using assms by simp
  then show ?thesis
    unfolding integrity_verify_def mac_of_def Let_def by (cases "integ_algo (sec_cfg pe)") auto
qed

text \<open>The buffer after an operation: its message, and that the array and its start have not moved.\<close>

definition same_place :: "byte_buffer \<Rightarrow> byte_buffer \<Rightarrow> bool" where
  "same_place bb' bb \<longleftrightarrow> bb_msg bb' = bb_msg bb \<and> length (bb_buffer bb') = length (bb_buffer bb)"

lemma take_drop_overwrite:
  assumes "i + length ys = m + n" "m \<le> i" "m + n \<le> length mem"
  shows "take n (drop m (take i mem @ ys @ drop (i + length ys) mem)) = take (i - m) (take n (drop m mem)) @ ys"
  using assms by (simp add: drop_take min_def) (use assms in auto)

lemma cipher_in_place_data:
  assumes ok: "bb_ok bb" and off: "off \<le> bb_n bb" "bb_n bb - off \<le> PDCP_MAX_SDU_SIZE"
    and len: "\<And>xs. length (f xs) = length xs"
  obtains bb' where "cipher_in_place bb off f = Some bb'" "bb_ok bb'" "same_place bb' bb" "bb_n bb' = bb_n bb"
    "bb_data bb' = take off (bb_data bb) @ f (drop off (bb_data bb))"
proof -
  let ?ys = "f (drop off (bb_data bb))"
  have l: "length ?ys = bb_n bb - off" using ok by (simp add: len)
  have fits: "bb_msg bb + off + length ?ys = bb_msg bb + bb_n bb" using off l by simp
  moreover have "bb_msg bb + bb_n bb \<le> length (bb_buffer bb)" using ok by (simp add: bb_ok_def)
  ultimately show ?thesis
    using that off ok take_drop_overwrite [of "bb_msg bb + off" ?ys "bb_msg bb" "bb_n bb" "bb_buffer bb"]
    by (simp add: cipher_in_place_def mem_write_Some bb_ok_def same_place_def bb_data_def)
qed

lemma cipher_encrypt_data:
  assumes S: "suite_ok S" and ok: "bb_ok bb" and off: "off \<le> bb_n bb" "bb_n bb - off \<le> PDCP_MAX_SDU_SIZE"
  obtains bb' where "cipher_encrypt S pe bb off count = Some bb'" "bb_ok bb'" "same_place bb' bb" "bb_n bb' = bb_n bb"
    "bb_data bb' = take off (bb_data bb) @ cipher_of S pe (tx_direction (cfg pe)) count (drop off (bb_data bb))"
proof (cases "cipher_algo (sec_cfg pe) = EEA0")
  case True
  then show ?thesis
    using ok by (intro that [of bb]) (simp_all add: cipher_encrypt_def cipher_of_def same_place_def)
next
  case False
  then have "cipher_encrypt S pe bb off count =
      cipher_in_place bb off (cipher_of S pe (tx_direction (cfg pe)) count)"
    by (cases "cipher_algo (sec_cfg pe)")
      (simp_all add: cipher_encrypt_def cipher_of_def [abs_def] fun_eq_iff)
  with cipher_in_place_data [OF ok off, of "cipher_of S pe (tx_direction (cfg pe)) count"] S that
  show ?thesis by (metis length_cipher_of)
qed

lemma cipher_decrypt_data:
  assumes S: "suite_ok S" and ok: "bb_ok bb" and off: "off \<le> bb_n bb" "bb_n bb - off \<le> PDCP_MAX_SDU_SIZE"
  obtains bb' where "cipher_decrypt S pe bb off count = Some bb'" "bb_ok bb'" "same_place bb' bb" "bb_n bb' = bb_n bb"
    "bb_data bb' = take off (bb_data bb) @ cipher_of S pe (rx_direction (cfg pe)) count (drop off (bb_data bb))"
proof -
  have "cipher_decrypt S pe bb off count = cipher_encrypt S (pe\<lparr>cfg := cfg pe\<lparr>tx_direction := rx_direction (cfg pe)\<rparr>\<rparr>) bb off count"
    by (cases "cipher_algo (sec_cfg pe)")
      (simp_all add: cipher_decrypt_def cipher_encrypt_def k_enc_def is_srb_def bearer_minus_1_def)
  moreover have "cipher_of S (pe\<lparr>cfg := cfg pe\<lparr>tx_direction := rx_direction (cfg pe)\<rparr>\<rparr>) = cipher_of S pe"
    by (cases "cipher_algo (sec_cfg pe)")
      (simp_all add: fun_eq_iff cipher_of_def k_enc_def is_srb_def bearer_minus_1_def)
  ultimately show ?thesis
    by (rule_tac cipher_encrypt_data [OF S ok off, of "pe\<lparr>cfg := cfg pe\<lparr>tx_direction := rx_direction (cfg pe)\<rparr>\<rparr>" count])
      (rule that, simp_all)
qed

lemma extract_mac_data:
  assumes "bb_ok bb" "4 \<le> bb_n bb"
  obtains bb' where "extract_mac bb m0 = (bb', drop (bb_n bb - 4) (bb_data bb))" "bb_ok bb'" "same_place bb' bb"
    "bb_n bb' = bb_n bb - 4" "bb_data bb' = take (bb_n bb - 4) (bb_data bb)"
proof (rule that [of "bb\<lparr>bb_n := bb_n bb - 4\<rparr>"])
  have "map (\<lambda>i. msg_at bb (bb_n bb - 4 + i)) [0, 1, 2, 3] = drop (bb_n bb - 4) (bb_data bb)"
    by (rule nth_equalityI) (use assms in \<open>auto simp: msg_at_data less_Suc_eq numeral_eq_Suc\<close>)
  then show "extract_mac bb m0 = (bb\<lparr>bb_n := bb_n bb - 4\<rparr>, drop (bb_n bb - 4) (bb_data bb))"
    using assms by (simp add: extract_mac_def del: list.map)
qed (use assms in \<open>auto simp: bb_ok_def same_place_def bb_data_def min_def\<close>)

lemma append_mac_data:
  assumes ok: "bb_ok bb" and room: "length (bb_buffer bb) < 2 ^ 32"
    "2 * bb_n bb + 4 \<le> length (bb_buffer bb) - bb_msg bb" and mac: "length mac = 4"
  obtains bb' where "append_mac bb mac = Some bb'" "bb_ok bb'" "same_place bb' bb"
    "bb_n bb' = bb_n bb + 4" "bb_data bb' = bb_data bb @ mac"
proof -
  have "get_tailroom bb = of_nat (length (bb_buffer bb) - bb_msg bb - bb_n bb)"
    using ok by (simp add: get_tailroom_def bb_ok_def)
  then have "unat (get_tailroom bb) = length (bb_buffer bb) - bb_msg bb - bb_n bb"
    using room(1) by (simp add: unat_of_nat_eq del: of_nat_diff)
  moreover have "unat (of_nat (bb_n bb) + 4 :: u32) = bb_n bb + 4"
    using room unat_of_nat_eq [of "bb_n bb + 4", where 'a = 32] by simp
  ultimately have "\<not> of_nat (bb_n bb) + 4 > get_tailroom bb"
    using room by (simp add: word_le_nat_alt not_less)
  moreover obtain bb' where "append_bytes bb mac = Some bb'" "bb_ok bb'" "bb_data bb' = bb_data bb @ mac"
  proof -
    have "length mac \<le> length (bb_buffer bb) - bb_msg bb - bb_n bb" using room mac by linarith
    then show ?thesis using bb.append_ok [OF ok] that by blast
  qed
  moreover from this have "same_place bb' bb" "bb_n bb' = bb_n bb + 4"
    using mac by (auto simp: append_bytes_def same_place_def mem_write_def split: if_splits)
  ultimately show ?thesis using that mac by (simp add: append_mac_def)
qed

end
