(* ===== verification/Std_Map.thy ===== *)
theory Std_Map
  imports Main
begin

text \<open>
  \<open>std::map\<close> as the association list that its iterators traverse: sorted by key, one entry per key.
  \<open>ordered_store\<close> states what the components use of it.
\<close>

type_synonym ('k, 'v) std_map = "('k \<times> 'v) list"

text \<open>\<open>m[k] = v\<close>, \<open>m.insert({k, v})\<close> and \<open>m.erase(k)\<close>; \<open>m.find(k)\<close> is \<open>map_of m k\<close>.\<close>

fun map_put :: "'k::linorder \<Rightarrow> 'v \<Rightarrow> ('k, 'v) std_map \<Rightarrow> ('k, 'v) std_map" where
  "map_put k v [] = [(k, v)]"
| "map_put k v ((a, b) # m) =
    (if k < a then (k, v) # (a, b) # m else if k = a then (k, v) # m else (a, b) # map_put k v m)"

definition map_insert :: "'k::linorder \<Rightarrow> 'v \<Rightarrow> ('k, 'v) std_map \<Rightarrow> ('k, 'v) std_map" where
  "map_insert k v m = (case map_of m k of Some _ \<Rightarrow> m | None \<Rightarrow> map_put k v m)"

fun map_erase :: "'k \<Rightarrow> ('k, 'v) std_map \<Rightarrow> ('k, 'v) std_map" where
  "map_erase k [] = []"
| "map_erase k ((a, b) # m) = (if k = a then m else (a, b) # map_erase k m)"

definition map_ok :: "('k::linorder, 'v) std_map \<Rightarrow> bool" where
  "map_ok m \<longleftrightarrow> sorted_wrt (<) (map fst m)"

lemma map_ok_Nil [simp]: "map_ok []"
  by (simp add: map_ok_def)

lemma map_ok_Cons: "map_ok ((a, b) # m) \<longleftrightarrow> (\<forall>k \<in> fst ` set m. a < k) \<and> map_ok m"
  by (auto simp: map_ok_def)

lemma keys_map_put [simp]: "fst ` set (map_put k v m) = insert k (fst ` set m)"
  by (induction k v m rule: map_put.induct) auto

lemma map_ok_put [simp]: "map_ok m \<Longrightarrow> map_ok (map_put k v m)"
  by (induction k v m rule: map_put.induct) (fastforce simp: map_ok_Cons)+

lemma map_of_put [simp]: "map_ok m \<Longrightarrow> map_of (map_put k v m) = (map_of m)(k \<mapsto> v)"
  by (induction k v m rule: map_put.induct) (auto simp: map_ok_Cons fun_eq_iff)

lemma not_key_None: "k \<notin> fst ` set m \<Longrightarrow> map_of m k = None"
  by (simp add: map_of_eq_None_iff)

lemma keys_map_erase: "map_ok m \<Longrightarrow> fst ` set (map_erase k m) = fst ` set m - {k}"
  by (induction k m rule: map_erase.induct) (auto simp: map_ok_Cons)

lemma map_ok_erase [simp]: "map_ok m \<Longrightarrow> map_ok (map_erase k m)"
  by (induction k m rule: map_erase.induct) (auto simp: map_ok_Cons keys_map_erase)

lemma map_of_erase [simp]: "map_ok m \<Longrightarrow> map_of (map_erase k m) = (map_of m)(k := None)"
  by (induction k m rule: map_erase.induct) (auto simp: map_ok_Cons fun_eq_iff map_of_eq_None_iff)

lemma map_ok_insert [simp]: "map_ok m \<Longrightarrow> map_ok (map_insert k v m)"
  by (simp add: map_insert_def split: option.split)

lemma set_map_put: "set (map_put k v m) \<subseteq> insert (k, v) (set m)"
  by (induction k v m rule: map_put.induct) auto

lemma set_map_insert: "set (map_insert k v m) \<subseteq> insert (k, v) (set m)"
  by (auto simp: map_insert_def split: option.splits dest: set_map_put [THEN subsetD])

lemma set_map_erase: "set (map_erase k m) \<subseteq> set m"
  by (induction k m rule: map_erase.induct) auto

lemma map_ok_filter: "map_ok m \<Longrightarrow> map_ok (filter P m)"
  by (simp add: map_ok_def sorted_wrt_map sorted_wrt_filter)

section \<open>The contract\<close>

locale ordered_store =
  fixes ok :: "'m \<Rightarrow> bool"
    and lookup :: "'m \<Rightarrow> 'k::linorder \<Rightarrow> 'v option"
    and put :: "'k \<Rightarrow> 'v \<Rightarrow> 'm \<Rightarrow> 'm"
    and add :: "'k \<Rightarrow> 'v \<Rightarrow> 'm \<Rightarrow> 'm"
    and erase :: "'k \<Rightarrow> 'm \<Rightarrow> 'm"
    and empty :: "'m"
  assumes empty_ok: "ok empty" "lookup empty k = None"
    and put_ok: "ok m \<Longrightarrow> ok (put k v m)" "ok m \<Longrightarrow> lookup (put k v m) = (lookup m)(k \<mapsto> v)"
    and add_ok: "ok m \<Longrightarrow> ok (add k v m)" "ok m \<Longrightarrow> lookup m k \<noteq> None \<Longrightarrow> add k v m = m"
      "ok m \<Longrightarrow> lookup m k = None \<Longrightarrow> add k v m = put k v m"
    and erase_ok: "ok m \<Longrightarrow> ok (erase k m)" "ok m \<Longrightarrow> lookup (erase k m) = (lookup m)(k := None)"
begin

text \<open>Adding keeps what is there; a key is present after it, whatever was there before.\<close>

lemma lookup_add: "ok m \<Longrightarrow> lookup (add k v m) k' =
    (if k' = k \<and> lookup m k = None then Some v else lookup m k')"
  by (cases "lookup m k") (auto simp: add_ok put_ok)

lemma erase_add: "ok m \<Longrightarrow> lookup (erase k (add k v m)) = (lookup m)(k := None)"
  by (auto simp: fun_eq_iff erase_ok add_ok lookup_add)

lemma erase_list_ok: "ok m \<Longrightarrow> ok (fold erase ks m)"
  by (induction ks arbitrary: m) (simp_all add: erase_ok)

lemma lookup_erase_list: "ok m \<Longrightarrow> lookup (fold erase ks m) k = (if k \<in> set ks then None else lookup m k)"
  by (induction ks arbitrary: m) (auto simp: erase_ok)

end

interpretation sm: ordered_store map_ok map_of map_put map_insert map_erase "[]"
  by unfold_locales (auto simp: map_insert_def split: option.splits)

end
