(* ===== verification/Pdcp_Nr.thy ===== *)
theory Pdcp_Nr
  imports Pdcp_Base Std_Map
begin

text \<open>
  The NR PDCP entity, \<^verbatim>\<open>lib/src/pdcp/pdcp_entity_nr.cc\<close>: transmission with its COUNT, reception with the
  reordering window, the reordering and discard timers. The calls into RLC, RRC and the gateway are
  the events an operation returns; whether the RLC queue is full and whether the bearer is a UM bearer
  are answers of the RLC and hence arguments. The reordering queue is a \<open>std_map\<close> from COUNT to PDU.
\<close>

section \<open>State\<close>

datatype rlc_mode = RLC_UM | RLC_AM

text \<open>
  \<open>reordering_set\<close>: the timer has a duration and its callback; \<open>reordering_running\<close>: it is counting.
\<close>

record pdcp_entity_nr = pdcp_entity_base +
  tx_next :: u32
  rx_next :: u32
  rx_deliv :: u32
  rx_reord :: u32
  window_size :: u32
  reorder_queue :: "(u32, byte_buffer) std_map"
  reordering_set :: bool
  reordering_running :: bool
  discard_timers_map :: "(u32, nat) std_map"
  tx_overflow :: bool
  rx_overflow :: bool
  nr_rlc_mode :: rlc_mode

datatype pdcp_event =
    Rlc_write_sdu u32 byte_buffer
  | Rlc_discard_sdu u32 u32
  | Rrc_write_pdu u32 byte_buffer
  | Gw_write_pdu u32 byte_buffer
  | Rrc_notify_integrity_error u32

definition default_cfg :: pdcp_config where
  "default_cfg = pdcp_config_new 1 PDCP_RB_IS_DRB SECURITY_DIRECTION_DOWNLINK SECURITY_DIRECTION_UPLINK 12
     (Ms 500) Infinity False RAT_LTE"

definition no_security :: as_security_config where
  "no_security = \<lparr>k_rrc_int = replicate 32 0, k_rrc_enc = replicate 32 0, k_up_int = replicate 32 0,
     k_up_enc = replicate 32 0, integ_algo = EIA0, cipher_algo = EEA0\<rparr>"

definition nr_new :: "u32 \<Rightarrow> pdcp_entity_nr" where
  "nr_new lcid =
    \<lparr>pb_active = False, pb_lcid = lcid, integrity_direction = DIRECTION_NONE, encryption_direction = DIRECTION_NONE,
     enable_security_tx_sn = -1, enable_security_rx_sn = -1, cfg = default_cfg, sec_cfg = no_security,
     tx_next = 0, rx_next = 0, rx_deliv = 0, rx_reord = 0, window_size = 0, reorder_queue = [],
     reordering_set = False, reordering_running = False, discard_timers_map = [], tx_overflow = False,
     rx_overflow = False, nr_rlc_mode = RLC_UM\<rparr>"

section \<open>Configuration\<close>

text \<open>The result and the new state; \<open>rb_is_um\<close> is the answer of \<open>rlc->rb_is_um(lcid)\<close>.\<close>

definition nr_configure :: "bool \<Rightarrow> pdcp_config \<Rightarrow> pdcp_entity_nr \<Rightarrow> bool \<times> pdcp_entity_nr" where
  "nr_configure rb_is_um c st =
    (if pb_active st then (c = cfg st, st)
     else
       let mode = (if rb_is_um then RLC_UM else RLC_AM);
           st = st\<lparr>cfg := c, window_size := push_bit (sn_len c - 1) 1, nr_rlc_mode := mode\<rparr>;
           st = (case t_reordering c of
                   Infinity \<Rightarrow> st
                 | Ms t \<Rightarrow> st\<lparr>reordering_set := (0 < t), reordering_running := False\<rparr>);
           st = st\<lparr>pb_active := True\<rparr>
       in (True, if mode = RLC_UM then st\<lparr>cfg := c\<lparr>discard_timer := Infinity\<rparr>\<rparr> else st))"

definition nr_reset :: "pdcp_entity_nr \<Rightarrow> pdcp_entity_nr" where
  "nr_reset st = st\<lparr>pb_active := False\<rparr>"

section \<open>Transmission\<close>

definition protects :: "pdcp_entity_nr \<Rightarrow> bool" where
  "protects st \<longleftrightarrow> is_srb st \<or>
    (is_drb st \<and> (integrity_direction st = DIRECTION_TX \<or> integrity_direction st = DIRECTION_TXRX))"

definition start_discard_timer :: "pdcp_entity_nr \<Rightarrow> pdcp_entity_nr" where
  "start_discard_timer st =
    (case discard_timer (cfg st) of
       Infinity \<Rightarrow> st
     | Ms t \<Rightarrow> st\<lparr>discard_timers_map := map_insert (tx_next st) t (discard_timers_map st)\<rparr>)"

definition tx_cipher :: "security_suite \<Rightarrow> pdcp_entity_nr \<Rightarrow> byte_buffer \<Rightarrow> byte_buffer option" where
  "tx_cipher S st sdu =
    (if encryption_direction st = DIRECTION_TX \<or> encryption_direction st = DIRECTION_TXRX
     then cipher_encrypt S st sdu (hdr_len_bytes (cfg st)) (tx_next st) else Some sdu)"

definition tx_build :: "security_suite \<Rightarrow> pdcp_entity_nr \<Rightarrow> byte_buffer \<Rightarrow> byte_buffer option" where
  "tx_build S st sdu =
    Option.bind (write_data_header (cfg st) sdu (tx_next st)) (\<lambda>sdu.
    Option.bind
      (if protects st then append_mac sdu (integrity_generate S st (bb_data sdu) (tx_next st) [0, 0, 0, 0])
       else Some sdu) (\<lambda>sdu.
    map_option (\<lambda>sdu. sdu\<lparr>bb_pdcp_sn := tx_next st\<rparr>) (tx_cipher S st sdu)))"

definition nr_write_sdu ::
  "security_suite \<Rightarrow> bool \<Rightarrow> pdcp_entity_nr \<Rightarrow> byte_buffer \<Rightarrow> (pdcp_entity_nr \<times> pdcp_event list) option" where
  "nr_write_sdu S sdu_queue_is_full st sdu =
    (if sdu_queue_is_full then Some (st, [])
     else if tx_overflow st then Some (st, [])
     else
       let st = (if tx_next st + 1 = 0 then st\<lparr>tx_overflow := True\<rparr> else st);
           st = start_discard_timer st
       in map_option (\<lambda>pdu. (st\<lparr>tx_next := tx_next st + 1\<rparr>, [Rlc_write_sdu (pb_lcid st) pdu])) (tx_build S st sdu))"

section \<open>Reception\<close>

definition pass_to_upper_layers :: "pdcp_entity_nr \<Rightarrow> byte_buffer \<Rightarrow> pdcp_event" where
  "pass_to_upper_layers st sdu = (if is_srb st then Rrc_write_pdu (pb_lcid st) sdu else Gw_write_pdu (pb_lcid st) sdu)"

text \<open>
  The COUNT of a received sequence number; the first comparison is done on signed 64 bit numbers, the
  second on unsigned 32 bit numbers.
\<close>

definition estimate_hfn :: "pdcp_entity_nr \<Rightarrow> u32 \<Rightarrow> u32" where
  "estimate_hfn st rcvd_sn =
    (if uint rcvd_sn < uint (SN (cfg st) (rx_deliv st)) - uint (window_size st) then HFN (cfg st) (rx_deliv st) + 1
     else if SN (cfg st) (rx_deliv st) + window_size st \<le> rcvd_sn then HFN (cfg st) (rx_deliv st) - 1
     else HFN (cfg st) (rx_deliv st))"

definition rcvd_count :: "pdcp_entity_nr \<Rightarrow> u32 \<Rightarrow> u32" where
  "rcvd_count st rcvd_sn = COUNT (cfg st) (estimate_hfn st rcvd_sn) rcvd_sn"

text \<open>
  Delivery walks the queue in key order. The queue of the state is the iterator's remainder; the pairs
  that were handed to the upper layers are returned beside it.
\<close>

fun deliver_loop :: "(u32, byte_buffer) std_map \<Rightarrow> u32 \<Rightarrow> bool \<Rightarrow>
    (u32, byte_buffer) std_map \<times> u32 \<times> bool \<times> (u32, byte_buffer) std_map" where
  "deliver_loop [] deliv ovf = ([], deliv, ovf, [])"
| "deliver_loop ((k, b) # q) deliv ovf =
    (if k \<noteq> deliv then ((k, b) # q, deliv, ovf, [])
     else if ovf then ((k, b) # q, deliv, ovf, [])
     else
       (let (q', deliv', ovf', out) = deliver_loop q (deliv + 1) (ovf \<or> deliv + 1 = 0)
        in (q', deliv', ovf', (k, b) # out)))"

definition deliver_all_consecutive_counts :: "pdcp_entity_nr \<Rightarrow> pdcp_entity_nr \<times> (u32, byte_buffer) std_map" where
  "deliver_all_consecutive_counts st =
    (let (q, deliv, ovf, out) = deliver_loop (reorder_queue st) (rx_deliv st) (rx_overflow st)
     in (st\<lparr>reorder_queue := q, rx_deliv := deliv, rx_overflow := ovf\<rparr>, out))"

text \<open>The stop and start of t-Reordering at the end of a reception.\<close>

definition handle_reordering_timer :: "pdcp_entity_nr \<Rightarrow> pdcp_entity_nr" where
  "handle_reordering_timer st =
    (let st = (if reordering_running st \<and> rx_reord st \<le> rx_deliv st then st\<lparr>reordering_running := False\<rparr> else st)
     in if t_reordering (cfg st) \<noteq> Infinity \<and> \<not> reordering_running st \<and> rx_deliv st < rx_next st
        then st\<lparr>rx_reord := rx_next st, reordering_running := True\<rparr> else st)"

text \<open>From the check of the COUNT to the end of \<open>write_pdu\<close>.\<close>

definition rx_store :: "pdcp_entity_nr \<Rightarrow> u32 \<Rightarrow> byte_buffer \<Rightarrow> pdcp_entity_nr \<times> (u32, byte_buffer) std_map" where
  "rx_store st count pdu =
    (if count < rx_deliv st then (st, [])
     else if map_of (reorder_queue st) count \<noteq> None then (st, [])
     else
       let st = st\<lparr>reorder_queue := map_put count pdu (reorder_queue st)\<rparr>;
           st = (if rx_next st \<le> count then st\<lparr>rx_next := count + 1\<rparr> else st);
           (st, out) = (if count = rx_deliv st then deliver_all_consecutive_counts st else (st, []))
       in (handle_reordering_timer st, out))"

text \<open>Up to there: deciphering, extraction of the code and the check of it, removal of the header.\<close>

datatype rx_outcome = Rx_integrity_failed | Rx_pdu u32 byte_buffer

definition rx_decipher :: "security_suite \<Rightarrow> pdcp_entity_nr \<Rightarrow> u32 \<Rightarrow> byte_buffer \<Rightarrow> byte_buffer option" where
  "rx_decipher S st count pdu =
    (if encryption_direction st = DIRECTION_RX \<or> encryption_direction st = DIRECTION_TXRX
     then cipher_decrypt S st pdu (hdr_len_bytes (cfg st)) count else Some pdu)"

definition rx_open :: "security_suite \<Rightarrow> pdcp_entity_nr \<Rightarrow> byte_buffer \<Rightarrow> rx_outcome option" where
  "rx_open S st pdu =
    (let count = rcvd_count st (read_data_header (cfg st) pdu) in
     map_option (\<lambda>pdu.
       (let (pdu, mac) = (if protects st then extract_mac pdu [0, 0, 0, 0] else (pdu, [0, 0, 0, 0])) in
        if (integrity_direction st = DIRECTION_TX \<or> integrity_direction st = DIRECTION_TXRX) \<and>
           \<not> integrity_verify S st (bb_data pdu) count mac
        then Rx_integrity_failed
        else Rx_pdu count (discard_data_header (cfg st) pdu)))
       (rx_decipher S st count pdu))"

definition nr_write_pdu ::
  "security_suite \<Rightarrow> pdcp_entity_nr \<Rightarrow> byte_buffer \<Rightarrow> (pdcp_entity_nr \<times> pdcp_event list) option" where
  "nr_write_pdu S st pdu =
    (if rx_overflow st then Some (st, [])
     else if bb_n pdu \<le> hdr_len_bytes (cfg st) then Some (st, [])
     else
       map_option (\<lambda>r.
         (case r of
            Rx_integrity_failed \<Rightarrow> (st, [Rrc_notify_integrity_error (pb_lcid st)])
          | Rx_pdu count sdu \<Rightarrow>
              (let (st', out) = rx_store st count sdu
               in (st', map (\<lambda>(k, b). pass_to_upper_layers st' b) out))))
         (rx_open S st pdu))"

section \<open>Timers and notifications\<close>

text \<open>The expiry of t-Reordering; the timer has stopped before its callback runs.\<close>

definition reordering_expired :: "pdcp_entity_nr \<Rightarrow> pdcp_entity_nr \<times> (u32, byte_buffer) std_map" where
  "reordering_expired st =
    (let st = st\<lparr>reordering_running := False\<rparr>;
         out1 = takeWhile (\<lambda>(k, b). k < rx_reord st) (reorder_queue st);
         st = st\<lparr>reorder_queue := dropWhile (\<lambda>(k, b). k < rx_reord st) (reorder_queue st)\<rparr>;
         st = st\<lparr>rx_deliv := rx_reord st\<rparr>;
         (st, out2) = deliver_all_consecutive_counts st;
         st = (if rx_deliv st < rx_next st then st\<lparr>rx_reord := rx_next st, reordering_running := True\<rparr> else st)
     in (st, out1 @ out2))"

definition nr_reordering_callback :: "pdcp_entity_nr \<Rightarrow> pdcp_entity_nr \<times> pdcp_event list" where
  "nr_reordering_callback st =
    (let (st', out) = reordering_expired st in (st', map (\<lambda>(k, b). pass_to_upper_layers st' b) out))"

definition nr_discard_callback :: "u32 \<Rightarrow> pdcp_entity_nr \<Rightarrow> pdcp_entity_nr \<times> pdcp_event list" where
  "nr_discard_callback sn st =
    (st\<lparr>discard_timers_map := map_erase sn (discard_timers_map st)\<rparr>, [Rlc_discard_sdu (pb_lcid st) sn])"

definition nr_notify_delivery :: "u32 list \<Rightarrow> pdcp_entity_nr \<Rightarrow> pdcp_entity_nr" where
  "nr_notify_delivery sns st = st\<lparr>discard_timers_map := fold map_erase sns (discard_timers_map st)\<rparr>"

definition nr_notify_failure :: "u32 list \<Rightarrow> pdcp_entity_nr \<Rightarrow> pdcp_entity_nr" where
  "nr_notify_failure sns st = st"

end
