(* ===== verification/Pdcp_Nr_Rx.thy ===== *)
theory Pdcp_Nr_Rx
  imports Pdcp_Nr
begin

text \<open>
  Reception of the NR PDCP entity: the invariant of its reordering state, the order of delivery over
  every run of receptions and timer expiries, and the progress that the timer guarantees.
\<close>

section \<open>Successors of COUNT values\<close>

lemma count_succ: "(x :: u32) \<noteq> - 1 \<Longrightarrow> x < x + 1"
proof -
  assume "x \<noteq> - 1"
  then have "1 + x \<noteq> 0" by (simp add: eq_neg_iff_add_eq_0 add.commute)
  from unatSuc [OF this] show ?thesis by (simp add: word_less_nat_alt add.commute)
qed

lemma count_succ_le: "(x :: u32) < y \<Longrightarrow> x + 1 \<le> y"
  by (simp add: inc_le)

lemma count_less_succ: "(x :: u32) \<noteq> - 1 \<Longrightarrow> y < x + 1 \<longleftrightarrow> y \<le> x"
  using count_succ [of x] count_succ_le [of x y] by fastforce

lemma count_less_not_max: "(x :: u32) < y \<Longrightarrow> x \<noteq> - 1"
  by auto

section \<open>The delivery loop\<close>

abbreviation keys :: "('k, 'v) std_map \<Rightarrow> 'k set" where
  "keys m \<equiv> fst ` set m"

lemma deliver_loop_spec:
  assumes "deliver_loop q deliv False = (q', deliv', ovf', out)"
    and "map_ok q" "\<forall>k \<in> keys q. deliv \<le> k \<and> k \<noteq> - 1"
  shows "q = out @ q'" "\<not> ovf'" "deliv \<le> deliv'" "\<forall>k \<in> keys out. deliv \<le> k \<and> k < deliv'"
    "\<forall>k \<in> keys q'. deliv' < k" "deliv' = deliv \<or> deliv' - 1 \<in> keys out"
proof (atomize (full), use assms in \<open>induction q arbitrary: deliv out\<close>)
  case (Cons p q)
  obtain k b where p: "p = (k, b)" by (cases p)
  show ?case
  proof (cases "k = deliv")
    case False
    with Cons.prems show ?thesis
      by (force simp: p map_ok_Cons)
  next
    case True
    have k: "k < k + 1" using Cons.prems(3) by (auto simp: p intro: count_succ)
    then have nz: "k + 1 \<noteq> 0" by auto
    obtain out1 where loop: "deliver_loop q (k + 1) False = (q', deliv', ovf', out1)" and out: "out = (k, b) # out1"
      using Cons.prems(1) True nz by (auto simp: p split: prod.splits)
    have "\<forall>k' \<in> keys q. k + 1 \<le> k' \<and> k' \<noteq> - 1"
      using Cons.prems(2,3) by (auto simp: p map_ok_Cons intro: count_succ_le)
    moreover have "map_ok q" using Cons.prems(2) by (simp add: p map_ok_Cons)
    ultimately show ?thesis
      using Cons.IH [OF loop] k True
      by (auto simp: p out intro: less_imp_le order_trans dest: less_le_trans)
  qed
qed auto

text \<open>No delivery passes a bound that is above every key of the queue.\<close>

lemma deliver_loop_bound:
  assumes "deliver_loop q deliv False = (q', deliv', ovf', out)" "map_ok q" "\<forall>k \<in> keys q. deliv \<le> k \<and> k < r" "deliv \<le> r"
  shows "deliv' \<le> r"
proof -
  have "\<forall>k \<in> keys q. deliv \<le> k \<and> k \<noteq> - 1" using assms(3) count_less_not_max by blast
  note spec = deliver_loop_spec [OF assms(1,2) this]
  show ?thesis
  proof (cases "deliv' = deliv")
    case False
    then have "deliv' - 1 < r" using spec(1,6) assms(3) by force
    then show ?thesis using count_succ_le by force
  qed (use assms(4) in simp)
qed

text \<open>The entries that remain are those above the new \<open>RX_DELIV\<close>, and they are a sorted map again.\<close>

lemma deliver_loop_rest:
  assumes "deliver_loop q deliv False = (q', deliv', ovf', out)" "map_ok q" "\<forall>k \<in> keys q. deliv \<le> k \<and> k \<noteq> - 1"
  shows "map_ok q'" "map_ok out" "keys q = keys out \<union> keys q'"
  using deliver_loop_spec(1) [OF assms] assms(2) by (auto simp: map_ok_def sorted_wrt_append)

section \<open>The invariant of the reordering state\<close>

definition rx_inv :: "pdcp_entity_nr \<Rightarrow> bool" where
  "rx_inv st \<longleftrightarrow>
    map_ok (reorder_queue st) \<and> \<not> rx_overflow st \<and> rx_deliv st \<le> rx_next st \<and>
    (\<forall>k \<in> keys (reorder_queue st). rx_deliv st < k \<and> k < rx_next st) \<and>
    (rx_deliv st < rx_next st \<longrightarrow> rx_next st - 1 \<in> keys (reorder_queue st)) \<and>
    (reordering_running st \<longrightarrow> rx_deliv st < rx_reord st \<and> rx_reord st \<le> rx_next st \<and>
      rx_reord st - 1 \<in> keys (reorder_queue st)) \<and>
    (rx_deliv st < rx_next st \<and> t_reordering (cfg st) \<noteq> Infinity \<longrightarrow> reordering_running st)"

text \<open>The part that holds while the timer is being handled.\<close>

definition rx_inv0 :: "pdcp_entity_nr \<Rightarrow> bool" where
  "rx_inv0 st \<longleftrightarrow>
    map_ok (reorder_queue st) \<and> \<not> rx_overflow st \<and> rx_deliv st \<le> rx_next st \<and>
    (\<forall>k \<in> keys (reorder_queue st). rx_deliv st < k \<and> k < rx_next st) \<and>
    (rx_deliv st < rx_next st \<longrightarrow> rx_next st - 1 \<in> keys (reorder_queue st)) \<and>
    (reordering_running st \<and> rx_deliv st < rx_reord st \<longrightarrow> rx_reord st \<le> rx_next st \<and>
      rx_reord st - 1 \<in> keys (reorder_queue st))"

lemma handle_reordering_timer_inv: "rx_inv0 st \<Longrightarrow> rx_inv (handle_reordering_timer st)"
  by (auto simp: handle_reordering_timer_def rx_inv_def rx_inv0_def Let_def)

lemma handle_reordering_timer_simps [simp]:
  "rx_deliv (handle_reordering_timer st) = rx_deliv st" "rx_next (handle_reordering_timer st) = rx_next st"
  "reorder_queue (handle_reordering_timer st) = reorder_queue st" "cfg (handle_reordering_timer st) = cfg st"
  by (simp_all add: handle_reordering_timer_def Let_def)

text \<open>Delivery from a state whose queue starts at \<open>RX_DELIV\<close> or above it.\<close>

lemma deliver_all_inv:
  assumes "deliver_all_consecutive_counts st = (st', out)" "map_ok (reorder_queue st)" "\<not> rx_overflow st"
    "rx_deliv st \<le> rx_next st" "\<forall>k \<in> keys (reorder_queue st). rx_deliv st \<le> k \<and> k < rx_next st"
    "rx_deliv st < rx_next st \<longrightarrow> rx_next st - 1 \<in> keys (reorder_queue st)"
    "reordering_running st \<and> rx_deliv st < rx_reord st \<longrightarrow> rx_reord st \<le> rx_next st \<and>
      rx_reord st - 1 \<in> keys (reorder_queue st)"
  shows "rx_inv0 st'" "rx_deliv st \<le> rx_deliv st'" "\<forall>k \<in> keys out. rx_deliv st \<le> k \<and> k < rx_deliv st'"
    "map_ok out" "reorder_queue st = out @ reorder_queue st'"
    "st' = st\<lparr>reorder_queue := reorder_queue st', rx_deliv := rx_deliv st', rx_overflow := rx_overflow st'\<rparr>"
proof -
  obtain q' deliv' ovf' where loop: "deliver_loop (reorder_queue st) (rx_deliv st) False = (q', deliv', ovf', out)"
    and st': "st' = st\<lparr>reorder_queue := q', rx_deliv := deliv', rx_overflow := ovf'\<rparr>"
    using assms(1,3) by (auto simp: deliver_all_consecutive_counts_def Let_def split: prod.splits)
  have ks: "\<forall>k \<in> keys (reorder_queue st). rx_deliv st \<le> k \<and> k \<noteq> - 1"
    using assms(5) count_less_not_max by blast
  note spec = deliver_loop_spec [OF loop assms(2) ks]
  note rest = deliver_loop_rest [OF loop assms(2) ks]
  have le: "deliv' \<le> rx_next st" using deliver_loop_bound [OF loop assms(2,5,4)] .
  have kept: "r - 1 \<in> keys q'" if "deliv' < r" "r - 1 \<in> keys (reorder_queue st)" for r
  proof (rule ccontr)
    assume "r - 1 \<notin> keys q'"
    then have "r - 1 < deliv'" using rest(3) spec(4) that(2) by blast
    then have "r \<le> deliv'" using count_succ_le by force
    with that(1) show False by simp
  qed
  have q: "\<forall>k \<in> keys q'. deliv' < k \<and> k < rx_next st" using spec(5) rest(3) assms(5) by blast
  have a: "deliv' < rx_next st \<longrightarrow> rx_next st - 1 \<in> keys q'"
    using kept assms(6) spec(3) by (meson le_less_trans)
  have b: "reordering_running st \<and> deliv' < rx_reord st \<longrightarrow> rx_reord st \<le> rx_next st \<and> rx_reord st - 1 \<in> keys q'"
    using kept assms(7) spec(3) by (meson le_less_trans)
  show "rx_inv0 st'" unfolding rx_inv0_def st' using rest(1) spec(2) le q a b by simp
  show "rx_deliv st \<le> rx_deliv st'" "\<forall>k \<in> keys out. rx_deliv st \<le> k \<and> k < rx_deliv st'" "map_ok out"
    "reorder_queue st = out @ reorder_queue st'"
    "st' = st\<lparr>reorder_queue := reorder_queue st', rx_deliv := rx_deliv st', rx_overflow := rx_overflow st'\<rparr>"
    using spec(1,3,4) rest(2) st' by simp_all
qed

section \<open>Receptions and expiries\<close>

lemma rx_store_step:
  assumes inv: "rx_inv st" and max: "count \<noteq> - 1" and run: "rx_store st count pdu = (st', out)"
  shows "rx_inv st'" "rx_deliv st \<le> rx_deliv st'" "\<forall>k \<in> keys out. rx_deliv st \<le> k \<and> k < rx_deliv st'"
    "map_ok out" "cfg st' = cfg st"
proof -
  consider (drop) "count < rx_deliv st \<or> map_of (reorder_queue st) count \<noteq> None"
    | (store) "rx_deliv st \<le> count" "map_of (reorder_queue st) count = None" by fastforce
  then have "rx_inv st' \<and> rx_deliv st \<le> rx_deliv st' \<and> (\<forall>k \<in> keys out. rx_deliv st \<le> k \<and> k < rx_deliv st') \<and>
      map_ok out \<and> cfg st' = cfg st"
  proof cases
    case drop
    then show ?thesis using run inv by (auto simp: rx_store_def split: if_splits)
  next
    case store
    define st1 where "st1 = st\<lparr>reorder_queue := map_put count pdu (reorder_queue st),
      rx_next := (if rx_next st \<le> count then count + 1 else rx_next st)\<rparr>"
    have succ: "count < count + 1" using max by (rule count_succ)
    have ok: "map_ok (reorder_queue st1)" "\<not> rx_overflow st1" "rx_deliv st1 \<le> rx_next st1"
      "\<forall>k \<in> keys (reorder_queue st1). rx_deliv st1 \<le> k \<and> k < rx_next st1"
      "rx_deliv st1 < rx_next st1 \<longrightarrow> rx_next st1 - 1 \<in> keys (reorder_queue st1)"
      "reordering_running st1 \<longrightarrow> rx_deliv st1 < rx_reord st1 \<and> rx_reord st1 \<le> rx_next st1 \<and>
        rx_reord st1 - 1 \<in> keys (reorder_queue st1)"
      using inv store succ by (auto simp: rx_inv_def st1_def)
    show ?thesis
    proof (cases "count = rx_deliv st")
      case True
      obtain st2 where d: "deliver_all_consecutive_counts st1 = (st2, out)" and st': "st' = handle_reordering_timer st2"
        using run store True succ by (auto simp: rx_store_def st1_def Let_def split: prod.splits if_splits)
      have "reordering_running st1 \<and> rx_deliv st1 < rx_reord st1 \<longrightarrow> rx_reord st1 \<le> rx_next st1 \<and>
        rx_reord st1 - 1 \<in> keys (reorder_queue st1)" using ok(6) by blast
      note D = deliver_all_inv [OF d ok(1-5) this]
      have c: "cfg st2 = cfg st" by (subst D(6)) (simp add: st1_def)
      have st1: "rx_deliv st1 = rx_deliv st" by (simp add: st1_def)
      from D(1-4) [unfolded st1] c show ?thesis unfolding st' handle_reordering_timer_simps
        by (blast intro: handle_reordering_timer_inv)
    next
      case False
      have "rx_deliv st1 \<notin> keys (reorder_queue st1)" using False inv by (auto simp: st1_def rx_inv_def)
      then have "\<forall>k \<in> keys (reorder_queue st1). rx_deliv st1 < k \<and> k < rx_next st1"
        using ok(4) by (metis order_le_less)
      then have "rx_inv0 st1" using ok unfolding rx_inv0_def
        by blast
      moreover have "st' = handle_reordering_timer st1" "out = []"
        using run store False by (auto simp: rx_store_def st1_def Let_def split: if_splits)
      ultimately show ?thesis by (simp add: handle_reordering_timer_inv st1_def)
    qed
  qed
  then show "rx_inv st'" "rx_deliv st \<le> rx_deliv st'" "\<forall>k \<in> keys out. rx_deliv st \<le> k \<and> k < rx_deliv st'"
    "map_ok out" "cfg st' = cfg st" by simp_all
qed

text \<open>A sorted map split at a bound.\<close>

lemma takeWhile_below: "map_ok q \<Longrightarrow> keys (takeWhile (\<lambda>(k, b). k < r) q) = {k \<in> keys q. k < r}"
proof (induction q)
  case (Cons p q)
  obtain k b where p: "p = (k, b)" by (cases p)
  show ?case
  proof (cases "k < r")
    case True
    then show ?thesis using Cons by (auto simp: p map_ok_Cons)
  next
    case False
    then show ?thesis using Cons.prems by (auto simp: p map_ok_Cons)
  qed
qed simp

lemma dropWhile_below: "map_ok q \<Longrightarrow> keys (dropWhile (\<lambda>(k, b). k < r) q) = {k \<in> keys q. r \<le> k}"
  by (induction q) (force simp: map_ok_Cons)+

lemma map_ok_split: "map_ok q \<Longrightarrow> map_ok (takeWhile P q) \<and> map_ok (dropWhile P q)"
  by (metis map_append map_ok_def sorted_wrt_append takeWhile_dropWhile_id)

lemma map_ok_append: "map_ok xs \<Longrightarrow> map_ok ys \<Longrightarrow> (\<And>k l. k \<in> keys xs \<Longrightarrow> l \<in> keys ys \<Longrightarrow> k < l) \<Longrightarrow> map_ok (xs @ ys)"
  by (auto simp: map_ok_def sorted_wrt_append)

lemma reordering_expired_step:
  assumes inv: "rx_inv st" and running: "reordering_running st" and run: "reordering_expired st = (st', out)"
  shows "rx_inv st'" "rx_deliv st \<le> rx_deliv st'" "\<forall>k \<in> keys out. rx_deliv st \<le> k \<and> k < rx_deliv st'"
    "map_ok out" "cfg st' = cfg st" "rx_reord st \<le> rx_deliv st'" "out \<noteq> []" "rx_next st' = rx_next st"
    "rx_deliv st' < rx_next st' \<longrightarrow> rx_reord st' = rx_next st'"
proof -
  let ?r = "rx_reord st"
  define st1 where "st1 = st\<lparr>reordering_running := False,
    reorder_queue := dropWhile (\<lambda>(k, b). k < ?r) (reorder_queue st), rx_deliv := ?r\<rparr>"
  let ?out1 = "takeWhile (\<lambda>(k, b). k < ?r) (reorder_queue st)"
  have q: "map_ok (reorder_queue st)" and r: "rx_deliv st < ?r" "?r \<le> rx_next st" "?r - 1 \<in> keys (reorder_queue st)"
    using inv running by (simp_all add: rx_inv_def)
  have "?r - 1 < ?r" using count_succ [of "?r - 1"] r(1) by (simp add: word_gt_0) fastforce
  then have out1: "?r - 1 \<in> keys ?out1" using r(3) takeWhile_below [OF q, of ?r] by auto
  have kr: "k < ?r" if "k < rx_next st" "k \<noteq> rx_next st - 1" "?r = rx_next st" for k using that by simp
  have ok: "map_ok (reorder_queue st1)" "\<not> rx_overflow st1" "rx_deliv st1 \<le> rx_next st1"
    "\<forall>k \<in> keys (reorder_queue st1). rx_deliv st1 \<le> k \<and> k < rx_next st1"
    using inv q r map_ok_split [OF q] dropWhile_below [OF q] by (auto simp: rx_inv_def st1_def)
  have ok5: "rx_deliv st1 < rx_next st1 \<longrightarrow> rx_next st1 - 1 \<in> keys (reorder_queue st1)"
  proof
    assume lt: "rx_deliv st1 < rx_next st1"
    then have "?r \<le> rx_next st - 1"
      using count_less_succ [of "rx_next st - 1" "?r"] by (simp add: st1_def) fastforce
    moreover have "rx_next st - 1 \<in> keys (reorder_queue st)" using inv lt r by (simp add: rx_inv_def st1_def)
    ultimately show "rx_next st1 - 1 \<in> keys (reorder_queue st1)"
      using dropWhile_below [OF q, of ?r] by (simp add: st1_def)
  qed
  obtain st2 out2 where d: "deliver_all_consecutive_counts st1 = (st2, out2)" and out: "out = ?out1 @ out2"
    and st': "st' = (if rx_deliv st2 < rx_next st2 then st2\<lparr>rx_reord := rx_next st2, reordering_running := True\<rparr> else st2)"
    using run by (auto simp: reordering_expired_def st1_def Let_def split: prod.splits)
  have "reordering_running st1 \<and> rx_deliv st1 < rx_reord st1 \<longrightarrow> rx_reord st1 \<le> rx_next st1 \<and>
      rx_reord st1 - 1 \<in> keys (reorder_queue st1)" by (simp add: st1_def)
  note D = deliver_all_inv [OF d ok ok5 this]
  have st2: "\<not> reordering_running st2" "cfg st2 = cfg st" "rx_next st2 = rx_next st"
    by (subst D(6), simp add: st1_def)+
  show "rx_inv st'" using D(1) st2 unfolding st' rx_inv_def rx_inv0_def by auto
  have le: "?r \<le> rx_deliv st2" using D(2) by (simp add: st1_def)
  then show "rx_deliv st \<le> rx_deliv st'" "rx_reord st \<le> rx_deliv st'" using r(1) by (auto simp: st')
  have k1: "\<forall>k \<in> keys ?out1. rx_deliv st < k \<and> k < ?r" using takeWhile_below [OF q] inv by (auto simp: rx_inv_def)
  have k2: "\<forall>k \<in> keys out2. ?r \<le> k \<and> k < rx_deliv st2" using D(3) by (simp add: st1_def)
  show "\<forall>k \<in> keys out. rx_deliv st \<le> k \<and> k < rx_deliv st'"
    using k1 k2 le r(1) unfolding out by (auto simp: st' intro: less_imp_le less_le_trans le_less_trans)
  show "map_ok out" unfolding out using map_ok_split [OF q] D(4) k1 k2 by (intro map_ok_append) (auto intro: less_le_trans)
  show "cfg st' = cfg st" "rx_next st' = rx_next st" "rx_deliv st' < rx_next st' \<longrightarrow> rx_reord st' = rx_next st'"
    using st2 by (simp_all add: st')
  show "out \<noteq> []" using out1 unfolding out by auto
qed

section \<open>Runs\<close>

text \<open>
  A step receives an SDU with its COUNT or lets t-Reordering, when it has been set, expire; its labels are what came in and
  what was handed up. The last COUNT value is excluded: after it \<open>RX_NEXT\<close> would wrap around.
\<close>

inductive rx_step :: "pdcp_entity_nr \<Rightarrow> (u32 \<times> byte_buffer) list \<Rightarrow> (u32 \<times> byte_buffer) list \<Rightarrow> pdcp_entity_nr \<Rightarrow> bool" where
  receive: "count \<noteq> - 1 \<Longrightarrow> rx_store st count sdu = (st', out) \<Longrightarrow> rx_step st [(count, sdu)] out st'"
| expire: "reordering_set st \<Longrightarrow> reordering_running st \<Longrightarrow> reordering_expired st = (st', out) \<Longrightarrow> rx_step st [] out st'"

inductive rx_run :: "pdcp_entity_nr \<Rightarrow> (u32 \<times> byte_buffer) list \<Rightarrow> (u32 \<times> byte_buffer) list \<Rightarrow> pdcp_entity_nr \<Rightarrow> bool" where
  start: "rx_run st [] [] st"
| step: "rx_run st ins out st' \<Longrightarrow> rx_step st' ins' out' st'' \<Longrightarrow> rx_run st (ins @ ins') (out @ out') st''"

inductive_cases rx_stepE: "rx_step st ins out st'"

lemma rx_step_inv:
  assumes "rx_step st ins out st'" "rx_inv st"
  shows "rx_inv st'" "rx_deliv st \<le> rx_deliv st'" "\<forall>k \<in> keys out. rx_deliv st \<le> k \<and> k < rx_deliv st'" "map_ok out"
    "cfg st' = cfg st"
proof -
  have "rx_inv st' \<and> rx_deliv st \<le> rx_deliv st' \<and> (\<forall>k \<in> keys out. rx_deliv st \<le> k \<and> k < rx_deliv st') \<and>
      map_ok out \<and> cfg st' = cfg st"
    using assms(1)
  proof cases
    case (receive count sdu)
    show ?thesis by (intro conjI rx_store_step [OF assms(2) receive(2,3)])
  next
    case expire
    show ?thesis by (intro conjI reordering_expired_step [OF assms(2) expire(3,4)])
  qed
  then show "rx_inv st'" "rx_deliv st \<le> rx_deliv st'" "\<forall>k \<in> keys out. rx_deliv st \<le> k \<and> k < rx_deliv st'"
    "map_ok out" "cfg st' = cfg st" by simp_all
qed

text \<open>Nothing is handed up or queued that did not come in.\<close>

lemma deliver_loop_set: "deliver_loop q d ovf = (q', d', ovf', out) \<Longrightarrow> q = out @ q'"
  by (induction q d ovf arbitrary: q' d' ovf' out rule: deliver_loop.induct) (auto split: if_splits prod.splits)

lemma deliver_all_set: "deliver_all_consecutive_counts st = (st', out) \<Longrightarrow> reorder_queue st = out @ reorder_queue st'"
  by (auto simp: deliver_all_consecutive_counts_def Let_def dest: deliver_loop_set split: prod.splits)

lemma rx_step_set:
  assumes "rx_step st ins out st'"
  shows "set out \<union> set (reorder_queue st') \<subseteq> set (reorder_queue st) \<union> set ins"
  using assms
proof cases
  case (receive count sdu)
  consider (drop) "st' = st" "out = []" | (store) st2 where
    "st' = handle_reordering_timer st2" "map_put count sdu (reorder_queue st) = out @ reorder_queue st2"
  proof -
    let ?st1 = "st\<lparr>reorder_queue := map_put count sdu (reorder_queue st)\<rparr>"
    have "\<exists>st2. st' = handle_reordering_timer st2 \<and> map_put count sdu (reorder_queue st) = out @ reorder_queue st2"
      if "\<not> (st' = st \<and> out = [])"
      using receive(3) that by (auto simp: rx_store_def Let_def split: if_splits prod.splits dest!: deliver_all_set)
    then show ?thesis using that by blast
  qed
  then show ?thesis
  proof cases
    case store
    then show ?thesis using set_map_put [of count sdu "reorder_queue st"] receive(1) by (force simp: Un_commute)
  qed (simp add: le_supI1)
next
  case expire
  let ?q = "reorder_queue st" and ?P = "\<lambda>(k, b). k < rx_reord st"
  obtain out2 where "dropWhile ?P ?q = out2 @ reorder_queue st'" "out = takeWhile ?P ?q @ out2"
    using expire(4) by (auto simp: reordering_expired_def Let_def split: if_splits prod.splits dest!: deliver_all_set)
  then have "?q = out @ reorder_queue st'" by (metis append.assoc takeWhile_dropWhile_id)
  then show ?thesis by (simp add: le_supI1)
qed

lemma configured_inv: "rx_inv (snd (nr_configure um c (nr_new lcid)))"
  by (auto simp: nr_configure_def nr_new_def Let_def rx_inv_def split: pdcp_time.split)

lemma rx_run_inv:
  assumes "rx_run st ins out st'" "rx_inv st" "reorder_queue st = []"
  shows "rx_inv st'" "map_ok out" "\<forall>k \<in> keys out. k < rx_deliv st'" "set out \<union> set (reorder_queue st') \<subseteq> set ins"
proof (atomize (full), use assms in \<open>induction rule: rx_run.induct\<close>)
  case (step st ins out st' ins' out' st'')
  then have IH: "rx_inv st'" "map_ok out" "\<forall>k \<in> keys out. k < rx_deliv st'"
    "set out \<union> set (reorder_queue st') \<subseteq> set ins" by simp_all
  note S = rx_step_inv [OF step.hyps(2) IH(1)]
  have "map_ok (out @ out')" using IH(2,3) S(3,4) by (intro map_ok_append) (auto intro: less_le_trans)
  moreover have "\<forall>k \<in> keys (out @ out'). k < rx_deliv st''" using IH(3) S(2,3) by (auto intro: less_le_trans)
  moreover have "set (out @ out') \<union> set (reorder_queue st'') \<subseteq> set (ins @ ins')"
    using rx_step_set [OF step.hyps(2)] IH(4) by auto
  ultimately show ?case using S(1) by blast
qed simp

text \<open>The handlers of the entity are such steps.\<close>

lemma nr_write_pdu_step:
  assumes "nr_write_pdu S st pdu = Some (st', ev)" "rcvd_count st (read_data_header (cfg st) pdu) \<noteq> - 1"
  shows "st' = st \<and> (ev = [] \<or> ev = [Rrc_notify_integrity_error (pb_lcid st)]) \<or>
    (\<exists>sdu out. rx_step st [(rcvd_count st (read_data_header (cfg st) pdu), sdu)] out st' \<and>
      ev = map (pass_to_upper_layers st' \<circ> snd) out)"
proof (cases "rx_overflow st \<or> bb_n pdu \<le> hdr_len_bytes (cfg st)")
  case True
  then show ?thesis using assms(1) by (auto simp: nr_write_pdu_def split: if_splits)
next
  case False
  let ?k = "rcvd_count st (read_data_header (cfg st) pdu)"
  obtain r where r: "rx_open S st pdu = Some r" using False assms(1) by (auto simp: nr_write_pdu_def)
  show ?thesis
  proof (cases r)
    case Rx_integrity_failed
    then show ?thesis using False assms(1) r by (auto simp: nr_write_pdu_def)
  next
    case (Rx_pdu count sdu)
    obtain out where out: "rx_store st count sdu = (st', out)" "ev = map (\<lambda>(k, b). pass_to_upper_layers st' b) out"
      using False assms(1) r Rx_pdu by (auto simp: nr_write_pdu_def split: prod.splits)
    have "count = ?k"
      using r Rx_pdu by (auto simp: rx_open_def Let_def split: if_splits prod.splits)
    then have "rx_step st [(?k, sdu)] out st'" using assms(2) out(1) by (auto intro: rx_step.receive)
    moreover have "ev = map (pass_to_upper_layers st' \<circ> snd) out" unfolding out(2) by (rule map_cong) auto
    ultimately show ?thesis by blast
  qed
qed

text \<open>
  C8: over any run of receptions and t-Reordering expiries of a configured entity, SDUs are handed to
  the upper layers in strictly increasing order of COUNT, so none twice, each is an SDU that was received
  with that COUNT, and the reordering state keeps its invariant. Receptions whose estimated COUNT is
  \<open>2 ^ 32 - 1\<close> are excluded.
\<close>

theorem delivery_in_order:
  assumes "rx_run (snd (nr_configure um c (nr_new lcid))) ins out st"
  shows "sorted_wrt (<) (map fst out) \<and> set out \<subseteq> set ins \<and> rx_inv st"
proof -
  have "reorder_queue (snd (nr_configure um c (nr_new lcid))) = []"
    by (auto simp: nr_configure_def nr_new_def Let_def split: pdcp_time.split)
  note R = rx_run_inv [OF assms configured_inv this]
  show ?thesis using R by (auto simp: map_ok_def)
qed

theorem delivery_in_order_witness:
  "let st = snd (nr_configure False default_cfg (nr_new 1)); b = bb_new [];
     (st1, out1) = rx_store st 1 b; (st2, out2) = rx_store st1 0 b
   in sorted_wrt (<) (map fst (out1 @ out2)) \<and> map fst (out1 @ out2) = [0, 1] \<and> rx_inv st2"
proof -
  let ?st = "snd (nr_configure False default_cfg (nr_new 1))" and ?b = "bb_new []"
  obtain st1 out1 where 1: "rx_store ?st 1 ?b = (st1, out1)" by (cases "rx_store ?st 1 ?b")
  obtain st2 out2 where 2: "rx_store st1 0 ?b = (st2, out2)" by (cases "rx_store st1 0 ?b")
  have "rx_run ?st (([] @ [(1, ?b)]) @ [(0, ?b)]) (([] @ out1) @ out2) st2"
    by (rule rx_run.step [OF rx_run.step [OF rx_run.start rx_step.receive [OF _ 1]] rx_step.receive [OF _ 2]]) simp_all
  from delivery_in_order [OF this] have "sorted_wrt (<) (map fst (out1 @ out2)) \<and> rx_inv st2" by simp
  moreover have "map fst (out1 @ out2) = [0, 1]"
    using 1 2 by (auto simp: nr_configure_def default_cfg_def pdcp_config_new_def nr_new_def rx_store_def Let_def
        handle_reordering_timer_def deliver_all_consecutive_counts_def)
  ultimately show ?thesis by (simp add: Let_def 1 2)
qed



end
