(* ===== verification/Pdcp_Nr_Link.thy ===== *)
theory Pdcp_Nr_Link
  imports Pdcp_Nr_Rx
begin

text \<open>
  The link between a sending and a receiving NR PDCP entity: the receiver recovers the COUNT of the
  sender inside its window, opens what the sender built, and the sender uses no COUNT twice. The
  last section holds the inputs on which the code departs from this.
\<close>

section \<open>Recovering the COUNT\<close>

definition window_ok :: "pdcp_entity_nr \<Rightarrow> bool" where
  "window_ok st \<longleftrightarrow> config_ok (cfg st) \<and> window_size st = push_bit (sn_len (cfg st) - 1) 1"

lemma window_configured:
  "sn \<in> {5, 7, 12, 18} \<Longrightarrow>
    window_ok (snd (nr_configure um (pdcp_config_new b ty tx rx sn tr td sr r) (nr_new lcid)))"
  by (auto simp: window_ok_def nr_configure_def nr_new_def Let_def pdcp_config_new_def config_ok_def
      split: pdcp_time.split)

lemma uint_less_diff: "uint (a :: u32) < uint (b :: u32) - uint (w :: u32) \<longleftrightarrow> unat a + unat w < unat b"
  using uint_nat [of a] uint_nat [of b] uint_nat [of w] by linarith

lemma estimate_hfn_nat:
  assumes w: "window_ok st" and sn: "unat sn < 2 ^ sn_len (cfg st)"
  shows "estimate_hfn st sn =
    (let s = unat (SN (cfg st) (rx_deliv st)); w = 2 ^ (sn_len (cfg st) - 1); h = HFN (cfg st) (rx_deliv st) in
     if unat sn + w < s then h + 1 else if s + w \<le> unat sn then h - 1 else h)"
proof -
  have len: "sn_len (cfg st) \<le> 18" "0 < sn_len (cfg st)" using w by (auto simp: window_ok_def config_ok_def)
  let ?n = "sn_len (cfg st)" and ?s = "SN (cfg st) (rx_deliv st)"
  have "(2 :: nat) ^ (?n - 1) \<le> 2 ^ 17" using len by (intro power_increasing) auto
  then have p: "unat (window_size st) = 2 ^ (?n - 1)"
    using w unat_of_nat_eq [of "2 ^ (?n - 1)", where 'a = 32] by (simp add: window_ok_def push_bit_eq_mult)
  have "unat ?s < 2 ^ ?n" using len by (intro SN_less) simp
  moreover have "(2 :: nat) ^ ?n \<le> 2 ^ 18" using len by (intro power_increasing) auto
  ultimately have "unat (?s + window_size st) = unat ?s + 2 ^ (?n - 1)"
    using \<open>(2 :: nat) ^ (?n - 1) \<le> 2 ^ 17\<close> p by (simp add: unat_word_ariths)
  then show ?thesis
    using p unfolding estimate_hfn_def Let_def word_le_nat_alt uint_less_diff by simp
qed

text \<open>
  C23: the receiver assigns the sender's COUNT to every PDU whose COUNT lies at most half a sequence number
  space before \<open>RX_DELIV\<close> and less than half of one after it.
\<close>

theorem count_recovered:
  assumes w: "window_ok st"
    and lo: "unat (rx_deliv st) \<le> unat count + 2 ^ (sn_len (cfg st) - 1)"
    and hi: "unat count < unat (rx_deliv st) + 2 ^ (sn_len (cfg st) - 1)"
  shows "rcvd_count st (SN (cfg st) count) = count"
proof -
  let ?c = "cfg st" and ?d = "rx_deliv st"
  have len: "sn_len ?c \<le> 32" using w by (auto simp: window_ok_def config_ok_def)
  have sn: "unat (SN ?c count) < 2 ^ sn_len ?c" "unat (SN ?c ?d) < 2 ^ sn_len ?c" using SN_less [OF len] by simp_all
  have cnt: "unat count = unat (HFN ?c count) * 2 ^ sn_len ?c + unat (SN ?c count)"
    "unat ?d = unat (HFN ?c ?d) * 2 ^ sn_len ?c + unat (SN ?c ?d)" using unat_count [OF len] by blast+
  have m: "sn_len ?c \<in> {5, 7, 12, 18}" using w by (auto simp: window_ok_def config_ok_def)
  have "unat (HFN ?c count) =
    (let s = unat (SN ?c ?d); w = 2 ^ (sn_len ?c - 1); h = unat (HFN ?c ?d); sn = unat (SN ?c count) in
     if sn + w < s then h + 1 else if s + w \<le> sn then h - 1 else h) \<and>
    (unat (SN ?c ?d) + 2 ^ (sn_len ?c - 1) \<le> unat (SN ?c count) \<longrightarrow> 0 < unat (HFN ?c ?d))"
    using m sn cnt lo hi unfolding Let_def by auto
  moreover have "(of_nat (unat x - 1) :: u32) = x - 1" if "0 < unat x" for x :: u32 using that by (simp add: of_nat_diff)
  moreover have "(of_nat (unat x + 1) :: u32) = x + 1" for x :: u32 by simp
  moreover have "HFN ?c count = of_nat (unat (HFN ?c count))" by simp
  ultimately have "HFN ?c count = estimate_hfn st (SN ?c count)"
    unfolding estimate_hfn_nat [OF w sn(1)] Let_def by (auto split: if_splits)
  then show ?thesis unfolding rcvd_count_def using COUNT_HFN_SN [OF len, of count] by simp
qed

theorem count_recovered_witness:
  "let st = snd (nr_configure False default_cfg (nr_new 1)) \<lparr>rx_deliv := 4090\<rparr> in
   rcvd_count st (SN (cfg st) 4100) = 4100 \<and> SN (cfg st) 4100 = 4"
proof -
  let ?st = "snd (nr_configure False default_cfg (nr_new 1)) \<lparr>rx_deliv := 4090\<rparr>"
  have c: "cfg ?st = default_cfg" by (simp add: nr_configure_def nr_new_def Let_def default_cfg_def pdcp_config_new_def)
  have w: "window_ok ?st"
    by (simp add: window_ok_def config_ok_def nr_configure_def nr_new_def Let_def default_cfg_def pdcp_config_new_def)
  have n: "sn_len default_cfg = 12" by (simp add: default_cfg_def pdcp_config_new_def)
  have "rcvd_count ?st (SN (cfg ?st) 4100) = 4100"
    by (rule count_recovered [OF w]) (simp_all add: c n)
  moreover have "SN (cfg ?st) 4100 = 4" by (simp add: c n SN_def)
  ultimately show ?thesis by (simp add: Let_def)
qed

text \<open>
  A suite for the witnesses: the code is the length of the message and the octets of COUNT, the cipher
  adds the low octet of COUNT.
\<close>

definition xor_suite :: security_suite where
  "xor_suite =
    (let eia = (\<lambda>k n b d m. [of_nat (length m), ucast (drop_bit 16 n), ucast (drop_bit 8 n), ucast n]);
         eea = (\<lambda>k n b d m. map (\<lambda>x. x XOR ucast n) m) in
     \<lparr>security_128_eia1 = eia, security_128_eia2 = eia, security_128_eia3 = eia,
      security_128_eea1 = eea, security_128_eea2 = eea, security_128_eea3 = eea\<rparr>)"

lemma xor_suite_ok: "suite_ok xor_suite"
  by (simp add: suite_ok_def xor_suite_def Let_def comp_def xor.assoc)

section \<open>No COUNT is sent twice\<close>

fun nr_send :: "security_suite \<Rightarrow> pdcp_entity_nr \<Rightarrow> (bool \<times> byte_buffer) list \<Rightarrow>
    (pdcp_entity_nr \<times> pdcp_event list) option" where
  "nr_send S st [] = Some (st, [])"
| "nr_send S st ((full, sdu) # rest) =
    Option.bind (nr_write_sdu S full st sdu) (\<lambda>(st', ev).
      map_option (\<lambda>(st'', ev'). (st'', ev @ ev')) (nr_send S st' rest))"

definition sent_counts :: "pdcp_event list \<Rightarrow> u32 list" where
  "sent_counts ev = concat (map (\<lambda>e. case e of Rlc_write_sdu _ pdu \<Rightarrow> [bb_pdcp_sn pdu] | _ \<Rightarrow> []) ev)"

lemma sent_counts_simps [simp]:
  "sent_counts [] = []" "sent_counts (xs @ ys) = sent_counts xs @ sent_counts ys"
  "sent_counts (Rlc_write_sdu l pdu # xs) = bb_pdcp_sn pdu # sent_counts xs"
  by (simp_all add: sent_counts_def)

lemma start_discard_timer_simps [simp]:
  "tx_next (start_discard_timer st) = tx_next st" "tx_overflow (start_discard_timer st) = tx_overflow st"
  "cfg (start_discard_timer st) = cfg st" "sec_cfg (start_discard_timer st) = sec_cfg st"
  "integrity_direction (start_discard_timer st) = integrity_direction st" "pb_lcid (start_discard_timer st) = pb_lcid st"
  "encryption_direction (start_discard_timer st) = encryption_direction st"
  by (simp_all add: start_discard_timer_def split: pdcp_time.split)

lemma tx_build_count: "tx_build S st sdu = Some pdu \<Longrightarrow> bb_pdcp_sn pdu = tx_next st"
  by (auto simp: tx_build_def split: Option.bind_splits)

lemma nr_write_sdu_cases:
  assumes "nr_write_sdu S full st sdu = Some (st', ev)"
  shows "st' = st \<and> ev = [] \<or>
    (\<exists>l pdu. ev = [Rlc_write_sdu l pdu] \<and> bb_pdcp_sn pdu = tx_next st \<and> \<not> tx_overflow st \<and>
      tx_next st' = tx_next st + 1 \<and> (tx_overflow st' \<longleftrightarrow> tx_next st + 1 = 0))"
  using assms by (auto simp: nr_write_sdu_def Let_def dest!: tx_build_count split: if_splits)

text \<open>
  C26: the COUNT values under which an entity ciphers and protects its PDUs are strictly increasing over
  any sequence of SDUs, also across the end of the COUNT space, so that no keystream is used twice.
\<close>

theorem tx_count_unique:
  assumes "nr_send S st sdus = Some (st', ev)"
  shows "sorted_wrt (<) (sent_counts ev) \<and> list_all (\<lambda>c. tx_next st \<le> c) (sent_counts ev)"
  using assms
proof (induction S st sdus arbitrary: ev st' rule: nr_send.induct)
  case (2 S st full sdu rest)
  obtain st1 ev1 ev2 where w: "nr_write_sdu S full st sdu = Some (st1, ev1)"
    and r: "nr_send S st1 rest = Some (st', ev2)" and ev: "ev = ev1 @ ev2"
    using "2.prems" by (auto split: Option.bind_splits)
  note IH = "2.IH" [OF w refl r]
  have over: "ev2 = []" if "tx_overflow st1"
    using r that by (induction rest arbitrary: st' ev2) (auto simp: nr_write_sdu_def split: Option.bind_splits if_splits)
  from nr_write_sdu_cases [OF w] show ?case
  proof (elim disjE exE conjE)
    fix l pdu
    assume e: "ev1 = [Rlc_write_sdu l pdu]" "bb_pdcp_sn pdu = tx_next st" "tx_next st1 = tx_next st + 1"
      "tx_overflow st1 \<longleftrightarrow> tx_next st + 1 = 0"
    show ?thesis
    proof (cases "tx_overflow st1")
      case False
      then have "tx_next st < tx_next st + 1" using e(4) by (intro count_succ) (auto simp: eq_neg_iff_add_eq_0)
      then show ?thesis using IH e by (auto simp: ev list_all_iff intro: less_le_trans order.strict_implies_order)
    qed (use over e in \<open>simp add: ev\<close>)
  qed (use IH in \<open>simp add: ev\<close>)
qed simp

theorem tx_count_unique_witness:
  "let st = nr_new 1 \<lparr>tx_next := - 1\<rparr>; sdu = (bb_new (replicate 1100 0)) \<lparr>bb_n := 1\<rparr>
   in (case nr_send xor_suite st [(False, sdu), (False, sdu)] of
         Some (st', ev) \<Rightarrow> sorted_wrt (<) (sent_counts ev) \<and> sent_counts ev = [- 1]
       | None \<Rightarrow> False)"
proof -
  let ?st = "nr_new 1 \<lparr>tx_next := - 1\<rparr>" and ?sdu = "(bb_new (replicate 1100 0)) \<lparr>bb_n := 1\<rparr>"
  have "\<exists>st' ev. nr_send xor_suite ?st [(False, ?sdu), (False, ?sdu)] = Some (st', ev) \<and> sent_counts ev = [- 1]"
    by (simp add: nr_write_sdu_def nr_new_def default_cfg_def pdcp_config_new_def bb_new_def tx_build_def
        start_discard_timer_def Let_def write_data_header_def get_headroom_def SRSRAN_BUFFER_HEADER_OFFSET_def
        data_header_bytes_def uint16_to_uint8_def mem_write_def protects_def is_srb_def tx_cipher_def)
  then obtain st' ev where r: "nr_send xor_suite ?st [(False, ?sdu), (False, ?sdu)] = Some (st', ev)"
    and "sent_counts ev = [- 1]" by blast
  with tx_count_unique [OF r] show ?thesis by (simp only: Let_def option.case prod.case simp_thms)
qed

section \<open>From entity to entity\<close>

text \<open>Two entities of one bearer with the same keys, the security of one mirroring that of the other.\<close>

definition peers :: "pdcp_entity_nr \<Rightarrow> pdcp_entity_nr \<Rightarrow> bool" where
  "peers tx rx \<longleftrightarrow>
    bearer_id (cfg tx) = bearer_id (cfg rx) \<and> rb_type (cfg tx) = rb_type (cfg rx) \<and>
    sn_len (cfg tx) = sn_len (cfg rx) \<and> hdr_len_bytes (cfg tx) = hdr_len_bytes (cfg rx) \<and>
    tx_direction (cfg tx) = rx_direction (cfg rx) \<and> sec_cfg tx = sec_cfg rx \<and>
    (encryption_direction tx \<in> {DIRECTION_TX, DIRECTION_TXRX} \<longleftrightarrow>
     encryption_direction rx \<in> {DIRECTION_RX, DIRECTION_TXRX}) \<and>
    (integrity_direction tx \<in> {DIRECTION_TX, DIRECTION_TXRX} \<longleftrightarrow>
     integrity_direction rx \<in> {DIRECTION_TX, DIRECTION_TXRX})"

lemma peers_security:
  assumes "peers tx rx"
  shows "protects tx = protects rx" "mac_of S tx (tx_direction (cfg tx)) = mac_of S rx (rx_direction (cfg rx))"
    "cipher_of S tx (tx_direction (cfg tx)) = cipher_of S rx (rx_direction (cfg rx))"
    "header_sn (cfg tx) = header_sn (cfg rx)" "SN (cfg tx) = SN (cfg rx)" "config_ok (cfg tx) = config_ok (cfg rx)"
  using assms
  by (auto simp: peers_def protects_def is_srb_def is_drb_def mac_of_def cipher_of_def fun_eq_iff k_int_def k_enc_def
      bearer_minus_1_def header_sn_def SN_def config_ok_def split: integrity_algorithm.split ciphering_algorithm.split)

text \<open>The PDU that the sender builds for the SDU \<open>d\<close>.\<close>

definition pdu_payload :: "security_suite \<Rightarrow> pdcp_entity_nr \<Rightarrow> u32 \<Rightarrow> bytes \<Rightarrow> bytes" where
  "pdu_payload S tx count d =
    (let m = (if protects tx then mac_of S tx (tx_direction (cfg tx)) count (data_header_bytes (cfg tx) count @ d) else [])
     in if encryption_direction tx \<in> {DIRECTION_TX, DIRECTION_TXRX}
        then cipher_of S tx (tx_direction (cfg tx)) count (d @ m) else d @ m)"

definition sdu_fits :: "pdcp_config \<Rightarrow> byte_buffer \<Rightarrow> bool" where
  "sdu_fits c sdu \<longleftrightarrow> bb_ok sdu \<and> 0 < bb_n sdu \<and> hdr_len_bytes c \<le> get_headroom sdu \<and>
    length (bb_buffer sdu) < 2 ^ 32 \<and> bb_n sdu + 4 \<le> PDCP_MAX_SDU_SIZE \<and>
    bb_msg sdu + 2 * bb_n sdu + hdr_len_bytes c + 4 \<le> length (bb_buffer sdu)"

lemma tx_build_data:
  assumes S: "suite_ok S" and c: "config_ok (cfg tx)" and fits: "sdu_fits (cfg tx) sdu"
  obtains pdu where "tx_build S tx sdu = Some pdu" "bb_ok pdu" "length (bb_buffer pdu) = length (bb_buffer sdu)"
    "bb_data pdu = data_header_bytes (cfg tx) (tx_next tx) @ pdu_payload S tx (tx_next tx) (bb_data sdu)"
proof -
  let ?n = "tx_next tx" and ?c = "cfg tx" and ?d = "bb_data sdu"
  let ?h = "data_header_bytes ?c ?n"
  have lh: "length ?h = hdr_len_bytes ?c" by (rule length_data_header_bytes [OF c])
  have ok: "bb_ok sdu" "length ?h \<le> get_headroom sdu" using fits lh by (simp_all add: sdu_fits_def)
  obtain s1 where s1: "push_header sdu ?h = Some s1" "bb_ok s1" "bb_data s1 = ?h @ ?d"
    using bb.push_ok [OF ok] by blast
  then have geo: "length (bb_buffer s1) = length (bb_buffer sdu)" "bb_n s1 = bb_n sdu + hdr_len_bytes ?c"
    "bb_msg s1 + hdr_len_bytes ?c = bb_msg sdu"
    using ok(2) lh by (auto simp: push_header_def mem_write_def get_headroom_def split: if_splits)
  have w: "write_data_header ?c sdu ?n = Some s1"
    using write_data_header_push [OF c] ok(2) lh s1(1) by simp
  let ?m = "if protects tx then mac_of S tx (tx_direction ?c) ?n (?h @ ?d) else []"
  obtain s2 where s2: "(if protects tx then append_mac s1 (integrity_generate S tx (bb_data s1) ?n [0, 0, 0, 0]) else Some s1) = Some s2"
    "bb_ok s2" "same_place s2 s1" "bb_n s2 = bb_n s1 + length ?m" "bb_data s2 = ?h @ ?d @ ?m"
  proof (cases "protects tx")
    case True
    have "length (bb_buffer s1) < 2 ^ 32" "2 * bb_n s1 + 4 \<le> length (bb_buffer s1) - bb_msg s1"
      using fits geo by (auto simp: sdu_fits_def)
    from append_mac_data [OF s1(2) this, of "mac_of S tx (tx_direction ?c) ?n (?h @ ?d)"] show ?thesis
      using True S s1(3) that by (auto simp: integrity_generate_mac)
  qed (use s1 that in \<open>auto simp: same_place_def\<close>)
  have "length ?m \<le> 4" using S by simp
  then have off: "hdr_len_bytes ?c \<le> bb_n s2" "bb_n s2 - hdr_len_bytes ?c \<le> PDCP_MAX_SDU_SIZE"
    using fits geo s2(4) by (simp_all add: sdu_fits_def del: length_0_conv)
  obtain s3 where s3: "tx_cipher S tx s2 = Some s3" "bb_ok s3" "same_place s3 s2" "bb_data s3 = ?h @ pdu_payload S tx ?n ?d"
  proof (cases "encryption_direction tx \<in> {DIRECTION_TX, DIRECTION_TXRX}")
    case True
    with cipher_encrypt_data [OF S s2(2) off, of tx ?n] show ?thesis
      using that s2(5) lh by (fastforce simp: tx_cipher_def pdu_payload_def)
  next
    case False
    then show ?thesis using that [of s2] s2 by (auto simp: tx_cipher_def pdu_payload_def same_place_def)
  qed
  show ?thesis
  proof (rule that)
    show "tx_build S tx sdu = Some (s3\<lparr>bb_pdcp_sn := ?n\<rparr>)" using w s2(1) s3(1) by (simp add: tx_build_def)
    show "bb_ok (s3\<lparr>bb_pdcp_sn := ?n\<rparr>)" "length (bb_buffer (s3\<lparr>bb_pdcp_sn := ?n\<rparr>)) = length (bb_buffer sdu)"
      "bb_data (s3\<lparr>bb_pdcp_sn := ?n\<rparr>) = ?h @ pdu_payload S tx ?n ?d"
      using s3 s2(3) geo by (simp_all add: bb_ok_def same_place_def bb_data_def)
  qed
qed

text \<open>The receiver's side of the same PDU.\<close>

lemma rx_open_data:
  assumes S: "suite_ok S" and p: "peers tx rx" and w: "window_ok rx"
    and pdu: "bb_ok pdu" "bb_data pdu = data_header_bytes (cfg tx) count @ pdu_payload S tx count d"
    and len: "0 < length d" "length d + 4 \<le> PDCP_MAX_SDU_SIZE"
    and count: "rcvd_count rx (SN (cfg rx) count) = count"
  obtains sdu where "rx_open S rx pdu = Some (Rx_pdu count sdu)" "bb_data sdu = d"
    "hdr_len_bytes (cfg rx) < bb_n pdu"
proof -
  let ?c = "cfg rx" and ?h = "data_header_bytes (cfg tx) count" and ?hl = "hdr_len_bytes (cfg rx)"
  have c: "config_ok ?c" "config_ok (cfg tx)" using w peers_security(6) [OF p] by (simp_all add: window_ok_def)
  have lh: "length ?h = ?hl" using length_data_header_bytes [OF c(2)] p by (simp add: peers_def)
  let ?m = "if protects tx then mac_of S tx (tx_direction (cfg tx)) count (?h @ d) else []"
  have lm: "length ?m \<le> 4" using S by simp
  have n: "bb_n pdu = ?hl + length d + length ?m"
    using arg_cong [OF pdu(2), of length] length_bb_data [OF pdu(1)] S lh by (simp add: pdu_payload_def Let_def)
  then have long: "?hl < bb_n pdu" using len by linarith
  have "header_sn ?c (bb_data pdu) = SN ?c count"
    using header_sn_append [OF c(1) lh] header_sn_written [OF c(2), of count] peers_security(4,5) [OF p]
    by (simp add: pdu(2))
  then have k: "rcvd_count rx (read_data_header ?c pdu) = count"
    using read_data_header_data [OF c(1) pdu(1) long] count by simp
  have off: "?hl \<le> bb_n pdu" "bb_n pdu - ?hl \<le> PDCP_MAX_SDU_SIZE" using n len lm by (simp_all del: length_0_conv)
  obtain s1 where s1: "rx_decipher S rx count pdu = Some s1" "bb_ok s1" "same_place s1 pdu" "bb_n s1 = bb_n pdu"
    "bb_data s1 = ?h @ d @ ?m"
  proof (cases "encryption_direction tx \<in> {DIRECTION_TX, DIRECTION_TXRX}")
    case True
    then have "encryption_direction rx \<in> {DIRECTION_RX, DIRECTION_TXRX}" using p by (simp add: peers_def)
    with cipher_decrypt_data [OF S pdu(1) off, of rx count] True show ?thesis
      using that pdu(2) lh S peers_security(3) [OF p, of S] by (fastforce simp: rx_decipher_def pdu_payload_def Let_def)
  next
    case False
    then have "encryption_direction rx \<notin> {DIRECTION_RX, DIRECTION_TXRX}" using p by (simp add: peers_def)
    with False show ?thesis
      using that [of pdu] pdu by (auto simp: rx_decipher_def pdu_payload_def same_place_def Let_def)
  qed
  obtain s2 where s2: "(if protects rx then extract_mac s1 [0, 0, 0, 0] else (s1, [0, 0, 0, 0])) =
      (s2, if protects rx then ?m else [0, 0, 0, 0])" "bb_ok s2" "bb_data s2 = ?h @ d" "bb_n s2 = ?hl + length d"
  proof (cases "protects rx")
    case True
    then have t: "protects tx" using peers_security(1) [OF p] by simp
    have "4 \<le> bb_n s1" and n1: "bb_n s1 - 4 = ?hl + length d" using n s1(4) t S by simp_all
    from extract_mac_data [OF s1(2) this(1), of "[0, 0, 0, 0]"] show ?thesis
      using that True t s1(5) lh n1 S by auto
  next
    case False
    then show ?thesis using that [of s1] s1 n peers_security(1) [OF p] by auto
  qed
  have v: "integrity_verify S rx (bb_data s2) count (if protects rx then ?m else [0, 0, 0, 0])"
    if "integrity_direction rx = DIRECTION_TX \<or> integrity_direction rx = DIRECTION_TXRX"
  proof -
    have rx: "protects rx" unfolding protects_def is_srb_def is_drb_def using that pdcp_rb_type.exhaust by metis
    then have "protects tx" using peers_security(1) [OF p] by simp
    then show ?thesis
      using rx peers_security(2) [OF p, of S] integrity_verify_iff [OF S, of ?m rx "?h @ d" count] S
      unfolding s2(3) by simp
  qed
  have "rx_open S rx pdu = Some (Rx_pdu count (discard_data_header ?c s2))"
    using v by (auto simp: rx_open_def k s1(1) s2(1) Let_def)
  moreover have "bb_data (discard_data_header ?c s2) = d"
  proof -
    have "of_nat (bb_n s2) - of_nat ?hl = (of_nat (length d) :: u32)" by (simp add: s2(4))
    moreover have "length d < 2 ^ LENGTH(32)" using len by (simp add: PDCP_MAX_SDU_SIZE_def)
    ultimately have "unat (of_nat (bb_n s2) - of_nat ?hl :: u32) = length d" by (simp only: unat_of_nat_eq)
    moreover have "take (length d) (drop (bb_msg s2 + ?hl) (bb_buffer s2)) = drop ?hl (bb_data s2)"
      by (simp add: bb_data_def s2(4) drop_take add.commute)
    ultimately show ?thesis using s2(3) lh by (simp add: discard_data_header_def bb_data_def)
  qed
  ultimately show ?thesis using that long by blast
qed

lemma map_put_below: "(\<And>l. l \<in> keys m \<Longrightarrow> k < l) \<Longrightarrow> map_put k v m = (k, v) # m"
  by (cases m) force+

text \<open>A PDU with the COUNT that the receiver waits for is handed up at once, and first.\<close>

lemma rx_store_awaited:
  assumes "rx_inv rx" "rx_deliv rx \<noteq> - 1"
  shows "\<exists>rx' rest. rx_store rx (rx_deliv rx) up = (rx', (rx_deliv rx, up) # rest)"
proof -
  let ?d = "rx_deliv rx"
  have put: "map_put ?d up (reorder_queue rx) = (?d, up) # reorder_queue rx"
    using assms(1) by (intro map_put_below) (auto simp: rx_inv_def)
  have none: "map_of (reorder_queue rx) ?d = None" using assms(1) by (auto simp: rx_inv_def map_of_eq_None_iff)
  have nz: "?d + 1 \<noteq> 0" using assms(2) by (auto simp: eq_neg_iff_add_eq_0)
  have "\<not> rx_overflow rx" using assms(1) by (simp add: rx_inv_def)
  then show ?thesis
    using none nz by (auto simp: rx_store_def put Let_def deliver_all_consecutive_counts_def split: prod.splits)
qed



section \<open>Where the code departs\<close>

text \<open>
  : at the start of a bearer, a PDU whose sequence number is half a space or more ahead gets the HFN
  \<open>0 - 1\<close>, hence a COUNT near \<open>2 ^ 32\<close>. The check against \<open>RX_DELIV\<close> does not discard it as it should:
  it is queued and drags \<open>RX_NEXT\<close> to the end of the COUNT space.
\<close>

theorem hfn_underflow_accepted:
  assumes w: "window_ok st" and h: "HFN (cfg st) (rx_deliv st) = 0"
    and sn: "unat (SN (cfg st) (rx_deliv st)) + 2 ^ (sn_len (cfg st) - 1) \<le> unat sn" "unat sn < 2 ^ sn_len (cfg st)"
    and fresh: "rx_next st \<le> rcvd_count st sn" "map_of (reorder_queue st) (rcvd_count st sn) = None"
  shows "unat (rcvd_count st sn) = 2 ^ 32 - 2 ^ sn_len (cfg st) + unat sn \<and>
    rx_next (fst (rx_store st (rcvd_count st sn) sdu)) = rcvd_count st sn + 1"
proof -
  let ?c = "cfg st"
  have m: "sn_len ?c \<in> {5, 7, 12, 18}" using w by (auto simp: window_ok_def config_ok_def)
  have "estimate_hfn st sn = - 1"
    unfolding estimate_hfn_nat [OF w sn(2)] Let_def h using sn(1) by auto
  then have "rcvd_count st sn = push_bit (sn_len ?c) (- 1) OR sn" by (simp add: rcvd_count_def COUNT_def)
  also have "\<dots> = push_bit (sn_len ?c) (- 1) + sn"
    by (rule disjunctive_add [symmetric]) (auto simp: bit_simps dest: unat_less_bit [OF sn(2)])
  finally have count: "rcvd_count st sn = push_bit (sn_len ?c) (- 1) + sn" .
  have big: "unat (rcvd_count st sn) = 2 ^ 32 - 2 ^ sn_len ?c + unat sn"
  proof -
    have "push_bit 5 (- 1) = (0xFFFFFFE0 :: u32)" "push_bit 7 (- 1) = (0xFFFFFF80 :: u32)"
      "push_bit 12 (- 1) = (0xFFFFF000 :: u32)" "push_bit 18 (- 1) = (0xFFFC0000 :: u32)"
      by (simp_all add: mask_numeral)
    then show ?thesis using m sn(2) unfolding count
      by (auto simp: unat_word_ariths simp del: push_bit_minus_one_eq_not_mask)
  qed
  have "unat (rx_deliv st) < 2 ^ sn_len ?c"
    using unat_count [of ?c "rx_deliv st"] SN_less [of ?c "rx_deliv st"] m h by auto
  then have lt: "rx_deliv st < rcvd_count st sn" using big m by (auto simp: word_less_nat_alt)
  then have "rx_next (fst (rx_store st (rcvd_count st sn) sdu)) = rcvd_count st sn + 1"
    using fresh less_imp_neq [OF lt] less_not_sym [OF lt] by (simp add: rx_store_def Let_def)
  with big show ?thesis by simp
qed

theorem hfn_underflow_accepted_witness:
  "let st = snd (nr_configure False default_cfg (nr_new 1)) in
   unat (rcvd_count st 4000) = 2 ^ 32 - 96 \<and> rx_next (fst (rx_store st (rcvd_count st 4000) (bb_new []))) = - 95"
proof -
  let ?st = "snd (nr_configure False default_cfg (nr_new 1))"
  note defs = nr_configure_def nr_new_def Let_def pdcp_config_new_def default_cfg_def
  have "window_ok ?st" "HFN (cfg ?st) (rx_deliv ?st) = 0"
    "unat (SN (cfg ?st) (rx_deliv ?st)) + 2 ^ (sn_len (cfg ?st) - 1) \<le> unat (4000 :: u32)"
    "unat (4000 :: u32) < 2 ^ sn_len (cfg ?st)" "rx_next ?st \<le> rcvd_count ?st 4000"
    "map_of (reorder_queue ?st) (rcvd_count ?st 4000) = None"
    by (simp_all add: defs window_ok_def config_ok_def HFN_def SN_def)
  from hfn_underflow_accepted [OF this, of "bb_new []"]
  have *: "unat (rcvd_count ?st 4000) = 2 ^ 32 - 2 ^ sn_len (cfg ?st) + unat (4000 :: u32)"
    "rx_next (fst (rx_store ?st (rcvd_count ?st 4000) (bb_new []))) = rcvd_count ?st 4000 + 1" by blast+
  have n: "sn_len (cfg ?st) = 12" by (simp add: defs)
  have "rcvd_count ?st 4000 = - 96"
    by (simp add: defs rcvd_count_def estimate_hfn_def COUNT_def HFN_def SN_def mask_numeral)
  with * show ?thesis unfolding Let_def n by simp
qed

text \<open>
  : an SRB PDU between four octets and four octets plus its header is not rejected. The removal of
  the code leaves fewer octets than the header has, and the unsigned length of what is handed on wraps
  around to nearly \<open>2 ^ 32\<close>. This is the state before security activation, where no code is verified.
\<close>

theorem short_pdu_length_wraps:
  assumes "is_srb st" "integrity_direction st = DIRECTION_NONE" "encryption_direction st = DIRECTION_NONE"
    and "hdr_len_bytes (cfg st) < 2 ^ 32" "4 \<le> bb_n pdu" "bb_n pdu < hdr_len_bytes (cfg st) + 4"
  shows "\<exists>count sdu. rx_open S st pdu = Some (Rx_pdu count sdu) \<and>
    bb_n sdu = 2 ^ 32 - (hdr_len_bytes (cfg st) + 4 - bb_n pdu)"
proof -
  let ?h = "hdr_len_bytes (cfg st)" and ?n = "bb_n pdu - 4"
  have p: "protects st" using assms(1) by (simp add: protects_def)
  have "unat (of_nat ?n - of_nat ?h :: u32) = 2 ^ 32 - (?h - ?n)"
  proof -
    have "(of_nat ?n - of_nat ?h :: u32) = - of_nat (?h - ?n)" using assms(6) by (simp add: of_nat_diff)
    moreover have "of_nat (2 ^ 32 - (?h - ?n)) = (- of_nat (?h - ?n) :: u32)"
      using assms(4) by (subst of_nat_diff) simp_all
    moreover have "unat (of_nat (2 ^ 32 - (?h - ?n)) :: u32) = 2 ^ 32 - (?h - ?n)"
      using assms(5,6) by (intro unat_of_nat_eq) simp
    ultimately show ?thesis by simp
  qed
  moreover have "?h - ?n = ?h + 4 - bb_n pdu" using assms(5) by simp
  ultimately show ?thesis
    using p assms(2,3,5)
    by (auto simp: rx_open_def rx_decipher_def extract_mac_def discard_data_header_def Let_def)
qed

theorem short_pdu_length_wraps_witness:
  "let st = snd (nr_configure False (default_cfg\<lparr>rb_type := PDCP_RB_IS_SRB\<rparr>) (nr_new 1));
     pdu = (bb_new (replicate 1100 0))\<lparr>bb_n := 4\<rparr>
   in \<exists>count sdu. rx_open xor_suite st pdu = Some (Rx_pdu count sdu) \<and> bb_n sdu = 4294967294"
proof -
  let ?st = "snd (nr_configure False (default_cfg\<lparr>rb_type := PDCP_RB_IS_SRB\<rparr>) (nr_new 1))"
  let ?pdu = "(bb_new (replicate 1100 0))\<lparr>bb_n := 4\<rparr>"
  have "is_srb ?st" "integrity_direction ?st = DIRECTION_NONE" "encryption_direction ?st = DIRECTION_NONE"
    "hdr_len_bytes (cfg ?st) = 2" "bb_n ?pdu = 4"
    by (simp_all add: nr_configure_def nr_new_def Let_def pdcp_config_new_def default_cfg_def is_srb_def)
  with short_pdu_length_wraps [of ?st ?pdu xor_suite] show ?thesis by (simp add: Let_def)
qed

text \<open>
  : a receiver on which integrity protection is enabled for the receive direction only never consults
  an integrity algorithm: the outcome is the same whatever the algorithms compute, and the four
  octets of the code stay at the end of a DRB's SDU.
\<close>

theorem rx_only_integrity_unchecked:
  assumes "is_drb st" "integrity_direction st = DIRECTION_RX"
  shows "nr_write_pdu (S\<lparr>security_128_eia1 := f1, security_128_eia2 := f2, security_128_eia3 := f3\<rparr>) st pdu =
    nr_write_pdu S st pdu"
proof -
  have "cipher_decrypt (S\<lparr>security_128_eia1 := f1, security_128_eia2 := f2, security_128_eia3 := f3\<rparr>) st = cipher_decrypt S st"
    unfolding cipher_decrypt_def fun_eq_iff by (simp split: ciphering_algorithm.split)
  then have "rx_open (S\<lparr>security_128_eia1 := f1, security_128_eia2 := f2, security_128_eia3 := f3\<rparr>) st pdu =
      rx_open S st pdu"
    unfolding rx_open_def rx_decipher_def assms(2) by (simp only: srsran_direction.distinct simp_thms)
  then show ?thesis unfolding nr_write_pdu_def by (simp only:)
qed

theorem rx_only_integrity_unchecked_witness:
  "let st = (nr_new 4)\<lparr>integrity_direction := DIRECTION_RX\<rparr> in
   nr_write_pdu (xor_suite\<lparr>security_128_eia1 := (\<lambda>k n b d m. []), security_128_eia2 := (\<lambda>k n b d m. []),
     security_128_eia3 := (\<lambda>k n b d m. [])\<rparr>) st (bb_new [1, 2, 3]) = nr_write_pdu xor_suite st (bb_new [1, 2, 3])"
proof -
  have "is_drb ((nr_new 4)\<lparr>integrity_direction := DIRECTION_RX\<rparr>)"
    "integrity_direction ((nr_new 4)\<lparr>integrity_direction := DIRECTION_RX\<rparr>) = DIRECTION_RX"
    by (simp_all add: is_drb_def nr_new_def default_cfg_def pdcp_config_new_def)
  from rx_only_integrity_unchecked [OF this] show ?thesis by (simp add: Let_def)
qed

text \<open>
  : enabling a direction can disable the other one: on an entity with integrity protection in both
  directions, enabling one of them leaves only that one; the two orders of enabling single directions
  on a fresh entity do end with both.
\<close>

theorem enable_integrity_outcomes:
  "integrity_direction (enable_integrity DIRECTION_RX (enable_integrity DIRECTION_TXRX pe)) = DIRECTION_RX \<and>
   integrity_direction (enable_integrity DIRECTION_TX (enable_integrity DIRECTION_TXRX pe)) = DIRECTION_TX \<and>
   (let pe' = pe\<lparr>integrity_direction := DIRECTION_NONE\<rparr> in
    integrity_direction (enable_integrity DIRECTION_TX (enable_integrity DIRECTION_RX pe')) = DIRECTION_TXRX \<and>
    integrity_direction (enable_integrity DIRECTION_RX (enable_integrity DIRECTION_TX pe')) = DIRECTION_TXRX)"
  by (simp add: enable_integrity_def Let_def)

text \<open>
  : configuring an entity again with the configuration it was given succeeds, except that a UM bearer
  with a discard timer is told that it was reconfigured, because the first call overwrote the timer.
\<close>

theorem configure_again:
  "fst (nr_configure um c (snd (nr_configure um c (nr_new lcid)))) =
    (if um then discard_timer c = Infinity else True)"
  by (cases c; cases "t_reordering c") (auto simp: nr_configure_def nr_new_def Let_def)

end
