(* ===== verification/Mac_Sch_Pdu_Nr.thy ===== *)
theory Mac_Sch_Pdu_Nr
  imports Byte_Buffer
begin

text \<open>
  The MAC SCH PDU of NR, \<^verbatim>\<open>lib/src/mac/mac_sch_pdu_nr.cc\<close>: subPDUs with their subheaders, the control
  elements, assembly of a PDU in a byte buffer and parsing of a received one.

  A pointer into memory is the list of octets from there to the end of the array; reading or copying
  past it has no result (\<open>None\<close>). \<open>ul\<close> is \<open>parent->is_ulsch()\<close>. The host is little-endian, so
  \<open>htole16\<close>, \<open>le16toh\<close> and \<open>le64toh\<close> are identities.
\<close>

section \<open>Logical channel identifiers\<close>

abbreviation "CCCH \<equiv> 0 :: u32"
abbreviation "DRX_CMD \<equiv> 60 :: u32"
abbreviation "TA_CMD \<equiv> 61 :: u32"
abbreviation "CON_RES_ID \<equiv> 62 :: u32"
abbreviation "CRNTI \<equiv> 58 :: u32"
abbreviation "SHORT_TRUNC_BSR \<equiv> 59 :: u32"
abbreviation "LONG_TRUNC_BSR \<equiv> 60 :: u32"
abbreviation "CCCH_SIZE_48 \<equiv> 52 :: u32"
abbreviation "CCCH_SIZE_64 \<equiv> 0 :: u32"
abbreviation "SE_PHR \<equiv> 57 :: u32"
abbreviation "SHORT_BSR \<equiv> 61 :: u32"
abbreviation "LONG_BSR \<equiv> 62 :: u32"
abbreviation "PADDING \<equiv> 63 :: u32"

definition MAC_SUBHEADER_LEN_THRESHOLD :: int where
  "MAC_SUBHEADER_LEN_THRESHOLD = 256"

definition sizeof_ce :: "u32 \<Rightarrow> bool \<Rightarrow> u32" where
  "sizeof_ce lcid is_ul =
    (if is_ul then
       (if lcid = CCCH_SIZE_48 then 6 else if lcid = CCCH_SIZE_64 then 8 else if lcid = CRNTI then 2
        else if lcid = SHORT_BSR \<or> lcid = SHORT_TRUNC_BSR then 1 else if lcid = SE_PHR then 2
        else if lcid = LONG_BSR \<or> lcid = LONG_TRUNC_BSR then 1 else 0)
     else
       (if lcid = CON_RES_ID then 6 else if lcid = TA_CMD then 1 else 0))"

section \<open>SubPDUs\<close>

record subpdu =
  sp_lcid :: u32
  sp_header_length :: int
  sp_sdu_length :: int
  sp_F_bit :: bool
  sp_sdu :: "bytes option"

definition subpdu_new :: subpdu where
  "subpdu_new = \<lparr>sp_lcid = 0, sp_header_length = 0, sp_sdu_length = 0, sp_F_bit = False, sp_sdu = None\<rparr>"

definition get_type :: "subpdu \<Rightarrow> u32" where
  "get_type p = (if 32 \<le> sp_lcid p then sp_lcid p else CCCH)"

definition is_ul_ccch :: "bool \<Rightarrow> subpdu \<Rightarrow> bool" where
  "is_ul_ccch ul p \<longleftrightarrow> ul \<and> (sp_lcid p = CCCH_SIZE_48 \<or> sp_lcid p = CCCH_SIZE_64)"

definition is_sdu :: "bool \<Rightarrow> subpdu \<Rightarrow> bool" where
  "is_sdu ul p \<longleftrightarrow> sp_lcid p \<le> 32 \<and> \<not> is_ul_ccch ul p"

definition is_var_len_ce :: "bool \<Rightarrow> u32 \<Rightarrow> bool" where
  "is_var_len_ce ul lcid \<longleftrightarrow> ul \<and> (lcid = LONG_TRUNC_BSR \<or> lcid = LONG_BSR)"

definition has_length_field :: "bool \<Rightarrow> subpdu \<Rightarrow> bool" where
  "has_length_field ul p \<longleftrightarrow>
    (if ul \<and> (sp_lcid p = CCCH_SIZE_48 \<or> sp_lcid p = CCCH_SIZE_64) then False
     else is_sdu ul p \<or> is_var_len_ce ul (sp_lcid p))"

definition is_valid_lcid :: "bool \<Rightarrow> u32 \<Rightarrow> bool" where
  "is_valid_lcid ul lcid \<longleftrightarrow>
    lcid \<le> 63 \<and> ((ul \<and> (lcid \<le> 32 \<or> 52 \<le> lcid)) \<or> (lcid \<le> 32 \<or> 47 \<le> lcid))"

definition get_total_length :: "subpdu \<Rightarrow> u32" where
  "get_total_length p = word_of_int (sp_header_length p + sp_sdu_length p)"

text \<open>The octet at an index behind a pointer.\<close>

definition mem_at :: "bytes \<Rightarrow> nat \<Rightarrow> u8 option" where
  "mem_at m i = (if i < length m then Some (m ! i) else None)"

subsection \<open>Reading a subheader\<close>

text \<open>\<open>Some None\<close> is the return of \<open>SRSRAN_ERROR\<close>.\<close>

definition read_subheader :: "bool \<Rightarrow> bytes \<Rightarrow> subpdu option option" where
  "read_subheader ul m =
    Option.bind (mem_at m 0) (\<lambda>b0.
      let p = subpdu_new\<lparr>sp_F_bit := (b0 AND 0x40 \<noteq> 0), sp_lcid := ucast (b0 AND 0x3f), sp_header_length := 1\<rparr> in
      if \<not> is_valid_lcid ul (sp_lcid p) then Some None
      else if has_length_field ul p then
        Option.bind (mem_at m 1) (\<lambda>b1.
          if sp_F_bit p then
            map_option (\<lambda>b2. Some (p\<lparr>sp_sdu_length := uint (push_bit 8 (ucast b1) OR (ucast b2 AND 0xff) :: u32),
                sp_header_length := 3, sp_sdu := Some (drop 3 m)\<rparr>))
              (mem_at m 2)
          else Some (Some (p\<lparr>sp_sdu_length := uint b1, sp_header_length := 2, sp_sdu := Some (drop 2 m)\<rparr>)))
      else Some (Some (p\<lparr>sp_sdu_length := uint (sizeof_ce (sp_lcid p) ul), sp_sdu := Some (drop 1 m)\<rparr>)))"

subsection \<open>Setters\<close>

definition set_sdu :: "bool \<Rightarrow> u32 \<Rightarrow> bytes \<Rightarrow> u32 \<Rightarrow> subpdu \<Rightarrow> subpdu" where
  "set_sdu ul lcid payload len p =
    (let lcid = (if lcid = CCCH_SIZE_64 \<and> len = sizeof_ce CCCH_SIZE_48 True then CCCH_SIZE_48 else lcid);
         p = p\<lparr>sp_lcid := lcid, sp_sdu := Some payload\<rparr>;
         p = p\<lparr>sp_header_length := (if is_ul_ccch ul p then 1 else 2), sp_sdu_length := sint len\<rparr>;
         p = (if is_ul_ccch ul p then p\<lparr>sp_F_bit := False, sp_sdu_length := uint (sizeof_ce lcid ul)\<rparr> else p)
     in if MAC_SUBHEADER_LEN_THRESHOLD \<le> sp_sdu_length p
        then p\<lparr>sp_F_bit := True, sp_header_length := sp_header_length p + 1\<rparr> else p)"

definition set_padding :: "u32 \<Rightarrow> subpdu \<Rightarrow> subpdu" where
  "set_padding len p = p\<lparr>sp_lcid := PADDING, sp_sdu_length := sint (len - 1), sp_header_length := 1\<rparr>"

text \<open>The nine octets of the internal storage, the first ones written.\<close>

definition internal_storage :: "bytes \<Rightarrow> bytes option" where
  "internal_storage xs = Some (xs @ replicate (9 - length xs) 0)"

definition set_c_rnti :: "bool \<Rightarrow> u16 \<Rightarrow> subpdu \<Rightarrow> subpdu" where
  "set_c_rnti ul crnti p = p\<lparr>sp_lcid := CRNTI, sp_header_length := 1, sp_sdu_length := uint (sizeof_ce CRNTI ul),
     sp_sdu := internal_storage [ucast (drop_bit 8 (crnti AND 0xff00)), ucast (crnti AND 0x00ff)]\<rparr>"

definition set_se_phr :: "bool \<Rightarrow> u8 \<Rightarrow> u8 \<Rightarrow> subpdu \<Rightarrow> subpdu" where
  "set_se_phr ul phr pcmax p = p\<lparr>sp_lcid := SE_PHR, sp_header_length := 1, sp_sdu_length := uint (sizeof_ce SE_PHR ul),
     sp_sdu := internal_storage [phr AND 0x3f, pcmax AND 0x3f]\<rparr>"

record lcg_bsr =
  lcg_id :: u8
  buffer_size :: u8

definition set_sbsr :: "bool \<Rightarrow> lcg_bsr \<Rightarrow> subpdu \<Rightarrow> subpdu" where
  "set_sbsr ul bsr p = p\<lparr>sp_lcid := SHORT_BSR, sp_header_length := 1, sp_sdu_length := uint (sizeof_ce SHORT_BSR ul),
     sp_sdu := internal_storage [push_bit 5 (lcg_id bsr AND 0x07) OR (buffer_size bsr AND 0x1f)]\<rparr>"

text \<open>\<open>set_lbsr\<close> has an empty body.\<close>

definition set_lbsr :: "lcg_bsr list \<Rightarrow> subpdu \<Rightarrow> subpdu" where
  "set_lbsr bsr p = p"

definition set_ue_con_res_id_ce :: "bool \<Rightarrow> bytes \<Rightarrow> subpdu \<Rightarrow> subpdu" where
  "set_ue_con_res_id_ce ul rid p = p\<lparr>sp_lcid := CON_RES_ID, sp_header_length := 1,
     sp_sdu_length := uint (sizeof_ce CON_RES_ID ul), sp_sdu := internal_storage (take (unat (sizeof_ce CON_RES_ID ul)) rid)\<rparr>"

subsection \<open>Writing\<close>

text \<open>The octets stored at the destination; \<open>None\<close> when the payload ends before \<open>sdu_length\<close> octets.\<close>

definition write_subpdu :: "subpdu \<Rightarrow> bytes option" where
  "write_subpdu p =
    (let h0 = ucast (push_bit 6 (of_bool (sp_F_bit p)) OR (sp_lcid p AND 0x3f));
         len = word_of_int (sp_sdu_length p) :: u32;
         hdr = (if sp_header_length p = 3 then [h0, ucast (drop_bit 8 (len AND 0xff00)), ucast len]
                else if sp_header_length p = 2 then [h0, ucast len]
                else [h0]);
         n = nat (sp_sdu_length p)
     in if sp_sdu_length p < 0 then None
        else case sp_sdu p of
               Some m \<Rightarrow> if n \<le> length m then Some (hdr @ take n m) else None
             | None \<Rightarrow> Some (hdr @ replicate n 0))"

subsection \<open>Reading control elements\<close>

definition sdu_at :: "subpdu \<Rightarrow> nat \<Rightarrow> u8 option" where
  "sdu_at p i = Option.bind (sp_sdu p) (\<lambda>m. mem_at m i)"

definition get_c_rnti :: "bool \<Rightarrow> subpdu \<Rightarrow> u16 option" where
  "get_c_rnti ul p =
    (if ul \<and> sp_lcid p = CRNTI then
       Option.bind (sdu_at p 0) (\<lambda>b0. map_option (\<lambda>b1. push_bit 8 (ucast b0) OR ucast b1) (sdu_at p 1))
     else Some 0)"

definition get_phr :: "bool \<Rightarrow> subpdu \<Rightarrow> u8 option" where
  "get_phr ul p = (if ul \<and> sp_lcid p = SE_PHR then map_option (\<lambda>b. b AND 0x3f) (sdu_at p 0) else Some 0)"

definition get_pcmax :: "bool \<Rightarrow> subpdu \<Rightarrow> u8 option" where
  "get_pcmax ul p = (if ul \<and> sp_lcid p = SE_PHR then map_option (\<lambda>b. b AND 0x3f) (sdu_at p 1) else Some 0)"

record ta =
  tag_id :: u8
  ta_command :: u8

definition get_ta :: "subpdu \<Rightarrow> ta option" where
  "get_ta p =
    (if sp_lcid p = TA_CMD then
       map_option (\<lambda>b. \<lparr>tag_id = drop_bit 6 (b AND 0xc0), ta_command = b AND 0x3f\<rparr>) (sdu_at p 0)
     else Some \<lparr>tag_id = 0, ta_command = 0\<rparr>)"

definition get_sbsr :: "bool \<Rightarrow> subpdu \<Rightarrow> lcg_bsr option" where
  "get_sbsr ul p =
    (if ul \<and> (sp_lcid p = SHORT_BSR \<or> sp_lcid p = SHORT_TRUNC_BSR) then
       map_option (\<lambda>b. \<lparr>lcg_id = drop_bit 5 (b AND 0xe0), buffer_size = b AND 0x1f\<rparr>) (sdu_at p 0)
     else Some \<lparr>lcg_id = 0, buffer_size = 0\<rparr>)"

text \<open>The loop over the eight logical channel groups of a long BSR.\<close>

fun lbsr_loop :: "subpdu \<Rightarrow> u8 \<Rightarrow> nat list \<Rightarrow> nat \<Rightarrow> lcg_bsr list option" where
  "lbsr_loop p bitmap [] cnt = Some []"
| "lbsr_loop p bitmap (i # is) cnt =
    (if bitmap AND push_bit i 1 \<noteq> 0 then
       if 1 + int cnt < sp_sdu_length p then
         Option.bind (sdu_at p (1 + cnt)) (\<lambda>b.
           map_option (\<lambda>l. \<lparr>lcg_id = of_nat i, buffer_size = b\<rparr> # l) (lbsr_loop p bitmap is (cnt + 1)))
       else
         map_option (\<lambda>l. \<lparr>lcg_id = of_nat i, buffer_size = (if sp_lcid p = LONG_TRUNC_BSR then 63 else 0)\<rparr> # l)
           (lbsr_loop p bitmap is cnt)
     else lbsr_loop p bitmap is cnt)"

definition get_lbsr :: "bool \<Rightarrow> subpdu \<Rightarrow> (u8 \<times> lcg_bsr list) option" where
  "get_lbsr ul p =
    (if ul \<and> (sp_lcid p = LONG_BSR \<or> sp_lcid p = LONG_TRUNC_BSR) then
       Option.bind (sdu_at p 0) (\<lambda>bitmap.
         if bitmap = 0 then Some (bitmap, [])
         else map_option (\<lambda>l. (bitmap, l)) (lbsr_loop p bitmap [0..<8] 0))
     else Some (0, []))"

definition get_ue_con_res_id_ce :: "bool \<Rightarrow> subpdu \<Rightarrow> bytes option" where
  "get_ue_con_res_id_ce ul p =
    (if \<not> ul \<and> sp_lcid p = CON_RES_ID then
       Option.bind (sp_sdu p) (\<lambda>m. if 6 \<le> length m then Some (take 6 m) else None)
     else Some (replicate 6 0))"

definition get_ue_con_res_id_ce_packed :: "bool \<Rightarrow> subpdu \<Rightarrow> u64 option" where
  "get_ue_con_res_id_ce_packed ul p =
    (if \<not> ul \<and> sp_lcid p = CON_RES_ID then
       Option.bind (sp_sdu p) (\<lambda>m. if 6 \<le> length m then
         Some (ucast (m ! 5) OR push_bit 8 (ucast (m ! 4)) OR push_bit 16 (ucast (m ! 3)) OR
           push_bit 24 (ucast (m ! 2)) OR push_bit 32 (ucast (m ! 1)) OR push_bit 40 (ucast (m ! 0))) else None)
     else Some 0)"

section \<open>The PDU\<close>

record mac_pdu =
  mp_ulsch :: bool
  mp_subpdus :: "subpdu list"
  mp_buffer :: byte_buffer
  mp_pdu_len :: u32
  mp_remaining_len :: u32

datatype srsran_ret = SRSRAN_SUCCESS | SRSRAN_ERROR

definition init_tx :: "byte_buffer \<Rightarrow> u32 \<Rightarrow> bool \<Rightarrow> mac_pdu \<Rightarrow> mac_pdu" where
  "init_tx buf len ul pdu =
    pdu\<lparr>mp_buffer := buf, mp_subpdus := [], mp_pdu_len := len, mp_remaining_len := len, mp_ulsch := ul\<rparr>"

definition init_rx :: "bool \<Rightarrow> mac_pdu \<Rightarrow> mac_pdu" where
  "init_rx ul pdu = pdu\<lparr>mp_subpdus := [], mp_pdu_len := 0, mp_remaining_len := 0, mp_ulsch := ul\<rparr>"

definition size_header_sdu :: "bool \<Rightarrow> u32 \<Rightarrow> u32 \<Rightarrow> u32" where
  "size_header_sdu ul lcid nbytes =
    (if ul \<and> (lcid = CCCH_SIZE_48 \<or> lcid = CCCH_SIZE_64) then 1 else if nbytes < 256 then 2 else 3)"

definition add_sudpdu :: "subpdu \<Rightarrow> mac_pdu \<Rightarrow> (srsran_ret \<times> mac_pdu) option" where
  "add_sudpdu p pdu =
    (let len = get_total_length p; buf = mp_buffer pdu in
     if mp_remaining_len pdu < len then Some (SRSRAN_ERROR, pdu)
     else
       Option.bind (write_subpdu p) (\<lambda>xs.
       map_option (\<lambda>m. (SRSRAN_SUCCESS, pdu\<lparr>mp_buffer := buf\<lparr>bb_buffer := m, bb_n := bb_n buf + unat len\<rparr>,
             mp_remaining_len := mp_remaining_len pdu - len, mp_subpdus := mp_subpdus pdu @ [p]\<rparr>))
         (mem_write (bb_buffer buf) (bb_msg buf + bb_n buf) xs)))"

definition add_sdu :: "u32 \<Rightarrow> bytes \<Rightarrow> u32 \<Rightarrow> mac_pdu \<Rightarrow> (srsran_ret \<times> mac_pdu) option" where
  "add_sdu lcid payload len pdu =
    (if mp_remaining_len pdu < size_header_sdu (mp_ulsch pdu) lcid len + len then Some (SRSRAN_ERROR, pdu)
     else add_sudpdu (set_sdu (mp_ulsch pdu) lcid payload len subpdu_new) pdu)"

definition add_crnti_ce :: "u16 \<Rightarrow> mac_pdu \<Rightarrow> (srsran_ret \<times> mac_pdu) option" where
  "add_crnti_ce crnti pdu = add_sudpdu (set_c_rnti (mp_ulsch pdu) crnti subpdu_new) pdu"

definition add_se_phr_ce :: "u8 \<Rightarrow> u8 \<Rightarrow> mac_pdu \<Rightarrow> (srsran_ret \<times> mac_pdu) option" where
  "add_se_phr_ce phr pcmax pdu = add_sudpdu (set_se_phr (mp_ulsch pdu) phr pcmax subpdu_new) pdu"

definition add_sbsr_ce :: "lcg_bsr \<Rightarrow> mac_pdu \<Rightarrow> (srsran_ret \<times> mac_pdu) option" where
  "add_sbsr_ce bsr pdu = add_sudpdu (set_sbsr (mp_ulsch pdu) bsr subpdu_new) pdu"

definition add_lbsr_ce :: "lcg_bsr list \<Rightarrow> mac_pdu \<Rightarrow> (srsran_ret \<times> mac_pdu) option" where
  "add_lbsr_ce bsr pdu = add_sudpdu (set_lbsr bsr subpdu_new) pdu"

definition add_ue_con_res_id_ce :: "bytes \<Rightarrow> mac_pdu \<Rightarrow> (srsran_ret \<times> mac_pdu) option" where
  "add_ue_con_res_id_ce rid pdu = add_sudpdu (set_ue_con_res_id_ce (mp_ulsch pdu) rid subpdu_new) pdu"

text \<open>\<open>pack\<close> writes what remains as padding, without the check of \<open>add_sudpdu\<close>.\<close>

definition mac_pack :: "mac_pdu \<Rightarrow> mac_pdu option" where
  "mac_pack pdu =
    (if mp_remaining_len pdu = 0 then Some pdu
     else
       (let p = set_padding (mp_remaining_len pdu) subpdu_new; buf = mp_buffer pdu; len = get_total_length p in
        Option.bind (write_subpdu p) (\<lambda>xs.
        map_option (\<lambda>m. pdu\<lparr>mp_buffer := buf\<lparr>bb_buffer := m, bb_n := bb_n buf + unat len\<rparr>,
              mp_remaining_len := mp_remaining_len pdu - len, mp_subpdus := mp_subpdus pdu @ [p]\<rparr>)
          (mem_write (bb_buffer buf) (bb_msg buf + bb_n buf) xs))))"

text \<open>
  Parsing. \<open>m\<close> is the memory from the start of the payload on, of which \<open>len\<close> octets are the PDU; the
  result is the return value and the subPDUs stored.
\<close>

lemma read_subheader_length:
  assumes "read_subheader ul m = Some (Some p)"
  shows "1 \<le> sp_header_length p \<and> sp_header_length p \<le> 3 \<and> 0 \<le> sp_sdu_length p \<and> sp_sdu_length p < 2 ^ 16"
proof -
  have b: "uint (push_bit 8 (ucast (b1 :: u8)) OR (ucast (b2 :: u8) AND 0xff) :: u32) < 2 ^ 16" for b1 b2
  proof -
    have e: "take_bit 16 (push_bit 8 (ucast b1) OR (ucast b2 AND 0xff) :: u32) = push_bit 8 (ucast b1) OR (ucast b2 AND 0xff)"
      unfolding and_masks
      by (rule bit_word_eqI) (auto simp: bits simp del: bit_0 dest: bit_imp_le_length [where 'a = 8])
    have "uint (take_bit 16 x) < 2 ^ 16" for x :: u32
      by (simp only: unsigned_take_bit_eq take_bit_int_less_exp)
    from this [of "push_bit 8 (ucast b1) OR (ucast b2 AND 0xff)"] show ?thesis unfolding e .
  qed
  have c: "uint (sizeof_ce l u) < 2 ^ 16" for l u by (simp add: sizeof_ce_def)
  have d: "uint (b1 :: u8) < 2 ^ 16" for b1 using unsigned_less [of b1, where 'a = int] by simp
  show ?thesis
    using assms b c d
    by (auto simp: read_subheader_def Let_def subpdu_new_def split: if_splits Option.bind_splits)
qed

lemma read_subheader_total: "read_subheader ul m = Some (Some p) \<Longrightarrow> 0 < unat (get_total_length p)"
proof -
  assume "read_subheader ul m = Some (Some p)"
  from read_subheader_length [OF this] have "unat (get_total_length p) = nat (sp_header_length p + sp_sdu_length p)"
    unfolding get_total_length_def unsigned_of_int by (simp add: take_bit_int_eq_self)
  then show ?thesis using read_subheader_length [OF \<open>read_subheader ul m = Some (Some p)\<close>] by simp
qed

function mac_unpack_loop :: "bool \<Rightarrow> bytes \<Rightarrow> nat \<Rightarrow> nat \<Rightarrow> (srsran_ret \<times> subpdu list) option" where
  "mac_unpack_loop ul m len offset =
    (if len \<le> offset then Some (if offset \<noteq> len then SRSRAN_ERROR else SRSRAN_SUCCESS, [])
     else
       (case read_subheader ul (drop offset m) of
          None \<Rightarrow> None
        | Some None \<Rightarrow> Some (SRSRAN_ERROR, [])
        | Some (Some p) \<Rightarrow>
            let offset' = offset + unat (get_total_length p) in
            if sp_lcid p = PADDING then
              Some (SRSRAN_SUCCESS, [set_padding (of_nat len - of_nat offset' + 1) p])
            else map_option (\<lambda>(r, ps). (r, p # ps)) (mac_unpack_loop ul m len offset')))"
  by pat_completeness auto

termination
  by (relation "measure (\<lambda>(ul, m, len, offset). len - offset)") (auto dest!: read_subheader_total)

declare mac_unpack_loop.simps [simp del]

definition mac_unpack :: "bytes \<Rightarrow> nat \<Rightarrow> mac_pdu \<Rightarrow> (srsran_ret \<times> mac_pdu) option" where
  "mac_unpack m len pdu =
    map_option (\<lambda>(r, ps). (r, pdu\<lparr>mp_subpdus := mp_subpdus pdu @ ps\<rparr>)) (mac_unpack_loop (mp_ulsch pdu) m len 0)"

end
