(* ===== verification/Mac_Sch_Pdu_Nr_Proofs.thy ===== *)
theory Mac_Sch_Pdu_Nr_Proofs
  imports Mac_Sch_Pdu_Nr
begin

text \<open>
  Correctness of the NR MAC PDU code: every subPDU is read back as it was written, a PDU assembled
  from SDUs and control elements parses into them, and the parser stays inside the memory it is given
  up to two octets.
\<close>

section \<open>Subheaders\<close>

definition subheader_octet :: "bool \<Rightarrow> u32 \<Rightarrow> u8" where
  "subheader_octet f lcid = ucast (push_bit 6 (of_bool f) OR (lcid AND 0x3f))"

lemma subheader_octet_reads:
  assumes "lcid \<le> 63"
  shows "(subheader_octet f lcid AND 0x40 \<noteq> 0) = f" "ucast (subheader_octet f lcid AND 0x3f) = lcid"
proof -
  have l: "take_bit 6 lcid = lcid"
    using assms by (intro take_bit_unat_id) (simp add: word_le_nat_alt)
  have b: "bit (subheader_octet f lcid) 6 = f"
    unfolding subheader_octet_def and_masks by (simp add: bits)
  have "subheader_octet f lcid AND 0x40 = push_bit 6 (of_bool f)"
    by (rule bit_word_eqI) (use b in \<open>auto simp: bits bit_numerals simp del: bit_0\<close>)
  then show "(subheader_octet f lcid AND 0x40 \<noteq> 0) = f" by (cases f) simp_all
  have "ucast (subheader_octet f lcid AND 0x3f) = take_bit 6 lcid"
    unfolding subheader_octet_def and_masks by (rule bit_word_eqI) (auto simp: bits simp del: bit_0)
  with l show "ucast (subheader_octet f lcid AND 0x3f) = lcid" by simp
qed

lemma length_octets:
  assumes "n < 2 ^ 16"
  shows "uint (push_bit 8 (ucast (ucast (drop_bit 8 ((of_nat n :: u32) AND 0xff00)) :: u8)) OR
      (ucast (ucast (of_nat n :: u32) :: u8) AND 0xff) :: u32) = int n"
proof -
  let ?n = "of_nat n :: u32"
  have n: "unat ?n = n" using assms by (intro unat_of_nat_eq) simp
  have "take_bit 16 ?n = ?n" using assms n by (intro take_bit_unat_id) simp
  moreover have m: "0xff00 = (push_bit 8 (mask 8) :: u32)" by (simp add: mask_numeral)
  have "push_bit 8 (ucast (ucast (drop_bit 8 (?n AND 0xff00)) :: u8)) OR (ucast (ucast ?n :: u8) AND 0xff) =
      take_bit 16 ?n"
    unfolding and_masks m drop_and_field by (rule bit_word_eqI) (auto simp: bits simp del: bit_0)
  ultimately show ?thesis using n uint_nat [of ?n] by simp
qed

text \<open>Whether a length follows depends on the identifier only.\<close>

definition length_coded :: "bool \<Rightarrow> u32 \<Rightarrow> bool" where
  "length_coded ul lcid \<longleftrightarrow>
    \<not> (ul \<and> (lcid = CCCH_SIZE_48 \<or> lcid = CCCH_SIZE_64)) \<and> (lcid \<le> 32 \<or> is_var_len_ce ul lcid)"

lemma has_length_field_iff: "has_length_field ul p \<longleftrightarrow> length_coded ul (sp_lcid p)"
  by (auto simp: has_length_field_def length_coded_def is_sdu_def is_ul_ccch_def)

text \<open>The three forms of a subheader, each read back in front of any octets.\<close>

lemma read_fixed:
  assumes "lcid \<le> 63" "is_valid_lcid ul lcid" "\<not> length_coded ul lcid"
  shows "read_subheader ul (subheader_octet False lcid # rest) = Some (Some (subpdu_new\<lparr>sp_lcid := lcid,
    sp_header_length := 1, sp_sdu_length := uint (sizeof_ce lcid ul), sp_sdu := Some rest\<rparr>))"
  using assms subheader_octet_reads [OF assms(1), of False]
  by (simp add: read_subheader_def mem_at_def Let_def subpdu_new_def has_length_field_iff)

lemma read_short:
  assumes "lcid \<le> 63" "is_valid_lcid ul lcid" "length_coded ul lcid" "n < 256"
  shows "read_subheader ul (subheader_octet False lcid # ucast (of_nat n :: u32) # rest) = Some (Some (subpdu_new\<lparr>
    sp_lcid := lcid, sp_header_length := 2, sp_sdu_length := int n, sp_sdu := Some rest\<rparr>))"
proof -
  have "uint (ucast (of_nat n :: u32) :: u8) = int n" using assms(4) by (simp add: unsigned_of_nat take_bit_nat_eq_self)
  then show ?thesis
    using assms subheader_octet_reads [OF assms(1), of False]
    by (simp add: read_subheader_def mem_at_def Let_def subpdu_new_def has_length_field_iff)
qed

lemma read_long:
  assumes "lcid \<le> 63" "is_valid_lcid ul lcid" "length_coded ul lcid" "n < 2 ^ 16"
  shows "read_subheader ul (subheader_octet True lcid # ucast (drop_bit 8 ((of_nat n :: u32) AND 0xff00)) #
      ucast (of_nat n :: u32) # rest) = Some (Some (subpdu_new\<lparr>
    sp_lcid := lcid, sp_F_bit := True, sp_header_length := 3, sp_sdu_length := int n, sp_sdu := Some rest\<rparr>))"
  using assms subheader_octet_reads [OF assms(1), of True] length_octets [OF assms(4)]
  by (simp add: read_subheader_def mem_at_def Let_def subpdu_new_def has_length_field_iff)

section \<open>SubPDUs\<close>

text \<open>What a parsed subPDU carries.\<close>

definition view :: "subpdu \<Rightarrow> (u32 \<times> bytes) option" where
  "view p = map_option (\<lambda>m. (sp_lcid p, take (nat (sp_sdu_length p)) m)) (sp_sdu p)"

text \<open>
  A subPDU \<open>p\<close> is the encoding of the identifier \<open>lcid\<close> with payload \<open>pl\<close>: writing it yields as many
  octets as its total length says, and these octets are parsed to the same, whatever follows them.
\<close>

definition encodes :: "bool \<Rightarrow> subpdu \<Rightarrow> u32 \<Rightarrow> bytes \<Rightarrow> bool" where
  "encodes ul p lcid pl \<longleftrightarrow>
    (\<exists>xs. write_subpdu p = Some xs \<and> unat (get_total_length p) = length xs \<and> 0 < length xs \<and>
      (\<forall>rest. \<exists>p'. read_subheader ul (xs @ rest) = Some (Some p') \<and> get_total_length p' = get_total_length p \<and>
        sp_lcid p' = lcid \<and> view p' = Some (lcid, pl)))"

lemma total_length_nat: "unat (get_total_length (p\<lparr>sp_header_length := int h, sp_sdu_length := int n\<rparr>)) = h + n"
  if "h + n < 2 ^ 32" for p
  using that unat_of_nat_eq [of "h + n", where 'a = 32] by (simp add: get_total_length_def)

lemma encodes_fixed:
  assumes "lcid \<le> 63" "is_valid_lcid ul lcid" "\<not> length_coded ul lcid" "unat (sizeof_ce lcid ul) = length pl"
    "sp_lcid p = lcid" "sp_F_bit p = False" "sp_header_length p = 1" "sp_sdu_length p = int (length pl)"
    "sp_sdu p = Some (pl @ behind)"
  shows "encodes ul p lcid pl"
proof -
  have "unat (sizeof_ce lcid ul) < 2 ^ 16" by (simp add: sizeof_ce_def)
  then have l: "length pl < 2 ^ 16" using assms(4) by simp
  have w: "write_subpdu p = Some (subheader_octet False lcid # pl)"
    using assms(5-9) by (simp add: write_subpdu_def subheader_octet_def Let_def)
  have t: "get_total_length p = of_nat (1 + length pl)" using assms(7,8) by (simp add: get_total_length_def)
  moreover have "unat (of_nat (1 + length pl) :: u32) = 1 + length pl" using l by (intro unat_of_nat_eq) simp
  moreover have u: "uint (sizeof_ce lcid ul) = int (length pl)" using assms(4) uint_nat [of "sizeof_ce lcid ul"] by simp
  ultimately show ?thesis
    unfolding encodes_def w using read_fixed [OF assms(1-3)]
    by (auto simp: u view_def get_total_length_def assms(7,8))
qed

lemma encodes_coded:
  assumes "lcid \<le> 63" "is_valid_lcid ul lcid" "length_coded ul lcid" "length pl < 2 ^ 16"
    "sp_lcid p = lcid" "sp_F_bit p = (256 \<le> length pl)" "sp_header_length p = (if 256 \<le> length pl then 3 else 2)"
    "sp_sdu_length p = int (length pl)" "sp_sdu p = Some (pl @ behind)"
  shows "encodes ul p lcid pl"
proof -
  let ?n = "of_nat (length pl) :: u32"
  let ?h = "if 256 \<le> length pl
    then [subheader_octet True lcid, ucast (drop_bit 8 (?n AND 0xff00)), ucast ?n] else [subheader_octet False lcid, ucast ?n]"
  have w: "write_subpdu p = Some (?h @ pl)"
    using assms(5-9) by (simp add: write_subpdu_def subheader_octet_def Let_def)
  have t: "get_total_length p = of_nat (length ?h + length pl)" using assms(7,8) by (simp add: get_total_length_def)
  moreover have "unat (of_nat (length ?h + length pl) :: u32) = length ?h + length pl"
    using assms(4) by (intro unat_of_nat_eq) simp
  moreover have "\<exists>p'. read_subheader ul ((?h @ pl) @ rest) = Some (Some p') \<and> get_total_length p' = get_total_length p \<and>
      sp_lcid p' = lcid \<and> view p' = Some (lcid, pl)" for rest
    using read_short [OF assms(1-3), of "length pl" "pl @ rest"] read_long [OF assms(1-4), of "pl @ rest"]
    by (simp add: view_def get_total_length_def assms(7,8) )
  ultimately show ?thesis unfolding encodes_def w by (auto simp: assms(7))
qed

text \<open>What a sender puts into a PDU, and the subPDU the code builds from it.\<close>

datatype mac_item = Sdu u32 bytes | Crnti u16 | Se_phr u8 u8 | Sbsr lcg_bsr | Con_res bytes

fun item_subpdu :: "bool \<Rightarrow> mac_item \<Rightarrow> subpdu" where
  "item_subpdu ul (Sdu lcid pl) = set_sdu ul lcid pl (of_nat (length pl)) subpdu_new"
| "item_subpdu ul (Crnti c) = set_c_rnti ul c subpdu_new"
| "item_subpdu ul (Se_phr a b) = set_se_phr ul a b subpdu_new"
| "item_subpdu ul (Sbsr b) = set_sbsr ul b subpdu_new"
| "item_subpdu ul (Con_res r) = set_ue_con_res_id_ce ul r subpdu_new"

fun item_ok :: "bool \<Rightarrow> mac_item \<Rightarrow> bool" where
  "item_ok ul (Sdu lcid pl) \<longleftrightarrow> length pl < 2 ^ 16 \<and>
    (if ul \<and> lcid = CCCH_SIZE_64 then length pl = 6 \<or> length pl = 8
     else if ul \<and> lcid = CCCH_SIZE_48 then length pl = 6
     else lcid \<le> 32 \<and> (lcid = CCCH \<longrightarrow> length pl \<noteq> 6))"
| "item_ok ul (Crnti c) \<longleftrightarrow> ul"
| "item_ok ul (Se_phr a b) \<longleftrightarrow> ul"
| "item_ok ul (Sbsr b) \<longleftrightarrow> ul"
| "item_ok ul (Con_res r) \<longleftrightarrow> \<not> ul \<and> length r = 6"

fun item_view :: "mac_item \<Rightarrow> u32 \<times> bytes" where
  "item_view (Sdu lcid pl) = (if lcid = CCCH_SIZE_64 \<and> length pl = 6 then CCCH_SIZE_48 else lcid, pl)"
| "item_view (Crnti c) = (CRNTI, [ucast (drop_bit 8 c), ucast c])"
| "item_view (Se_phr a b) = (SE_PHR, [a AND 0x3f, b AND 0x3f])"
| "item_view (Sbsr b) = (SHORT_BSR, [push_bit 5 (lcg_id b AND 0x07) OR (buffer_size b AND 0x1f)])"
| "item_view (Con_res r) = (CON_RES_ID, r)"

lemma sdu_len:
  assumes "length pl < 2 ^ 16"
  shows "sint (of_nat (length pl) :: u32) = int (length pl)" "unat (of_nat (length pl) :: u32) = length pl"
    "(of_nat (length pl) :: u32) = 6 \<longleftrightarrow> length pl = 6"
proof -
  show u: "unat (of_nat (length pl) :: u32) = length pl" using assms by (intro unat_of_nat_eq) simp
  then have "uint (of_nat (length pl) :: u32) = int (length pl)" by (metis uint_nat)
  then show "sint (of_nat (length pl) :: u32) = int (length pl)"
    using sint_small [of "of_nat (length pl) :: u32"] u assms by simp
  show "(of_nat (length pl) :: u32) = 6 \<longleftrightarrow> length pl = 6"
    using u by (simp add: word_unat_eq_iff)
qed

lemma item_encodes:
  assumes "item_ok ul it"
  shows "encodes ul (item_subpdu ul it) (fst (item_view it)) (snd (item_view it)) \<and> fst (item_view it) \<noteq> PADDING"
proof (cases it)
  case (Sdu lcid pl)
  have len: "length pl < 2 ^ 16" using assms Sdu by simp
  note L = sdu_len [OF len]
  show ?thesis
  proof (cases "ul \<and> (lcid = CCCH_SIZE_64 \<or> lcid = CCCH_SIZE_48)")
    case True
    then have "encodes ul (item_subpdu ul it) (fst (item_view it)) pl"
      using assms Sdu L
      by (intro encodes_fixed [where behind = "[]"])
        (auto simp: set_sdu_def Let_def is_ul_ccch_def sizeof_ce_def is_valid_lcid_def length_coded_def
          MAC_SUBHEADER_LEN_THRESHOLD_def subpdu_new_def is_var_len_ce_def split: if_splits)
    then show ?thesis using True Sdu by auto
  next
    case False
    then have l: "lcid \<le> 32" "\<not> (lcid = 0 \<and> length pl = 6)" using assms Sdu by (auto split: if_splits)
    then have l63: "lcid \<le> 63" "lcid \<noteq> 63" by (auto simp: word_le_nat_alt)
    have v: "is_valid_lcid ul lcid" "length_coded ul lcid" "lcid \<le> 63" "lcid \<noteq> 63"
      using l l63 False by (auto simp: is_valid_lcid_def length_coded_def)
    have "encodes ul (item_subpdu ul it) lcid pl"
      using Sdu L l False v len
      by (intro encodes_coded [where behind = "[]"])
        (auto simp: set_sdu_def Let_def is_ul_ccch_def sizeof_ce_def MAC_SUBHEADER_LEN_THRESHOLD_def subpdu_new_def)
    then show ?thesis using Sdu l v by auto
  qed
next
  case (Crnti c)
  have "drop_bit 8 (c AND 0xff00) = drop_bit 8 c"
  proof -
    have m: "(0xff00 :: u16) = push_bit 8 (mask 8)" by (simp add: mask_numeral)
    show ?thesis
      unfolding m drop_and_field by (rule bit_word_eqI) (auto simp: bits simp del: bit_0 dest: bit_imp_le_length)
  qed
  moreover have "(ucast (c AND 0x00ff) :: u8) = ucast c"
    unfolding and_masks by (rule bit_word_eqI) (auto simp: bits simp del: bit_0)
  ultimately show ?thesis
    using assms Crnti
    by (auto intro!: encodes_fixed [where behind = "replicate 7 0"] simp: is_valid_lcid_def length_coded_def
        is_var_len_ce_def sizeof_ce_def set_c_rnti_def subpdu_new_def internal_storage_def)
next
  case (Se_phr a b)
  then show ?thesis
    using assms
    by (auto intro!: encodes_fixed [where behind = "replicate 7 0"] simp: is_valid_lcid_def length_coded_def
        is_var_len_ce_def sizeof_ce_def set_se_phr_def subpdu_new_def internal_storage_def)
next
  case (Sbsr b)
  then show ?thesis
    using assms
    by (auto intro!: encodes_fixed [where behind = "replicate 8 0"] simp: is_valid_lcid_def length_coded_def
        is_var_len_ce_def sizeof_ce_def set_sbsr_def subpdu_new_def internal_storage_def)
next
  case (Con_res r)
  then show ?thesis
    using assms
    by (auto intro!: encodes_fixed [where behind = "replicate 3 0"] simp: is_valid_lcid_def length_coded_def
        is_var_len_ce_def sizeof_ce_def set_ue_con_res_id_ce_def subpdu_new_def internal_storage_def)
qed

section \<open>PDUs\<close>

fun add_item :: "mac_item \<Rightarrow> mac_pdu \<Rightarrow> (srsran_ret \<times> mac_pdu) option" where
  "add_item (Sdu lcid pl) pdu = add_sdu lcid pl (of_nat (length pl)) pdu"
| "add_item (Crnti c) pdu = add_crnti_ce c pdu"
| "add_item (Se_phr a b) pdu = add_se_phr_ce a b pdu"
| "add_item (Sbsr b) pdu = add_sbsr_ce b pdu"
| "add_item (Con_res r) pdu = add_ue_con_res_id_ce r pdu"

text \<open>A sender that adds its items one by one and stops at the first that is refused.\<close>

fun add_items :: "mac_item list \<Rightarrow> mac_pdu \<Rightarrow> mac_pdu option" where
  "add_items [] pdu = Some pdu"
| "add_items (it # its) pdu =
    (case add_item it pdu of Some (SRSRAN_SUCCESS, pdu') \<Rightarrow> add_items its pdu' | _ \<Rightarrow> None)"

definition item_bytes :: "bool \<Rightarrow> mac_item \<Rightarrow> bytes" where
  "item_bytes ul it = the (write_subpdu (item_subpdu ul it))"

definition items_size :: "bool \<Rightarrow> mac_item list \<Rightarrow> nat" where
  "items_size ul its = (\<Sum>it\<leftarrow>its. length (item_bytes ul it))"

lemma item_bytes_written:
  assumes "item_ok ul it"
  shows "write_subpdu (item_subpdu ul it) = Some (item_bytes ul it)"
    "unat (get_total_length (item_subpdu ul it)) = length (item_bytes ul it)" "0 < length (item_bytes ul it)"
    "\<exists>p'. read_subheader ul (item_bytes ul it @ rest) = Some (Some p') \<and>
        unat (get_total_length p') = length (item_bytes ul it) \<and> sp_lcid p' \<noteq> PADDING \<and> view p' = Some (item_view it)"
proof -
  obtain xs where xs: "write_subpdu (item_subpdu ul it) = Some xs" "unat (get_total_length (item_subpdu ul it)) = length xs"
    "0 < length xs" "\<And>rest. \<exists>p'. read_subheader ul (xs @ rest) = Some (Some p') \<and>
      get_total_length p' = get_total_length (item_subpdu ul it) \<and> sp_lcid p' = fst (item_view it) \<and>
      view p' = Some (fst (item_view it), snd (item_view it))"
    using item_encodes [OF assms] unfolding encodes_def by blast
  then have e: "item_bytes ul it = xs" by (simp add: item_bytes_def)
  show "write_subpdu (item_subpdu ul it) = Some (item_bytes ul it)"
    "unat (get_total_length (item_subpdu ul it)) = length (item_bytes ul it)" "0 < length (item_bytes ul it)"
    using xs by (simp_all add: e)
  show "\<exists>p'. read_subheader ul (item_bytes ul it @ rest) = Some (Some p') \<and>
        unat (get_total_length p') = length (item_bytes ul it) \<and> sp_lcid p' \<noteq> PADDING \<and> view p' = Some (item_view it)"
    using xs(4) [of rest] xs(2) item_encodes [OF assms] by (auto simp: e)
qed

text \<open>The space check of \<open>add_sdu\<close> asks for exactly the octets that are written.\<close>

lemma sdu_space:
  assumes "item_ok ul (Sdu lcid pl)"
  shows "size_header_sdu ul lcid (of_nat (length pl)) + of_nat (length pl) = get_total_length (item_subpdu ul (Sdu lcid pl))"
proof -
  have len: "length pl < 2 ^ 16" using assms by simp
  note L = sdu_len [OF len]
  have lt: "(of_nat (length pl) :: u32) < 256 \<longleftrightarrow> length pl < 256" using L(2) by (simp add: word_less_nat_alt)
  show ?thesis
  proof (cases "ul \<and> (lcid = CCCH_SIZE_64 \<or> lcid = CCCH_SIZE_48)")
    case True
    then show ?thesis
      using assms L by (auto simp: size_header_sdu_def get_total_length_def set_sdu_def Let_def is_ul_ccch_def
          sizeof_ce_def MAC_SUBHEADER_LEN_THRESHOLD_def split: if_splits)
  next
    case False
    then have "\<not> (lcid = 0 \<and> length pl = 6)" using assms by (auto split: if_splits)
    then show ?thesis
      using False L lt by (auto simp: size_header_sdu_def get_total_length_def set_sdu_def Let_def is_ul_ccch_def
          sizeof_ce_def MAC_SUBHEADER_LEN_THRESHOLD_def)
  qed
qed

lemma add_item_eq: "item_ok (mp_ulsch pdu) it \<Longrightarrow> add_item it pdu = add_sudpdu (item_subpdu (mp_ulsch pdu) it) pdu"
proof (cases it)
  case (Sdu lcid pl)
  assume "item_ok (mp_ulsch pdu) it"
  then have "size_header_sdu (mp_ulsch pdu) lcid (of_nat (length pl)) + of_nat (length pl) =
      get_total_length (item_subpdu (mp_ulsch pdu) it)"
    using sdu_space Sdu by blast
  then show ?thesis
    unfolding Sdu add_item.simps add_sdu_def by (simp add: add_sudpdu_def Sdu)
qed (simp_all add: add_crnti_ce_def add_se_phr_ce_def add_sbsr_ce_def add_ue_con_res_id_ce_def)

text \<open>One item more in the buffer.\<close>

definition holds :: "mac_pdu \<Rightarrow> bytes \<Rightarrow> bool" where
  "holds pdu xs \<longleftrightarrow> bb_ok (mp_buffer pdu) \<and> bb_data (mp_buffer pdu) = xs \<and>
    bb_msg (mp_buffer pdu) + length xs + unat (mp_remaining_len pdu) \<le> length (bb_buffer (mp_buffer pdu))"

lemma append_subpdu:
  assumes w: "write_subpdu p = Some ys" "unat (get_total_length p) = length ys"
    and h: "holds pdu xs" and space: "length ys \<le> unat (mp_remaining_len pdu)"
  obtains m where "mem_write (bb_buffer (mp_buffer pdu)) (bb_msg (mp_buffer pdu) + bb_n (mp_buffer pdu)) ys = Some m"
    "holds (pdu\<lparr>mp_buffer := mp_buffer pdu\<lparr>bb_buffer := m, bb_n := bb_n (mp_buffer pdu) + unat (get_total_length p)\<rparr>,
       mp_remaining_len := mp_remaining_len pdu - get_total_length p, mp_subpdus := sps\<rparr>) (xs @ ys)"
    "unat (mp_remaining_len pdu - get_total_length p) = unat (mp_remaining_len pdu) - length ys"
proof -
  let ?b = "mp_buffer pdu"
  have n: "bb_n ?b = length xs" using h length_bb_data [of ?b] by (simp add: holds_def)
  have "length ys \<le> length (bb_buffer ?b) - bb_msg ?b - bb_n ?b" using h space n by (auto simp: holds_def)
  from bb.append_ok [OF _ this] obtain b' where b': "append_bytes ?b ys = Some b'" "bb_ok b'" "bb_data b' = bb_data ?b @ ys"
    using h unfolding holds_def by blast
  obtain m where m: "mem_write (bb_buffer ?b) (bb_msg ?b + bb_n ?b) ys = Some m"
    and eq: "b' = ?b\<lparr>bb_buffer := m, bb_n := bb_n ?b + length ys\<rparr>"
    using b'(1) by (auto simp: append_bytes_def)
  have ml: "length m = length (bb_buffer ?b)" using m by (auto simp: mem_write_def split: if_splits)
  have r: "unat (mp_remaining_len pdu - get_total_length p) = unat (mp_remaining_len pdu) - length ys"
    using w(2) space by (simp add: unat_sub word_le_nat_alt)
  show ?thesis
    by (rule that [OF m _ r]) (use b' h ml r space w(2) in \<open>auto simp: holds_def eq\<close>)
qed

lemma add_items_ok:
  assumes "list_all (item_ok (mp_ulsch pdu)) its" "holds pdu xs" "items_size (mp_ulsch pdu) its \<le> unat (mp_remaining_len pdu)"
  shows "\<exists>pdu'. add_items its pdu = Some pdu' \<and> holds pdu' (xs @ concat (map (item_bytes (mp_ulsch pdu)) its)) \<and>
    unat (mp_remaining_len pdu') = unat (mp_remaining_len pdu) - items_size (mp_ulsch pdu) its \<and>
    mp_ulsch pdu' = mp_ulsch pdu"
  using assms
proof (induction its arbitrary: pdu xs)
  case (Cons it its)
  let ?ul = "mp_ulsch pdu" and ?p = "item_subpdu (mp_ulsch pdu) it"
  have ok: "item_ok ?ul it" using Cons.prems(1) by simp
  note W = item_bytes_written [OF ok]
  have size: "length (item_bytes ?ul it) + items_size ?ul its \<le> unat (mp_remaining_len pdu)"
    using Cons.prems(3) by (simp add: items_size_def)
  then have space: "length (item_bytes ?ul it) \<le> unat (mp_remaining_len pdu)" by linarith
  obtain m where m: "mem_write (bb_buffer (mp_buffer pdu)) (bb_msg (mp_buffer pdu) + bb_n (mp_buffer pdu)) (item_bytes ?ul it) = Some m"
    and h: "holds (pdu\<lparr>mp_buffer := mp_buffer pdu\<lparr>bb_buffer := m, bb_n := bb_n (mp_buffer pdu) + unat (get_total_length ?p)\<rparr>,
       mp_remaining_len := mp_remaining_len pdu - get_total_length ?p, mp_subpdus := mp_subpdus pdu @ [?p]\<rparr>)
       (xs @ item_bytes ?ul it)"
    and r: "unat (mp_remaining_len pdu - get_total_length ?p) = unat (mp_remaining_len pdu) - length (item_bytes ?ul it)"
    using append_subpdu [OF W(1,2) Cons.prems(2) space] by metis
  let ?pdu = "pdu\<lparr>mp_buffer := mp_buffer pdu\<lparr>bb_buffer := m, bb_n := bb_n (mp_buffer pdu) + unat (get_total_length ?p)\<rparr>,
       mp_remaining_len := mp_remaining_len pdu - get_total_length ?p, mp_subpdus := mp_subpdus pdu @ [?p]\<rparr>"
  have "add_item it pdu = Some (SRSRAN_SUCCESS, ?pdu)"
    using m space W(1,2) by (simp add: add_item_eq [OF ok] add_sudpdu_def Let_def word_less_nat_alt not_less)
  moreover have "\<exists>pdu'. add_items its ?pdu = Some pdu' \<and>
      holds pdu' ((xs @ item_bytes ?ul it) @ concat (map (item_bytes (mp_ulsch ?pdu)) its)) \<and>
      unat (mp_remaining_len pdu') = unat (mp_remaining_len ?pdu) - items_size (mp_ulsch ?pdu) its \<and>
      mp_ulsch pdu' = mp_ulsch ?pdu"
    using Cons.prems(1) size r by (intro Cons.IH h) simp_all
  ultimately show ?case using r by (simp add: items_size_def)
qed (simp add: items_size_def)

text \<open>Padding fills the PDU.\<close>

lemma mac_pack_ok:
  assumes h: "holds pdu xs" and r: "unat (mp_remaining_len pdu) < 2 ^ 16"
  shows "\<exists>pdu'. mac_pack pdu = Some pdu' \<and> bb_ok (mp_buffer pdu') \<and> bb_data (mp_buffer pdu') =
    xs @ (case unat (mp_remaining_len pdu) of 0 \<Rightarrow> [] | Suc n \<Rightarrow> subheader_octet False PADDING # replicate n 0)"
proof (cases "unat (mp_remaining_len pdu)")
  case 0
  then have "mp_remaining_len pdu = 0" by (simp add: unat_eq_0)
  then show ?thesis using h by (simp add: mac_pack_def holds_def)
next
  case (Suc n)
  let ?p = "set_padding (mp_remaining_len pdu) subpdu_new"
  have "of_nat (unat (mp_remaining_len pdu)) = mp_remaining_len pdu" by simp
  then have "mp_remaining_len pdu = of_nat n + 1" unfolding Suc by (simp add: add.commute)
  then have "mp_remaining_len pdu - 1 = of_nat n" by simp
  moreover have "sint (of_nat n :: u32) = int n"
    using Suc r sint_small [of "of_nat n :: u32"] unat_of_nat_eq [of n, where 'a = 32] uint_nat [of "of_nat n :: u32"]
    by simp
  ultimately have p: "sp_sdu_length ?p = int n" "sp_header_length ?p = 1" "sp_lcid ?p = PADDING" "sp_sdu ?p = None"
    "\<not> sp_F_bit ?p"
    by (simp_all add: set_padding_def subpdu_new_def)
  have w: "write_subpdu ?p = Some (subheader_octet False PADDING # replicate n 0)"
    using p by (simp add: write_subpdu_def subheader_octet_def Let_def)
  have t: "unat (get_total_length ?p) = length (subheader_octet False PADDING # replicate n 0)"
    using p Suc r unat_of_nat_eq [of "1 + n", where 'a = 32] by (simp add: get_total_length_def)
  have "length (subheader_octet False PADDING # replicate n 0) \<le> unat (mp_remaining_len pdu)" using Suc by simp
  from append_subpdu [OF w t h this] obtain m where
    m: "mem_write (bb_buffer (mp_buffer pdu)) (bb_msg (mp_buffer pdu) + bb_n (mp_buffer pdu))
      (subheader_octet False PADDING # replicate n 0) = Some m"
    "holds (pdu\<lparr>mp_buffer := mp_buffer pdu\<lparr>bb_buffer := m, bb_n := bb_n (mp_buffer pdu) + unat (get_total_length ?p)\<rparr>,
       mp_remaining_len := mp_remaining_len pdu - get_total_length ?p, mp_subpdus := mp_subpdus pdu @ [?p]\<rparr>)
       (xs @ subheader_octet False PADDING # replicate n 0)"
    by metis
  have "mp_remaining_len pdu \<noteq> 0" using Suc by auto
  then show ?thesis using m w Suc by (simp add: mac_pack_def Let_def holds_def)
qed

text \<open>Parsing walks over the items.\<close>

lemma unpack_items:
  assumes "list_all (item_ok ul) its" "drop offset m = concat (map (item_bytes ul) its) @ rest"
    "offset + items_size ul its \<le> len"
  shows "\<exists>ps. map view ps = map (Some \<circ> item_view) its \<and>
    mac_unpack_loop ul m len offset = map_option (\<lambda>(r, qs). (r, ps @ qs)) (mac_unpack_loop ul m len (offset + items_size ul its))"
  using assms
proof (induction its arbitrary: offset)
  case Nil
  have "mac_unpack_loop ul m len offset = map_option (\<lambda>(r, qs). (r, [] @ qs)) (mac_unpack_loop ul m len offset)"
    by (cases "mac_unpack_loop ul m len offset") auto
  then show ?case by (simp add: items_size_def)
next
  case (Cons it its)
  let ?xs = "item_bytes ul it" and ?more = "concat (map (item_bytes ul) its) @ rest"
  have ok: "item_ok ul it" using Cons.prems(1) by simp
  obtain p' where p': "read_subheader ul (?xs @ ?more) = Some (Some p')" "unat (get_total_length p') = length ?xs"
    "sp_lcid p' \<noteq> PADDING" "view p' = Some (item_view it)"
    using item_bytes_written(4) [OF ok] by blast
  have d: "drop offset m = ?xs @ ?more" using Cons.prems(2) by simp
  then have d2: "drop (offset + length ?xs) m = ?more"
    using drop_drop [of "length ?xs" offset m] by (simp add: add.commute)
  have s: "items_size ul (it # its) = length ?xs + items_size ul its" by (simp add: items_size_def)
  then have "offset + length ?xs + items_size ul its \<le> len" using Cons.prems(3) by simp
  moreover have "list_all (item_ok ul) its" using Cons.prems(1) by simp
  ultimately obtain ps where ps: "map view ps = map (Some \<circ> item_view) its"
    "mac_unpack_loop ul m len (offset + length ?xs) =
      map_option (\<lambda>(r, qs). (r, ps @ qs)) (mac_unpack_loop ul m len (offset + length ?xs + items_size ul its))"
    using Cons.IH [OF _ d2] by blast
  have "\<not> len \<le> offset" using Cons.prems(3) item_bytes_written(3) [OF ok] s by linarith
  then have "mac_unpack_loop ul m len offset =
      map_option (\<lambda>(r, qs). (r, (p' # ps) @ qs)) (mac_unpack_loop ul m len (offset + items_size ul (it # its)))"
    using p' ps(2) by (subst mac_unpack_loop.simps)
      (simp add: d Let_def s option.map_comp comp_def case_prod_unfold add.assoc)
  moreover have "map view (p' # ps) = map (Some \<circ> item_view) (it # its)" using ps(1) p'(4) by simp
  ultimately show ?case by blast
qed



text \<open>
  : the parser of a received PDU terminates with a result and reads at most two octets behind the
  announced length, whatever the octets are. With no octet behind a PDU that ends inside a subheader,
  it reads past the memory.
\<close>

theorem mac_unpack_bounds:
  assumes "len + 2 \<le> length m"
  shows "(\<exists>r rx. mac_unpack m len pdu = Some (r, rx)) \<and> mac_unpack [1] 1 (init_rx ul pdu) = None"
proof -
  have "mac_unpack_loop ul m len offset \<noteq> None" for ul offset
  proof (induction "len - offset" arbitrary: offset rule: less_induct)
    case less
    show ?case
    proof (cases "len \<le> offset")
      case False
      have "length (drop offset m) \<ge> 3" using False assms by simp
      then have "read_subheader ul (drop offset m) \<noteq> None"
        by (auto simp: read_subheader_def mem_at_def Let_def split: option.splits)
      moreover have "mac_unpack_loop ul m len (offset + unat (get_total_length p)) \<noteq> None"
        if "read_subheader ul (drop offset m) = Some (Some p)" for p
        using read_subheader_total [OF that] False by (intro less) simp
      ultimately show ?thesis
        using False by (subst mac_unpack_loop.simps) (auto simp: Let_def split: option.splits)
    qed (subst mac_unpack_loop.simps, simp)
  qed
  then have "\<exists>x. mac_unpack_loop (mp_ulsch pdu) m len 0 = Some x" by blast
  moreover have "mac_unpack [1] 1 (init_rx ul pdu) = None"
    unfolding mac_unpack_def by (subst mac_unpack_loop.simps)
      (simp add: read_subheader_def mem_at_def Let_def init_rx_def subpdu_new_def is_valid_lcid_def has_length_field_def
        is_sdu_def is_ul_ccch_def)
  ultimately show ?thesis by (auto simp: mac_unpack_def)
qed

theorem mac_unpack_bounds_witness:
  "\<exists>r rx. mac_unpack [0x7f, 0, 0] 1 \<lparr>mp_ulsch = False, mp_subpdus = [], mp_buffer = bb_new [], mp_pdu_len = 0,
     mp_remaining_len = 0\<rparr> = Some (r, rx)"
  using mac_unpack_bounds [of 1 "[0x7f, 0, 0]"] by simp

text \<open>The long BSR as a list comprehension: the groups whose bit is set, in order, with their octets.\<close>

definition lbsr_ref :: "subpdu \<Rightarrow> u8 \<Rightarrow> bytes \<Rightarrow> lcg_bsr list" where
  "lbsr_ref p bitmap sizes =
    map (\<lambda>(j, i). \<lparr>lcg_id = of_nat i, buffer_size =
        (if 1 + int j < sp_sdu_length p then sizes ! j else if sp_lcid p = LONG_TRUNC_BSR then 63 else 0)\<rparr>)
      (enumerate 0 (filter (bit bitmap) [0..<8]))"

lemma lcg_enabled: "(bitmap :: u8) AND push_bit i 1 \<noteq> 0 \<longleftrightarrow> bit bitmap i"
  by (simp add: push_bit_eq_mult and_exp_eq_0_iff_not_bit)

lemma lbsr_loop_rest:
  "\<not> 1 + int cnt < sp_sdu_length p \<Longrightarrow> lbsr_loop p bitmap is cnt =
    Some (map (\<lambda>i. \<lparr>lcg_id = of_nat i, buffer_size = (if sp_lcid p = LONG_TRUNC_BSR then 63 else 0)\<rparr>) (filter (bit bitmap) is))"
  by (induction p bitmap "is" cnt rule: lbsr_loop.induct) (auto simp: lcg_enabled simp del: push_bit_of_1)

lemma lbsr_loop_ref:
  assumes "sp_sdu p = Some (b # sizes)" "sp_sdu_length p \<le> 1 + int (length sizes)"
  shows "lbsr_loop p bitmap is cnt = Some (map (\<lambda>(j, i). \<lparr>lcg_id = of_nat i, buffer_size =
        (if 1 + int j < sp_sdu_length p then sizes ! j else if sp_lcid p = LONG_TRUNC_BSR then 63 else 0)\<rparr>)
      (enumerate cnt (filter (bit bitmap) is)))"
  using assms
proof (induction p bitmap "is" cnt rule: lbsr_loop.induct)
  case (2 p bitmap i "is" cnt)
  show ?case
  proof (cases "bit bitmap i \<and> \<not> 1 + int cnt < sp_sdu_length p")
    case True
    have "map (\<lambda>(j, i). \<lparr>lcg_id = of_nat i, buffer_size =
        (if 1 + int j < sp_sdu_length p then sizes ! j else if sp_lcid p = LONG_TRUNC_BSR then 63 else 0)\<rparr>)
      (enumerate (Suc cnt) (filter (bit bitmap) is)) =
      map (\<lambda>i. \<lparr>lcg_id = of_nat i, buffer_size = (if sp_lcid p = LONG_TRUNC_BSR then 63 else 0)\<rparr>) (filter (bit bitmap) is)"
      using True by (intro nth_equalityI) (auto simp: nth_enumerate_eq)
    then show ?thesis using True lbsr_loop_rest [of cnt p bitmap "is"] by (simp add: lcg_enabled del: push_bit_of_1)
  next
    case False
    have "sdu_at p (Suc cnt) = Some (sizes ! cnt)" if "1 + int cnt < sp_sdu_length p"
      using that "2.prems" by (simp add: sdu_at_def mem_at_def)
    then show ?thesis using False 2 by (auto simp: lcg_enabled simp del: push_bit_of_1)
  qed
qed simp

text \<open>
  : the parser of a long or long truncated BSR returns exactly the groups of the bitmap in ascending
  order, each with its octet, and 63 for the groups that a truncated report leaves out.
\<close>

theorem get_lbsr_equiv:
  assumes "sp_lcid p \<in> {LONG_BSR, LONG_TRUNC_BSR}" "sp_sdu p = Some (bitmap # sizes)"
    "sp_sdu_length p \<le> 1 + int (length sizes)"
  shows "get_lbsr True p = Some (bitmap, lbsr_ref p bitmap sizes)"
proof -
  have "sdu_at p 0 = Some bitmap" using assms(2) by (simp add: sdu_at_def mem_at_def)
  then show ?thesis
    using assms(1) lbsr_loop_ref [OF assms(2,3), of bitmap "[0..<8]" 0]
    by (auto simp: get_lbsr_def lbsr_ref_def)
qed

theorem get_lbsr_equiv_witness:
  "let p = subpdu_new\<lparr>sp_lcid := LONG_TRUNC_BSR, sp_sdu_length := 3, sp_sdu := Some [0x89, 10, 20]\<rparr> in
   get_lbsr True p = Some (0x89, [\<lparr>lcg_id = 0, buffer_size = 10\<rparr>, \<lparr>lcg_id = 3, buffer_size = 20\<rparr>,
     \<lparr>lcg_id = 7, buffer_size = 63\<rparr>])"
proof -
  let ?p = "subpdu_new\<lparr>sp_lcid := LONG_TRUNC_BSR, sp_sdu_length := 3, sp_sdu := Some [0x89, 10, 20]\<rparr>"
  have "lbsr_ref ?p 0x89 [10, 20] = [\<lparr>lcg_id = 0, buffer_size = 10\<rparr>, \<lparr>lcg_id = 3, buffer_size = 20\<rparr>,
     \<lparr>lcg_id = 7, buffer_size = 63\<rparr>]"
    by (simp add: lbsr_ref_def upt_rec)
  with get_lbsr_equiv [of ?p "0x89" "[10, 20]"] show ?thesis by (simp add: Let_def)
qed

text \<open>
  : on the downlink an SDU of six octets for the common control channel is labelled with the uplink
  identifier for a 48 bit CCCH. The receiver knows no length for that identifier and takes the octet
  after the first one, the length, for the next subheader.
\<close>

theorem dl_ccch_six_octets:
  assumes "length pl = 6"
  shows "item_bytes False (Sdu CCCH pl) = [52, 6] @ pl \<and>
    (\<exists>p. read_subheader False (item_bytes False (Sdu CCCH pl)) = Some (Some p) \<and>
      sp_lcid p = CCCH_SIZE_48 \<and> sp_sdu_length p = 0 \<and> get_total_length p = 1)"
proof -
  have "(6 :: u32) = sizeof_ce CCCH_SIZE_48 True" by (simp add: sizeof_ce_def)
  then have b: "item_bytes False (Sdu CCCH pl) = [52, 6] @ pl"
    using assms by (simp add: item_bytes_def write_subpdu_def set_sdu_def Let_def is_ul_ccch_def sizeof_ce_def
        MAC_SUBHEADER_LEN_THRESHOLD_def subpdu_new_def)
  then show ?thesis
    by (simp add: read_subheader_def mem_at_def Let_def subpdu_new_def is_valid_lcid_def has_length_field_iff length_coded_def
        is_var_len_ce_def sizeof_ce_def get_total_length_def)
qed

theorem dl_ccch_six_octets_witness:
  "item_bytes False (Sdu 0 [1, 2, 3, 4, 5, 6]) = [52, 6, 1, 2, 3, 4, 5, 6]"
  using dl_ccch_six_octets [of "[1, 2, 3, 4, 5, 6]"] by simp

text \<open>
  : the control elements carry their values: what a receiver extracts from the payload of a parsed
  control element is what the sender set, with the power headroom fields cut to six bits, the group to
  three and the buffer size to five.
\<close>

theorem control_elements_roundtrip:
  "(\<forall>p c. view p = Some (item_view (Crnti c)) \<longrightarrow> get_c_rnti True p = Some c) \<and>
   (\<forall>p a b. view p = Some (item_view (Se_phr a b)) \<longrightarrow>
      get_phr True p = Some (a AND 0x3f) \<and> get_pcmax True p = Some (b AND 0x3f)) \<and>
   (\<forall>p b. view p = Some (item_view (Sbsr b)) \<longrightarrow>
      get_sbsr True p = Some \<lparr>lcg_id = lcg_id b AND 0x07, buffer_size = buffer_size b AND 0x1f\<rparr>) \<and>
   (\<forall>p r. length r = 6 \<and> view p = Some (item_view (Con_res r)) \<longrightarrow> get_ue_con_res_id_ce False p = Some r)"
proof -
  have at: "sdu_at p i = Some (pl ! i)" if "view p = Some (l, pl)" "i < length pl" for p l pl i
    using that by (auto simp: view_def sdu_at_def mem_at_def)
  have lc: "sp_lcid p = l" if "view p = Some (l, pl)" for p l pl using that by (auto simp: view_def)
  have rnti: "push_bit 8 (ucast (ucast (drop_bit 8 c) :: u8)) OR ucast (ucast c :: u8) = (c :: u16)" for c
    by (rule bit_word_eqI) (auto simp: bits simp del: bit_0)
  have bsr: "drop_bit 5 ((push_bit 5 (g AND 7) OR (s AND 0x1f)) AND 0xe0) = (g AND 7 :: u8)"
    "(push_bit 5 (g AND 7) OR (s AND 0x1f)) AND 0x1f = (s AND 0x1f :: u8)" for g s :: u8
    unfolding and_masks high_masks by (rule bit_word_eqI, auto simp: bits simp del: bit_0)+
  have res: "get_ue_con_res_id_ce False p = Some r" if r: "length r = 6" and v: "view p = Some (CON_RES_ID, r)" for p r
  proof -
    obtain m where m: "sp_sdu p = Some m" "take (nat (sp_sdu_length p)) m = r" "sp_lcid p = CON_RES_ID"
      using v by (auto simp: view_def)
    then have "6 \<le> length m" "6 \<le> nat (sp_sdu_length p)" using r by auto
    then have "take 6 m = r" using m(2) r by (metis min.absorb1 order_refl take_all take_take)
    then show ?thesis using m \<open>6 \<le> length m\<close> by (simp add: get_ue_con_res_id_ce_def)
  qed
  show ?thesis
  proof (intro conjI allI impI)
    fix p c assume "view p = Some (item_view (Crnti c))"
    then show "get_c_rnti True p = Some c" using at [of p] lc [of p] rnti [of c] by (simp add: get_c_rnti_def)
  next
    fix p a b assume "view p = Some (item_view (Se_phr a b))"
    then show "get_phr True p = Some (a AND 0x3f)" "get_pcmax True p = Some (b AND 0x3f)"
      using at [of p] lc [of p] by (simp_all add: get_phr_def get_pcmax_def and.assoc)
  next
    fix p b assume "view p = Some (item_view (Sbsr b))"
    then show "get_sbsr True p = Some \<lparr>lcg_id = lcg_id b AND 0x07, buffer_size = buffer_size b AND 0x1f\<rparr>"
      using at [of p] lc [of p] bsr by (simp add: get_sbsr_def)
  next
    fix p r assume "length r = 6 \<and> view p = Some (item_view (Con_res r))"
    then show "get_ue_con_res_id_ce False p = Some r" using res by simp
  qed
qed

theorem control_elements_roundtrip_witness:
  "get_sbsr True (subpdu_new\<lparr>sp_lcid := SHORT_BSR, sp_sdu_length := 1, sp_sdu := Some [0x6a, 0]\<rparr>) =
    Some \<lparr>lcg_id = 3, buffer_size = 10\<rparr>"
proof -
  let ?p = "subpdu_new\<lparr>sp_lcid := SHORT_BSR, sp_sdu_length := 1, sp_sdu := Some [0x6a, 0]\<rparr>"
  have "view ?p = Some (item_view (Sbsr \<lparr>lcg_id = 3, buffer_size = 10\<rparr>))" by (simp add: view_def)
  with control_elements_roundtrip have "get_sbsr True ?p =
      Some \<lparr>lcg_id = lcg_id \<lparr>lcg_id = 3, buffer_size = 10\<rparr> AND 0x07,
        buffer_size = buffer_size \<lparr>lcg_id = 3, buffer_size = 10\<rparr> AND 0x1f\<rparr>" by blast
  then show ?thesis by simp
qed

end
