(* ===== verification/Gtpu.thy ===== *)
theory Gtpu
  imports Byte_Buffer Int_Helpers
begin

text \<open>
  GTP-U headers, \<^verbatim>\<open>lib/src/gtpu/gtpu.cc\<close> and \<^verbatim>\<open>lib/include/srsran/upper/gtpu.h\<close>: the checks of flags and
  message type, writing a header in front of a packet, reading and stripping it.

  An access outside the packet's array has no result (\<open>None\<close>).
\<close>

abbreviation "GTPU_BASE_HEADER_LEN \<equiv> 8 :: nat"
abbreviation "GTPU_EXTENDED_HEADER_LEN \<equiv> 12 :: nat"
abbreviation "GTPU_FLAGS_VERSION_MASK \<equiv> 0xE0 :: u8"
abbreviation "GTPU_FLAGS_VERSION_V1 \<equiv> 0x20 :: u8"
abbreviation "GTPU_FLAGS_GTP_PROTOCOL \<equiv> 0x10 :: u8"
abbreviation "GTPU_FLAGS_EXTENDED_HDR \<equiv> 0x04 :: u8"
abbreviation "GTPU_FLAGS_SEQUENCE \<equiv> 0x02 :: u8"
abbreviation "GTPU_FLAGS_PACKET_NUM \<equiv> 0x01 :: u8"
abbreviation "GTPU_MSG_ECHO_REQUEST \<equiv> 1 :: u8"
abbreviation "GTPU_MSG_ECHO_RESPONSE \<equiv> 2 :: u8"
abbreviation "GTPU_MSG_ERROR_INDICATION \<equiv> 26 :: u8"
abbreviation "GTPU_MSG_END_MARKER \<equiv> 254 :: u8"
abbreviation "GTPU_MSG_DATA_PDU \<equiv> 255 :: u8"
abbreviation "GTPU_EXT_HEADER_PDCP_PDU_NUMBER \<equiv> 0xC0 :: u8"
abbreviation "GTPU_EXT_HEADER_PDU_SESSION_CONTAINER \<equiv> 0x85 :: u8"

record gtpu_header =
  gh_flags :: u8
  gh_message_type :: u8
  gh_length :: u16
  gh_teid :: u32
  gh_seq_number :: u16
  gh_n_pdu :: u8
  gh_next_ext_hdr_type :: u8
  gh_ext_buffer :: bytes

definition gtpu_header_new :: gtpu_header where
  "gtpu_header_new = \<lparr>gh_flags = 0, gh_message_type = 0, gh_length = 0, gh_teid = 0, gh_seq_number = 0,
     gh_n_pdu = 0, gh_next_ext_hdr_type = 0, gh_ext_buffer = []\<rparr>"

definition gtpu_supported_flags_check :: "gtpu_header \<Rightarrow> bool" where
  "gtpu_supported_flags_check h =
    (if gh_flags h AND GTPU_FLAGS_VERSION_MASK \<noteq> GTPU_FLAGS_VERSION_V1 then False
     else if gh_flags h AND GTPU_FLAGS_GTP_PROTOCOL = 0 then False
     else if gh_flags h AND GTPU_FLAGS_PACKET_NUM \<noteq> 0 then False
     else True)"

definition gtpu_supported_msg_type_check :: "gtpu_header \<Rightarrow> bool" where
  "gtpu_supported_msg_type_check h \<longleftrightarrow>
    gh_message_type h = GTPU_MSG_DATA_PDU \<or> gh_message_type h = GTPU_MSG_ECHO_REQUEST \<or>
    gh_message_type h = GTPU_MSG_ECHO_RESPONSE \<or> gh_message_type h = GTPU_MSG_ERROR_INDICATION \<or>
    gh_message_type h = GTPU_MSG_END_MARKER"

text \<open>Whether the longer header is present.\<close>

definition long_header :: "gtpu_header \<Rightarrow> bool" where
  "long_header h \<longleftrightarrow> gh_flags h AND (GTPU_FLAGS_EXTENDED_HDR OR GTPU_FLAGS_SEQUENCE OR GTPU_FLAGS_PACKET_NUM) \<noteq> 0"

section \<open>Writing\<close>

text \<open>The move of the start of message; the room for the extension buffer is not checked.\<close>

definition gtpu_make_room :: "gtpu_header \<Rightarrow> byte_buffer \<Rightarrow> (bool \<times> gtpu_header \<times> byte_buffer) option" where
  "gtpu_make_room h pdu =
    (if long_header h then
       if get_headroom pdu < GTPU_EXTENDED_HEADER_LEN then Some (False, h, pdu)
       else
         let pdu = pdu\<lparr>bb_msg := bb_msg pdu - GTPU_EXTENDED_HEADER_LEN, bb_n := bb_n pdu + GTPU_EXTENDED_HEADER_LEN\<rparr>;
             h = h\<lparr>gh_length := gh_length h + 4\<rparr>
         in if gh_next_ext_hdr_type h > 0 then
              let n = length (gh_ext_buffer h) in
              if bb_msg pdu < n then None
              else Some (True, h\<lparr>gh_length := gh_length h + of_nat n\<rparr>, pdu\<lparr>bb_msg := bb_msg pdu - n, bb_n := bb_n pdu + n\<rparr>)
            else Some (True, h, pdu)
     else
       if get_headroom pdu < GTPU_BASE_HEADER_LEN then Some (False, h, pdu)
       else Some (True, h, pdu\<lparr>bb_msg := bb_msg pdu - GTPU_BASE_HEADER_LEN, bb_n := bb_n pdu + GTPU_BASE_HEADER_LEN\<rparr>))"

definition gtpu_mandatory_bytes :: "gtpu_header \<Rightarrow> bytes" where
  "gtpu_mandatory_bytes h =
    [gh_flags h, gh_message_type h] @ uint16_to_uint8 (gh_length h) @ uint32_to_uint8 (gh_teid h)"

definition gtpu_optional_bytes :: "gtpu_header \<Rightarrow> bytes" where
  "gtpu_optional_bytes h =
    uint16_to_uint8 (if gh_flags h AND GTPU_FLAGS_SEQUENCE \<noteq> 0 then gh_seq_number h else 0) @
    [if gh_flags h AND GTPU_FLAGS_PACKET_NUM \<noteq> 0 then gh_n_pdu h else 0] @
    (if gh_flags h AND GTPU_FLAGS_EXTENDED_HDR \<noteq> 0 then gh_next_ext_hdr_type h # gh_ext_buffer h else [0])"

text \<open>The result: the return value, the header as it was updated, the packet.\<close>

definition gtpu_write_header :: "gtpu_header \<Rightarrow> byte_buffer \<Rightarrow> (bool \<times> gtpu_header \<times> byte_buffer) option" where
  "gtpu_write_header h pdu =
    (if \<not> gtpu_supported_flags_check h then Some (False, h, pdu)
     else if \<not> gtpu_supported_msg_type_check h then Some (False, h, pdu)
     else
       Option.bind (gtpu_make_room h pdu) (\<lambda>(ok, h, pdu).
         if \<not> ok then Some (False, h, pdu)
         else
           let bs = gtpu_mandatory_bytes h @ (if long_header h then gtpu_optional_bytes h else []);
               h' = (if long_header h \<and> gh_flags h AND GTPU_FLAGS_PACKET_NUM = 0 then h\<lparr>gh_n_pdu := 0\<rparr> else h)
           in map_option (\<lambda>m. (True, h', pdu\<lparr>bb_buffer := m\<rparr>)) (mem_write (bb_buffer pdu) (bb_msg pdu) bs)))"

section \<open>Reading\<close>

text \<open>\<open>at\<close> is the read pointer as an index into the array.\<close>

definition gtpu_read_ext_header :: "byte_buffer \<Rightarrow> nat \<Rightarrow> gtpu_header \<Rightarrow> (bool \<times> gtpu_header \<times> byte_buffer) option" where
  "gtpu_read_ext_header pdu at h =
    (if gh_flags h AND GTPU_FLAGS_EXTENDED_HDR = 0 \<or> gh_next_ext_hdr_type h = 0 then Some (True, h, pdu)
     else if gh_next_ext_hdr_type h = GTPU_EXT_HEADER_PDCP_PDU_NUMBER then
       if at + 4 \<le> length (bb_buffer pdu)
       then Some (True, h\<lparr>gh_ext_buffer := take 4 (drop at (bb_buffer pdu))\<rparr>, strip 4 pdu)
       else None
     else if gh_next_ext_hdr_type h = GTPU_EXT_HEADER_PDU_SESSION_CONTAINER then Some (True, h, strip 4 pdu)
     else Some (False, h, pdu))"

definition gtpu_read_header :: "byte_buffer \<Rightarrow> gtpu_header \<Rightarrow> (bool \<times> gtpu_header \<times> byte_buffer) option" where
  "gtpu_read_header pdu h =
    (if length (bb_buffer pdu) < bb_msg pdu + 8 then None
     else
       let b = msg_at pdu;
           h = h\<lparr>gh_flags := b 0, gh_message_type := b 1, gh_length := uint8_to_uint16 (b 2) (b 3),
                 gh_teid := uint8_to_uint32 (b 4) (b 5) (b 6) (b 7)\<rparr>
       in if \<not> gtpu_supported_flags_check h then Some (False, h, pdu)
          else if \<not> gtpu_supported_msg_type_check h then Some (False, h, pdu)
          else if long_header h then
            if length (bb_buffer pdu) < bb_msg pdu + 12 then None
            else gtpu_read_ext_header (strip GTPU_EXTENDED_HEADER_LEN pdu) (bb_msg pdu + 12)
              (h\<lparr>gh_seq_number := uint8_to_uint16 (b 8) (b 9), gh_n_pdu := b 10, gh_next_ext_hdr_type := b 11\<rparr>)
          else Some (True, h, strip GTPU_BASE_HEADER_LEN pdu))"

section \<open>Correctness\<close>

text \<open>
  A header whose optional fields agree with its flags: without a flag the field is zero, and there is an
  extension buffer exactly if an extension type is announced.
\<close>

definition header_ok :: "gtpu_header \<Rightarrow> bool" where
  "header_ok h \<longleftrightarrow>
    gtpu_supported_flags_check h \<and> gtpu_supported_msg_type_check h \<and> gh_n_pdu h = 0 \<and>
    (gh_flags h AND GTPU_FLAGS_SEQUENCE = 0 \<longrightarrow> gh_seq_number h = 0) \<and>
    (if gh_flags h AND GTPU_FLAGS_EXTENDED_HDR \<noteq> 0 \<and> gh_next_ext_hdr_type h \<noteq> 0
     then gh_next_ext_hdr_type h \<in> {GTPU_EXT_HEADER_PDCP_PDU_NUMBER, GTPU_EXT_HEADER_PDU_SESSION_CONTAINER} \<and>
       length (gh_ext_buffer h) = 4
     else gh_next_ext_hdr_type h = 0 \<and> gh_ext_buffer h = [])"

definition header_length :: "gtpu_header \<Rightarrow> nat" where
  "header_length h = (if long_header h then 12 + length (gh_ext_buffer h) else 8)"

text \<open>The header on the wire: the length counts what the writer adds.\<close>

definition wire_header :: "gtpu_header \<Rightarrow> gtpu_header" where
  "wire_header h = h\<lparr>gh_length := gh_length h + of_nat (header_length h - 8)\<rparr>"

lemma flags_not_pn: "gtpu_supported_flags_check h \<Longrightarrow> gh_flags h AND GTPU_FLAGS_PACKET_NUM = 0"
  by (simp add: gtpu_supported_flags_check_def split: if_splits)

lemma long_header_iff:
  "long_header h \<longleftrightarrow> gh_flags h AND GTPU_FLAGS_EXTENDED_HDR \<noteq> 0 \<or> gh_flags h AND GTPU_FLAGS_SEQUENCE \<noteq> 0 \<or>
    gh_flags h AND GTPU_FLAGS_PACKET_NUM \<noteq> 0"
proof -
  have e: "x AND 4 = 0 \<longleftrightarrow> \<not> bit x 2" "x AND 2 = 0 \<longleftrightarrow> \<not> bit x 1" "x AND 1 = 0 \<longleftrightarrow> \<not> bit x 0" for x :: u8
    using and_exp_eq_0_iff_not_bit [of x 2] and_exp_eq_0_iff_not_bit [of x 1] and_exp_eq_0_iff_not_bit [of x 0] by simp_all
  show ?thesis unfolding long_header_def bit.conj_disj_distrib or_eq_0_iff e by blast
qed

definition header_bytes :: "gtpu_header \<Rightarrow> bytes" where
  "header_bytes h = gtpu_mandatory_bytes h @ (if long_header h then gtpu_optional_bytes h else [])"

lemma wire_header_simps [simp]:
  "gh_flags (wire_header h) = gh_flags h" "gh_message_type (wire_header h) = gh_message_type h"
  "gh_teid (wire_header h) = gh_teid h" "gh_seq_number (wire_header h) = gh_seq_number h"
  "gh_n_pdu (wire_header h) = gh_n_pdu h" "gh_next_ext_hdr_type (wire_header h) = gh_next_ext_hdr_type h"
  "gh_ext_buffer (wire_header h) = gh_ext_buffer h" "long_header (wire_header h) = long_header h"
  "gtpu_supported_flags_check (wire_header h) = gtpu_supported_flags_check h"
  "gtpu_supported_msg_type_check (wire_header h) = gtpu_supported_msg_type_check h"
  by (simp_all add: wire_header_def long_header_def gtpu_supported_flags_check_def gtpu_supported_msg_type_check_def)

lemma header_okD:
  assumes "header_ok h"
  shows "gtpu_supported_flags_check h" "gtpu_supported_msg_type_check h" "gh_n_pdu h = 0"
    "gh_flags h AND GTPU_FLAGS_SEQUENCE = 0 \<Longrightarrow> gh_seq_number h = 0"
    "gh_flags h AND GTPU_FLAGS_PACKET_NUM = 0"
    "gh_flags h AND GTPU_FLAGS_EXTENDED_HDR = 0 \<Longrightarrow> gh_next_ext_hdr_type h = 0 \<and> gh_ext_buffer h = []"
    "gh_next_ext_hdr_type h = 0 \<Longrightarrow> gh_ext_buffer h = []"
    "gh_next_ext_hdr_type h \<noteq> 0 \<Longrightarrow> long_header h \<and> length (gh_ext_buffer h) = 4 \<and>
      gh_next_ext_hdr_type h \<in> {GTPU_EXT_HEADER_PDCP_PDU_NUMBER, GTPU_EXT_HEADER_PDU_SESSION_CONTAINER} \<and>
      gh_flags h AND GTPU_FLAGS_EXTENDED_HDR \<noteq> 0"
  using assms flags_not_pn [of h] by (auto simp: header_ok_def long_header_iff split: if_splits)

lemma length_header_bytes: "header_ok h \<Longrightarrow> length (header_bytes (wire_header h)) = header_length h"
  using header_okD(6) [of h]
  by (auto simp: header_bytes_def gtpu_mandatory_bytes_def gtpu_optional_bytes_def header_length_def)

lemma gtpu_make_room_ok:
  assumes ok: "header_ok h" and room: "header_length h \<le> get_headroom pdu"
  shows "gtpu_make_room h pdu = Some (True, wire_header h,
    pdu\<lparr>bb_msg := bb_msg pdu - header_length h, bb_n := bb_n pdu + header_length h\<rparr>)"
proof (cases "long_header h")
  case False
  then show ?thesis
    using room header_okD(8) [OF ok] by (auto simp: gtpu_make_room_def header_length_def wire_header_def)
next
  case True
  then show ?thesis
    using room header_okD(7) [OF ok]
    by (auto simp: gtpu_make_room_def header_length_def wire_header_def Let_def get_headroom_def word_gt_0 algebra_simps)
qed

lemma gtpu_write_push:
  assumes ok: "header_ok h" and room: "header_length h \<le> get_headroom pdu"
  shows "gtpu_write_header h pdu =
    map_option (\<lambda>pdu'. (True, wire_header h, pdu')) (push_header pdu (header_bytes (wire_header h)))"
proof -
  have "(wire_header h)\<lparr>gh_n_pdu := 0\<rparr> = wire_header h" using header_okD(3) [OF ok] by (simp add: wire_header_def)
  then show ?thesis
    using room header_okD(1,2) [OF ok]
    by (simp add: gtpu_write_header_def gtpu_make_room_ok [OF ok room] push_header_def length_header_bytes [OF ok]
        Let_def header_bytes_def [symmetric] get_headroom_def option.map_comp comp_def)
      (auto intro!: option.map_cong)
qed

text \<open>The fields as the reader finds them.\<close>

lemma header_bytes_nth:
  assumes "header_ok h"
  defines "bs \<equiv> header_bytes (wire_header h)"
  shows "bs ! 0 = gh_flags h" "bs ! 1 = gh_message_type h"
    "uint8_to_uint16 (bs ! 2) (bs ! 3) = gh_length (wire_header h)"
    "uint8_to_uint32 (bs ! 4) (bs ! 5) (bs ! 6) (bs ! 7) = gh_teid h"
    "long_header h \<Longrightarrow> uint8_to_uint16 (bs ! 8) (bs ! 9) = gh_seq_number h"
    "long_header h \<Longrightarrow> bs ! 10 = 0" "long_header h \<Longrightarrow> bs ! 11 = gh_next_ext_hdr_type h"
    "long_header h \<Longrightarrow> drop 12 bs = gh_ext_buffer h"
proof -
  obtain a b where l: "uint16_to_uint8 (gh_length (wire_header h)) = [a, b]" by (simp add: uint16_to_uint8_def)
  obtain c d e f where t: "uint32_to_uint8 (gh_teid h) = [c, d, e, f]" by (simp add: uint32_to_uint8_def)
  obtain i j where s: "uint16_to_uint8 (gh_seq_number h) = [i, j]" by (simp add: uint16_to_uint8_def)
  have sz: "uint16_to_uint8 0 = [i, j]" if "gh_flags h AND GTPU_FLAGS_SEQUENCE = 0"
    using s header_okD(4) [OF assms(1) that] by simp
  have rt: "uint8_to_uint16 a b = gh_length (wire_header h)" "uint8_to_uint32 c d e f = gh_teid h"
    "uint8_to_uint16 i j = gh_seq_number h"
    using uint16_roundtrip [of "gh_length (wire_header h)"] uint32_roundtrip [of "gh_teid h"]
      uint16_roundtrip [of "gh_seq_number h"] by (simp_all add: l t s)
  have bs: "bs = [gh_flags h, gh_message_type h, a, b, c, d, e, f] @
      (if long_header h then [i, j, 0, gh_next_ext_hdr_type h] @ gh_ext_buffer h else [])"
    using header_okD(5,6) [OF assms(1)] sz
    by (auto simp: bs_def header_bytes_def gtpu_mandatory_bytes_def gtpu_optional_bytes_def l t s)
  show "bs ! 0 = gh_flags h" "bs ! 1 = gh_message_type h"
    "uint8_to_uint16 (bs ! 2) (bs ! 3) = gh_length (wire_header h)"
    "uint8_to_uint32 (bs ! 4) (bs ! 5) (bs ! 6) (bs ! 7) = gh_teid h"
    "long_header h \<Longrightarrow> uint8_to_uint16 (bs ! 8) (bs ! 9) = gh_seq_number h"
    "long_header h \<Longrightarrow> bs ! 10 = 0" "long_header h \<Longrightarrow> bs ! 11 = gh_next_ext_hdr_type h"
    "long_header h \<Longrightarrow> drop 12 bs = gh_ext_buffer h"
    using rt by (simp_all add: bs)
qed

text \<open>What the reader recovers: it drops the contents of a session container.\<close>

definition read_back :: "gtpu_header \<Rightarrow> gtpu_header" where
  "read_back h = (if gh_next_ext_hdr_type h = GTPU_EXT_HEADER_PDU_SESSION_CONTAINER then h\<lparr>gh_ext_buffer := []\<rparr> else h)"

text \<open>
  C21: a GTP-U header whose optional fields agree with its flags, written in front of a packet, is read
  back, with the length that the writer announced, and stripping it leaves the packet.
\<close>

theorem gtpu_roundtrip:
  assumes ok: "header_ok h" and room: "header_length h \<le> get_headroom pdu"
    and pdu: "bb_ok pdu" "length (bb_buffer pdu) < 2 ^ 32"
  shows "\<exists>pdu1 pdu2. gtpu_write_header h pdu = Some (True, wire_header h, pdu1) \<and>
    bb_n pdu1 = header_length h + bb_n pdu \<and>
    gtpu_read_header pdu1 gtpu_header_new = Some (True, read_back (wire_header h), pdu2) \<and> bb_data pdu2 = bb_data pdu"
proof -
  let ?bs = "header_bytes (wire_header h)"
  note len = length_header_bytes [OF ok] and nth = header_bytes_nth [OF ok] and H = header_okD [OF ok]
  obtain pdu1 where p1: "push_header pdu ?bs = Some pdu1" "bb_ok pdu1" "bb_data pdu1 = ?bs @ bb_data pdu"
    using bb.push_ok [OF pdu(1), of ?bs] room len by auto
  have n1: "bb_n pdu1 = header_length h + bb_n pdu"
    using p1(1) len by (auto simp: push_header_def split: if_splits)
  have l1: "bb_n pdu1 < 2 ^ 32" "bb_msg pdu1 + header_length h + bb_n pdu \<le> length (bb_buffer pdu1)"
    using p1(1,2) n1 pdu(2) len by (auto simp: bb_ok_def push_header_def mem_write_def split: if_splits)
  have at: "msg_at pdu1 i = ?bs ! i" if "i < header_length h" for i
    using that p1(2,3) n1 len by (simp add: msg_at_data nth_append)
  have dat: "drop (header_length h) (bb_data pdu1) = bb_data pdu" using p1(3) len by simp
  have w: "gtpu_write_header h pdu = Some (True, wire_header h, pdu1)" by (simp add: gtpu_write_push [OF ok room] p1(1))
  have hl: "8 \<le> header_length h" by (simp add: header_length_def)
  have "\<exists>pdu2. gtpu_read_header pdu1 gtpu_header_new = Some (True, read_back (wire_header h), pdu2) \<and> bb_data pdu2 = bb_data pdu"
  proof (cases "long_header h")
    case False
    then have e: "header_length h = 8" by (simp add: header_length_def)
    note S = strip_data [OF p1(2), of 8]
    have nz: "gh_flags h AND GTPU_FLAGS_SEQUENCE = 0" "gh_flags h AND GTPU_FLAGS_EXTENDED_HDR = 0"
      using False by (auto simp: long_header_iff)
    have h: "\<lparr>gh_flags = gh_flags h, gh_message_type = gh_message_type h, gh_length = gh_length (wire_header h),
        gh_teid = gh_teid h, gh_seq_number = 0, gh_n_pdu = 0, gh_next_ext_hdr_type = 0, gh_ext_buffer = []\<rparr> = wire_header h"
      using H(3,4,6) nz by (cases h) (simp add: wire_header_def)
    have c: "gtpu_supported_flags_check (wire_header h)" "gtpu_supported_msg_type_check (wire_header h)"
      "\<not> long_header (wire_header h)" "read_back (wire_header h) = wire_header h"
      using H(1,2,6) False nz by (simp_all add: read_back_def)
    have "gtpu_read_header pdu1 gtpu_header_new = Some (True, wire_header h, strip 8 pdu1)"
      using l1(2) e at nth(1-4) c by (simp add: gtpu_read_header_def gtpu_header_new_def Let_def h)
    then show ?thesis using S n1 e l1(1) dat c(4) by simp
  next
    case True
    then have e: "header_length h = 12 + length (gh_ext_buffer h)" by (simp add: header_length_def)
    let ?h = "\<lparr>gh_flags = gh_flags h, gh_message_type = gh_message_type h, gh_length = gh_length (wire_header h),
        gh_teid = gh_teid h, gh_seq_number = gh_seq_number h, gh_n_pdu = 0, gh_next_ext_hdr_type = gh_next_ext_hdr_type h,
        gh_ext_buffer = []\<rparr>"
    have h: "?h = (wire_header h)\<lparr>gh_ext_buffer := []\<rparr>" using H(3) by (cases h) (simp add: wire_header_def)
    have c: "gtpu_supported_flags_check (h'\<lparr>gh_seq_number := 0, gh_n_pdu := 0, gh_next_ext_hdr_type := 0, gh_ext_buffer := []\<rparr>)
        = gtpu_supported_flags_check h'" for h'
      by (simp add: gtpu_supported_flags_check_def)
    have r: "gtpu_read_header pdu1 gtpu_header_new = gtpu_read_ext_header (strip 12 pdu1) (bb_msg pdu1 + 12) ?h"
      using l1(2) e at nth(1-7) H(1,2) True
      by (simp add: gtpu_read_header_def gtpu_header_new_def Let_def gtpu_supported_flags_check_def
          gtpu_supported_msg_type_check_def long_header_def split: if_splits)
    note S = strip_data [OF p1(2), of 12]
    have s: "bb_ok (strip 12 pdu1)" "bb_n (strip 12 pdu1) = length (gh_ext_buffer h) + bb_n pdu" "bb_msg (strip 12 pdu1) = bb_msg pdu1 + 12"
      "bb_buffer (strip 12 pdu1) = bb_buffer pdu1" "bb_data (strip 12 pdu1) = drop 12 (bb_data pdu1)"
      using S n1 e l1(1) by simp_all
    note S2 = strip_data [OF s(1), of 4]
    have d: "drop 12 (bb_data pdu1) = gh_ext_buffer h @ bb_data pdu" using p1(3) nth(8) [OF True] len e by simp
    show ?thesis
    proof (cases "gh_next_ext_hdr_type h = 0")
      case True
      then have "gtpu_read_ext_header (strip 12 pdu1) (bb_msg pdu1 + 12) ?h = Some (True, ?h, strip 12 pdu1)"
        by (simp add: gtpu_read_ext_header_def)
      moreover have "?h = read_back (wire_header h)" using h H(7) True by (simp add: read_back_def wire_header_def)
      ultimately show ?thesis using r s(5) d H(7) True by simp
    next
      case False
      note F = H(8) [OF False]
      have "take 4 (drop (bb_msg pdu1 + 12) (bb_buffer pdu1)) = gh_ext_buffer h"
      proof -
        have "take 4 (bb_data (strip 12 pdu1)) = gh_ext_buffer h" using s(5) d F by simp
        moreover have "take 4 (bb_data (strip 12 pdu1)) = take 4 (drop (bb_msg pdu1 + 12) (bb_buffer pdu1))"
          using s(2,3,4) F by (simp add: bb_data_def min_def)
        ultimately show ?thesis by simp
      qed
      moreover have "bb_msg pdu1 + 12 + 4 \<le> length (bb_buffer pdu1)" using l1(2) e F by simp
      ultimately have "gtpu_read_ext_header (strip 12 pdu1) (bb_msg pdu1 + 12) ?h =
          Some (True, read_back (wire_header h), strip 4 (strip 12 pdu1))"
        using F H(3) s(4) by (auto simp: gtpu_read_ext_header_def read_back_def h)
      moreover have "bb_data (strip 4 (strip 12 pdu1)) = bb_data pdu"
        using S2 s(2,5) d F l1(1) n1 e by simp
      ultimately show ?thesis using r by simp
    qed
  qed
  with w n1 show ?thesis by blast
qed

theorem gtpu_roundtrip_witness:
  "let h = gtpu_header_new\<lparr>gh_flags := 0x34, gh_message_type := 255, gh_length := 1, gh_teid := 7,
       gh_next_ext_hdr_type := 0xC0, gh_ext_buffer := [1, 2, 3, 0]\<rparr>;
     pdu = (bb_new (replicate 1100 9))\<lparr>bb_n := 1\<rparr>
   in \<exists>pdu1 pdu2. gtpu_write_header h pdu = Some (True, h\<lparr>gh_length := 9\<rparr>, pdu1) \<and> bb_n pdu1 = 17 \<and>
    gtpu_read_header pdu1 gtpu_header_new = Some (True, h\<lparr>gh_length := 9\<rparr>, pdu2) \<and> bb_data pdu2 = [9]"
proof -
  let ?h = "gtpu_header_new\<lparr>gh_flags := 0x34, gh_message_type := 255, gh_length := 1, gh_teid := 7,
       gh_next_ext_hdr_type := 0xC0, gh_ext_buffer := [1, 2, 3, 0]\<rparr>"
  let ?pdu = "(bb_new (replicate 1100 9))\<lparr>bb_n := 1\<rparr>"
  have l: "header_length ?h = 16" by (simp add: header_length_def long_header_def gtpu_header_new_def)
  have 1: "header_ok ?h"
    by (simp add: header_ok_def gtpu_header_new_def gtpu_supported_flags_check_def gtpu_supported_msg_type_check_def)
  have 2: "header_length ?h \<le> get_headroom ?pdu" unfolding l
    by (simp add: get_headroom_def bb_new_def SRSRAN_BUFFER_HEADER_OFFSET_def)
  have 3: "bb_ok ?pdu" "length (bb_buffer ?pdu) < 2 ^ 32" "bb_data ?pdu = [9]" "bb_n ?pdu = 1"
    by (simp_all add: bb_ok_def bb_new_def SRSRAN_BUFFER_HEADER_OFFSET_def bb_data_def)
  have w: "wire_header ?h = ?h\<lparr>gh_length := 9\<rparr>" unfolding wire_header_def l by (simp add: gtpu_header_new_def)
  have r: "read_back (?h\<lparr>gh_length := 9\<rparr>) = ?h\<lparr>gh_length := 9\<rparr>" by (simp add: read_back_def gtpu_header_new_def)
  from gtpu_roundtrip [OF 1 2 3(1,2)] show ?thesis unfolding w r l 3(3,4) Let_def by simp
qed

text \<open>
  : the room check of the writer covers the header only: with an extension buffer and between 12 and
  11 octets more than the buffer's length of headroom, the start of message moves in front of the array.
\<close>

theorem gtpu_extension_underflow:
  assumes "gtpu_supported_flags_check h" "gtpu_supported_msg_type_check h" "long_header h" "gh_next_ext_hdr_type h \<noteq> 0"
    and "12 \<le> get_headroom pdu" "get_headroom pdu < 12 + length (gh_ext_buffer h)"
  shows "gtpu_write_header h pdu = None"
  using assms by (auto simp: gtpu_write_header_def gtpu_make_room_def Let_def get_headroom_def word_gt_0)

theorem gtpu_extension_underflow_witness:
  "gtpu_write_header (gtpu_header_new\<lparr>gh_flags := 0x34, gh_message_type := 255, gh_next_ext_hdr_type := 0xC0,
     gh_ext_buffer := [1, 2, 3, 0]\<rparr>) ((bb_new (replicate 1100 9))\<lparr>bb_msg := 13\<rparr>) = None"
  by (rule gtpu_extension_underflow)
    (simp_all add: gtpu_header_new_def gtpu_supported_flags_check_def gtpu_supported_msg_type_check_def long_header_def
      get_headroom_def)

text \<open>
  : a datagram shorter than the header is accepted when the octets behind it look like one, and the length
  of the stripped packet wraps around.
\<close>

theorem gtpu_short_packet_wraps:
  assumes "bb_msg pdu + 8 \<le> length (bb_buffer pdu)" "bb_n pdu < 8" "msg_at pdu 0 = 0x30" "msg_at pdu 1 = 255"
  shows "\<exists>h' pdu'. gtpu_read_header pdu h = Some (True, h', pdu') \<and> bb_n pdu' = 2 ^ 32 - (8 - bb_n pdu)"
proof -
  have w: "unat (of_nat (bb_n pdu) - 8 :: u32) = 2 ^ 32 - (8 - bb_n pdu)"
  proof -
    have "bb_n pdu \<in> {0, 1, 2, 3, 4, 5, 6, 7}" using assms(2) by auto
    then show ?thesis by (elim insertE) (simp_all add: unsigned_minus_1_eq_mask mask_numeral)
  qed
  show ?thesis
    using assms(1,3,4) w by (simp add: gtpu_read_header_def Let_def gtpu_supported_flags_check_def gtpu_supported_msg_type_check_def
        long_header_def strip_def)
qed

theorem gtpu_short_packet_wraps_witness:
  "\<exists>h' pdu'. gtpu_read_header \<lparr>bb_buffer = [0x30, 255, 0, 0, 0, 0, 0, 1], bb_msg = 0, bb_n = 2, bb_pdcp_sn = 0\<rparr>
     gtpu_header_new = Some (True, h', pdu') \<and> bb_n pdu' = 4294967290"
  using gtpu_short_packet_wraps [of "\<lparr>bb_buffer = [0x30, 255, 0, 0, 0, 0, 0, 1], bb_msg = 0, bb_n = 2, bb_pdcp_sn = 0\<rparr>"
      gtpu_header_new] by (simp add: msg_at_def)

end
