(* ===== verification/Bearer_Manager.thy ===== *)
theory Bearer_Manager
  imports Prelude Std_Map
begin

text \<open>
  The mapping between EPS bearers and radio bearers, \<^verbatim>\<open>lib/src/common/bearer_manager.cc\<close> and
  \<^verbatim>\<open>lib/include/srsran/common/bearer_manager.h\<close>: the manager of one UE, its use in the UE, the
  managers of all users of an eNB.  The locks make every operation atomic; sequences of operations stand for
  the interleavings of the threads.  An exception of \<open>std::map::at\<close> is \<open>None\<close>.
\<close>

section \<open>The manager of one UE\<close>

datatype rat = lte | nr | nulltype

record radio_bearer =
  rb_rat :: rat
  rb_lcid :: u32
  rb_eps_bearer_id :: u32
  rb_five_qi :: u32

definition invalid_rb :: radio_bearer where
  "invalid_rb = \<lparr>rb_rat = nulltype, rb_lcid = 0, rb_eps_bearer_id = 0, rb_five_qi = 0\<rparr>"

definition rb_is_valid :: "radio_bearer \<Rightarrow> bool" where
  "rb_is_valid rb \<longleftrightarrow> rb_rat rb \<noteq> nulltype"

record bearer_mgr =
  bm_bearers :: "(u32, radio_bearer) std_map"
  bm_lcid_to_eps :: "(u32, u32) std_map"

definition bearer_mgr_new :: bearer_mgr where
  "bearer_mgr_new = \<lparr>bm_bearers = [], bm_lcid_to_eps = []\<rparr>"

definition add_eps_bearer :: "bearer_mgr \<Rightarrow> u8 \<Rightarrow> rat \<Rightarrow> u32 \<Rightarrow> bool \<times> bearer_mgr" where
  "add_eps_bearer m e rat lcid =
    (case map_of (bm_bearers m) (ucast e) of
       Some _ \<Rightarrow> (False, m)
     | None \<Rightarrow> (True, m\<lparr>bm_bearers := map_insert (ucast e)
           \<lparr>rb_rat = rat, rb_lcid = lcid, rb_eps_bearer_id = ucast e, rb_five_qi = 0\<rparr> (bm_bearers m),
         bm_lcid_to_eps := map_insert lcid (ucast e) (bm_lcid_to_eps m)\<rparr>))"

definition remove_eps_bearer :: "bearer_mgr \<Rightarrow> u8 \<Rightarrow> bool \<times> bearer_mgr" where
  "remove_eps_bearer m e =
    (case map_of (bm_bearers m) (ucast e) of
       None \<Rightarrow> (False, m)
     | Some rb \<Rightarrow> (True, m\<lparr>bm_bearers := map_erase (ucast e) (bm_bearers m),
         bm_lcid_to_eps := map_erase (rb_lcid rb) (bm_lcid_to_eps m)\<rparr>))"

definition bearer_reset :: "bearer_mgr \<Rightarrow> bearer_mgr" where
  "bearer_reset m = m\<lparr>bm_lcid_to_eps := [], bm_bearers := []\<rparr>"

definition has_active_radio_bearer :: "bearer_mgr \<Rightarrow> u32 \<Rightarrow> bool" where
  "has_active_radio_bearer m e \<longleftrightarrow> map_of (bm_bearers m) e \<noteq> None"

definition get_radio_bearer :: "bearer_mgr \<Rightarrow> u32 \<Rightarrow> radio_bearer" where
  "get_radio_bearer m e = (case map_of (bm_bearers m) e of Some rb \<Rightarrow> rb | None \<Rightarrow> invalid_rb)"

definition get_eps_bearer_id_for_lcid :: "bearer_mgr \<Rightarrow> u32 \<Rightarrow> radio_bearer option" where
  "get_eps_bearer_id_for_lcid m lcid =
    (case map_of (bm_lcid_to_eps m) lcid of Some e \<Rightarrow> map_of (bm_bearers m) e | None \<Rightarrow> Some invalid_rb)"

definition set_five_qi :: "bearer_mgr \<Rightarrow> u32 \<Rightarrow> u16 \<Rightarrow> bool \<times> bearer_mgr" where
  "set_five_qi m e q =
    (case map_of (bm_bearers m) e of
       None \<Rightarrow> (False, m)
     | Some rb \<Rightarrow> (True, m\<lparr>bm_bearers := map_put e (rb\<lparr>rb_five_qi := ucast q\<rparr>) (bm_bearers m)\<rparr>))"

section \<open>The UE\<close>

definition ue_add_eps_bearer :: "bearer_mgr \<Rightarrow> u8 \<Rightarrow> rat \<Rightarrow> u32 \<Rightarrow> bearer_mgr" where
  "ue_add_eps_bearer m e rat lcid = snd (add_eps_bearer m e rat lcid)"

definition ue_remove_eps_bearer :: "bearer_mgr \<Rightarrow> u8 \<Rightarrow> bearer_mgr" where
  "ue_remove_eps_bearer m e = snd (remove_eps_bearer m e)"

section \<open>The eNB\<close>

text \<open>\<open>users_map\<close> is an unordered map; nothing depends on its order.\<close>

type_synonym users_map = "u16 \<rightharpoonup> bearer_mgr"

definition enb_add_eps_bearer :: "users_map \<Rightarrow> u16 \<Rightarrow> u8 \<Rightarrow> rat \<Rightarrow> u32 \<Rightarrow> users_map" where
  "enb_add_eps_bearer us rnti e rat lcid =
    (let us = (case us rnti of None \<Rightarrow> us(rnti \<mapsto> bearer_mgr_new) | Some _ \<Rightarrow> us)
     in case us rnti of None \<Rightarrow> us | Some m \<Rightarrow> us(rnti \<mapsto> snd (add_eps_bearer m e rat lcid)))"

definition enb_remove_eps_bearer :: "users_map \<Rightarrow> u16 \<Rightarrow> u8 \<Rightarrow> users_map" where
  "enb_remove_eps_bearer us rnti e =
    (case us rnti of None \<Rightarrow> us | Some m \<Rightarrow> us(rnti \<mapsto> snd (remove_eps_bearer m e)))"

definition rem_user :: "users_map \<Rightarrow> u16 \<Rightarrow> users_map" where
  "rem_user us rnti = (case us rnti of None \<Rightarrow> us | Some _ \<Rightarrow> us(rnti := None))"

definition enb_has_active_radio_bearer :: "users_map \<Rightarrow> u16 \<Rightarrow> u32 \<Rightarrow> bool" where
  "enb_has_active_radio_bearer us rnti e =
    (case us rnti of None \<Rightarrow> False | Some m \<Rightarrow> has_active_radio_bearer m e)"

definition enb_get_lcid_bearer :: "users_map \<Rightarrow> u16 \<Rightarrow> u32 \<Rightarrow> radio_bearer option" where
  "enb_get_lcid_bearer us rnti lcid =
    (case us rnti of None \<Rightarrow> Some invalid_rb | Some m \<Rightarrow> get_eps_bearer_id_for_lcid m lcid)"

definition enb_get_radio_bearer :: "users_map \<Rightarrow> u16 \<Rightarrow> u32 \<Rightarrow> radio_bearer" where
  "enb_get_radio_bearer us rnti e =
    (case us rnti of None \<Rightarrow> invalid_rb | Some m \<Rightarrow> get_radio_bearer m e)"

definition enb_set_five_qi :: "users_map \<Rightarrow> u16 \<Rightarrow> u32 \<Rightarrow> u16 \<Rightarrow> bool \<times> users_map" where
  "enb_set_five_qi us rnti e q =
    (case us rnti of
       None \<Rightarrow> (False, us)
     | Some m \<Rightarrow> (let (ok, m') = set_five_qi m e q in (ok, us(rnti \<mapsto> m'))))"

section \<open>Sequences of operations\<close>

datatype bearer_op = Add_Bearer u8 rat u32 | Remove_Bearer u8 | Reset_Bearers | Set_Five_Qi u32 u16

fun bearer_do :: "bearer_op \<Rightarrow> bearer_mgr \<Rightarrow> bearer_mgr" where
  "bearer_do (Add_Bearer e rat lcid) m = snd (add_eps_bearer m e rat lcid)"
| "bearer_do (Remove_Bearer e) m = snd (remove_eps_bearer m e)"
| "bearer_do Reset_Bearers m = bearer_reset m"
| "bearer_do (Set_Five_Qi e q) m = snd (set_five_qi m e q)"

text \<open>The abstract state: the radio bearer of each EPS bearer.\<close>

type_synonym bearer_spec = "u32 \<rightharpoonup> radio_bearer"

fun spec_do :: "bearer_op \<Rightarrow> bearer_spec \<Rightarrow> bearer_spec" where
  "spec_do (Add_Bearer e rat lcid) s =
    (if s (ucast e) = None
     then s(ucast e \<mapsto> \<lparr>rb_rat = rat, rb_lcid = lcid, rb_eps_bearer_id = ucast e, rb_five_qi = 0\<rparr>) else s)"
| "spec_do (Remove_Bearer e) s = s(ucast e := None)"
| "spec_do Reset_Bearers s = Map.empty"
| "spec_do (Set_Five_Qi e q) s = s(e := map_option (\<lambda>rb. rb\<lparr>rb_five_qi := ucast q\<rparr>) (s e))"

text \<open>No logical channel is given to a second bearer while it is in use.\<close>

fun lcids_fresh :: "bearer_op list \<Rightarrow> bearer_spec \<Rightarrow> bool" where
  "lcids_fresh [] s \<longleftrightarrow> True"
| "lcids_fresh (op # ops) s \<longleftrightarrow>
    (case op of Add_Bearer e rat lcid \<Rightarrow> (\<forall>rb \<in> ran s. rb_lcid rb \<noteq> lcid) | _ \<Rightarrow> True) \<and>
    lcids_fresh ops (spec_do op s)"

text \<open>What holds after every operation: both maps are maps, and the map of channels points to bearers.\<close>

definition bearers_linked :: "bearer_mgr \<Rightarrow> bool" where
  "bearers_linked m \<longleftrightarrow> map_ok (bm_bearers m) \<and> map_ok (bm_lcid_to_eps m) \<and>
    (\<forall>l e. map_of (bm_lcid_to_eps m) l = Some e \<longrightarrow> (\<exists>rb. map_of (bm_bearers m) e = Some rb \<and> rb_lcid rb = l)) \<and>
    (\<forall>e rb. map_of (bm_bearers m) e = Some rb \<longrightarrow> rb_eps_bearer_id rb = e)"

text \<open>What holds in addition while channels are not shared: every bearer is found by its channel.\<close>

definition lcids_linked :: "bearer_mgr \<Rightarrow> bool" where
  "lcids_linked m \<longleftrightarrow> (\<forall>e rb. map_of (bm_bearers m) e = Some rb \<longrightarrow> map_of (bm_lcid_to_eps m) (rb_lcid rb) = Some e)"

lemmas bearer_op_defs = add_eps_bearer_def remove_eps_bearer_def bearer_reset_def set_five_qi_def

lemma bearers_linked_new: "bearers_linked bearer_mgr_new" "lcids_linked bearer_mgr_new"
  by (simp_all add: bearers_linked_def lcids_linked_def bearer_mgr_new_def)

lemma bearers_linkedD:
  "bearers_linked m \<Longrightarrow> map_of (bm_lcid_to_eps m) l = Some e \<Longrightarrow>
    \<exists>rb. map_of (bm_bearers m) e = Some rb \<and> rb_lcid rb = l"
  by (simp add: bearers_linked_def)

lemma bearers_linked_do: "bearers_linked m \<Longrightarrow> bearers_linked (bearer_do op m)"
proof (cases op)
  case (Add_Bearer e rat lcid)
  assume linked: "bearers_linked m"
  show ?thesis
  proof (cases "map_of (bm_bearers m) (ucast e)")
    case None
    then have no: "map_of (bm_lcid_to_eps m) l \<noteq> Some (ucast e)" for l using bearers_linkedD [OF linked] by fastforce
    show ?thesis
      using linked no None unfolding Add_Bearer
      by (auto simp: bearers_linked_def bearer_op_defs sm.lookup_add)
  qed (use linked Add_Bearer in \<open>simp add: bearer_op_defs\<close>)
next
  case (Remove_Bearer e)
  assume linked: "bearers_linked m"
  show ?thesis
  proof (cases "map_of (bm_bearers m) (ucast e)")
    case (Some rb)
    then have no: "map_of (bm_lcid_to_eps m) l \<noteq> Some (ucast e)" if "l \<noteq> rb_lcid rb" for l
      using bearers_linkedD [OF linked, of l "ucast e"] that by auto
    show ?thesis
      using linked no Some unfolding Remove_Bearer by (auto simp: bearers_linked_def bearer_op_defs)
  qed (use linked Remove_Bearer in \<open>simp add: bearer_op_defs\<close>)
next
  case Reset_Bearers
  then show ?thesis by (simp add: bearers_linked_def bearer_op_defs)
next
  case (Set_Five_Qi e q)
  assume "bearers_linked m"
  then show ?thesis
    unfolding Set_Five_Qi by (fastforce simp: bearers_linked_def bearer_op_defs split: option.splits)
qed

lemma bearers_linked_run: "bearers_linked m \<Longrightarrow> bearers_linked (fold bearer_do ops m)"
  by (induction ops arbitrary: m) (simp_all add: bearers_linked_do)

lemma bearer_do_refines: "bearers_linked m \<Longrightarrow> map_of (bm_bearers (bearer_do op m)) = spec_do op (map_of (bm_bearers m))"
  by (cases op) (auto simp: bearers_linked_def bearer_op_defs fun_eq_iff sm.lookup_add split: option.splits)

lemma lcids_linked_do:
  assumes "bearers_linked m" "lcids_linked m" "lcids_fresh (op # ops) (map_of (bm_bearers m))"
  shows "lcids_linked (bearer_do op m)"
proof (cases op)
  case (Add_Bearer e rat lcid)
  have "map_of (bm_lcid_to_eps m) lcid = None"
    using assms(3) bearers_linkedD [OF assms(1), of lcid] unfolding Add_Bearer
    by (cases "map_of (bm_lcid_to_eps m) lcid") (auto simp: ran_def)
  then show ?thesis
    using assms unfolding Add_Bearer
    by (auto simp: bearers_linked_def lcids_linked_def bearer_op_defs sm.lookup_add ran_def split: option.splits)
next
  case (Remove_Bearer e)
  show ?thesis
  proof (cases "map_of (bm_bearers m) (ucast e)")
    case (Some rb)
    then have own: "map_of (bm_lcid_to_eps m) (rb_lcid rb) = Some (ucast e)" using assms(2) by (simp add: lcids_linked_def)
    have ok: "map_ok (bm_bearers m)" "map_ok (bm_lcid_to_eps m)" using assms(1) by (simp_all add: bearers_linked_def)
    show ?thesis
      unfolding Remove_Bearer lcids_linked_def
    proof (intro allI impI)
      fix e' rb'
      assume "map_of (bm_bearers (bearer_do (Remove_Bearer e) m)) e' = Some rb'"
      then have at: "e' \<noteq> ucast e" "map_of (bm_bearers m) e' = Some rb'"
        using Some ok by (auto simp: bearer_op_defs split: if_splits)
      then have "map_of (bm_lcid_to_eps m) (rb_lcid rb') = Some e'" using assms(2) by (simp add: lcids_linked_def)
      moreover from this at(1) own have "rb_lcid rb' \<noteq> rb_lcid rb" by auto
      ultimately show "map_of (bm_lcid_to_eps (bearer_do (Remove_Bearer e) m)) (rb_lcid rb') = Some e'"
        using Some ok by (simp add: bearer_op_defs)
    qed
  qed (use assms(2) Remove_Bearer in \<open>simp add: bearer_op_defs\<close>)
next
  case Reset_Bearers
  then show ?thesis by (simp add: lcids_linked_def bearer_op_defs)
next
  case (Set_Five_Qi e q)
  then show ?thesis
    using assms(1,2) by (fastforce simp: bearers_linked_def lcids_linked_def bearer_op_defs split: option.splits)
qed

lemma bearer_run_refines:
  "bearers_linked m \<Longrightarrow> lcids_linked m \<Longrightarrow> lcids_fresh ops (map_of (bm_bearers m)) \<Longrightarrow>
    lcids_linked (fold bearer_do ops m) \<and>
    map_of (bm_bearers (fold bearer_do ops m)) = fold spec_do ops (map_of (bm_bearers m))"
proof (induction ops arbitrary: m)
  case (Cons op ops)
  then show ?case
    using lcids_linked_do [OF Cons.prems] bearers_linked_do [of m op] bearer_do_refines [of m op] by simp
qed simp

section \<open>Properties\<close>

text \<open>
  C32: whatever operations are carried out, the search for the bearer of a logical channel never throws,
  and what it finds is an active bearer on that channel.
\<close>

theorem lcid_lookup_never_throws:
  "case get_eps_bearer_id_for_lcid (fold bearer_do ops bearer_mgr_new) lcid of
     None \<Rightarrow> False
   | Some rb \<Rightarrow> rb = invalid_rb \<or>
       rb_lcid rb = lcid \<and> get_radio_bearer (fold bearer_do ops bearer_mgr_new) (rb_eps_bearer_id rb) = rb"
proof -
  have linked: "bearers_linked (fold bearer_do ops bearer_mgr_new)"
    by (rule bearers_linked_run [OF bearers_linked_new(1)])
  show ?thesis
  proof (cases "map_of (bm_lcid_to_eps (fold bearer_do ops bearer_mgr_new)) lcid")
    case (Some e)
    then obtain rb where "map_of (bm_bearers (fold bearer_do ops bearer_mgr_new)) e = Some rb" "rb_lcid rb = lcid"
      using bearers_linkedD [OF linked] by blast
    moreover from this have "rb_eps_bearer_id rb = e" using linked by (simp add: bearers_linked_def)
    ultimately show ?thesis using Some by (simp add: get_eps_bearer_id_for_lcid_def get_radio_bearer_def)
  qed (simp add: get_eps_bearer_id_for_lcid_def)
qed

text \<open>
  C14: while no logical channel is given to two bearers, the manager implements the map from EPS bearers to
  radio bearers: both searches and the test for activity answer what the map says.
\<close>

theorem bearer_manager_refines:
  assumes "lcids_fresh ops Map.empty"
  defines "m \<equiv> fold bearer_do ops bearer_mgr_new"
    and "s \<equiv> fold spec_do ops Map.empty"
  shows "get_radio_bearer m e = (case s e of Some rb \<Rightarrow> rb | None \<Rightarrow> invalid_rb) \<and>
    (has_active_radio_bearer m e \<longleftrightarrow> e \<in> dom s) \<and>
    get_eps_bearer_id_for_lcid m lcid =
      Some (if \<exists>rb \<in> ran s. rb_lcid rb = lcid then THE rb. rb \<in> ran s \<and> rb_lcid rb = lcid else invalid_rb)"
proof -
  have new: "map_of (bm_bearers bearer_mgr_new) = Map.empty" by (simp add: bearer_mgr_new_def)
  have linked: "bearers_linked m" unfolding m_def by (rule bearers_linked_run [OF bearers_linked_new(1)])
  have run: "lcids_linked m" "map_of (bm_bearers m) = s"
    using bearer_run_refines [OF bearers_linked_new, of ops] assms(1) unfolding new m_def s_def by simp_all
  have "get_eps_bearer_id_for_lcid m lcid =
      Some (if \<exists>rb \<in> ran s. rb_lcid rb = lcid then THE rb. rb \<in> ran s \<and> rb_lcid rb = lcid else invalid_rb)"
  proof (cases "map_of (bm_lcid_to_eps m) lcid")
    case None
    then have "\<not> (\<exists>rb \<in> ran s. rb_lcid rb = lcid)" using run by (fastforce simp: lcids_linked_def ran_def)
    then show ?thesis using None by (simp add: get_eps_bearer_id_for_lcid_def)
  next
    case (Some e')
    then obtain rb where rb: "s e' = Some rb" "rb_lcid rb = lcid" using bearers_linkedD [OF linked] run(2) by force
    have u: "rb' = rb" if "rb' \<in> ran s" "rb_lcid rb' = lcid" for rb'
      using that run Some rb(1) by (auto simp: lcids_linked_def ran_def)
    have "rb \<in> ran s" using rb(1) by (auto simp: ran_def)
    then have "(THE rb. rb \<in> ran s \<and> rb_lcid rb = lcid) = rb" using u rb(2) by blast
    then show ?thesis using Some rb run(2) \<open>rb \<in> ran s\<close> by (auto simp: get_eps_bearer_id_for_lcid_def)
  qed
  then show ?thesis using run(2) by (auto simp: get_radio_bearer_def has_active_radio_bearer_def dom_def)
qed

theorem bearer_manager_refines_witness:
  "let m = fold bearer_do [Add_Bearer 5 lte 3, Add_Bearer 6 nr 4, Set_Five_Qi 6 9, Remove_Bearer 5, Add_Bearer 7 lte 3]
     bearer_mgr_new in
   get_radio_bearer m 6 = \<lparr>rb_rat = nr, rb_lcid = 4, rb_eps_bearer_id = 6, rb_five_qi = 9\<rparr> \<and> has_active_radio_bearer m 6"
  using bearer_manager_refines [of "[Add_Bearer 5 lte 3, Add_Bearer 6 nr 4, Set_Five_Qi 6 9, Remove_Bearer 5, Add_Bearer 7 lte 3]" 6 4]
  by (simp add: Let_def ran_def)

text \<open>
  : a logical channel that exists on both radio access technologies serves two bearers; when the second
  is removed the first is active but no longer found by its channel.
\<close>

theorem lcid_collision:
  assumes "e1 \<noteq> e2" "lcids_fresh (ops @ [Add_Bearer e1 lte lcid]) Map.empty"
    and "fold spec_do ops Map.empty (ucast e1) = None" "fold spec_do ops Map.empty (ucast e2) = None"
  defines "m \<equiv> fold bearer_do (ops @ [Add_Bearer e1 lte lcid, Add_Bearer e2 nr lcid, Remove_Bearer e2]) bearer_mgr_new"
  shows "has_active_radio_bearer m (ucast e1) \<and> rb_lcid (get_radio_bearer m (ucast e1)) = lcid \<and>
    get_eps_bearer_id_for_lcid m lcid = Some invalid_rb"
proof -
  have fresh: "lcids_fresh xs s" if "lcids_fresh (xs @ ys) s" for xs ys s
    using that by (induction xs arbitrary: s) auto
  have ucast_ucast: "ucast (ucast x :: u32) = x" for x :: u8
    by (rule bit_word_eqI) (simp add: bit_simps)
  define m0 where "m0 = fold bearer_do ops bearer_mgr_new"
  have new: "map_of (bm_bearers bearer_mgr_new) = Map.empty" by (simp add: bearer_mgr_new_def)
  have m0: "bearers_linked m0" "map_of (bm_bearers m0) = fold spec_do ops Map.empty"
    using bearers_linked_run [OF bearers_linked_new(1)] fresh [OF assms(2)]
      bearer_run_refines [OF bearers_linked_new, of ops] unfolding new m0_def by simp_all
  have ne: "ucast e1 \<noteq> (ucast e2 :: u32)"
    using assms(1) ucast_ucast [of e1] ucast_ucast [of e2] by metis
  have ok: "map_ok (bm_bearers m0)" "map_ok (bm_lcid_to_eps m0)" using m0(1) by (simp_all add: bearers_linked_def)
  show ?thesis
    using ne ok assms(3,4) m0(2) unfolding m_def
    by (simp add: m0_def [symmetric] bearer_op_defs has_active_radio_bearer_def get_radio_bearer_def sm.lookup_add
        get_eps_bearer_id_for_lcid_def)
qed

theorem lcid_collision_witness:
  "let m = fold bearer_do [Add_Bearer 5 lte 3, Add_Bearer 6 nr 3, Remove_Bearer 6] bearer_mgr_new in
   has_active_radio_bearer m 5 \<and> get_eps_bearer_id_for_lcid m 3 = Some invalid_rb"
  using lcid_collision [of 5 6 "[]" 3] by (simp add: Let_def)

section \<open>The managers of an eNB\<close>

datatype enb_op = Enb_Add u16 u8 rat u32 | Enb_Remove u16 u8 | Enb_Rem_User u16 | Enb_Set_Five_Qi u16 u32 u16

fun enb_do :: "enb_op \<Rightarrow> users_map \<Rightarrow> users_map" where
  "enb_do (Enb_Add rnti e rat lcid) us = enb_add_eps_bearer us rnti e rat lcid"
| "enb_do (Enb_Remove rnti e) us = enb_remove_eps_bearer us rnti e"
| "enb_do (Enb_Rem_User rnti) us = rem_user us rnti"
| "enb_do (Enb_Set_Five_Qi rnti e q) us = snd (enb_set_five_qi us rnti e q)"

text \<open>What an operation is to one user.\<close>

fun op_of_user :: "u16 \<Rightarrow> enb_op \<Rightarrow> bearer_op list" where
  "op_of_user r (Enb_Add rnti e rat lcid) = (if rnti = r then [Add_Bearer e rat lcid] else [])"
| "op_of_user r (Enb_Remove rnti e) = (if rnti = r then [Remove_Bearer e] else [])"
| "op_of_user r (Enb_Rem_User rnti) = (if rnti = r then [Reset_Bearers] else [])"
| "op_of_user r (Enb_Set_Five_Qi rnti e q) = (if rnti = r then [Set_Five_Qi e q] else [])"

text \<open>The manager of a user; a user that is not in the map has no bearers.\<close>

definition mgr_of :: "users_map \<Rightarrow> u16 \<Rightarrow> bearer_mgr" where
  "mgr_of us r = (case us r of Some m \<Rightarrow> m | None \<Rightarrow> bearer_mgr_new)"

lemma mgr_of_do: "mgr_of (enb_do op us) r = fold bearer_do (op_of_user r op) (mgr_of us r)"
  by (cases op)
    (auto simp: mgr_of_def enb_add_eps_bearer_def enb_remove_eps_bearer_def rem_user_def enb_set_five_qi_def
      bearer_mgr_new_def bearer_op_defs Let_def split: option.splits prod.splits)

lemma mgr_of_run: "mgr_of (fold enb_do ops us) r = fold bearer_do (concat (map (op_of_user r) ops)) (mgr_of us r)"
  by (induction ops arbitrary: us) (simp_all add: mgr_of_do)

lemma enb_queries:
  "enb_get_radio_bearer us r e = get_radio_bearer (mgr_of us r) e"
  "enb_get_lcid_bearer us r lcid = get_eps_bearer_id_for_lcid (mgr_of us r) lcid"
  "enb_has_active_radio_bearer us r e = has_active_radio_bearer (mgr_of us r) e"
  by (simp_all add: enb_get_radio_bearer_def enb_get_lcid_bearer_def enb_has_active_radio_bearer_def mgr_of_def
      get_radio_bearer_def get_eps_bearer_id_for_lcid_def has_active_radio_bearer_def bearer_mgr_new_def split: option.split)

text \<open>
  C33: the eNB keeps its users apart: what it answers for a user is what a manager of its own answers after
  the operations of that user, where removing the user is a reset.
\<close>

theorem enb_users_independent:
  "enb_get_radio_bearer (fold enb_do ops Map.empty) r e =
     get_radio_bearer (fold bearer_do (concat (map (op_of_user r) ops)) bearer_mgr_new) e \<and>
   enb_get_lcid_bearer (fold enb_do ops Map.empty) r lcid =
     get_eps_bearer_id_for_lcid (fold bearer_do (concat (map (op_of_user r) ops)) bearer_mgr_new) lcid \<and>
   enb_has_active_radio_bearer (fold enb_do ops Map.empty) r e =
     has_active_radio_bearer (fold bearer_do (concat (map (op_of_user r) ops)) bearer_mgr_new) e"
  unfolding enb_queries mgr_of_run by (simp add: mgr_of_def)

end
