(* ===== verification/Timers.thy ===== *)
theory Timers
  imports Prelude
begin

text \<open>
  The stack timers, \<^verbatim>\<open>lib/include/srsran/common/timers.h\<close> with the lists of
  \<^verbatim>\<open>lib/include/srsran/adt/intrusive_list.h\<close>: timers packed in one 64 bit word, a wheel of
  doubly linked lists through the timers, expiry with callbacks.

  A pointer to a timer is its index in \<open>timer_list\<close>. A callback is a value of type \<open>'c\<close>; what calling it does
  to the world \<open>'w\<close> and the timers is the parameter \<open>call\<close>. A failed assertion has no result (\<open>None\<close>).
\<close>

section \<open>The packed state\<close>

abbreviation "WHEEL_MASK \<equiv> 0xFFFF :: u32"
abbreviation "STOPPED_FLAG \<equiv> 0 :: u64"
abbreviation "RUNNING_FLAG \<equiv> 0x8000000000000000 :: u64"
abbreviation "EXPIRED_FLAG \<equiv> 0x4000000000000000 :: u64"
abbreviation "MAX_TIMER_DURATION \<equiv> 0x3FFFFFFF :: u32"

definition decode_is_running :: "u64 \<Rightarrow> bool" where
  "decode_is_running value \<longleftrightarrow> value AND RUNNING_FLAG \<noteq> 0"

definition decode_is_expired :: "u64 \<Rightarrow> bool" where
  "decode_is_expired value \<longleftrightarrow> value AND EXPIRED_FLAG \<noteq> 0"

definition decode_duration :: "u64 \<Rightarrow> u32" where
  "decode_duration value = ucast (drop_bit 32 value AND ucast MAX_TIMER_DURATION)"

definition decode_timeout :: "u64 \<Rightarrow> u32" where
  "decode_timeout value = ucast (value AND 0xFFFFFFFF)"

definition encode_state :: "u64 \<Rightarrow> u32 \<Rightarrow> u32 \<Rightarrow> u64" where
  "encode_state mode_flag duration timeout = mode_flag + push_bit 32 (ucast duration) + ucast timeout"

section \<open>Timers and their lists\<close>

record 'c timer =
  tm_allocated :: bool
  tm_state :: u64
  tm_callback :: "'c option"
  tm_next :: "nat option"
  tm_prev :: "nat option"

definition timer_new :: "'c timer" where
  "timer_new = \<lparr>tm_allocated = False, tm_state = 0, tm_callback = None, tm_next = None, tm_prev = None\<rparr>"

text \<open>\<open>free_list\<close> is a list: its elements are never reached otherwise. The wheel holds the head of each list.\<close>

record 'c timers =
  th_cur_time :: u32
  th_nof_running :: u64
  th_nof_free :: u64
  th_list :: "'c timer list"
  th_free :: "nat list"
  th_wheel :: "u32 \<Rightarrow> nat option"

definition timer_at :: "'c timers \<Rightarrow> nat \<Rightarrow> 'c timer" where
  "timer_at h i = th_list h ! i"

definition update_timer :: "nat \<Rightarrow> ('c timer \<Rightarrow> 'c timer) \<Rightarrow> 'c timers \<Rightarrow> 'c timers" where
  "update_timer i f h = h\<lparr>th_list := (th_list h)[i := f (th_list h ! i)]\<rparr>"

definition wheel_push_front :: "u32 \<Rightarrow> nat \<Rightarrow> 'c timers \<Rightarrow> 'c timers" where
  "wheel_push_front pos i h =
    (let node = th_wheel h pos;
         h = update_timer i (\<lambda>t. t\<lparr>tm_prev := None, tm_next := node\<rparr>) h;
         h = (case node of None \<Rightarrow> h | Some j \<Rightarrow> update_timer j (\<lambda>t. t\<lparr>tm_prev := Some i\<rparr>) h)
     in h\<lparr>th_wheel := (th_wheel h)(pos := Some i)\<rparr>)"

definition wheel_pop :: "u32 \<Rightarrow> nat \<Rightarrow> 'c timers \<Rightarrow> 'c timers" where
  "wheel_pop pos i h =
    (let h = (if th_wheel h pos = Some i then h\<lparr>th_wheel := (th_wheel h)(pos := tm_next (timer_at h i))\<rparr> else h);
         h = (case tm_prev (timer_at h i) of
                None \<Rightarrow> h
              | Some p \<Rightarrow> update_timer p (\<lambda>t. t\<lparr>tm_next := tm_next (timer_at h i)\<rparr>) h);
         h = (case tm_next (timer_at h i) of
                None \<Rightarrow> h
              | Some n \<Rightarrow> update_timer n (\<lambda>t. t\<lparr>tm_prev := tm_prev (timer_at h i)\<rparr>) h)
     in update_timer i (\<lambda>t. t\<lparr>tm_next := None, tm_prev := None\<rparr>) h)"

section \<open>The handler\<close>

definition timer_handler_new :: "nat \<Rightarrow> 'c timers" where
  "timer_handler_new capacity =
    \<lparr>th_cur_time = 0, th_nof_running = 0, th_nof_free = of_nat capacity, th_list = replicate capacity timer_new,
     th_free = [0..<capacity], th_wheel = (\<lambda>_. None)\<rparr>"

definition store_state :: "nat \<Rightarrow> u64 \<Rightarrow> 'c timers \<Rightarrow> 'c timers" where
  "store_state i s h = update_timer i (\<lambda>t. t\<lparr>tm_state := s\<rparr>) h"

definition start_run :: "nat \<Rightarrow> u32 \<Rightarrow> 'c timers \<Rightarrow> 'c timers" where
  "start_run i duration h =
    (let old_state = tm_state (timer_at h i);
         duration = (if duration = 0 then decode_duration old_state else duration);
         new_timeout = th_cur_time h + duration;
         new_wheel_pos = new_timeout AND WHEEL_MASK;
         old_timeout = decode_timeout old_state;
         was_running = decode_is_running old_state
     in if was_running \<and> old_timeout AND WHEEL_MASK = new_wheel_pos
        then store_state i (encode_state RUNNING_FLAG duration new_timeout) h
        else
          let h = (if was_running
                   then (wheel_pop (old_timeout AND WHEEL_MASK) i h)\<lparr>th_nof_running := th_nof_running h - 1\<rparr>
                   else h);
              h = wheel_push_front new_wheel_pos i h;
              h = store_state i (encode_state RUNNING_FLAG duration new_timeout) h
          in h\<lparr>th_nof_running := th_nof_running h + 1\<rparr>)"

definition stop_timer :: "nat \<Rightarrow> bool \<Rightarrow> 'c timers \<Rightarrow> 'c timers" where
  "stop_timer i expiry h =
    (let old_state = tm_state (timer_at h i)
     in if \<not> decode_is_running old_state then h
        else
          let old_timeout = decode_timeout old_state;
              h = wheel_pop (old_timeout AND WHEEL_MASK) i h;
              h = store_state i
                (encode_state (if expiry then EXPIRED_FLAG else STOPPED_FLAG) (decode_duration old_state) old_timeout) h
          in h\<lparr>th_nof_running := th_nof_running h - 1\<rparr>)"

definition alloc_timer :: "'c timers \<Rightarrow> (nat \<times> 'c timers) option" where
  "alloc_timer h =
    (case th_free h of
       t # free \<Rightarrow>
         if tm_allocated (timer_at h t) then None
         else Some (t, update_timer t (\<lambda>t. t\<lparr>tm_allocated := True\<rparr>)
           (h\<lparr>th_free := free, th_nof_free := th_nof_free h - 1\<rparr>))
     | [] \<Rightarrow> (let t = length (th_list h) in
         Some (t, update_timer t (\<lambda>t. t\<lparr>tm_allocated := True\<rparr>) (h\<lparr>th_list := th_list h @ [timer_new]\<rparr>))))"

definition dealloc_timer :: "nat \<Rightarrow> 'c timers \<Rightarrow> 'c timers" where
  "dealloc_timer i h =
    (if \<not> tm_allocated (timer_at h i) then h
     else
       let h = stop_timer i False h;
           h = update_timer i (\<lambda>t. t\<lparr>tm_allocated := False, tm_state := encode_state STOPPED_FLAG 0 0,
                 tm_callback := None\<rparr>) h
       in h\<lparr>th_free := i # th_free h, th_nof_free := th_nof_free h + 1\<rparr>)"

definition set_duration :: "nat \<Rightarrow> u32 \<Rightarrow> 'c timers \<Rightarrow> 'c timers" where
  "set_duration i duration h =
    (let duration = max duration 1;
         old_state = tm_state (timer_at h i)
     in if decode_is_running old_state then start_run i duration h
        else store_state i (encode_state STOPPED_FLAG duration 0) h)"

definition timer_set :: "nat \<Rightarrow> u32 \<Rightarrow> 'c timers \<Rightarrow> 'c timers option" where
  "timer_set i duration h = (if MAX_TIMER_DURATION < duration then None else Some (set_duration i duration h))"

definition timer_set_callback :: "nat \<Rightarrow> u32 \<Rightarrow> 'c option \<Rightarrow> 'c timers \<Rightarrow> 'c timers option" where
  "timer_set_callback i duration cb h =
    (if MAX_TIMER_DURATION < duration then None
     else Some (update_timer i (\<lambda>t. t\<lparr>tm_callback := cb\<rparr>) (set_duration i duration h)))"

definition timer_run :: "nat \<Rightarrow> 'c timers \<Rightarrow> 'c timers" where
  "timer_run i h = start_run i 0 h"

definition timer_stop :: "nat \<Rightarrow> 'c timers \<Rightarrow> 'c timers" where
  "timer_stop i h = stop_timer i False h"

definition stop_all :: "'c timers \<Rightarrow> 'c timers" where
  "stop_all h = fold (\<lambda>i. stop_timer i False) [0..<length (th_list h)] h"

definition nof_timers :: "'c timers \<Rightarrow> u32" where
  "nof_timers h = ucast (of_nat (length (th_list h)) - th_nof_free h :: u64)"

definition nof_running_timers :: "'c timers \<Rightarrow> u32" where
  "nof_running_timers h = ucast (th_nof_running h)"

definition tm_is_running :: "'c timers \<Rightarrow> nat \<Rightarrow> bool" where
  "tm_is_running h i = decode_is_running (tm_state (timer_at h i))"

definition tm_is_expired :: "'c timers \<Rightarrow> nat \<Rightarrow> bool" where
  "tm_is_expired h i = decode_is_expired (tm_state (timer_at h i))"

definition tm_duration :: "'c timers \<Rightarrow> nat \<Rightarrow> u32" where
  "tm_duration h i = decode_duration (tm_state (timer_at h i))"

definition tm_is_set :: "'c timers \<Rightarrow> nat \<Rightarrow> bool" where
  "tm_is_set h i \<longleftrightarrow> 0 < tm_duration h i"

definition tm_time_elapsed :: "'c timers \<Rightarrow> nat \<Rightarrow> u32" where
  "tm_time_elapsed h i =
    (let s = tm_state (timer_at h i);
         running = decode_is_running s; expired = decode_is_expired s;
         duration = decode_duration s; timeout = decode_timeout s
     in if running then duration - (timeout - th_cur_time h) else if expired then duration else 0)"

section \<open>A step of time\<close>

text \<open>
  The walk along one list of the wheel. The iterator is moved on before the timer expires and its callback
  runs, and follows \<open>next_node\<close> as it is then.
\<close>

partial_function (option) wheel_walk ::
    "('c \<Rightarrow> u32 \<Rightarrow> 'w \<times> 'c timers \<Rightarrow> 'w \<times> 'c timers) \<Rightarrow> u32 \<Rightarrow> nat option \<Rightarrow> 'w \<times> 'c timers \<Rightarrow> ('w \<times> 'c timers) option" where
  "wheel_walk call cur_time_local it s =
    (case it of
       None \<Rightarrow> Some s
     | Some i \<Rightarrow>
         (let w = fst s; h = snd s;
              it' = tm_next (timer_at h i)
          in if decode_timeout (tm_state (timer_at h i)) = cur_time_local then
               let h = stop_timer i True h
               in case tm_callback (timer_at h i) of
                    None \<Rightarrow> wheel_walk call cur_time_local it' (w, h)
                  | Some c \<Rightarrow> wheel_walk call cur_time_local it' (call c (of_nat i) (w, h))
             else wheel_walk call cur_time_local it' (w, h)))"

definition step_all ::
    "('c \<Rightarrow> u32 \<Rightarrow> 'w \<times> 'c timers \<Rightarrow> 'w \<times> 'c timers) \<Rightarrow> 'w \<times> 'c timers \<Rightarrow> ('w \<times> 'c timers) option" where
  "step_all call s =
    (let cur_time_local = th_cur_time (snd s) + 1
     in map_option (\<lambda>(w, h). (w, h\<lparr>th_cur_time := th_cur_time h + 1\<rparr>))
          (wheel_walk call cur_time_local (th_wheel (snd s) (cur_time_local AND WHEEL_MASK)) s))"

section \<open>Handles\<close>

text \<open>A \<open>unique_timer\<close> is a handle that may be empty.\<close>

type_synonym unique_timer = "nat option"

definition get_unique_timer :: "'c timers \<Rightarrow> (unique_timer \<times> 'c timers) option" where
  "get_unique_timer h = map_option (\<lambda>(t, h). (Some t, h)) (alloc_timer h)"

text \<open>Move assignment: the new handles of the target and of the source. The target's old timer is not released.\<close>

definition ut_move_assign :: "unique_timer \<Rightarrow> unique_timer \<Rightarrow> unique_timer \<times> unique_timer" where
  "ut_move_assign this other = (other, None)"

definition ut_set :: "unique_timer \<Rightarrow> u32 \<Rightarrow> 'c timers \<Rightarrow> 'c timers option" where
  "ut_set u duration h = (case u of None \<Rightarrow> None | Some i \<Rightarrow> timer_set i duration h)"

definition ut_set_callback :: "unique_timer \<Rightarrow> u32 \<Rightarrow> 'c option \<Rightarrow> 'c timers \<Rightarrow> 'c timers option" where
  "ut_set_callback u duration cb h = (case u of None \<Rightarrow> None | Some i \<Rightarrow> timer_set_callback i duration cb h)"

definition ut_run :: "unique_timer \<Rightarrow> 'c timers \<Rightarrow> 'c timers option" where
  "ut_run u h = (case u of None \<Rightarrow> None | Some i \<Rightarrow> Some (timer_run i h))"

definition ut_stop :: "unique_timer \<Rightarrow> 'c timers \<Rightarrow> 'c timers" where
  "ut_stop u h = (case u of None \<Rightarrow> h | Some i \<Rightarrow> timer_stop i h)"

definition ut_release :: "unique_timer \<Rightarrow> 'c timers \<Rightarrow> unique_timer \<times> 'c timers" where
  "ut_release u h = (case u of None \<Rightarrow> (u, h) | Some i \<Rightarrow> (None, dealloc_timer i h))"

definition ut_is_running :: "unique_timer \<Rightarrow> 'c timers \<Rightarrow> bool" where
  "ut_is_running u h \<longleftrightarrow> (case u of None \<Rightarrow> False | Some i \<Rightarrow> tm_is_running h i)"

definition ut_is_expired :: "unique_timer \<Rightarrow> 'c timers \<Rightarrow> bool" where
  "ut_is_expired u h \<longleftrightarrow> (case u of None \<Rightarrow> False | Some i \<Rightarrow> tm_is_expired h i)"

definition ut_time_elapsed :: "unique_timer \<Rightarrow> 'c timers \<Rightarrow> u32" where
  "ut_time_elapsed u h = (case u of None \<Rightarrow> 0 | Some i \<Rightarrow> tm_time_elapsed h i)"

text \<open>A deferred call: \<open>mk t\<close> is the callback that runs the function and deallocates timer \<open>t\<close>.\<close>

definition defer_callback :: "u32 \<Rightarrow> (nat \<Rightarrow> 'c) \<Rightarrow> 'c timers \<Rightarrow> 'c timers option" where
  "defer_callback duration mk h =
    Option.bind (alloc_timer h) (\<lambda>(t, h).
      Option.bind (timer_set_callback t duration (Some (mk t)) h) (\<lambda>h. Some (timer_run t h)))"

end
