(* ===== verification/Timers_Proofs.thy ===== *)
theory Timers_Proofs
  imports Timers
begin

text \<open>
  What the timers promise: the wheel implements a list of deadlines, for every sequence of operations.
\<close>

section \<open>The packed state\<close>

lemma flag_bits:
  "RUNNING_FLAG = push_bit 63 1" "EXPIRED_FLAG = push_bit 62 1"
  "ucast MAX_TIMER_DURATION = (mask 30 :: u64)" "0xFFFFFFFF = (mask 32 :: u64)"
  by (simp_all add: mask_numeral)

lemma flag_bit: "bit RUNNING_FLAG n \<longleftrightarrow> n = 63" "bit EXPIRED_FLAG n \<longleftrightarrow> n = 62"
proof -
  have "bit (push_bit 63 1 :: u64) n \<longleftrightarrow> n = 63" "bit (push_bit 62 1 :: u64) n \<longleftrightarrow> n = 62"
    unfolding bit_push_bit_iff bit_1_iff by auto
  then show "bit RUNNING_FLAG n \<longleftrightarrow> n = 63" "bit EXPIRED_FLAG n \<longleftrightarrow> n = 62" unfolding flag_bits(1,2) by simp_all
qed

lemma decode_is_running_bit: "decode_is_running v \<longleftrightarrow> bit v 63"
  using and_exp_eq_0_iff_not_bit [of v 63] by (simp add: decode_is_running_def)

lemma decode_is_expired_bit: "decode_is_expired v \<longleftrightarrow> bit v 62"
  using and_exp_eq_0_iff_not_bit [of v 62] by (simp add: decode_is_expired_def)

lemma duration_bits: "d \<le> MAX_TIMER_DURATION \<Longrightarrow> bit d n \<Longrightarrow> n < 30"
proof -
  assume "d \<le> MAX_TIMER_DURATION" "bit d n"
  then have "d AND mask 30 = d" by (intro less_mask_eq) (simp add: word_le_nat_alt word_less_nat_alt)
  then show "n < 30" using \<open>bit d n\<close> by (metis bit_and_iff bit_mask_iff)
qed

lemma encode_state_or:
  assumes "d \<le> MAX_TIMER_DURATION" "m \<in> {STOPPED_FLAG, RUNNING_FLAG, EXPIRED_FLAG}"
  shows "encode_state m d t = m OR (push_bit 32 (ucast d) OR ucast t)"
proof -
  have "(push_bit 32 (ucast d) :: u64) AND ucast t = 0"
    by (rule bit_word_eqI) (auto simp: bits dest: bit_imp_le_length)
  moreover have "m AND (push_bit 32 (ucast d) OR ucast t) = 0"
    using assms(2)
    by (elim insertE emptyE; hypsubst; intro bit_word_eqI)
      (auto simp: bits flag_bit simp del: bit_numeral_word_iff bit_word_iff_drop_bit_and dest: bit_imp_le_length duration_bits [OF assms(1)])
  ultimately show ?thesis unfolding encode_state_def
    by (simp add: disjunctive_add_eq_or add.assoc)
qed

lemma decode_encode:
  assumes "d \<le> MAX_TIMER_DURATION" "m \<in> {STOPPED_FLAG, RUNNING_FLAG, EXPIRED_FLAG}"
  shows "decode_is_running (encode_state m d t) \<longleftrightarrow> m = RUNNING_FLAG"
    "decode_is_expired (encode_state m d t) \<longleftrightarrow> m = EXPIRED_FLAG"
    "decode_duration (encode_state m d t) = d"
    "decode_timeout (encode_state m d t) = t"
proof -
  note d = duration_bits [OF assms(1)]
  show "decode_is_running (encode_state m d t) \<longleftrightarrow> m = RUNNING_FLAG"
    using assms(2) unfolding encode_state_or [OF assms] decode_is_running_bit flag_bits
    by (elim insertE emptyE; hypsubst) (auto simp: bits dest: d bit_imp_le_length)
  show "decode_is_expired (encode_state m d t) \<longleftrightarrow> m = EXPIRED_FLAG"
    using assms(2) unfolding encode_state_or [OF assms] decode_is_expired_bit flag_bits
    by (elim insertE emptyE; hypsubst) (auto simp: bits dest: d bit_imp_le_length)
  show "decode_timeout (encode_state m d t) = t"
    using assms(2) unfolding encode_state_or [OF assms] decode_timeout_def flag_bits(3,4)
    by (elim insertE emptyE; hypsubst; intro bit_word_eqI) (auto simp: bits flag_bit simp del: bit_numeral_word_iff bit_word_iff_drop_bit_and dest: d bit_imp_le_length)
  have "bit (decode_duration (encode_state m d t)) n \<longleftrightarrow> bit d n" if "n < 32" for n
  proof (cases "n < 30")
    case True
    then have "\<not> bit m (32 + n)" using assms(2) by (auto simp: flag_bit simp del: bit_numeral_word_iff)
    then show ?thesis
      using True unfolding encode_state_or [OF assms] decode_duration_def flag_bits(3)
      by (auto simp: bits dest: bit_imp_le_length)
  next
    case False
    then show ?thesis using d [of n] unfolding decode_duration_def flag_bits(3) by (auto simp: bits)
  qed
  then show "decode_duration (encode_state m d t) = d" by (intro bit_word_eqI) simp
qed

section \<open>The linked lists\<close>

definition head_or :: "nat option \<Rightarrow> nat list \<Rightarrow> nat option" where
  "head_or q xs = (case xs of [] \<Rightarrow> q | x # _ \<Rightarrow> Some x)"

definition last_or :: "nat option \<Rightarrow> nat list \<Rightarrow> nat option" where
  "last_or p xs = (if xs = [] then p else Some (last xs))"

lemma head_or_simps [simp]: "head_or q [] = q" "head_or q (x # xs) = Some x" "xs \<noteq> [] \<Longrightarrow> head_or q (xs @ ys) = Some (hd xs)"
  by (simp_all add: head_or_def) (cases xs; simp)

lemma head_or_ne [simp]: "xs \<noteq> [] \<Longrightarrow> head_or q xs = Some (hd xs)"
  by (cases xs) simp_all

lemma last_or_simps [simp]: "last_or p [] = p" "xs \<noteq> [] \<Longrightarrow> last_or p xs = Some (last xs)"
  by (auto simp: last_or_def)

text \<open>The nodes \<open>xs\<close> are linked in this order, between \<open>p\<close> and \<open>q\<close>.\<close>

fun seg :: "'c timer list \<Rightarrow> nat option \<Rightarrow> nat list \<Rightarrow> nat option \<Rightarrow> bool" where
  "seg ts p [] q \<longleftrightarrow> True"
| "seg ts p (x # xs) q \<longleftrightarrow>
    x < length ts \<and> tm_prev (ts ! x) = p \<and> tm_next (ts ! x) = head_or q xs \<and> seg ts (Some x) xs q"

lemma seg_append: "seg ts p (xs @ ys) q \<longleftrightarrow> seg ts p xs (head_or q ys) \<and> seg ts (last_or p xs) ys q"
proof (induction xs arbitrary: p)
  case (Cons x xs)
  then show ?case by (cases xs) auto
qed simp

lemma seg_length: "seg ts p xs q \<Longrightarrow> set xs \<subseteq> {..<length ts}"
  by (induction xs arbitrary: p) auto

lemma seg_cong:
  "length ts' = length ts \<Longrightarrow> (\<And>x. x \<in> set xs \<Longrightarrow> tm_prev (ts' ! x) = tm_prev (ts ! x) \<and> tm_next (ts' ! x) = tm_next (ts ! x)) \<Longrightarrow>
    seg ts' p xs q = seg ts p xs q"
  by (induction xs arbitrary: p) auto

lemma seg_update_other [simp]: "i \<notin> set xs \<Longrightarrow> seg (ts[i := t]) p xs q = seg ts p xs q"
  by (intro seg_cong) (simp, metis nth_list_update_neq)

lemma seg_set_prev:
  assumes "seg ts p (x # xs) q" "x \<notin> set xs"
  shows "seg (ts[x := (ts ! x)\<lparr>tm_prev := p'\<rparr>]) p' (x # xs) q"
  using assms by simp

lemma seg_set_next:
  assumes "seg ts p (xs @ [x]) q" "x \<notin> set xs"
  shows "seg (ts[x := (ts ! x)\<lparr>tm_next := q'\<rparr>]) p (xs @ [x]) q'"
  using assms by (simp add: seg_append)

text \<open>Every list of the wheel is linked from its head, and the lists share no timer.\<close>

definition links_ok :: "'c timers \<Rightarrow> (u32 \<Rightarrow> nat list) \<Rightarrow> bool" where
  "links_ok h L \<longleftrightarrow>
    (\<forall>pos. th_wheel h pos = head_or None (L pos) \<and> distinct (L pos) \<and> seg (th_list h) None (L pos) None) \<and>
    (\<forall>pos pos'. pos \<noteq> pos' \<longrightarrow> set (L pos) \<inter> set (L pos') = {})"

lemma links_okD:
  assumes "links_ok h L"
  shows "th_wheel h pos = head_or None (L pos)" "distinct (L pos)" "seg (th_list h) None (L pos) None"
    "pos \<noteq> pos' \<Longrightarrow> x \<in> set (L pos) \<Longrightarrow> x \<notin> set (L pos')"
    "x \<in> set (L pos) \<Longrightarrow> x < length (th_list h)"
proof -
  have ok: "th_wheel h pos = head_or None (L pos)" "distinct (L pos)" "seg (th_list h) None (L pos) None"
    "pos \<noteq> pos' \<Longrightarrow> set (L pos) \<inter> set (L pos') = {}" for pos pos'
    using assms unfolding links_ok_def by blast+
  show "th_wheel h pos = head_or None (L pos)" "distinct (L pos)" "seg (th_list h) None (L pos) None" by (rule ok)+
  show "pos \<noteq> pos' \<Longrightarrow> x \<in> set (L pos) \<Longrightarrow> x \<notin> set (L pos')" using ok(4) by blast
  show "x \<in> set (L pos) \<Longrightarrow> x < length (th_list h)" using seg_length [OF ok(3)] by auto
qed

text \<open>What a step of a list operation leaves alone.\<close>

definition same_states :: "'c timers \<Rightarrow> 'c timers \<Rightarrow> bool" where
  "same_states h h' \<longleftrightarrow> length (th_list h') = length (th_list h) \<and> th_cur_time h' = th_cur_time h \<and>
    th_nof_running h' = th_nof_running h \<and> th_nof_free h' = th_nof_free h \<and> th_free h' = th_free h \<and>
    (\<forall>i. tm_state (th_list h' ! i) = tm_state (th_list h ! i) \<and> tm_callback (th_list h' ! i) = tm_callback (th_list h ! i) \<and>
      tm_allocated (th_list h' ! i) = tm_allocated (th_list h ! i))"

lemma same_states_refl: "same_states h h"
  by (simp add: same_states_def)

lemma same_states_wheel: "same_states h h' \<Longrightarrow> same_states h (h'\<lparr>th_wheel := f\<rparr>)"
  by (simp add: same_states_def)

lemma same_states_update:
  assumes "same_states h h'"
    and "\<And>t. tm_state (f t) = tm_state t \<and> tm_callback (f t) = tm_callback t \<and> tm_allocated (f t) = tm_allocated t"
  shows "same_states h (update_timer i f h')"
proof -
  have "tm_state ((th_list h')[i := f (th_list h' ! i)] ! k) = tm_state (th_list h' ! k) \<and>
      tm_callback ((th_list h')[i := f (th_list h' ! i)] ! k) = tm_callback (th_list h' ! k) \<and>
      tm_allocated ((th_list h')[i := f (th_list h' ! i)] ! k) = tm_allocated (th_list h' ! k)" for k
    using assms(2) by (cases "i < length (th_list h')"; cases "i = k") (simp_all add: list_update_beyond)
  then show ?thesis using assms(1) by (simp add: same_states_def update_timer_def)
qed

lemma wheel_push_front_same: "same_states h (wheel_push_front pos i h)"
  unfolding wheel_push_front_def Let_def
  by (cases "th_wheel h pos") (simp_all add: same_states_wheel same_states_update same_states_refl)

lemma wheel_pop_same: "same_states h (wheel_pop pos i h)"
proof -
  have c: "same_states h (case x of None \<Rightarrow> h' | Some p \<Rightarrow> update_timer p (f p) h')"
    if "same_states h h'" "\<And>p t. tm_state (f p t) = tm_state t \<and> tm_callback (f p t) = tm_callback t \<and> tm_allocated (f p t) = tm_allocated t"
    for h' :: "'a timers" and x f
    using that by (cases x) (simp_all add: same_states_update)
  have w: "same_states h (if c then h\<lparr>th_wheel := f\<rparr> else h)" for c f by (simp add: same_states_wheel same_states_refl)
  show ?thesis
    unfolding wheel_pop_def Let_def
    by (intro same_states_update c w) simp_all
qed

lemma links_ok_push:
  assumes ok: "links_ok h L" and i: "i < length (th_list h)" "\<And>pos. i \<notin> set (L pos)"
  shows "links_ok (wheel_push_front pos i h) (L(pos := i # L pos))"
proof -
  let ?h = "wheel_push_front pos i h"
  have len: "length (th_list ?h) = length (th_list h)" using wheel_push_front_same [where h = h and pos = pos and i = i] by (simp add: same_states_def)
  have frame: "th_list ?h ! x = th_list h ! x" if "x \<noteq> i" "th_wheel h pos \<noteq> Some x" for x
    using that by (auto simp: wheel_push_front_def update_timer_def Let_def split: option.split)
  have others: "seg (th_list ?h) None (L pos') None" if "pos' \<noteq> pos" for pos'
  proof -
    have "th_list ?h ! x = th_list h ! x" if x: "x \<in> set (L pos')" for x
      using x links_okD(4) [OF ok, where pos = pos' and pos' = pos and x = x] \<open>pos' \<noteq> pos\<close> i(2) links_okD(1) [OF ok, of pos]
      by (intro frame) (auto simp: head_or_def split: list.splits)
    then show ?thesis using links_okD(3) [OF ok, of pos'] by (subst seg_cong [OF len]) auto
  qed
  have own: "seg (th_list ?h) None (i # L pos) None"
  proof (cases "L pos")
    case Nil
    then show ?thesis
      using i links_okD(1) [OF ok, of pos] by (simp add: wheel_push_front_def update_timer_def Let_def)
  next
    case (Cons j js)
    let ?ts = "(th_list h)[i := (th_list h ! i)\<lparr>tm_prev := None, tm_next := Some j\<rparr>]"
    have j: "i \<noteq> j" "j \<notin> set js" "j < length (th_list h)" using i(2) [of pos] links_okD(2,5) [OF ok, where pos = pos] Cons by auto
    have e: "th_list ?h = ?ts[j := (?ts ! j)\<lparr>tm_prev := Some i\<rparr>]"
      using links_okD(1) [OF ok, of pos] Cons by (simp add: wheel_push_front_def update_timer_def Let_def)
    have "seg ?ts None (j # js) None"
      using links_okD(3) [OF ok, of pos] i(2) [of pos] Cons by simp
    from seg_set_prev [OF this j(2), of "Some i"] have "seg (th_list ?h) (Some i) (j # js) None" unfolding e .
    moreover have "tm_prev (th_list ?h ! i) = None" "tm_next (th_list ?h ! i) = Some j"
      using i j(1) unfolding e by simp_all
    ultimately show ?thesis using i(1) len Cons by simp
  qed
  have "th_wheel ?h = (th_wheel h)(pos := Some i)"
    by (simp add: wheel_push_front_def update_timer_def Let_def split: option.split)
  then show ?thesis
    using ok own others i(2) unfolding links_ok_def by auto
qed

lemma th_wheel_update [simp]: "th_wheel (update_timer i f h) = th_wheel h"
  by (simp add: update_timer_def)

lemma th_wheel_pop:
  "th_wheel (wheel_pop pos i h) =
    (if th_wheel h pos = Some i then (th_wheel h)(pos := tm_next (timer_at h i)) else th_wheel h)"
proof -
  have c: "th_wheel (case x of None \<Rightarrow> h | Some p \<Rightarrow> update_timer p (f p) h) = th_wheel h" for x f and h :: "'a timers"
    by (cases x) simp_all
  show ?thesis unfolding wheel_pop_def Let_def th_wheel_update c by simp
qed

lemma links_ok_pop:
  assumes ok: "links_ok h L" and L: "L pos = xs @ i # ys"
  shows "links_ok (wheel_pop pos i h) (L(pos := xs @ ys)) \<and>
    tm_next (timer_at (wheel_pop pos i h) i) = None \<and> tm_prev (timer_at (wheel_pop pos i h) i) = None"
proof -
  let ?h = "wheel_pop pos i h" and ?ts = "th_list h"
  have seg: "seg ?ts None xs (Some i)" "seg ?ts (Some i) ys None"
    and at: "i < length ?ts" "tm_prev (?ts ! i) = last_or None xs" "tm_next (?ts ! i) = head_or None ys"
    using links_okD(3) [OF ok, of pos] unfolding L by (simp_all add: seg_append)
  have dist: "distinct xs" "distinct ys" "i \<notin> set xs" "i \<notin> set ys" "set xs \<inter> set ys = {}"
    using links_okD(2) [OF ok, of pos] unfolding L by auto
  have len: "length (th_list ?h) = length ?ts" using wheel_pop_same [where h = h and pos = pos and i = i] by (simp add: same_states_def)
  define ts1 where "ts1 = (if xs = [] then ?ts else ?ts[last xs := (?ts ! last xs)\<lparr>tm_next := head_or None ys\<rparr>])"
  define ts2 where "ts2 = (if ys = [] then ts1 else ts1[hd ys := (ts1 ! hd ys)\<lparr>tm_prev := last_or None xs\<rparr>])"
  have ne: "xs \<noteq> [] \<Longrightarrow> last xs \<noteq> i" "ys \<noteq> [] \<Longrightarrow> hd ys \<noteq> i" "ys \<noteq> [] \<Longrightarrow> hd ys \<notin> set xs" "xs \<noteq> [] \<Longrightarrow> last xs \<notin> set ys"
    using dist last_in_set [of xs] hd_in_set [of ys] by (auto simp: disjoint_iff)
  have at1: "ts1 ! i = ?ts ! i" "ts2 ! i = ?ts ! i" using ne by (auto simp: ts1_def ts2_def)
  have first: "th_wheel h pos = Some i \<longleftrightarrow> xs = []"
    using links_okD(1) [OF ok, of pos] dist(3) unfolding L by (cases xs) auto
  have list: "th_list ?h = ts2[i := (?ts ! i)\<lparr>tm_next := None, tm_prev := None\<rparr>]"
    using at(2,3) at1 ne(1) first
    by (cases "xs = []"; cases "ys = []")
      (simp_all add: wheel_pop_def Let_def update_timer_def timer_at_def ts1_def ts2_def)
  have wheel: "th_wheel ?h = (th_wheel h)(pos := head_or None (xs @ ys))"
    using first links_okD(1) [OF ok, of pos] at(3) unfolding L th_wheel_pop
    by (cases "xs = []") (auto simp: timer_at_def fun_eq_iff)
  have own: "seg (th_list ?h) None (xs @ ys) None"
  proof -
    have x1: "seg ts1 None xs (head_or None ys)"
      using seg(1) dist(1) unfolding ts1_def
      by (cases xs rule: rev_cases) (auto intro: seg_set_next)
    have y1: "seg ts1 (Some i) ys None" using seg(2) ne(4) by (simp add: ts1_def)
    have x2: "seg ts2 None xs (head_or None ys)" using x1 ne(3) by (cases "ys = []") (simp_all add: ts2_def)
    have y2: "seg ts2 (last_or None xs) ys None"
      using y1 dist(2) unfolding ts2_def by (cases ys) (auto intro: seg_set_prev)
    show ?thesis unfolding list seg_append using x2 y2 dist(3,4) by simp
  qed
  have others: "seg (th_list ?h) None (L pos') None" if "pos' \<noteq> pos" for pos'
  proof -
    have "set (L pos') \<inter> set (L pos) = {}" using ok that unfolding links_ok_def by blast
    then have "i \<notin> set (L pos')" "xs \<noteq> [] \<Longrightarrow> last xs \<notin> set (L pos')" "ys \<noteq> [] \<Longrightarrow> hd ys \<notin> set (L pos')"
      unfolding L using last_in_set [of xs] hd_in_set [of ys] by auto
    then show ?thesis using links_okD(3) [OF ok, of pos'] unfolding list ts1_def ts2_def by simp
  qed
  have "links_ok ?h (L(pos := xs @ ys))"
  proof -
    have d: "set (L pos') \<inter> set (xs @ ys) = {}" if "pos' \<noteq> pos" for pos'
    proof -
      have "set (L pos') \<inter> set (L pos) = {}" using ok that unfolding links_ok_def by blast
      then show ?thesis unfolding L by auto
    qed
    have w: "th_wheel h p = head_or None (L p) \<and> distinct (L p)" for p using ok unfolding links_ok_def by blast
    show ?thesis
      unfolding links_ok_def
    proof (intro conjI allI impI)
      fix p
      show "th_wheel ?h p = head_or None ((L(pos := xs @ ys)) p)" using wheel w [of p] by simp
      show "distinct ((L(pos := xs @ ys)) p)" using w [of p] dist by simp
      show "seg (th_list ?h) None ((L(pos := xs @ ys)) p) None" using own others [of p] by simp
    next
      fix p p' :: u32
      assume "p \<noteq> p'"
      moreover from this have "set (L p) \<inter> set (L p') = {}" using ok unfolding links_ok_def by blast
      ultimately show "set ((L(pos := xs @ ys)) p) \<inter> set ((L(pos := xs @ ys)) p') = {}"
        using d [of p] d [of p'] by (auto simp: Int_commute)
    qed
  qed
  moreover have "th_list ?h ! i = (?ts ! i)\<lparr>tm_next := None, tm_prev := None\<rparr>"
    unfolding list using at(1) by (simp add: ts1_def ts2_def)
  ultimately show ?thesis by (simp add: timer_at_def)
qed

section \<open>The abstract timers\<close>

text \<open>A timer without the wheel: never started or stopped, running until a deadline, or expired.\<close>

datatype timer_status = Stopped u32 | Running u32 u32 | Expired u32

record 'c abs_timer =
  at_allocated :: bool
  at_status :: timer_status
  at_callback :: "'c option"

record 'c abs_timers =
  as_now :: u32
  as_timers :: "'c abs_timer list"
  as_free :: "nat list"

fun status_duration :: "timer_status \<Rightarrow> u32" where
  "status_duration (Stopped d) = d"
| "status_duration (Running d t) = d"
| "status_duration (Expired d) = d"

definition is_running_status :: "timer_status \<Rightarrow> bool" where
  "is_running_status s \<longleftrightarrow> (case s of Running _ _ \<Rightarrow> True | _ \<Rightarrow> False)"

definition abs_status :: "u64 \<Rightarrow> timer_status" where
  "abs_status s =
    (if decode_is_running s then Running (decode_duration s) (decode_timeout s)
     else if decode_is_expired s then Expired (decode_duration s) else Stopped (decode_duration s))"

definition abs_timer_of :: "'c timer \<Rightarrow> 'c abs_timer" where
  "abs_timer_of t = \<lparr>at_allocated = tm_allocated t, at_status = abs_status (tm_state t), at_callback = tm_callback t\<rparr>"

definition abs_of :: "'c timers \<Rightarrow> 'c abs_timers" where
  "abs_of h = \<lparr>as_now = th_cur_time h, as_timers = map abs_timer_of (th_list h), as_free = th_free h\<rparr>"

definition spec_update :: "nat \<Rightarrow> ('c abs_timer \<Rightarrow> 'c abs_timer) \<Rightarrow> 'c abs_timers \<Rightarrow> 'c abs_timers" where
  "spec_update i f a = a\<lparr>as_timers := (as_timers a)[i := f (as_timers a ! i)]\<rparr>"

text \<open>Starting: the deadline is the duration away; a duration of zero stands for the one that is set.\<close>

definition spec_start :: "nat \<Rightarrow> u32 \<Rightarrow> 'c abs_timers \<Rightarrow> 'c abs_timers" where
  "spec_start i d a = spec_update i (\<lambda>t.
    let d = (if d = 0 then status_duration (at_status t) else d) in t\<lparr>at_status := Running d (as_now a + d)\<rparr>) a"

definition spec_stop :: "nat \<Rightarrow> bool \<Rightarrow> 'c abs_timers \<Rightarrow> 'c abs_timers" where
  "spec_stop i expiry a = spec_update i (\<lambda>t. case at_status t of
     Running d _ \<Rightarrow> t\<lparr>at_status := if expiry then Expired d else Stopped d\<rparr> | _ \<Rightarrow> t) a"

definition spec_set :: "nat \<Rightarrow> u32 \<Rightarrow> 'c abs_timers \<Rightarrow> 'c abs_timers" where
  "spec_set i d a =
    (if is_running_status (at_status (as_timers a ! i)) then spec_start i (max d 1) a
     else spec_update i (\<lambda>t. t\<lparr>at_status := Stopped (max d 1)\<rparr>) a)"

definition spec_alloc :: "'c abs_timers \<Rightarrow> nat \<times> 'c abs_timers" where
  "spec_alloc a = (case as_free a of
     t # free \<Rightarrow> (t, spec_update t (\<lambda>t. t\<lparr>at_allocated := True\<rparr>) (a\<lparr>as_free := free\<rparr>))
   | [] \<Rightarrow> (length (as_timers a), a\<lparr>as_timers := as_timers a @ [\<lparr>at_allocated = True, at_status = Stopped 0, at_callback = None\<rparr>]\<rparr>))"

definition spec_dealloc :: "nat \<Rightarrow> 'c abs_timers \<Rightarrow> 'c abs_timers" where
  "spec_dealloc i a =
    (if at_allocated (as_timers a ! i)
     then spec_update i (\<lambda>_. \<lparr>at_allocated = False, at_status = Stopped 0, at_callback = None\<rparr>) (a\<lparr>as_free := i # as_free a\<rparr>)
     else a)"

text \<open>A step: the timers whose deadline is the next instant expire, all at once.\<close>

definition status_due :: "u32 \<Rightarrow> timer_status \<Rightarrow> bool" where
  "status_due now s \<longleftrightarrow> (case s of Running d t \<Rightarrow> t = now | _ \<Rightarrow> False)"

definition due_timers :: "'c abs_timers \<Rightarrow> nat set" where
  "due_timers a = {i. i < length (as_timers a) \<and> status_due (as_now a + 1) (at_status (as_timers a ! i))}"

definition spec_expire :: "u32 \<Rightarrow> 'c abs_timer \<Rightarrow> 'c abs_timer" where
  "spec_expire now t =
    (if status_due now (at_status t) then t\<lparr>at_status := Expired (status_duration (at_status t))\<rparr> else t)"

definition spec_step :: "'c abs_timers \<Rightarrow> 'c abs_timers" where
  "spec_step a = a\<lparr>as_now := as_now a + 1, as_timers := map (spec_expire (as_now a + 1)) (as_timers a)\<rparr>"

section \<open>The invariant\<close>

definition wheel_lists :: "'c timers \<Rightarrow> (u32 \<Rightarrow> nat list) \<Rightarrow> bool" where
  "wheel_lists h L \<longleftrightarrow> links_ok h L \<and>
    (\<forall>i pos. i \<in> set (L pos) \<longleftrightarrow>
      i < length (th_list h) \<and> tm_is_running h i \<and> pos = decode_timeout (tm_state (timer_at h i)) AND WHEEL_MASK)"

definition running_set :: "'c timers \<Rightarrow> nat set" where
  "running_set h = {i. i < length (th_list h) \<and> tm_is_running h i}"

definition counts_ok :: "'c timers \<Rightarrow> bool" where
  "counts_ok h \<longleftrightarrow> th_nof_running h = of_nat (card (running_set h)) \<and>
    distinct (th_free h) \<and> set (th_free h) = {i. i < length (th_list h) \<and> \<not> tm_allocated (timer_at h i)} \<and>
    th_nof_free h = of_nat (length (th_free h)) \<and>
    (\<forall>i < length (th_list h). \<not> tm_allocated (timer_at h i) \<longrightarrow> tm_state (timer_at h i) = 0 \<and> tm_callback (timer_at h i) = None)"

definition timers_ok :: "'c timers \<Rightarrow> bool" where
  "timers_ok h \<longleftrightarrow> (\<exists>L. wheel_lists h L) \<and> counts_ok h"

section \<open>Starting and stopping\<close>

lemma same_states_abs: "same_states h h' \<Longrightarrow> abs_of h' = abs_of h"
  by (auto simp: same_states_def abs_of_def abs_timer_of_def intro!: nth_equalityI)

lemma duration_le: "decode_duration s \<le> MAX_TIMER_DURATION"
proof -
  have "decode_duration s = decode_duration s AND mask 30"
    unfolding decode_duration_def flag_bits(3) by (rule bit_word_eqI) (auto simp: bits)
  also have "\<dots> \<le> mask 30" by (rule word_and_le1)
  finally show ?thesis by (simp add: mask_numeral)
qed

lemma abs_status_encode:
  assumes "d \<le> MAX_TIMER_DURATION"
  shows "abs_status (encode_state RUNNING_FLAG d t) = Running d t" "abs_status (encode_state EXPIRED_FLAG d t) = Expired d"
    "abs_status (encode_state STOPPED_FLAG d t) = Stopped d"
  by (simp_all add: abs_status_def decode_encode [OF assms])

lemma abs_status_zero [simp]: "abs_status 0 = Stopped 0"
  by (simp add: abs_status_def decode_is_running_def decode_is_expired_def decode_duration_def)

lemma encode_stopped_zero [simp]: "encode_state STOPPED_FLAG 0 0 = 0"
  by (simp add: encode_state_def)

lemma duration_abs: "decode_duration s = status_duration (abs_status s)"
  by (simp add: abs_status_def)

lemma links_ok_store [simp]: "links_ok (store_state i s h) L = links_ok h L"
proof -
  have "seg (th_list (store_state i s h)) None xs None = seg (th_list h) None xs None" for xs
  proof (rule seg_cong)
    show "tm_prev (th_list (store_state i s h) ! x) = tm_prev (th_list h ! x) \<and>
        tm_next (th_list (store_state i s h) ! x) = tm_next (th_list h ! x)" for x
      by (cases "i = x"; cases "x < length (th_list h)") (simp_all add: store_state_def update_timer_def list_update_beyond)
  qed (simp add: store_state_def update_timer_def)
  then show ?thesis by (simp add: links_ok_def store_state_def)
qed

lemma store_state_simps [simp]:
  "length (th_list (store_state i s h)) = length (th_list h)" "th_cur_time (store_state i s h) = th_cur_time h"
  "th_nof_running (store_state i s h) = th_nof_running h" "th_nof_free (store_state i s h) = th_nof_free h"
  "th_free (store_state i s h) = th_free h"
  by (simp_all add: store_state_def update_timer_def)

lemma timer_at_store:
  "i < length (th_list h) \<Longrightarrow> timer_at (store_state i s h) k = (if k = i then (timer_at h i)\<lparr>tm_state := s\<rparr> else timer_at h k)"
  by (simp add: store_state_def update_timer_def timer_at_def)

lemma abs_of_store:
  "abs_of (store_state i s h) = spec_update i (\<lambda>t. t\<lparr>at_status := abs_status s\<rparr>) (abs_of h)"
  by (cases "i < length (th_list h)")
    (simp_all add: store_state_def update_timer_def abs_of_def spec_update_def abs_timer_of_def map_update list_update_beyond)

lemma abs_of_counter [simp]: "abs_of (h\<lparr>th_nof_running := n\<rparr>) = abs_of h" "abs_of (h\<lparr>th_nof_free := n\<rparr>) = abs_of h"
  by (simp_all add: abs_of_def)

lemma links_ok_counter [simp]: "links_ok (h\<lparr>th_nof_running := n\<rparr>) L = links_ok h L"
  by (simp add: links_ok_def)

lemma same_states_at:
  assumes "same_states h h'"
  shows "tm_state (timer_at h' k) = tm_state (timer_at h k)" "tm_callback (timer_at h' k) = tm_callback (timer_at h k)"
    "tm_allocated (timer_at h' k) = tm_allocated (timer_at h k)" "length (th_list h') = length (th_list h)"
    "th_cur_time h' = th_cur_time h" "th_nof_running h' = th_nof_running h" "th_nof_free h' = th_nof_free h"
    "th_free h' = th_free h" "abs_of h' = abs_of h"
  using assms same_states_abs [OF assms] by (simp_all add: same_states_def timer_at_def)

lemmas push_same = same_states_at [OF wheel_push_front_same]
lemmas pop_same = same_states_at [OF wheel_pop_same]

abbreviation pos_of :: "'c timers \<Rightarrow> nat \<Rightarrow> u32" where
  "pos_of h i \<equiv> decode_timeout (tm_state (timer_at h i)) AND WHEEL_MASK"

text \<open>Taking a running timer off the wheel.\<close>

lemma wheel_lists_pop:
  assumes L: "wheel_lists h L" and i: "i < length (th_list h)" "tm_is_running h i"
  obtains L' where "links_ok (wheel_pop (pos_of h i) i h) L'" "\<And>pos. i \<notin> set (L' pos)"
    "\<And>k pos. k \<noteq> i \<Longrightarrow> k \<in> set (L' pos) \<longleftrightarrow> k \<in> set (L pos)"
proof -
  have ok: "links_ok h L" and mem: "\<And>k pos. k \<in> set (L pos) \<longleftrightarrow> k < length (th_list h) \<and> tm_is_running h k \<and> pos = pos_of h k"
    using L by (simp_all add: wheel_lists_def)
  have "i \<in> set (L (pos_of h i))" using i by (simp add: mem)
  then obtain xs ys where split: "L (pos_of h i) = xs @ i # ys" by (meson split_list)
  have "distinct (xs @ i # ys)" using links_okD(2) [OF ok, of "pos_of h i"] split by simp
  then have "i \<notin> set ((L(pos_of h i := xs @ ys)) pos)" for pos using mem [of i pos] by auto
  moreover have "k \<in> set ((L(pos_of h i := xs @ ys)) pos) \<longleftrightarrow> k \<in> set (L pos)" if "k \<noteq> i" for k pos
    using that split by auto
  ultimately show ?thesis using that conjunct1 [OF links_ok_pop [OF ok split]] by blast
qed

lemma timer_at_counter [simp]: "timer_at (h\<lparr>th_nof_running := n\<rparr>) k = timer_at h k" "tm_is_running (h\<lparr>th_nof_running := n\<rparr>) k = tm_is_running h k"
  by (simp_all add: timer_at_def tm_is_running_def)

lemma running_abs: "tm_is_running h i \<longleftrightarrow> is_running_status (abs_status (tm_state (timer_at h i)))"
  by (simp add: tm_is_running_def abs_status_def is_running_status_def)

lemma abs_at: "i < length (th_list h) \<Longrightarrow> as_timers (abs_of h) ! i = abs_timer_of (timer_at h i)"
  by (simp add: abs_of_def timer_at_def)

lemma finite_running: "finite (running_set h)"
  by (simp add: running_set_def)

text \<open>The effect of a change of state of timer \<open>i\<close> on what is counted.\<close>

lemma counts_ok_change:
  assumes "counts_ok h" "i < length (th_list h)" "tm_allocated (timer_at h i)"
    and "length (th_list h') = length (th_list h)" "th_free h' = th_free h" "th_nof_free h' = th_nof_free h"
    and "\<And>k. tm_allocated (timer_at h' k) = tm_allocated (timer_at h k)" "\<And>k. tm_callback (timer_at h' k) = tm_callback (timer_at h k)"
    and "\<And>k. k \<noteq> i \<Longrightarrow> tm_state (timer_at h' k) = tm_state (timer_at h k)"
    and "th_nof_running h' = th_nof_running h + (of_bool (tm_is_running h' i) - of_bool (tm_is_running h i))"
  shows "counts_ok h'"
proof -
  have r: "running_set h' = (if tm_is_running h' i then insert i (running_set h) else running_set h - {i})"
  proof (rule set_eqI)
    fix k
    have "k \<noteq> i \<Longrightarrow> tm_is_running h' k = tm_is_running h k" using assms(9) by (simp add: tm_is_running_def)
    then show "k \<in> running_set h' \<longleftrightarrow> k \<in> (if tm_is_running h' i then insert i (running_set h) else running_set h - {i})"
      using assms(2,4) by (cases "k = i") (simp_all add: running_set_def)
  qed
  have i: "i \<in> running_set h \<longleftrightarrow> tm_is_running h i" using assms(2) by (simp add: running_set_def)
  have n: "th_nof_running h = of_nat (card (running_set h))" using assms(1) by (simp add: counts_ok_def)
  have "th_nof_running h' = of_nat (card (running_set h'))"
  proof (cases "tm_is_running h i")
    case True
    then have "insert i (running_set h) = running_set h" using i by auto
    moreover have "card (running_set h) = Suc (card (running_set h - {i}))"
      using i True by (metis card.remove finite_running)
    ultimately show ?thesis using True n unfolding assms(10) r by (cases "tm_is_running h' i") simp_all
  next
    case False
    then have "i \<notin> running_set h" using i by simp
    then have "card (insert i (running_set h)) = Suc (card (running_set h))" "running_set h - {i} = running_set h"
      by (simp_all add: finite_running)
    then show ?thesis using False n unfolding assms(10) r by (cases "tm_is_running h' i") simp_all
  qed
  moreover have "tm_state (timer_at h' k) = 0 \<and> tm_callback (timer_at h' k) = None"
    if "k < length (th_list h')" "\<not> tm_allocated (timer_at h' k)" for k
    using that assms by (cases "k = i") (auto simp: counts_ok_def)
  ultimately show ?thesis using assms(1,4-7) by (simp add: counts_ok_def)
qed

lemma wheel_lists_stop:
  assumes L: "wheel_lists h L" and i: "L pos = xs @ i # ys"
  shows "wheel_lists (stop_timer i e h) (L(pos := xs @ ys))"
proof -
  have ok: "links_ok h L" and mem: "\<And>k pos. k \<in> set (L pos) \<longleftrightarrow> k < length (th_list h) \<and> tm_is_running h k \<and> pos = pos_of h k"
    using L by (simp_all add: wheel_lists_def)
  have "i \<in> set (L pos)" using i by simp
  then have at: "i < length (th_list h)" "tm_is_running h i" "pos = pos_of h i" by (simp_all add: mem)
  let ?h = "wheel_pop pos i h" and ?s = "encode_state (if e then EXPIRED_FLAG else STOPPED_FLAG) (tm_duration h i) (decode_timeout (tm_state (timer_at h i)))"
  have st: "stop_timer i e h = (store_state i ?s ?h)\<lparr>th_nof_running := th_nof_running h - 1\<rparr>"
    using at by (simp add: stop_timer_def Let_def tm_is_running_def tm_duration_def pop_same)
  have nr: "\<not> decode_is_running ?s" by (simp add: decode_encode tm_duration_def duration_le)
  have dist: "distinct (xs @ i # ys)" using links_okD(2) [OF ok, of pos] i by simp
  have "k \<in> set ((L(pos := xs @ ys)) p) \<longleftrightarrow> k < length (th_list (stop_timer i e h)) \<and> tm_is_running (stop_timer i e h) k \<and>
      p = pos_of (stop_timer i e h) k" for k p
  proof (cases "k = i")
    case True
    have "i \<notin> set ((L(pos := xs @ ys)) p)" using dist mem [of i p] at(3) by auto
    then show ?thesis
      using True nr at(1) unfolding st by (simp add: tm_is_running_def timer_at_store pop_same)
  next
    case False
    have "k \<in> set ((L(pos := xs @ ys)) p) \<longleftrightarrow> k \<in> set (L p)" using False i by auto
    then show ?thesis
      using False mem [of k p] at(1) unfolding st by (simp add: tm_is_running_def timer_at_store pop_same)
  qed
  moreover have "links_ok (stop_timer i e h) (L(pos := xs @ ys))"
    using links_ok_pop [OF ok i] unfolding st by simp
  ultimately show ?thesis by (simp add: wheel_lists_def)
qed

lemma running_split:
  assumes "wheel_lists h L" "i < length (th_list h)" "tm_is_running h i"
  obtains xs ys where "L (pos_of h i) = xs @ i # ys"
proof -
  have "i \<in> set (L (pos_of h i))" using assms by (simp add: wheel_lists_def)
  then show ?thesis using that by (meson split_list)
qed

lemma spec_update_id: "f (as_timers a ! i) = as_timers a ! i \<Longrightarrow> spec_update i f a = a"
  by (simp add: spec_update_def)

lemma stop_timer_abs:
  "i < length (th_list h) \<Longrightarrow> abs_of (stop_timer i e h) = spec_stop i e (abs_of h)"
proof -
  assume i: "i < length (th_list h)"
  show ?thesis
  proof (cases "tm_is_running h i")
    case False
    then have "\<not> is_running_status (at_status (abs_timer_of (timer_at h i)))" by (simp add: running_abs abs_timer_of_def)
    then show ?thesis
      using False i abs_at [OF i]
      by (cases "at_status (abs_timer_of (timer_at h i))")
        (simp_all add: stop_timer_def Let_def tm_is_running_def spec_stop_def spec_update_id is_running_status_def)
  next
    case True
    have s: "at_status (abs_timer_of (timer_at h i)) = Running (tm_duration h i) (decode_timeout (tm_state (timer_at h i)))"
      using True by (simp add: abs_timer_of_def abs_status_def tm_is_running_def tm_duration_def)
    have "abs_of (stop_timer i e h) = spec_update i (\<lambda>t. t\<lparr>at_status := if e then Expired (tm_duration h i) else Stopped (tm_duration h i)\<rparr>) (abs_of h)"
      using True by (simp add: stop_timer_def Let_def tm_is_running_def abs_of_store pop_same abs_status_encode duration_le
          tm_duration_def)
    then show ?thesis using s abs_at [OF i] by (simp add: spec_stop_def spec_update_def)
  qed
qed

lemma stop_timer_simps:
  "length (th_list (stop_timer i e h)) = length (th_list h)" "th_cur_time (stop_timer i e h) = th_cur_time h"
  "tm_callback (timer_at (stop_timer i e h) k) = tm_callback (timer_at h k)"
  "tm_allocated (timer_at (stop_timer i e h) k) = tm_allocated (timer_at h k)"
  "k \<noteq> i \<Longrightarrow> tm_state (timer_at (stop_timer i e h) k) = tm_state (timer_at h k)"
  "th_free (stop_timer i e h) = th_free h" "th_nof_free (stop_timer i e h) = th_nof_free h"
proof -
  have at: "timer_at (store_state i s h) k = (if k = i \<and> i < length (th_list h) then (timer_at h i)\<lparr>tm_state := s\<rparr> else timer_at h k)"
    for s and h :: "'a timers"
    by (cases "i < length (th_list h)") (simp_all add: timer_at_store, simp add: store_state_def update_timer_def timer_at_def list_update_beyond)
  show "length (th_list (stop_timer i e h)) = length (th_list h)" "th_cur_time (stop_timer i e h) = th_cur_time h"
    "tm_callback (timer_at (stop_timer i e h) k) = tm_callback (timer_at h k)"
    "tm_allocated (timer_at (stop_timer i e h) k) = tm_allocated (timer_at h k)"
    "k \<noteq> i \<Longrightarrow> tm_state (timer_at (stop_timer i e h) k) = tm_state (timer_at h k)"
    "th_free (stop_timer i e h) = th_free h" "th_nof_free (stop_timer i e h) = th_nof_free h"
    by (simp_all add: stop_timer_def Let_def pop_same at)
qed

lemma counts_ok_stop:
  assumes "counts_ok h" "i < length (th_list h)"
  shows "counts_ok (stop_timer i e h)"
proof (cases "tm_is_running h i")
  case False
  then show ?thesis using assms(1) by (simp add: stop_timer_def Let_def tm_is_running_def)
next
  case True
  have alloc: "tm_allocated (timer_at h i)"
    using assms True by (auto simp: counts_ok_def tm_is_running_def decode_is_running_def)
  have "\<not> tm_is_running (stop_timer i e h) i"
    using True assms(2)
    by (simp add: stop_timer_def Let_def tm_is_running_def timer_at_store pop_same decode_encode duration_le)
  then show ?thesis
    using True by (intro counts_ok_change [OF assms alloc])
      (simp_all add: stop_timer_simps, simp add: stop_timer_def Let_def tm_is_running_def pop_same)
qed

lemma stop_timer_ok:
  assumes "timers_ok h" "i < length (th_list h)"
  shows "timers_ok (stop_timer i e h)"
proof (cases "tm_is_running h i")
  case False
  then show ?thesis using assms(1) by (simp add: stop_timer_def Let_def tm_is_running_def)
next
  case True
  obtain L where L: "wheel_lists h L" using assms(1) by (auto simp: timers_ok_def)
  obtain xs ys where "L (pos_of h i) = xs @ i # ys" using running_split [OF L assms(2) True] .
  from wheel_lists_stop [OF L this] counts_ok_stop [of h i e] assms show ?thesis by (auto simp: timers_ok_def)
qed

lemma wheel_listsI:
  assumes "links_ok h L"
    and "\<And>k pos. k \<in> set (L pos) \<longleftrightarrow> k < length (th_list h) \<and> tm_is_running h k \<and> pos = pos_of h k"
  shows "wheel_lists h L"
  using assms by (simp add: wheel_lists_def)

lemma wheel_lists_store:
  assumes L: "links_ok h L" and i: "i < length (th_list h)" "\<And>pos. i \<in> set (L pos) \<longleftrightarrow> decode_is_running s \<and> pos = decode_timeout s AND WHEEL_MASK"
    and others: "\<And>k pos. k \<noteq> i \<Longrightarrow> k \<in> set (L pos) \<longleftrightarrow> k < length (th_list h) \<and> tm_is_running h k \<and> pos = pos_of h k"
  shows "wheel_lists (store_state i s h) L"
proof (rule wheel_listsI)
  show "k \<in> set (L pos) \<longleftrightarrow> k < length (th_list (store_state i s h)) \<and> tm_is_running (store_state i s h) k \<and>
      pos = pos_of (store_state i s h) k" for k pos
    using others [of k pos] i by (cases "k = i") (simp_all add: timer_at_store tm_is_running_def)
qed (use L in simp)

lemma start_run_unfold:
  assumes "d' = (if d = 0 then tm_duration h i else d)" "t = th_cur_time h + d'"
  shows "start_run i d h =
    (if tm_is_running h i \<and> pos_of h i = t AND WHEEL_MASK then store_state i (encode_state RUNNING_FLAG d' t) h
     else
       let h1 = (if tm_is_running h i then (wheel_pop (pos_of h i) i h)\<lparr>th_nof_running := th_nof_running h - 1\<rparr> else h);
           h2 = store_state i (encode_state RUNNING_FLAG d' t) (wheel_push_front (t AND WHEEL_MASK) i h1)
       in h2\<lparr>th_nof_running := th_nof_running h2 + 1\<rparr>)"
  unfolding start_run_def Let_def assms tm_is_running_def tm_duration_def by (rule refl)

lemma start_run_fresh:
  assumes L: "wheel_lists h L" and i: "i < length (th_list h)" and d: "d \<le> MAX_TIMER_DURATION" and start: "\<not> tm_is_running h i"
  defines "p \<equiv> th_cur_time h + (if d = 0 then tm_duration h i else d) AND WHEEL_MASK"
  shows "wheel_lists (start_run i d h) (L(p := i # L p))"
proof -
  define d' where "d' = (if d = 0 then tm_duration h i else d)"
  define t where "t = th_cur_time h + d'"
  have "d' \<le> MAX_TIMER_DURATION" using d by (simp add: d'_def tm_duration_def duration_le)
  then have s: "decode_is_running (encode_state RUNNING_FLAG d' t)" "decode_timeout (encode_state RUNNING_FLAG d' t) = t"
    by (simp_all add: decode_encode)
  have p: "p = t AND WHEEL_MASK" by (simp add: p_def t_def d'_def)
  have ok: "links_ok h L" and mem: "\<And>k pos. k \<in> set (L pos) \<longleftrightarrow> k < length (th_list h) \<and> tm_is_running h k \<and> pos = pos_of h k"
    using L by (simp_all add: wheel_lists_def)
  define h2 where "h2 = wheel_push_front (t AND WHEEL_MASK) i h"
  have ni: "i \<notin> set (L pos)" for pos using mem start by simp
  have "links_ok h2 (L(p := i # L p))" using links_ok_push [OF ok i ni] by (simp add: h2_def p)
  moreover have at: "tm_state (timer_at h2 k) = tm_state (timer_at h k)" "length (th_list h2) = length (th_list h)" for k
    by (simp_all add: h2_def push_same)
  ultimately have "wheel_lists (store_state i (encode_state RUNNING_FLAG d' t) h2) (L(p := i # L p))"
    using s mem i ni by (intro wheel_lists_store) (auto simp: tm_is_running_def p)
  moreover have "start_run i d h = (store_state i (encode_state RUNNING_FLAG d' t) h2)\<lparr>th_nof_running := th_nof_running h2 + 1\<rparr>"
    using start by (simp add: start_run_unfold [OF d'_def t_def] Let_def h2_def)
  ultimately show ?thesis by (simp add: wheel_lists_def)
qed

lemma start_run_wheel:
  assumes L: "wheel_lists h L" and i: "i < length (th_list h)" and d: "d \<le> MAX_TIMER_DURATION"
  shows "\<exists>L'. wheel_lists (start_run i d h) L'"
proof -
  define d' where "d' = (if d = 0 then tm_duration h i else d)"
  define t where "t = th_cur_time h + d'"
  have "d' \<le> MAX_TIMER_DURATION" using d by (simp add: d'_def tm_duration_def duration_le)
  then have s: "decode_is_running (encode_state RUNNING_FLAG d' t)" "decode_timeout (encode_state RUNNING_FLAG d' t) = t"
    by (simp_all add: decode_encode)
  have ok: "links_ok h L" and mem: "\<And>k pos. k \<in> set (L pos) \<longleftrightarrow> k < length (th_list h) \<and> tm_is_running h k \<and> pos = pos_of h k"
    using L by (simp_all add: wheel_lists_def)
  consider (same) "tm_is_running h i" "pos_of h i = t AND WHEEL_MASK"
    | (move) "tm_is_running h i" "pos_of h i \<noteq> t AND WHEEL_MASK" | (start) "\<not> tm_is_running h i" by blast
  then show ?thesis
  proof cases
    case same
    then have "start_run i d h = store_state i (encode_state RUNNING_FLAG d' t) h"
      by (simp add: start_run_unfold [OF d'_def t_def])
    moreover have "wheel_lists (store_state i (encode_state RUNNING_FLAG d' t) h) L"
      using same mem i s by (intro wheel_lists_store [OF ok i]) auto
    ultimately show ?thesis by auto
  next
    case move
    obtain L' where L': "links_ok (wheel_pop (pos_of h i) i h) L'" "\<And>pos. i \<notin> set (L' pos)"
        "\<And>k pos. k \<noteq> i \<Longrightarrow> k \<in> set (L' pos) \<longleftrightarrow> k \<in> set (L pos)"
      using wheel_lists_pop [OF L i move(1)] by blast
    define h1 where "h1 = (wheel_pop (pos_of h i) i h)\<lparr>th_nof_running := th_nof_running h - 1\<rparr>"
    define h2 where "h2 = wheel_push_front (t AND WHEEL_MASK) i h1"
    let ?L = "L'(t AND WHEEL_MASK := i # L' (t AND WHEEL_MASK))"
    have l1: "links_ok h1 L'" using L'(1) by (simp add: h1_def)
    have len: "i < length (th_list h1)" using i by (simp add: h1_def pop_same)
    have "links_ok h2 ?L" using links_ok_push [OF l1 len L'(2)] by (simp add: h2_def)
    moreover have at: "tm_state (timer_at h2 k) = tm_state (timer_at h k)" "length (th_list h2) = length (th_list h)" for k
      by (simp_all add: h2_def h1_def push_same pop_same)
    ultimately have "wheel_lists (store_state i (encode_state RUNNING_FLAG d' t) h2) ?L"
      using s L' mem i by (intro wheel_lists_store) (auto simp: tm_is_running_def)
    moreover have "start_run i d h = (store_state i (encode_state RUNNING_FLAG d' t) h2)\<lparr>th_nof_running := th_nof_running h2 + 1\<rparr>"
      using move by (simp add: start_run_unfold [OF d'_def t_def] Let_def h2_def h1_def)
    ultimately show ?thesis by (auto simp: wheel_lists_def)
  next
    case start
    then show ?thesis using start_run_fresh [OF L i d] by blast
  qed
qed

lemma start_run_abs:
  assumes "i < length (th_list h)" "d \<le> MAX_TIMER_DURATION"
  shows "abs_of (start_run i d h) = spec_start i d (abs_of h)"
proof -
  define d' where "d' = (if d = 0 then tm_duration h i else d)"
  have le: "d' \<le> MAX_TIMER_DURATION" using assms(2) by (simp add: d'_def tm_duration_def duration_le)
  have sd: "status_duration (at_status (as_timers (abs_of h) ! i)) = tm_duration h i"
    using abs_at [OF assms(1)] by (simp add: abs_timer_of_def tm_duration_def duration_abs)
  have now: "as_now (abs_of h) = th_cur_time h" by (simp add: abs_of_def)
  have "abs_of (start_run i d h) = spec_update i (\<lambda>t. t\<lparr>at_status := Running d' (th_cur_time h + d')\<rparr>) (abs_of h)"
    using abs_status_encode(1) [OF le]
    by (simp add: start_run_unfold [OF d'_def refl] Let_def abs_of_store push_same pop_same)
  then show ?thesis unfolding spec_start_def spec_update_def Let_def sd now d'_def .
qed

lemma start_run_simps:
  "length (th_list (start_run i d h)) = length (th_list h)" "th_cur_time (start_run i d h) = th_cur_time h"
  "tm_callback (timer_at (start_run i d h) k) = tm_callback (timer_at h k)"
  "tm_allocated (timer_at (start_run i d h) k) = tm_allocated (timer_at h k)"
  "k \<noteq> i \<Longrightarrow> tm_state (timer_at (start_run i d h) k) = tm_state (timer_at h k)"
  "th_free (start_run i d h) = th_free h" "th_nof_free (start_run i d h) = th_nof_free h"
proof -
  have at: "timer_at (store_state i s h) k = (if k = i \<and> i < length (th_list h) then (timer_at h i)\<lparr>tm_state := s\<rparr> else timer_at h k)"
    for s and h :: "'a timers"
    by (cases "i < length (th_list h)") (simp_all add: timer_at_store, simp add: store_state_def update_timer_def timer_at_def list_update_beyond)
  have c: "th_nof_free (h\<lparr>th_nof_running := n\<rparr>) = th_nof_free h" for n and h :: "'a timers" by simp
  show "length (th_list (start_run i d h)) = length (th_list h)" "th_cur_time (start_run i d h) = th_cur_time h"
    "tm_callback (timer_at (start_run i d h) k) = tm_callback (timer_at h k)"
    "tm_allocated (timer_at (start_run i d h) k) = tm_allocated (timer_at h k)"
    "k \<noteq> i \<Longrightarrow> tm_state (timer_at (start_run i d h) k) = tm_state (timer_at h k)"
    "th_free (start_run i d h) = th_free h" "th_nof_free (start_run i d h) = th_nof_free h"
    by (simp_all add: start_run_def Let_def pop_same push_same at)
qed

lemma start_run_ok:
  assumes "timers_ok h" "i < length (th_list h)" "tm_allocated (timer_at h i)" "d \<le> MAX_TIMER_DURATION"
  shows "timers_ok (start_run i d h)"
proof -
  have c: "counts_ok h" and w: "\<exists>L. wheel_lists h L" using assms(1) by (simp_all add: timers_ok_def)
  have d: "(if d = 0 then decode_duration (tm_state (timer_at h i)) else d) \<le> MAX_TIMER_DURATION"
    using assms(4) by (simp add: duration_le)
  have "tm_is_running (start_run i d h) i"
    using assms(2) d
    by (auto simp: start_run_def Let_def tm_is_running_def timer_at_store pop_same push_same decode_encode)
  then have "counts_ok (start_run i d h)"
    by (intro counts_ok_change [OF c assms(2,3)])
      (simp_all add: start_run_simps, simp add: start_run_def Let_def tm_is_running_def pop_same push_same)
  then show ?thesis using w start_run_wheel [OF _ assms(2,4)] by (auto simp: timers_ok_def)
qed

section \<open>Setting, allocating and deallocating\<close>

lemma store_stopped_ok:
  assumes "timers_ok h" "i < length (th_list h)" "tm_allocated (timer_at h i)" "\<not> tm_is_running h i" "\<not> decode_is_running s"
  shows "timers_ok (store_state i s h)"
proof -
  obtain L where L: "wheel_lists h L" and c: "counts_ok h" using assms(1) by (auto simp: timers_ok_def)
  have "wheel_lists (store_state i s h) L"
    using L assms by (intro wheel_lists_store) (auto simp: wheel_lists_def)
  moreover have "counts_ok (store_state i s h)"
    using assms(2,4,5)
    by (intro counts_ok_change [OF c assms(2,3)]) (simp_all add: timer_at_store tm_is_running_def)
  ultimately show ?thesis by (auto simp: timers_ok_def)
qed

lemma set_duration_ok:
  assumes "timers_ok h" "i < length (th_list h)" "tm_allocated (timer_at h i)" "d \<le> MAX_TIMER_DURATION"
  shows "timers_ok (set_duration i d h)" "abs_of (set_duration i d h) = spec_set i d (abs_of h)"
proof -
  have m: "max d 1 \<le> MAX_TIMER_DURATION" using assms(4) by (simp add: max_def)
  have r: "is_running_status (at_status (as_timers (abs_of h) ! i)) = tm_is_running h i"
    using abs_at [OF assms(2)] by (simp add: running_abs abs_timer_of_def)
  show "timers_ok (set_duration i d h)"
    using start_run_ok [OF assms(1-3) m] store_stopped_ok [OF assms(1-3)] m
    by (simp add: set_duration_def Let_def tm_is_running_def decode_encode)
  show "abs_of (set_duration i d h) = spec_set i d (abs_of h)"
    using start_run_abs [OF assms(2) m] m r
    by (simp add: set_duration_def Let_def spec_set_def tm_is_running_def abs_of_store abs_status_encode)
qed

lemma set_duration_simps:
  "length (th_list (set_duration i d h)) = length (th_list h)" "th_cur_time (set_duration i d h) = th_cur_time h"
  "tm_allocated (timer_at (set_duration i d h) k) = tm_allocated (timer_at h k)"
proof -
  have at: "tm_allocated (timer_at (store_state i s h) k) = tm_allocated (timer_at h k)" for s
    by (cases "i < length (th_list h)"; cases "k = i")
      (simp_all add: timer_at_store, simp_all add: store_state_def update_timer_def timer_at_def list_update_beyond)
  show "length (th_list (set_duration i d h)) = length (th_list h)" "th_cur_time (set_duration i d h) = th_cur_time h"
    "tm_allocated (timer_at (set_duration i d h) k) = tm_allocated (timer_at h k)"
    by (simp_all add: set_duration_def Let_def start_run_simps at)
qed

text \<open>Changes of a timer that concern neither its state nor its links.\<close>

lemma wheel_lists_update:
  assumes "wheel_lists h L"
    and "length ts = length (th_list h)"
    and "\<And>k. tm_state (ts ! k) = tm_state (th_list h ! k) \<and> tm_next (ts ! k) = tm_next (th_list h ! k) \<and>
      tm_prev (ts ! k) = tm_prev (th_list h ! k)"
  shows "wheel_lists (h\<lparr>th_list := ts\<rparr>) L"
proof -
  have "seg ts None xs None = seg (th_list h) None xs None" for xs using assms(2,3) by (intro seg_cong) auto
  then show ?thesis
    using assms by (simp add: wheel_lists_def links_ok_def tm_is_running_def timer_at_def)
qed

lemma callback_update_ok:
  assumes "timers_ok h" "i < length (th_list h)" "tm_allocated (timer_at h i)"
  fixes cb
  defines "h' \<equiv> update_timer i (\<lambda>t. t\<lparr>tm_callback := cb\<rparr>) h"
  shows "timers_ok h'" "abs_of h' = spec_update i (\<lambda>t. t\<lparr>at_callback := cb\<rparr>) (abs_of h)"
proof -
  obtain L where L: "wheel_lists h L" and c: "counts_ok h" using assms(1) by (auto simp: timers_ok_def)
  have at: "timer_at h' k = (if k = i then (timer_at h i)\<lparr>tm_callback := cb\<rparr> else timer_at h k)" for k
    using assms(2) by (simp add: h'_def update_timer_def timer_at_def)
  have st: "tm_state (timer_at h' k) = tm_state (timer_at h k)" "tm_allocated (timer_at h' k) = tm_allocated (timer_at h k)" for k
    unfolding at by simp_all
  have "wheel_lists h' L"
    unfolding h'_def update_timer_def
    by (rule wheel_lists_update [OF L]) (use assms(2) in \<open>auto simp: nth_list_update\<close>)
  moreover have f: "length (th_list h') = length (th_list h)" "th_free h' = th_free h" "th_nof_free h' = th_nof_free h"
      "th_nof_running h' = th_nof_running h"
    by (simp_all add: h'_def update_timer_def)
  moreover have r: "running_set h' = running_set h" using f(1) st by (simp add: running_set_def tm_is_running_def)
  ultimately show "timers_ok h'"
    using c assms(3) st at unfolding timers_ok_def counts_ok_def by auto
  show "abs_of h' = spec_update i (\<lambda>t. t\<lparr>at_callback := cb\<rparr>) (abs_of h)"
    using assms(2) by (simp add: h'_def update_timer_def abs_of_def spec_update_def abs_timer_of_def map_update)
qed

lemma alloc_timer_ok:
  assumes ok: "timers_ok h"
  shows "\<exists>t h'. alloc_timer h = Some (t, h') \<and> timers_ok h' \<and> spec_alloc (abs_of h) = (t, abs_of h') \<and>
    t < length (th_list h') \<and> tm_allocated (timer_at h' t) \<and> (t < length (th_list h) \<longrightarrow> \<not> tm_allocated (timer_at h t))"
proof -
  obtain L where L: "wheel_lists h L" and c: "counts_ok h" using ok by (auto simp: timers_ok_def)
  show ?thesis
  proof (cases "th_free h")
    case (Cons t free)
    have t: "t < length (th_list h)" "\<not> tm_allocated (timer_at h t)" "distinct (t # free)"
        "set free \<union> {t} = {i. i < length (th_list h) \<and> \<not> tm_allocated (timer_at h i)}"
        "th_nof_free h = of_nat (Suc (length free))"
      using c Cons unfolding counts_ok_def by auto
    define h' where "h' = update_timer t (\<lambda>t. t\<lparr>tm_allocated := True\<rparr>) (h\<lparr>th_free := free, th_nof_free := th_nof_free h - 1\<rparr>)"
    have at: "timer_at h' k = (if k = t then (timer_at h t)\<lparr>tm_allocated := True\<rparr> else timer_at h k)" for k
      using t(1) by (simp add: h'_def update_timer_def timer_at_def)
    have f: "length (th_list h') = length (th_list h)" "th_free h' = free" "th_nof_free h' = of_nat (length free)"
        "th_nof_running h' = th_nof_running h"
      using t(5) by (simp_all add: h'_def update_timer_def)
    have "wheel_lists (h\<lparr>th_list := (th_list h)[t := (th_list h ! t)\<lparr>tm_allocated := True\<rparr>]\<rparr>) L"
      by (rule wheel_lists_update [OF L]) (use t(1) in \<open>auto simp: nth_list_update\<close>)
    then have "wheel_lists h' L"
      by (simp add: h'_def update_timer_def wheel_lists_def links_ok_def tm_is_running_def timer_at_def)
    moreover have "running_set h' = running_set h" using f(1) by (auto simp: running_set_def tm_is_running_def at)
    moreover have "set free = {i. i < length (th_list h') \<and> \<not> tm_allocated (timer_at h' i)}"
      using t(3,4) unfolding f at by auto
    ultimately have "timers_ok h'" using c f t(3) unfolding timers_ok_def counts_ok_def by (auto simp: at)
    moreover have "alloc_timer h = Some (t, h')" using Cons t(2) by (simp add: alloc_timer_def h'_def)
    moreover have "spec_alloc (abs_of h) = (t, abs_of h')"
      using Cons t(1) by (simp add: spec_alloc_def abs_of_def h'_def update_timer_def spec_update_def abs_timer_of_def map_update)
    ultimately show ?thesis using t f at by auto
  next
    case Nil
    define t where "t = length (th_list h)"
    define h' where "h' = h\<lparr>th_list := th_list h @ [timer_new\<lparr>tm_allocated := True\<rparr>]\<rparr>"
    have at: "timer_at h' k = timer_at h k" if "k < t" for k using that by (simp add: h'_def timer_at_def t_def nth_append)
    have new: "timer_at h' t = timer_new\<lparr>tm_allocated := True\<rparr>" by (simp add: h'_def timer_at_def t_def)
    have ok: "links_ok h L" and mem: "\<And>k pos. k \<in> set (L pos) \<longleftrightarrow> k < length (th_list h) \<and> tm_is_running h k \<and> pos = pos_of h k"
      using L by (simp_all add: wheel_lists_def)
    have nr: "\<not> tm_is_running h' t" by (simp add: tm_is_running_def new timer_new_def decode_is_running_def)
    have lt: "k < Suc t \<longleftrightarrow> k < t \<or> k = t" for k by auto
    have seg: "seg (th_list h') None (L pos) None" for pos
    proof -
      have "seg (ts @ us) p xs q" if "seg ts p xs q" for ts us :: "'a timer list" and p xs q
        using that by (induction xs arbitrary: p) (auto simp: nth_append)
      then show ?thesis using links_okD(3) [OF ok, of pos] by (simp add: h'_def)
    qed
    have "wheel_lists h' L"
    proof (rule wheel_listsI)
      show "links_ok h' L" using ok seg by (simp add: links_ok_def h'_def)
      show "k \<in> set (L pos) \<longleftrightarrow> k < length (th_list h') \<and> tm_is_running h' k \<and> pos = pos_of h' k" for k pos
        using mem [of k pos] at [of k] nr by (cases "k < t") (auto simp: h'_def t_def lt tm_is_running_def timer_at_def nth_append less_Suc_eq)
    qed
    moreover have r: "running_set h' = running_set h"
      using nr at by (auto simp: running_set_def tm_is_running_def h'_def t_def less_Suc_eq)
    moreover have "{i. i < length (th_list h') \<and> \<not> tm_allocated (timer_at h' i)} = {i. i < length (th_list h) \<and> \<not> tm_allocated (timer_at h i)}"
      using new at by (auto simp: h'_def t_def less_Suc_eq)
    ultimately have "timers_ok h'"
      using c new at unfolding timers_ok_def counts_ok_def by (auto simp: h'_def t_def less_Suc_eq)
    moreover have "alloc_timer h = Some (t, h')"
      using Nil by (simp add: alloc_timer_def h'_def t_def update_timer_def Let_def)
    moreover have "spec_alloc (abs_of h) = (t, abs_of h')"
      using Nil by (simp add: spec_alloc_def abs_of_def h'_def abs_timer_of_def timer_new_def t_def)
    ultimately show ?thesis using new by (auto simp: h'_def t_def)
  qed
qed

lemma dealloc_timer_ok:
  assumes ok: "timers_ok h" and i: "i < length (th_list h)"
  shows "timers_ok (dealloc_timer i h)" "abs_of (dealloc_timer i h) = spec_dealloc i (abs_of h)"
proof -
  have a: "at_allocated (as_timers (abs_of h) ! i) = tm_allocated (timer_at h i)"
    using abs_at [OF i] by (simp add: abs_timer_of_def)
  define h1 where "h1 = stop_timer i False h"
  define h' where "h' = (let h = update_timer i (\<lambda>t. t\<lparr>tm_allocated := False, tm_state := 0, tm_callback := None\<rparr>) h1
    in h\<lparr>th_free := i # th_free h, th_nof_free := th_nof_free h + 1\<rparr>)"
  have d: "dealloc_timer i h = (if tm_allocated (timer_at h i) then h' else h)"
    by (simp add: dealloc_timer_def h'_def h1_def Let_def)
  have i1: "i < length (th_list h1)" using i by (simp add: h1_def stop_timer_simps)
  have nr: "\<not> tm_is_running h1 i"
    using i unfolding h1_def
    by (cases "tm_is_running h i")
      (simp_all add: stop_timer_def Let_def tm_is_running_def timer_at_store pop_same decode_encode duration_le)
  have ok1: "timers_ok h1" unfolding h1_def by (rule stop_timer_ok [OF ok i])
  obtain L where L: "wheel_lists h1 L" and c: "counts_ok h1" using ok1 by (auto simp: timers_ok_def)
  have at: "timer_at h' k = (if k = i then (timer_at h1 i)\<lparr>tm_allocated := False, tm_state := 0, tm_callback := None\<rparr> else timer_at h1 k)" for k
    using i1 by (simp add: h'_def update_timer_def timer_at_def Let_def)
  have f: "length (th_list h') = length (th_list h1)" "th_free h' = i # th_free h1" "th_nof_free h' = th_nof_free h1 + 1"
      "th_nof_running h' = th_nof_running h1"
    by (simp_all add: h'_def update_timer_def Let_def)
  have r0: "\<not> tm_is_running h' i" by (simp add: tm_is_running_def at decode_is_running_def)
  show "timers_ok (dealloc_timer i h)"
  proof (cases "tm_allocated (timer_at h i)")
    case True
    then have al: "tm_allocated (timer_at h1 i)" by (simp add: h1_def stop_timer_simps)
    have "wheel_lists (store_state i 0 h1) L"
      using L i1 nr by (intro wheel_lists_store) (auto simp: wheel_lists_def decode_is_running_def)
    then have "wheel_lists ((store_state i 0 h1)\<lparr>th_list := th_list h'\<rparr>) L"
      by (rule wheel_lists_update)
        (use i1 in \<open>auto simp: h'_def store_state_def update_timer_def Let_def nth_list_update\<close>)
    then have "wheel_lists h' L"
      by (simp add: wheel_lists_def links_ok_def tm_is_running_def timer_at_def h'_def store_state_def update_timer_def Let_def)
    moreover have "running_set h' = running_set h1"
      using f(1) nr r0 by (auto simp: running_set_def tm_is_running_def at)
    moreover have "i \<notin> set (th_free h1)" using c al by (simp add: counts_ok_def)
    ultimately have "timers_ok h'" using c i1 al f unfolding timers_ok_def counts_ok_def by (auto simp: at)
    then show ?thesis using d True by simp
  qed (use d ok in simp)
  show "abs_of (dealloc_timer i h) = spec_dealloc i (abs_of h)"
  proof (cases "tm_allocated (timer_at h i)")
    case True
    have "abs_of h' = spec_update i (\<lambda>_. \<lparr>at_allocated = False, at_status = Stopped 0, at_callback = None\<rparr>)
        ((abs_of h1)\<lparr>as_free := i # as_free (abs_of h1)\<rparr>)"
      using i1 by (simp add: h'_def Let_def update_timer_def abs_of_def spec_update_def abs_timer_of_def map_update)
    moreover have "abs_of h1 = spec_stop i False (abs_of h)" unfolding h1_def by (rule stop_timer_abs [OF i])
    ultimately show ?thesis using True d a by (simp add: spec_dealloc_def spec_stop_def spec_update_def)
  next
    case False
    then show ?thesis using d a by (simp add: spec_dealloc_def)
  qed
qed

section \<open>Steps\<close>

text \<open>A callback that leaves the timers alone; what it does to the world is \<open>f\<close>.\<close>

definition leaving_timers :: "('c \<Rightarrow> u32 \<Rightarrow> 'w \<Rightarrow> 'w) \<Rightarrow> 'c \<Rightarrow> u32 \<Rightarrow> 'w \<times> 'c timers \<Rightarrow> 'w \<times> 'c timers" where
  "leaving_timers f c i s = (f c i (fst s), snd s)"

definition call_back :: "('c \<Rightarrow> u32 \<Rightarrow> 'w \<Rightarrow> 'w) \<Rightarrow> 'c option \<Rightarrow> nat \<Rightarrow> 'w \<Rightarrow> 'w" where
  "call_back f cb i w = (case cb of None \<Rightarrow> w | Some c \<Rightarrow> f c (of_nat i) w)"

abbreviation is_due :: "'c timers \<Rightarrow> u32 \<Rightarrow> nat \<Rightarrow> bool" where
  "is_due h now i \<equiv> decode_timeout (tm_state (timer_at h i)) = now"


lemma wheel_walk_None: "wheel_walk call now None s = Some s"
  by (simp add: wheel_walk.simps)

lemma wheel_walk_leaving:
  "wheel_walk (leaving_timers f) now (Some i) (w, h) =
    (if is_due h now i
     then wheel_walk (leaving_timers f) now (tm_next (timer_at h i))
       (call_back f (tm_callback (timer_at h i)) i w, stop_timer i True h)
     else wheel_walk (leaving_timers f) now (tm_next (timer_at h i)) (w, h))"
  by (subst wheel_walk.simps)
    (simp add: Let_def stop_timer_simps leaving_timers_def call_back_def split: option.split)

lemma wheel_walk_ok:
  "wheel_lists h L \<Longrightarrow> counts_ok h \<Longrightarrow> L pos = kept @ bs \<Longrightarrow>
    \<exists>L' h'. wheel_walk (leaving_timers f) now (head_or None bs) (w, h) =
        Some (fold (\<lambda>i. call_back f (tm_callback (timer_at h i)) i) (filter (is_due h now) bs) w, h') \<and>
      wheel_lists h' L' \<and> counts_ok h' \<and> th_cur_time h' = th_cur_time h \<and>
      abs_of h' = fold (\<lambda>i. spec_stop i True) (filter (is_due h now) bs) (abs_of h)"
proof (induction bs arbitrary: h L kept w)
  case Nil
  then show ?case by (auto simp: wheel_walk_None)
next
  case (Cons i bs)
  have ok: "links_ok h L" using Cons.prems(1) by (simp add: wheel_lists_def)
  have seg: "tm_next (timer_at h i) = head_or None bs" "i < length (th_list h)"
    using links_okD(3) [OF ok, of pos] unfolding Cons.prems(3) by (simp_all add: seg_append timer_at_def)
  have dist: "i \<notin> set bs" using links_okD(2) [OF ok, of pos] unfolding Cons.prems(3) by simp
  show ?case
  proof (cases "is_due h now i")
    case True
    let ?h = "stop_timer i True h" and ?w = "call_back f (tm_callback (timer_at h i)) i w"
    have "wheel_lists ?h (L(pos := kept @ bs))" using wheel_lists_stop [OF Cons.prems(1,3)] .
    moreover have "counts_ok ?h" by (rule counts_ok_stop [OF Cons.prems(2) seg(2)])
    moreover have "(L(pos := kept @ bs)) pos = kept @ bs" by simp
    ultimately obtain L' h' where
      step: "wheel_walk (leaving_timers f) now (head_or None bs) (?w, ?h) =
          Some (fold (\<lambda>i. call_back f (tm_callback (timer_at ?h i)) i) (filter (is_due ?h now) bs) ?w, h')"
        "wheel_lists h' L'" "counts_ok h'" "th_cur_time h' = th_cur_time ?h"
        "abs_of h' = fold (\<lambda>i. spec_stop i True) (filter (is_due ?h now) bs) (abs_of ?h)"
      using Cons.IH by blast
    have fil: "filter (is_due ?h now) bs = filter (is_due h now) bs"
    proof (rule filter_cong)
      fix k
      assume "k \<in> set bs"
      then have "k \<noteq> i" using dist by auto
      then show "is_due ?h now k = is_due h now k" by (simp add: stop_timer_simps)
    qed simp
    have "wheel_walk (leaving_timers f) now (head_or None (i # bs)) (w, h) =
        Some (fold (\<lambda>i. call_back f (tm_callback (timer_at h i)) i) (filter (is_due h now) (i # bs)) w, h')"
      using True step(1) seg(1) unfolding fil by (simp add: wheel_walk_leaving stop_timer_simps)
    moreover have "abs_of h' = fold (\<lambda>i. spec_stop i True) (filter (is_due h now) (i # bs)) (abs_of h)"
      using step(5) True unfolding fil by (simp add: stop_timer_abs [OF seg(2)])
    ultimately show ?thesis using step(2-4) by (auto simp: stop_timer_simps)
  next
    case False
    have "L pos = (kept @ [i]) @ bs" using Cons.prems(3) by simp
    then obtain L' h' where
      step: "wheel_walk (leaving_timers f) now (head_or None bs) (w, h) =
          Some (fold (\<lambda>i. call_back f (tm_callback (timer_at h i)) i) (filter (is_due h now) bs) w, h')"
        "wheel_lists h' L'" "counts_ok h'" "th_cur_time h' = th_cur_time h"
        "abs_of h' = fold (\<lambda>i. spec_stop i True) (filter (is_due h now) bs) (abs_of h)"
      using Cons.IH [OF Cons.prems(1,2)] by blast
    then show ?thesis using False seg(1) by (auto simp: wheel_walk_leaving)
  qed
qed

text \<open>The timers of a step expire all at once in the specification, one after the other in the walk.\<close>

lemma fold_spec_stop:
  assumes "distinct xs" "set xs \<subseteq> {..<length (as_timers a)}"
  shows "fold (\<lambda>i. spec_stop i True) xs a =
    a\<lparr>as_timers := map (\<lambda>k. if k \<in> set xs then (case at_status (as_timers a ! k) of
        Running d _ \<Rightarrow> (as_timers a ! k)\<lparr>at_status := Expired d\<rparr> | _ \<Rightarrow> as_timers a ! k) else as_timers a ! k) [0..<length (as_timers a)]\<rparr>"
  using assms
proof (induction xs arbitrary: a)
  case Nil
  then show ?case by (simp add: map_nth)
next
  case (Cons x xs)
  let ?a = "spec_stop x True a"
  have len: "length (as_timers ?a) = length (as_timers a)" by (simp add: spec_stop_def spec_update_def)
  have at: "as_timers ?a ! k = (if k = x then (case at_status (as_timers a ! k) of
        Running d _ \<Rightarrow> (as_timers a ! k)\<lparr>at_status := Expired d\<rparr> | _ \<Rightarrow> as_timers a ! k) else as_timers a ! k)" for k
    using Cons.prems(2) by (simp add: spec_stop_def spec_update_def split: timer_status.split)
  have rest: "?a\<lparr>as_timers := ts\<rparr> = a\<lparr>as_timers := ts\<rparr>" for ts by (simp add: spec_stop_def spec_update_def)
  have "fold (\<lambda>i. spec_stop i True) (x # xs) a = fold (\<lambda>i. spec_stop i True) xs ?a" by simp
  also have "\<dots> = a\<lparr>as_timers := map (\<lambda>k. if k \<in> set xs then (case at_status (as_timers ?a ! k) of
        Running d _ \<Rightarrow> (as_timers ?a ! k)\<lparr>at_status := Expired d\<rparr> | _ \<Rightarrow> as_timers ?a ! k) else as_timers ?a ! k) [0..<length (as_timers ?a)]\<rparr>"
    using Cons.prems by (subst Cons.IH) (auto simp: len rest)
  also have "\<dots> = a\<lparr>as_timers := map (\<lambda>k. if k \<in> set (x # xs) then (case at_status (as_timers a ! k) of
        Running d _ \<Rightarrow> (as_timers a ! k)\<lparr>at_status := Expired d\<rparr> | _ \<Rightarrow> as_timers a ! k) else as_timers a ! k) [0..<length (as_timers a)]\<rparr>"
    using Cons.prems(1) unfolding len at by (intro arg_cong [where f = "\<lambda>ts. a\<lparr>as_timers := ts\<rparr>"] map_cong) auto
  finally show ?case .
qed

lemma is_due_abs:
  "tm_is_running h i \<and> is_due h now i \<longleftrightarrow> status_due now (abs_status (tm_state (timer_at h i)))"
  by (simp add: abs_status_def status_due_def tm_is_running_def)

lemma step_all_ok:
  assumes "timers_ok h"
  shows "\<exists>ids h'. distinct ids \<and> set ids = due_timers (abs_of h) \<and>
    step_all (leaving_timers f) (w, h) = Some (fold (\<lambda>i. call_back f (tm_callback (timer_at h i)) i) ids w, h') \<and>
    timers_ok h' \<and> abs_of h' = spec_step (abs_of h)"
proof -
  obtain L where L: "wheel_lists h L" and c: "counts_ok h" using assms by (auto simp: timers_ok_def)
  define now where "now = th_cur_time h + 1"
  define pos where "pos = now AND WHEEL_MASK"
  define ids where "ids = filter (is_due h now) (L pos)"
  have ok: "links_ok h L" and mem: "\<And>k pos. k \<in> set (L pos) \<longleftrightarrow> k < length (th_list h) \<and> tm_is_running h k \<and> pos = pos_of h k"
    using L by (simp_all add: wheel_lists_def)
  obtain L' h1 where
    walk: "wheel_walk (leaving_timers f) now (head_or None (L pos)) (w, h) =
        Some (fold (\<lambda>i. call_back f (tm_callback (timer_at h i)) i) ids w, h1)"
      "wheel_lists h1 L'" "counts_ok h1" "th_cur_time h1 = th_cur_time h"
      "abs_of h1 = fold (\<lambda>i. spec_stop i True) ids (abs_of h)"
    using wheel_walk_ok [OF L c, of pos "[]"] unfolding ids_def by fastforce
  define h' where "h' = h1\<lparr>th_cur_time := th_cur_time h1 + 1\<rparr>"
  have at: "k < length (th_list h) \<Longrightarrow> as_timers (abs_of h) ! k = abs_timer_of (timer_at h k)" for k by (rule abs_at)
  have len: "length (as_timers (abs_of h)) = length (th_list h)" "as_now (abs_of h) = th_cur_time h" by (simp_all add: abs_of_def)
  have ids: "k \<in> set ids \<longleftrightarrow> k < length (th_list h) \<and> status_due now (at_status (abs_timer_of (timer_at h k)))" for k
    unfolding ids_def using mem [of k pos] is_due_abs [of h k now] by (auto simp: abs_timer_of_def pos_def)
  have dist: "distinct ids" unfolding ids_def using links_okD(2) [OF ok] by simp
  have "set ids = due_timers (abs_of h)"
    using ids at unfolding due_timers_def len by (auto simp: now_def)
  moreover have "step_all (leaving_timers f) (w, h) = Some (fold (\<lambda>i. call_back f (tm_callback (timer_at h i)) i) ids w, h')"
    using walk(1) links_okD(1) [OF ok, of pos] by (simp add: step_all_def now_def pos_def h'_def)
  moreover have "wheel_lists h' L'"
    using walk(2) unfolding h'_def by (simp add: wheel_lists_def links_ok_def tm_is_running_def timer_at_def)
  moreover have "counts_ok h'"
    using walk(3) unfolding h'_def by (simp add: counts_ok_def running_set_def tm_is_running_def timer_at_def)
  moreover have "abs_of h' = spec_step (abs_of h)"
  proof -
    have "abs_of h' = (abs_of h1)\<lparr>as_now := as_now (abs_of h1) + 1\<rparr>" by (simp add: h'_def abs_of_def)
    also have "\<dots> = (abs_of h)\<lparr>as_now := th_cur_time h + 1, as_timers := map (\<lambda>k. if k \<in> set ids then (case at_status (as_timers (abs_of h) ! k) of
        Running d _ \<Rightarrow> (as_timers (abs_of h) ! k)\<lparr>at_status := Expired d\<rparr> | _ \<Rightarrow> as_timers (abs_of h) ! k) else as_timers (abs_of h) ! k)
        [0..<length (th_list h)]\<rparr>"
    proof -
      have sub: "set ids \<subseteq> {..<length (as_timers (abs_of h))}" using ids len by auto
      show ?thesis unfolding walk(5) fold_spec_stop [OF dist sub] len by (simp add: len)
    qed
    also have "\<dots> = spec_step (abs_of h)"
      unfolding spec_step_def
    proof (intro arg_cong2 [where f = "\<lambda>n ts. (abs_of h)\<lparr>as_now := n, as_timers := ts\<rparr>"] nth_equalityI)
      fix k
      assume "k < length (map (\<lambda>k. if k \<in> set ids then (case at_status (as_timers (abs_of h) ! k) of
        Running d _ \<Rightarrow> (as_timers (abs_of h) ! k)\<lparr>at_status := Expired d\<rparr> | _ \<Rightarrow> as_timers (abs_of h) ! k) else as_timers (abs_of h) ! k)
        [0..<length (th_list h)])"
      then have k: "k < length (th_list h)" by simp
      show "map (\<lambda>k. if k \<in> set ids then (case at_status (as_timers (abs_of h) ! k) of
        Running d _ \<Rightarrow> (as_timers (abs_of h) ! k)\<lparr>at_status := Expired d\<rparr> | _ \<Rightarrow> as_timers (abs_of h) ! k) else as_timers (abs_of h) ! k)
        [0..<length (th_list h)] ! k = map (spec_expire (as_now (abs_of h) + 1)) (as_timers (abs_of h)) ! k"
        using k ids [of k] at [OF k] len
        by (cases "at_status (abs_timer_of (timer_at h k))")
          (simp_all add: spec_expire_def status_due_def now_def)
    qed (simp_all add: len)
    finally show ?thesis .
  qed
  ultimately show ?thesis using dist unfolding timers_ok_def by blast
qed

end
