(* ===== verification/Timer_Properties.thy ===== *)
theory Timer_Properties
  imports Timers_Proofs
begin

text \<open>
  The promises of the stack timers over sequences of operations: refinement of the abstract timers, expiry on
  time, and what callbacks that change timers can cause.
\<close>

section \<open>Sequences of operations\<close>

datatype 'c timer_op = T_Alloc | T_Set nat u32 | T_Set_Callback nat u32 "'c option" | T_Run nat | T_Stop nat
  | T_Dealloc nat | T_Stop_All | T_Step

fun timer_do :: "('c \<Rightarrow> u32 \<Rightarrow> 'w \<Rightarrow> 'w) \<Rightarrow> 'c timer_op \<Rightarrow> 'w \<times> 'c timers \<Rightarrow> ('w \<times> 'c timers) option" where
  "timer_do f T_Alloc (w, h) = map_option (\<lambda>(t, h). (w, h)) (alloc_timer h)"
| "timer_do f (T_Set i d) (w, h) = map_option (Pair w) (timer_set i d h)"
| "timer_do f (T_Set_Callback i d cb) (w, h) = map_option (Pair w) (timer_set_callback i d cb h)"
| "timer_do f (T_Run i) (w, h) = Some (w, timer_run i h)"
| "timer_do f (T_Stop i) (w, h) = Some (w, timer_stop i h)"
| "timer_do f (T_Dealloc i) (w, h) = Some (w, dealloc_timer i h)"
| "timer_do f T_Stop_All (w, h) = Some (w, stop_all h)"
| "timer_do f T_Step (w, h) = step_all (leaving_timers f) (w, h)"

fun timer_run_ops :: "('c \<Rightarrow> u32 \<Rightarrow> 'w \<Rightarrow> 'w) \<Rightarrow> 'c timer_op list \<Rightarrow> 'w \<times> 'c timers \<Rightarrow> ('w \<times> 'c timers) option" where
  "timer_run_ops f [] s = Some s"
| "timer_run_ops f (op # ops) s = Option.bind (timer_do f op s) (timer_run_ops f ops)"

fun spec_timer_do :: "'c timer_op \<Rightarrow> 'c abs_timers \<Rightarrow> 'c abs_timers" where
  "spec_timer_do T_Alloc a = snd (spec_alloc a)"
| "spec_timer_do (T_Set i d) a = spec_set i d a"
| "spec_timer_do (T_Set_Callback i d cb) a = spec_update i (\<lambda>t. t\<lparr>at_callback := cb\<rparr>) (spec_set i d a)"
| "spec_timer_do (T_Run i) a = spec_start i 0 a"
| "spec_timer_do (T_Stop i) a = spec_stop i False a"
| "spec_timer_do (T_Dealloc i) a = spec_dealloc i a"
| "spec_timer_do T_Stop_All a = fold (\<lambda>i. spec_stop i False) [0..<length (as_timers a)] a"
| "spec_timer_do T_Step a = spec_step a"

text \<open>Operations go through handles of allocated timers; durations are in range.\<close>

definition has_timer :: "'c abs_timers \<Rightarrow> nat \<Rightarrow> bool" where
  "has_timer a i \<longleftrightarrow> i < length (as_timers a) \<and> at_allocated (as_timers a ! i)"

fun op_allowed :: "'c timer_op \<Rightarrow> 'c abs_timers \<Rightarrow> bool" where
  "op_allowed (T_Set i d) a \<longleftrightarrow> has_timer a i \<and> d \<le> MAX_TIMER_DURATION"
| "op_allowed (T_Set_Callback i d cb) a \<longleftrightarrow> has_timer a i \<and> d \<le> MAX_TIMER_DURATION"
| "op_allowed (T_Run i) a \<longleftrightarrow> has_timer a i"
| "op_allowed (T_Stop i) a \<longleftrightarrow> has_timer a i"
| "op_allowed (T_Dealloc i) a \<longleftrightarrow> has_timer a i"
| "op_allowed _ a \<longleftrightarrow> True"

fun ops_allowed :: "'c timer_op list \<Rightarrow> 'c abs_timers \<Rightarrow> bool" where
  "ops_allowed [] a \<longleftrightarrow> True"
| "ops_allowed (op # ops) a \<longleftrightarrow> op_allowed op a \<and> ops_allowed ops (spec_timer_do op a)"

definition spec_timers_new :: "nat \<Rightarrow> 'c abs_timers" where
  "spec_timers_new n = \<lparr>as_now = 0,
    as_timers = replicate n \<lparr>at_allocated = False, at_status = Stopped 0, at_callback = None\<rparr>, as_free = [0..<n]\<rparr>"

lemma timers_ok_new: "timers_ok (timer_handler_new n)" "abs_of (timer_handler_new n) = spec_timers_new n"
proof -
  have "wheel_lists (timer_handler_new n) (\<lambda>_. [])"
    by (auto simp: wheel_lists_def links_ok_def timer_handler_new_def tm_is_running_def timer_at_def timer_new_def decode_is_running_def)
  moreover have "running_set (timer_handler_new n) = {}"
    by (auto simp: running_set_def timer_handler_new_def tm_is_running_def timer_at_def timer_new_def decode_is_running_def)
  moreover have "counts_ok (timer_handler_new n)"
    unfolding counts_ok_def calculation(2) by (auto simp: timer_handler_new_def timer_at_def timer_new_def)
  ultimately show "timers_ok (timer_handler_new n)" by (auto simp: timers_ok_def)
qed (simp add: abs_of_def timer_handler_new_def spec_timers_new_def abs_timer_of_def timer_new_def)

lemma has_timerD:
  "has_timer (abs_of h) i \<Longrightarrow> i < length (th_list h) \<and> tm_allocated (timer_at h i)"
  by (auto simp: has_timer_def abs_of_def timer_at_def abs_timer_of_def)

lemma length_abs: "length (as_timers (abs_of h)) = length (th_list h)"
  by (simp add: abs_of_def)

lemma stop_all_ok:
  "timers_ok h \<Longrightarrow> set is \<subseteq> {..<length (th_list h)} \<Longrightarrow>
    timers_ok (fold (\<lambda>i. stop_timer i False) is h) \<and>
    abs_of (fold (\<lambda>i. stop_timer i False) is h) = fold (\<lambda>i. spec_stop i False) is (abs_of h)"
  by (induction "is" arbitrary: h) (simp_all add: stop_timer_ok stop_timer_abs stop_timer_simps)

lemma timer_do_ok:
  assumes "timers_ok h" "op_allowed op (abs_of h)"
  shows "\<exists>w' h'. timer_do f op (w, h) = Some (w', h') \<and> timers_ok h' \<and> abs_of h' = spec_timer_do op (abs_of h)"
proof (cases op)
  case T_Alloc
  then show ?thesis using alloc_timer_ok [OF assms(1)] by fastforce
next
  case (T_Set i d)
  then show ?thesis using assms has_timerD [of h i] set_duration_ok [OF assms(1), of i d] by (auto simp: timer_set_def)
next
  case (T_Set_Callback i d cb)
  let ?h = "set_duration i d h"
  have i: "i < length (th_list h)" "tm_allocated (timer_at h i)" "d \<le> MAX_TIMER_DURATION"
    using assms(2) has_timerD [of h i] T_Set_Callback by auto
  note s = set_duration_ok [OF assms(1) i]
  have "i < length (th_list ?h)" "tm_allocated (timer_at ?h i)" using i by (simp_all add: set_duration_simps)
  from callback_update_ok [OF s(1) this, of cb] show ?thesis
    using i(3) s(2) T_Set_Callback by (auto simp: timer_set_callback_def)
next
  case (T_Run i)
  then show ?thesis using assms has_timerD [of h i] start_run_ok [OF assms(1), of i 0] start_run_abs [of i h 0] by (auto simp: timer_run_def)
next
  case (T_Stop i)
  then show ?thesis using assms has_timerD [of h i] stop_timer_ok [OF assms(1), of i] stop_timer_abs [of i h False] by (auto simp: timer_stop_def)
next
  case (T_Dealloc i)
  then show ?thesis using assms has_timerD [of h i] dealloc_timer_ok [OF assms(1), of i] by auto
next
  case T_Stop_All
  then show ?thesis using stop_all_ok [OF assms(1), of "[0..<length (th_list h)]"] by (simp add: stop_all_def atLeast0LessThan length_abs)
next
  case T_Step
  then show ?thesis using step_all_ok [OF assms(1), of f w] by auto
qed

lemma timer_run_ops_ok:
  "timers_ok h \<Longrightarrow> ops_allowed ops (abs_of h) \<Longrightarrow>
    \<exists>w' h'. timer_run_ops f ops (w, h) = Some (w', h') \<and> timers_ok h' \<and> abs_of h' = fold spec_timer_do ops (abs_of h)"
proof (induction ops arbitrary: w h)
  case (Cons op ops)
  then obtain w' h' where "timer_do f op (w, h) = Some (w', h')" "timers_ok h'" "abs_of h' = spec_timer_do op (abs_of h)"
    using timer_do_ok [of h op f w] by auto
  then show ?case using Cons.IH [of h' w'] Cons.prems(2) by simp
qed simp

text \<open>What the getters answer.\<close>

lemma getters_abs:
  assumes "i < length (th_list h)"
  defines "s \<equiv> at_status (as_timers (abs_of h) ! i)"
  shows "tm_is_running h i \<longleftrightarrow> is_running_status s" "tm_duration h i = status_duration s"
    "tm_time_elapsed h i = (case s of Running d t \<Rightarrow> d - (t - as_now (abs_of h)) | Expired d \<Rightarrow> d | Stopped d \<Rightarrow> 0)"
proof -
  have s: "s = abs_status (tm_state (timer_at h i))" unfolding s_def abs_at [OF assms(1)] by (simp add: abs_timer_of_def)
  show "tm_is_running h i \<longleftrightarrow> is_running_status s" unfolding s by (rule running_abs)
  show "tm_duration h i = status_duration s" unfolding s tm_duration_def by (rule duration_abs)
  show "tm_time_elapsed h i = (case s of Running d t \<Rightarrow> d - (t - as_now (abs_of h)) | Expired d \<Rightarrow> d | Stopped d \<Rightarrow> 0)"
    unfolding s by (simp add: tm_time_elapsed_def abs_status_def Let_def abs_of_def)
qed

lemma expired_abs:
  "tm_is_expired h i \<Longrightarrow> \<not> tm_is_running h i \<Longrightarrow> \<exists>d. abs_status (tm_state (timer_at h i)) = Expired d"
  "abs_status (tm_state (timer_at h i)) = Expired d \<Longrightarrow> tm_is_expired h i"
  by (auto simp: abs_status_def tm_is_expired_def tm_is_running_def split: if_splits)

text \<open>
  C2: for every sequence of operations on allocated timers, durations in range and callbacks that leave the timers
  alone, the wheel does what a list of deadlines does: no operation fails, and status, duration, elapsed time and
  the number of running timers are those of the list.
\<close>

theorem timers_refine:
  assumes "ops_allowed ops (spec_timers_new n)"
  defines "a \<equiv> fold spec_timer_do ops (spec_timers_new n)"
  shows "\<exists>w' h. timer_run_ops f ops (w, timer_handler_new n) = Some (w', h) \<and> abs_of h = a \<and>
    th_nof_running h = of_nat (card {i. i < length (as_timers a) \<and> is_running_status (at_status (as_timers a ! i))}) \<and>
    (\<forall>i. if i < length (as_timers a) then
       (tm_is_running h i \<longleftrightarrow> is_running_status (at_status (as_timers a ! i))) \<and>
       tm_duration h i = status_duration (at_status (as_timers a ! i)) \<and>
       tm_time_elapsed h i = (case at_status (as_timers a ! i) of
         Running d t \<Rightarrow> d - (t - as_now a) | Expired d \<Rightarrow> d | Stopped d \<Rightarrow> 0)
     else True)"
proof -
  obtain w' h where run: "timer_run_ops f ops (w, timer_handler_new n) = Some (w', h)" "timers_ok h" "abs_of h = a"
    using timer_run_ops_ok [OF timers_ok_new(1), of ops n f w] assms unfolding timers_ok_new(2) a_def by auto
  have "running_set h = {i. i < length (as_timers a) \<and> is_running_status (at_status (as_timers a ! i))}"
    using getters_abs(1) [of _ h] unfolding running_set_def run(3) [symmetric] length_abs by auto
  then have "th_nof_running h = of_nat (card {i. i < length (as_timers a) \<and> is_running_status (at_status (as_timers a ! i))})"
    using run(2) by (simp add: timers_ok_def counts_ok_def)
  then show ?thesis
    using run(1) getters_abs [of _ h] unfolding run(3) [symmetric] length_abs by (intro exI conjI) auto
qed

theorem timers_refine_witness:
  "\<exists>w' h. timer_run_ops (\<lambda>c i w. i # w) [T_Alloc, T_Set_Callback 0 2 (Some ()), T_Run 0, T_Step, T_Step]
     ([], timer_handler_new 1) = Some (w', h) \<and> abs_of h = \<lparr>as_now = 2,
       as_timers = [\<lparr>at_allocated = True, at_status = Expired 2, at_callback = Some ()\<rparr>], as_free = []\<rparr>"
  using timers_refine [of "[T_Alloc, T_Set_Callback 0 2 (Some ()), T_Run 0, T_Step, T_Step]" 1 "\<lambda>c i w. i # w" "[]"]
  by (fastforce simp: spec_timers_new_def spec_alloc_def spec_update_def has_timer_def spec_set_def is_running_status_def
      spec_start_def spec_step_def spec_expire_def status_due_def)

text \<open>
  C34: a step of time expires the timers whose deadline has come, runs the callback of each of them once, in some
  order, and changes no other timer.
\<close>

theorem step_expires_due:
  assumes "ops_allowed ops (spec_timers_new n)"
  shows "\<exists>w' h. timer_run_ops f ops (w, timer_handler_new n) = Some (w', h) \<and>
    (\<exists>ids h'. distinct ids \<and> set ids = due_timers (abs_of h) \<and> abs_of h' = spec_step (abs_of h) \<and>
      step_all (leaving_timers f) (w', h) = Some (fold (\<lambda>i. call_back f (at_callback (as_timers (abs_of h) ! i)) i) ids w', h'))"
proof -
  obtain w' h where run: "timer_run_ops f ops (w, timer_handler_new n) = Some (w', h)" "timers_ok h"
    using timer_run_ops_ok [OF timers_ok_new(1), of ops n f w] assms unfolding timers_ok_new(2) by auto
  obtain ids h' where step: "distinct ids" "set ids = due_timers (abs_of h)" "abs_of h' = spec_step (abs_of h)"
      "step_all (leaving_timers f) (w', h) = Some (fold (\<lambda>i. call_back f (tm_callback (timer_at h i)) i) ids w', h')"
    using step_all_ok [OF run(2), of f w'] by blast
  have cb: "tm_callback (timer_at h i) = at_callback (as_timers (abs_of h) ! i)" if "i \<in> set ids" for i
    using that abs_at [of i h] unfolding step(2) due_timers_def length_abs by (simp add: abs_timer_of_def)
  have "fold (\<lambda>i. call_back f (tm_callback (timer_at h i)) i) ids w' =
      fold (\<lambda>i. call_back f (at_callback (as_timers (abs_of h) ! i)) i) ids w'"
    by (rule fold_cong) (simp_all add: cb)
  then show ?thesis using run(1) step by auto
qed

theorem step_expires_due_witness:
  "\<exists>w' h. timer_run_ops (\<lambda>c i w. i # w) [T_Alloc, T_Set_Callback 0 2 (Some ()), T_Run 0] ([], timer_handler_new 1) = Some (w', h) \<and>
     (\<exists>ids h'. step_all (leaving_timers (\<lambda>c i w. i # w)) (w', h) =
       Some (fold (\<lambda>i. call_back (\<lambda>c i w. i # w) (at_callback (as_timers (abs_of h) ! i)) i) ids w', h'))"
  using step_expires_due [of "[T_Alloc, T_Set_Callback 0 2 (Some ()), T_Run 0]" 1 "\<lambda>c i w. i # w" "[]"]
  by (fastforce simp: spec_timers_new_def spec_alloc_def spec_update_def has_timer_def spec_set_def is_running_status_def)

section \<open>Expiry on time\<close>

primrec timer_steps ::
    "('c \<Rightarrow> u32 \<Rightarrow> 'w \<times> 'c timers \<Rightarrow> 'w \<times> 'c timers) \<Rightarrow> nat \<Rightarrow> 'w \<times> 'c timers \<Rightarrow> ('w \<times> 'c timers) option" where
  "timer_steps call 0 s = Some s"
| "timer_steps call (Suc n) s = Option.bind (timer_steps call n s) (step_all call)"

text \<open>The steps until a deadline; one that is now comes again after a whole turn of the counter.\<close>

definition ticks_until :: "u32 \<Rightarrow> u32 \<Rightarrow> nat" where
  "ticks_until now t = (if t = now then 2 ^ 32 else unat (t - now))"

lemma spec_step_now: "as_now ((spec_step ^^ n) a) = as_now a + of_nat n"
  by (induction n) (simp_all add: spec_step_def)

lemma spec_step_length: "length (as_timers ((spec_step ^^ n) a)) = length (as_timers a)"
  by (induction n) (simp_all add: spec_step_def)

lemma due_iff_ticks:
  assumes "n < 2 ^ 32"
  shows "t = now + of_nat n + 1 \<longleftrightarrow> Suc n = ticks_until now t"
proof -
  have "t = now + of_nat n + 1 \<longleftrightarrow> t - now = of_nat (Suc n)" by (auto simp: algebra_simps)
  also have "\<dots> \<longleftrightarrow> Suc n = ticks_until now t"
  proof (cases "Suc n = 2 ^ 32")
    case True
    have z: "of_nat (2 ^ 32) = (0 :: u32)" by simp
    have "unat (t - now) < 2 ^ LENGTH(32)" by (rule unsigned_less)
    then show ?thesis unfolding True z ticks_until_def by auto
  next
    case False
    then have "unat (of_nat (Suc n) :: u32) = Suc n" using assms by (intro unat_of_nat_eq) simp
    moreover have "t - now = of_nat (Suc n) \<longleftrightarrow> unat (t - now) = unat (of_nat (Suc n) :: u32)" by (metis word_unat_eq_iff)
    ultimately show ?thesis using False unfolding ticks_until_def by auto
  qed
  finally show ?thesis .
qed

lemma spec_steps_status:
  assumes "i < length (as_timers a)" "at_status (as_timers a ! i) = Running d t" "n \<le> 2 ^ 32"
  shows "at_status (as_timers ((spec_step ^^ n) a) ! i) = (if n < ticks_until (as_now a) t then Running d t else Expired d)"
  using assms(3)
proof (induction n)
  case 0
  have "0 < ticks_until (as_now a) t" by (auto simp: ticks_until_def unat_gt_0)
  then show ?case using assms by simp
next
  case (Suc n)
  have len: "i < length (as_timers ((spec_step ^^ n) a))" using assms(1) by (simp add: spec_step_length)
  have st: "at_status (as_timers ((spec_step ^^ Suc n) a) ! i) =
      at_status (spec_expire (as_now a + of_nat n + 1) (as_timers ((spec_step ^^ n) a) ! i))"
    using len by (simp add: spec_step_def [of "(spec_step ^^ n) a"] spec_step_now)
  have n: "n < 2 ^ 32" using Suc.prems by simp
  show ?case
    unfolding st using Suc.IH Suc.prems due_iff_ticks [OF n, of t "as_now a"]
    by (auto simp: spec_expire_def status_due_def)
qed

lemma timer_steps_ok:
  assumes "timers_ok h"
  shows "\<exists>w' h'. timer_steps (leaving_timers f) n (w, h) = Some (w', h') \<and> timers_ok h' \<and> abs_of h' = (spec_step ^^ n) (abs_of h)"
proof (induction n)
  case (Suc n)
  then obtain w' h' where h': "timer_steps (leaving_timers f) n (w, h) = Some (w', h')" "timers_ok h'" "abs_of h' = (spec_step ^^ n) (abs_of h)"
    by blast
  obtain ids h'' where "step_all (leaving_timers f) (w', h') = Some (fold (\<lambda>i. call_back f (tm_callback (timer_at h' i)) i) ids w', h'')"
      "timers_ok h''" "abs_of h'' = spec_step (abs_of h')"
    using step_all_ok [OF h'(2), of f w'] by blast
  then show ?case using h' by simp
qed (use assms in simp)

text \<open>How often the callback of a timer has run, when callbacks log their timer.\<close>

abbreviation log_expiry :: "'c \<Rightarrow> u32 \<Rightarrow> u32 list \<Rightarrow> u32 list" where
  "log_expiry \<equiv> \<lambda>c i w. i # w"

lemma count_fold_log:
  assumes "distinct ids" "\<And>k. k \<in> set ids \<Longrightarrow> k < 2 ^ 32" "i < 2 ^ 32"
  shows "count_list (fold (\<lambda>k. call_back log_expiry (cb k) k) ids w) (of_nat i) =
    count_list w (of_nat i) + (if i \<in> set ids \<and> cb i \<noteq> None then 1 else 0)"
  using assms(1,2)
proof (induction ids arbitrary: w)
  case (Cons k ids)
  have inj: "(of_nat k :: u32) = of_nat i \<longleftrightarrow> k = i"
  proof -
    have "unat (of_nat k :: u32) = k" "unat (of_nat i :: u32) = i"
      using Cons.prems(2) [of k] assms(3) by (simp_all add: unat_of_nat_eq)
    then show ?thesis by metis
  qed
  have IH: "count_list (fold (\<lambda>k. call_back log_expiry (cb k) k) ids w') (of_nat i) =
      count_list w' (of_nat i) + (if i \<in> set ids \<and> cb i \<noteq> None then 1 else 0)" for w'
    using Cons.IH Cons.prems by simp
  have "count_list (call_back log_expiry (cb k) k w) (of_nat i) = count_list w (of_nat i) + (if k = i \<and> cb i \<noteq> None then 1 else 0)"
    using inj by (auto simp: call_back_def split: option.split)
  then show ?case using IH [of "call_back log_expiry (cb k) k w"] Cons.prems(1) by auto
qed simp

lemma timer_steps_log:
  assumes ok: "timers_ok h" and len: "length (th_list h) \<le> 2 ^ 32"
    and i: "i < length (th_list h)" "at_status (as_timers (abs_of h) ! i) = Running d t" "tm_callback (timer_at h i) \<noteq> None"
    and n: "n \<le> 2 ^ 32"
  shows "\<exists>w h'. timer_steps (leaving_timers log_expiry) n ([], h) = Some (w, h') \<and> timers_ok h' \<and>
    abs_of h' = (spec_step ^^ n) (abs_of h) \<and>
    count_list w (of_nat i) = (if n < ticks_until (th_cur_time h) t then 0 else 1)"
  using n
proof (induction n)
  case 0
  have "0 < ticks_until (th_cur_time h) t" by (auto simp: ticks_until_def unat_gt_0)
  then show ?case using ok by simp
next
  case (Suc n)
  then obtain w h' where h': "timer_steps (leaving_timers log_expiry) n ([], h) = Some (w, h')" "timers_ok h'"
      "abs_of h' = (spec_step ^^ n) (abs_of h)" "count_list w (of_nat i) = (if n < ticks_until (th_cur_time h) t then 0 else 1)"
    by auto
  obtain ids h'' where step: "distinct ids" "set ids = due_timers (abs_of h')"
      "step_all (leaving_timers log_expiry) (w, h') = Some (fold (\<lambda>k. call_back log_expiry (tm_callback (timer_at h' k)) k) ids w, h'')"
      "timers_ok h''" "abs_of h'' = spec_step (abs_of h')"
    using step_all_ok [OF h'(2), of log_expiry w] by blast
  have l: "length (th_list h') = length (th_list h)"
    using spec_step_length [of n "abs_of h"] unfolding h'(3) [symmetric] length_abs .
  have cbs: "at_callback (as_timers ((spec_step ^^ m) (abs_of h)) ! i) = at_callback (as_timers (abs_of h) ! i)" for m
  proof (induction m)
    case (Suc m)
    have "i < length (as_timers ((spec_step ^^ m) (abs_of h)))" using i(1) by (simp add: spec_step_length length_abs)
    then show ?case using Suc by (simp add: spec_step_def [of "(spec_step ^^ m) (abs_of h)"] spec_expire_def)
  qed simp
  have cb: "tm_callback (timer_at h' i) \<noteq> None"
    using cbs [of n] i(1,3) l abs_at [of i h'] abs_at [of i h] unfolding h'(3) [symmetric] by (simp add: abs_timer_of_def)
  have n32: "n < 2 ^ 32" "n \<le> 2 ^ 32" using Suc.prems by simp_all
  have now: "as_now (abs_of h) = th_cur_time h" by (simp add: abs_of_def)
  have due: "i \<in> set ids \<longleftrightarrow> Suc n = ticks_until (th_cur_time h) t"
    using i(1) due_iff_ticks [OF n32(1), of t "th_cur_time h"]
      spec_steps_status [OF _ i(2) n32(2)] unfolding step(2) due_timers_def h'(3) spec_step_now spec_step_length length_abs now
    by (auto simp: status_due_def)
  have small: "k < 2 ^ 32" if "k \<in> set ids" for k
    using that len l unfolding step(2) due_timers_def length_abs by auto
  have "count_list (fold (\<lambda>k. call_back log_expiry (tm_callback (timer_at h' k)) k) ids w) (of_nat i) =
      count_list w (of_nat i) + (if i \<in> set ids \<and> tm_callback (timer_at h' i) \<noteq> None then 1 else 0)"
    by (rule count_fold_log [OF step(1) small]) (use i(1) len in auto)
  also have "\<dots> = (if Suc n < ticks_until (th_cur_time h) t then 0 else 1)" unfolding h'(4) using due cb by auto
  finally show ?case using h' step by simp
qed

lemma ops_allowed_append:
  "ops_allowed (xs @ ys) a \<longleftrightarrow> ops_allowed xs a \<and> ops_allowed ys (fold spec_timer_do xs a)"
  by (induction xs arbitrary: a) simp_all

lemma set_run_status:
  assumes "i < length (as_timers a)"
  fixes d cb
  defines "a' \<equiv> spec_timer_do (T_Run i) (spec_timer_do (T_Set_Callback i d cb) a)"
  shows "at_status (as_timers a' ! i) = Running (max d 1) (as_now a + max d 1)" "at_callback (as_timers a' ! i) = cb"
    "as_now a' = as_now a" "length (as_timers a') = length (as_timers a)"
proof -
  have m: "max d 1 \<noteq> 0" by (metis max.cobounded2 not_one_le_zero word_le_0_iff zero_neq_one)
  show "at_status (as_timers a' ! i) = Running (max d 1) (as_now a + max d 1)" "at_callback (as_timers a' ! i) = cb"
    "as_now a' = as_now a" "length (as_timers a') = length (as_timers a)"
    using assms(1) m unfolding a'_def by (simp_all add: spec_set_def spec_start_def spec_update_def Let_def)
qed

text \<open>
  C6: a timer that is set to a duration and started runs for that many steps (one, if the duration is zero),
  with the elapsed time counting them, and then expires: its callback runs once, at the last of these
  steps and never before.
\<close>

theorem timer_expires_on_time:
  assumes "ops_allowed (ops @ [T_Set_Callback i d (Some c), T_Run i]) (spec_timers_new m)"
    and "length (as_timers (fold spec_timer_do ops (spec_timers_new m))) \<le> 2 ^ 32" "k \<le> 2 ^ 32"
  shows "\<exists>w h log h'. timer_run_ops f (ops @ [T_Set_Callback i d (Some c), T_Run i]) (w0, timer_handler_new m) = Some (w, h) \<and>
    timer_steps (leaving_timers log_expiry) k ([], h) = Some (log, h') \<and>
    (if k < unat (max d 1)
     then tm_is_running h' i \<and> tm_time_elapsed h' i = of_nat k \<and> count_list log (of_nat i) = 0
     else \<not> tm_is_running h' i \<and> tm_is_expired h' i \<and> tm_time_elapsed h' i = max d 1 \<and> count_list log (of_nat i) = 1)"
proof -
  let ?ops = "ops @ [T_Set_Callback i d (Some c), T_Run i]"
  define a where "a = fold spec_timer_do ops (spec_timers_new m)"
  define a' where "a' = spec_timer_do (T_Run i) (spec_timer_do (T_Set_Callback i d (Some c)) a)"
  define D where "D = max d 1"
  obtain w h where run: "timer_run_ops f ?ops (w0, timer_handler_new m) = Some (w, h)" "timers_ok h" "abs_of h = a'"
    using timer_run_ops_ok [OF timers_ok_new(1), of ?ops m f w0] assms(1)
    unfolding timers_ok_new(2) a'_def a_def by (auto simp del: spec_timer_do.simps)
  have ia: "i < length (as_timers a)" using assms(1) by (simp add: ops_allowed_append has_timer_def a_def)
  note st = set_run_status [OF ia, of d "Some c", folded a'_def D_def]
  have len: "length (th_list h) \<le> 2 ^ 32" "i < length (th_list h)"
    using assms(2) st(4) ia length_abs [of h] unfolding run(3) a_def by simp_all
  have now: "th_cur_time h = as_now a" using st(3) run(3) by (auto simp: abs_of_def)
  have cb: "tm_callback (timer_at h i) \<noteq> None" using st(2) abs_at [OF len(2)] unfolding run(3) by (simp add: abs_timer_of_def)
  have i: "i < length (as_timers a')" using st(4) ia by simp
  have D: "D \<noteq> 0" unfolding D_def by (metis max.cobounded2 not_one_le_zero word_le_0_iff zero_neq_one)
  have ticks: "ticks_until (as_now a) (as_now a + D) = unat D" using D by (simp add: ticks_until_def)
  obtain log h' where steps: "timer_steps (leaving_timers log_expiry) k ([], h) = Some (log, h')" "timers_ok h'"
      "abs_of h' = (spec_step ^^ k) a'" "count_list log (of_nat i) = (if k < unat D then 0 else 1)"
    using timer_steps_log [OF run(2) len, unfolded run(3) now, OF st(1) cb assms(3), unfolded ticks] by blast
  have i': "i < length (th_list h')" using i spec_step_length [of k a'] length_abs [of h'] unfolding steps(3) by simp
  have status: "at_status (as_timers (abs_of h') ! i) = (if k < unat D then Running D (as_now a + D) else Expired D)"
    using spec_steps_status [OF i st(1) assms(3)] unfolding steps(3) st(3) ticks .
  have now': "as_now (abs_of h') = as_now a + of_nat k" unfolding steps(3) spec_step_now st(3) ..
  have ex: "tm_is_expired h' i" if "at_status (as_timers (abs_of h') ! i) = Expired D"
    using that abs_at [OF i'] expired_abs(2) [of h' i D] by (simp add: abs_timer_of_def)
  show ?thesis
    using run(1) steps(1,4) getters_abs [OF i'] ex unfolding status now' D_def [symmetric]
    by (intro exI [of _ w] exI [of _ h] exI [of _ log] exI [of _ h'])
      (simp add: is_running_status_def split: if_splits)
qed

theorem timer_expires_on_time_witness:
  "\<exists>w h log h'. timer_run_ops (\<lambda>c i w. w) [T_Alloc, T_Set_Callback 0 7 (Some ()), T_Run 0] ((), timer_handler_new 1) = Some (w, h) \<and>
    timer_steps (leaving_timers log_expiry) 7 ([], h) = Some (log, h') \<and> tm_is_expired h' 0 \<and> count_list log 0 = 1"
proof -
  have m: "max (7 :: u32) 1 = 7" by (simp add: max_def word_le_nat_alt)
  have "ops_allowed ([T_Alloc] @ [T_Set_Callback 0 7 (Some ()), T_Run 0]) (spec_timers_new 1)"
    by (simp add: spec_timers_new_def spec_alloc_def spec_update_def has_timer_def spec_set_def is_running_status_def)
  from timer_expires_on_time [OF this, of 7 "\<lambda>c i w. w" "()"] show ?thesis
    unfolding m
    by (simp add: spec_timers_new_def spec_alloc_def spec_update_def del: timer_run_ops.simps timer_steps.simps) blast
qed

section \<open>Callbacks that change timers\<close>

lemma wheel_lists_time: "wheel_lists (h\<lparr>th_cur_time := t\<rparr>) L = wheel_lists h L"
  by (simp add: wheel_lists_def links_ok_def tm_is_running_def timer_at_def)

lemma timers_ok_time: "timers_ok (h\<lparr>th_cur_time := t\<rparr>) = timers_ok h"
  by (simp add: timers_ok_def wheel_lists_time counts_ok_def running_set_def tm_is_running_def timer_at_def)

text \<open>Timers that are not due are passed over, whatever the callbacks.\<close>

lemma walk_skip:
  assumes L: "wheel_lists h L"
  shows "L pos = pre @ xs @ ys \<Longrightarrow> \<forall>x \<in> set xs. \<not> is_due h now x \<Longrightarrow>
    wheel_walk call now (head_or None (xs @ ys)) (w, h) = wheel_walk call now (head_or None ys) (w, h)"
proof (induction xs arbitrary: pre)
  case (Cons x xs)
  have ok: "links_ok h L" using L by (simp add: wheel_lists_def)
  have "tm_next (timer_at h x) = head_or None (xs @ ys)"
    using links_okD(3) [OF ok, of pos] unfolding Cons.prems(1) by (simp add: seg_append timer_at_def)
  then show ?case
    using Cons.IH [of "pre @ [x]"] Cons.prems by (subst wheel_walk.simps) simp
qed simp

lemma stopped_state:
  "i < length (th_list h) \<Longrightarrow> tm_is_running h i \<Longrightarrow>
    tm_state (timer_at (stop_timer i e h) i) =
      encode_state (if e then EXPIRED_FLAG else STOPPED_FLAG) (tm_duration h i) (decode_timeout (tm_state (timer_at h i)))"
  by (simp add: stop_timer_def Let_def tm_is_running_def tm_duration_def timer_at_store pop_same)

lemma running_allocated: "counts_ok h \<Longrightarrow> i < length (th_list h) \<Longrightarrow> tm_is_running h i \<Longrightarrow> tm_allocated (timer_at h i)"
  by (auto simp: counts_ok_def tm_is_running_def decode_is_running_def)

lemma due_timers_iff:
  "i \<in> due_timers (abs_of h) \<longleftrightarrow> i < length (th_list h) \<and> tm_is_running h i \<and> is_due h (th_cur_time h + 1) i"
proof (cases "i < length (th_list h)")
  case True
  have now: "as_now (abs_of h) = th_cur_time h" by (simp add: abs_of_def)
  show ?thesis
    using True is_due_abs [of h i "th_cur_time h + 1"] unfolding due_timers_def length_abs now
    by (simp add: abs_at abs_timer_of_def)
qed (simp add: due_timers_def length_abs)

lemma restart_step:
  assumes ok: "timers_ok h" and due: "due_timers (abs_of h) = {i}" and cb: "tm_callback (timer_at h i) = Some c"
    and call: "\<And>w h. call c (of_nat i) (w, h) = (g w, timer_run i h)"
  shows "\<exists>h'. step_all call (w, h) = Some (g w, h') \<and> timers_ok h' \<and> th_cur_time h' = th_cur_time h + 1 \<and>
    length (th_list h') = length (th_list h) \<and> tm_callback (timer_at h' i) = Some c \<and>
    at_status (as_timers (abs_of h') ! i) = Running (tm_duration h i) (th_cur_time h + tm_duration h i)"
proof -
  obtain L where L: "wheel_lists h L" and c: "counts_ok h" using ok by (auto simp: timers_ok_def)
  define now where "now = th_cur_time h + 1"
  define pos where "pos = now AND WHEEL_MASK"
  have i: "i < length (th_list h)" "tm_is_running h i" "is_due h now i"
    using due_timers_iff [of i h] due unfolding now_def by auto
  have mem: "\<And>k pos. k \<in> set (L pos) \<longleftrightarrow> k < length (th_list h) \<and> tm_is_running h k \<and> pos = pos_of h k"
    and lk: "links_ok h L"
    using L by (simp_all add: wheel_lists_def)
  have "i \<in> set (L pos)" using i by (simp add: mem pos_def)
  then obtain xs ys where split: "L pos = xs @ i # ys" by (meson split_list)
  have dist: "i \<notin> set xs" "i \<notin> set ys" using links_okD(2) [OF lk, of pos] unfolding split by auto
  have notdue: "\<not> is_due h now k" if "k \<in> set xs \<union> set ys" for k
  proof -
    have "k \<in> set (L pos)" "k \<noteq> i" using that split dist by auto
    then show ?thesis using mem [of k pos] due_timers_iff [of k h] due unfolding now_def by auto
  qed
  define h1 where "h1 = stop_timer i True h"
  define h2 where "h2 = timer_run i h1"
  have L1: "wheel_lists h1 (L(pos := xs @ ys))" and c1: "counts_ok h1"
    unfolding h1_def by (rule wheel_lists_stop [OF L split], rule counts_ok_stop [OF c i(1)])
  have st1: "tm_state (timer_at h1 i) = encode_state EXPIRED_FLAG (tm_duration h i) now"
    unfolding h1_def using stopped_state [OF i(1,2), of True] i(3) by simp
  have dur: "tm_duration h i \<le> MAX_TIMER_DURATION" by (simp add: tm_duration_def duration_le)
  have i1: "i < length (th_list h1)" "\<not> tm_is_running h1 i" "tm_allocated (timer_at h1 i)" "tm_duration h1 i = tm_duration h i"
    using i running_allocated [OF c i(1,2)] st1
    by (simp_all add: h1_def stop_timer_simps tm_is_running_def tm_duration_def decode_encode duration_le)
  define L1' where "L1' = L(pos := xs @ ys)"
  define p where "p = th_cur_time h1 + (if (0 :: u32) = 0 then tm_duration h1 i else 0) AND WHEEL_MASK"
  have L2: "wheel_lists h2 (L1'(p := i # L1' p))"
    unfolding h2_def timer_run_def p_def L1'_def using start_run_fresh [OF L1 i1(1) _ i1(2), of 0] by simp
  have ok2: "timers_ok h2"
    unfolding h2_def timer_run_def using L1 c1 by (intro start_run_ok [OF _ i1(1,3)]) (auto simp: timers_ok_def)
  obtain pre where pre: "(L1'(p := i # L1' p)) pos = pre @ ys @ []"
  proof
    show "(L1'(p := i # L1' p)) pos = (if p = pos then i # xs else xs) @ ys @ []" by (simp add: L1'_def)
  qed
  have "\<not> is_due h2 now k" if "k \<in> set ys" for k
  proof -
    have "k \<noteq> i" using that dist by auto
    then have "tm_state (timer_at h2 k) = tm_state (timer_at h k)"
      by (simp add: h2_def h1_def timer_run_def start_run_simps stop_timer_simps)
    then show ?thesis using notdue [of k] that by simp
  qed
  then have rest: "wheel_walk call now (head_or None ys) (g w, h2) = Some (g w, h2)"
    using walk_skip [OF L2 pre, of now call "g w"] by (simp add: wheel_walk_None)
  have "wheel_walk call now (head_or None (L pos)) (w, h) = wheel_walk call now (Some i) (w, h)"
    using walk_skip [OF L, of pos "[]" xs "i # ys" now call w] notdue split by simp
  also have "\<dots> = wheel_walk call now (head_or None ys) (g w, h2)"
  proof -
    have nx: "tm_next (timer_at h i) = head_or None ys"
      using links_okD(3) [OF lk, of pos] unfolding split by (simp add: seg_append timer_at_def)
    show ?thesis
      using i(3) cb call [of w h1] nx
      by (subst wheel_walk.simps) (simp add: h1_def [symmetric] h2_def Let_def, simp add: h1_def stop_timer_simps)
  qed
  finally have walk: "wheel_walk call now (head_or None (L pos)) (w, h) = Some (g w, h2)" using rest by simp
  define h' where "h' = h2\<lparr>th_cur_time := th_cur_time h2 + 1\<rparr>"
  have t2: "th_cur_time h2 = th_cur_time h" by (simp add: h2_def h1_def timer_run_def start_run_simps stop_timer_simps)
  have "step_all call (w, h) = Some (g w, h')"
    using walk links_okD(1) [OF lk, of pos] by (simp add: step_all_def now_def pos_def h'_def)
  moreover have "timers_ok h'" using ok2 by (simp add: h'_def timers_ok_time)
  moreover have "at_status (as_timers (abs_of h') ! i) = Running (tm_duration h i) (th_cur_time h + tm_duration h i)"
  proof -
    have "abs_of h2 = spec_start i 0 (abs_of h1)" unfolding h2_def timer_run_def by (rule start_run_abs [OF i1(1)]) simp
    moreover have "status_duration (at_status (as_timers (abs_of h1) ! i)) = tm_duration h i" "as_now (abs_of h1) = th_cur_time h"
      "i < length (as_timers (abs_of h1))"
      using abs_at [OF i1(1)] i1 by (simp_all add: abs_timer_of_def length_abs tm_duration_def duration_abs) (simp add: abs_of_def h1_def stop_timer_simps)
    moreover have "as_timers (abs_of h') = as_timers (abs_of h2)" by (simp add: h'_def abs_of_def)
    ultimately show ?thesis by (simp add: spec_start_def spec_update_def Let_def)
  qed
  moreover have "timer_at h' i = timer_at h2 i" by (simp add: h'_def timer_at_def)
  then have "tm_callback (timer_at h' i) = Some c"
    using cb by (simp add: h2_def h1_def timer_run_def start_run_simps stop_timer_simps)
  moreover have "length (th_list h') = length (th_list h)" "th_cur_time h' = th_cur_time h + 1"
    using t2 by (simp_all add: h'_def h2_def h1_def timer_run_def start_run_simps stop_timer_simps)
  ultimately show ?thesis by blast
qed

text \<open>
  C35: a timer that its own callback starts again, after any operations, counts the step it expired in as elapsed
  already: it runs one step less than its duration, and with a duration of one it does not expire before the
  counter of time has gone round.
\<close>

theorem restart_in_callback_early:
  assumes ok: "timers_ok h" "length (th_list h) \<le> 2 ^ 32"
    and due: "due_timers (abs_of h) = {i}" and cb: "tm_callback (timer_at h i) = Some c"
    and call: "\<And>w h. call c (of_nat i) (w, h) = (g w, timer_run i h)"
    and k: "k \<le> 2 ^ 32"
  defines "d \<equiv> tm_duration h i"
  shows "\<exists>h1. step_all call (w, h) = Some (g w, h1) \<and> tm_is_running h1 i \<and> tm_time_elapsed h1 i = 1 \<and>
    (\<exists>log h'. timer_steps (leaving_timers log_expiry) k ([], h1) = Some (log, h') \<and>
      count_list log (of_nat i) = (if k < (if d = 1 then 2 ^ 32 else unat (d - 1)) then 0 else 1))"
proof -
  obtain h1 where h1: "step_all call (w, h) = Some (g w, h1)" "timers_ok h1" "th_cur_time h1 = th_cur_time h + 1"
      "length (th_list h1) = length (th_list h)" "tm_callback (timer_at h1 i) = Some c"
      "at_status (as_timers (abs_of h1) ! i) = Running d (th_cur_time h + d)"
    using restart_step [where call = call and g = g and w = w, OF ok(1) due cb call] unfolding d_def by blast
  have i: "i < length (th_list h1)" using due due_timers_iff [of i h] h1(4) by auto
  have ticks: "ticks_until (th_cur_time h + 1) (th_cur_time h + d) = (if d = 1 then 2 ^ 32 else unat (d - 1))"
    by (simp add: ticks_until_def)
  have "\<exists>log h'. timer_steps (leaving_timers log_expiry) k ([], h1) = Some (log, h') \<and> timers_ok h' \<and>
      abs_of h' = (spec_step ^^ k) (abs_of h1) \<and>
      count_list log (of_nat i) = (if k < ticks_until (th_cur_time h1) (th_cur_time h + d) then 0 else 1)"
    using ok(2) h1 i k by (intro timer_steps_log) auto
  moreover have "tm_is_running h1 i" "tm_time_elapsed h1 i = 1"
    using getters_abs [OF i] unfolding h1(6) by (simp_all add: is_running_status_def abs_of_def h1(3))
  ultimately show ?thesis using h1(1) unfolding h1(3) ticks by blast
qed

text \<open>A timer of duration one, started and about to expire.\<close>

definition ticking :: "unit timers" where
  "ticking = timer_run 0 (set_duration 0 1 (update_timer 0 (\<lambda>t. t\<lparr>tm_callback := Some ()\<rparr>) (snd (the (alloc_timer (timer_handler_new 1))))))"

lemma ticking_ok: "timers_ok ticking" "abs_of ticking = \<lparr>as_now = 0,
    as_timers = [\<lparr>at_allocated = True, at_status = Running 1 1, at_callback = Some ()\<rparr>], as_free = []\<rparr>"
proof -
  obtain t h1 where h1: "alloc_timer (timer_handler_new 1) = Some (t, h1)" "timers_ok h1"
      "spec_alloc (abs_of (timer_handler_new 1 :: unit timers)) = (t, abs_of h1)"
    using alloc_timer_ok [OF timers_ok_new(1)] by blast
  have a1: "abs_of h1 = \<lparr>as_now = 0, as_timers = [\<lparr>at_allocated = True, at_status = Stopped 0, at_callback = None\<rparr>], as_free = []\<rparr>"
    using h1(3) by (auto simp: timers_ok_new spec_timers_new_def spec_alloc_def spec_update_def)
  have i1: "0 < length (th_list h1)" "tm_allocated (timer_at h1 0)"
    using has_timerD [of h1 0] by (simp_all add: a1 has_timer_def)
  let ?h2 = "update_timer 0 (\<lambda>t. t\<lparr>tm_callback := Some ()\<rparr>) h1"
  note h2 = callback_update_ok [OF h1(2) i1, of "Some ()"]
  have i2: "0 < length (th_list ?h2)" "tm_allocated (timer_at ?h2 0)"
    using has_timerD [of ?h2 0] by (simp_all add: h2(2) a1 has_timer_def spec_update_def)
  note h3 = set_duration_ok [OF h2(1) i2, of 1]
  have i3: "0 < length (th_list (set_duration 0 1 ?h2))" "tm_allocated (timer_at (set_duration 0 1 ?h2) 0)"
    using i2 by (simp_all add: set_duration_simps)
  have t: "ticking = start_run 0 0 (set_duration 0 1 ?h2)" using h1(1) by (simp add: ticking_def timer_run_def)
  show "timers_ok ticking" unfolding t using h3(1) i3 by (intro start_run_ok) auto
  show "abs_of ticking = \<lparr>as_now = 0,
      as_timers = [\<lparr>at_allocated = True, at_status = Running 1 1, at_callback = Some ()\<rparr>], as_free = []\<rparr>"
    unfolding t using start_run_abs [OF i3(1), of 0]
    by (simp add: h3(2) h2(2) a1 spec_set_def spec_update_def spec_start_def is_running_status_def Let_def)
qed

theorem restart_in_callback_early_witness:
  "\<exists>h1 log h'. step_all (\<lambda>c i (w, h). (w + 1, timer_run 0 h)) (0 :: nat, ticking) = Some (1, h1) \<and> tm_is_running h1 0 \<and>
     timer_steps (leaving_timers log_expiry) 4294967295 ([], h1) = Some (log, h') \<and> count_list log 0 = 0"
proof -
  have len: "length (th_list ticking) = 1" using length_abs [of ticking] by (simp add: ticking_ok)
  have due: "due_timers (abs_of ticking) = {0}" by (auto simp: due_timers_def ticking_ok status_due_def)
  have cb: "tm_callback (timer_at ticking 0) = Some ()" using abs_at [of 0 ticking] len by (simp add: ticking_ok abs_timer_of_def)
  have dur: "tm_duration ticking 0 = 1" using getters_abs(2) [of 0 ticking] len by (simp add: ticking_ok)
  show ?thesis
    using restart_in_callback_early [OF ticking_ok(1) _ due cb, of "\<lambda>c i (w, h). (w + 1, timer_run 0 h)" "\<lambda>w. w + 1" 4294967295 "0 :: nat"]
    unfolding len dur by auto
qed

lemma stop_timer_other:
  "k \<noteq> i \<Longrightarrow> i < length (th_list h) \<Longrightarrow> as_timers (abs_of (stop_timer i e h)) ! k = as_timers (abs_of h) ! k"
  by (simp add: stop_timer_abs spec_stop_def spec_update_def)

lemma stopped_unlinked:
  assumes L: "wheel_lists h L" and i: "i < length (th_list h)" "tm_is_running h i"
  shows "tm_next (timer_at (stop_timer i e h) i) = None"
proof -
  obtain xs ys where split: "L (pos_of h i) = xs @ i # ys" using running_split [OF L i] .
  have ok: "links_ok h L" using L by (simp add: wheel_lists_def)
  have "tm_next (timer_at (wheel_pop (pos_of h i) i h) i) = None" using links_ok_pop [OF ok split] by blast
  then show ?thesis using i by (simp add: stop_timer_def Let_def tm_is_running_def timer_at_store pop_same)
qed

text \<open>
  C36: when the callback of an expiring timer stops the timer that comes after it in the list of the wheel and is due
  as well, the callback of the stopped timer runs all the same, and no timer behind it in the list expires, though
  its time has come.
\<close>

theorem stop_in_callback_ignored:
  assumes ok: "timers_ok h" and head: "th_wheel h ((th_cur_time h + 1) AND WHEEL_MASK) = Some i"
    and nx: "tm_next (timer_at h i) = Some j" and due: "i \<in> due_timers (abs_of h)" "j \<in> due_timers (abs_of h)"
    and cb: "tm_callback (timer_at h i) = Some ci" "tm_callback (timer_at h j) = Some cj"
    and call: "\<And>w h. call ci (of_nat i) (w, h) = (gi w, timer_stop j h)" "\<And>w h. call cj (of_nat j) (w, h) = (gj w, h)"
  shows "\<exists>h'. step_all call (w, h) = Some (gj (gi w), h') \<and> \<not> tm_is_running h' j \<and> \<not> tm_is_expired h' j \<and>
    (\<forall>k. if k \<noteq> i \<and> k \<noteq> j then as_timers (abs_of h') ! k = as_timers (abs_of h) ! k else True)"
proof -
  obtain L where L: "wheel_lists h L" and c: "counts_ok h" using ok by (auto simp: timers_ok_def)
  define now where "now = th_cur_time h + 1"
  define pos where "pos = now AND WHEEL_MASK"
  have i: "i < length (th_list h)" "tm_is_running h i" "is_due h now i"
    and j: "j < length (th_list h)" "tm_is_running h j" "is_due h now j"
    using due due_timers_iff [of _ h] unfolding now_def by auto
  have lk: "links_ok h L" using L by (simp add: wheel_lists_def)
  have "head_or None (L pos) = Some i" using head links_okD(1) [OF lk, of pos] by (simp add: pos_def now_def)
  then obtain xs where split: "L pos = i # xs" by (cases "L pos") auto
  have "head_or None xs = Some j"
    using links_okD(3) [OF lk, of pos] nx unfolding split by (simp add: timer_at_def)
  then obtain ys where xs: "xs = j # ys" by (cases xs) auto
  have ne: "i \<noteq> j" using links_okD(2) [OF lk, of pos] unfolding split xs by auto
  define h1 where "h1 = stop_timer i True h"
  define h2 where "h2 = stop_timer j False h1"
  have L1: "wheel_lists h1 (L(pos := [] @ xs))"
    unfolding h1_def by (rule wheel_lists_stop [OF L]) (simp add: split)
  have j1: "j < length (th_list h1)" "tm_is_running h1 j" "is_due h1 now j"
    using j ne unfolding h1_def by (simp_all add: stop_timer_simps tm_is_running_def)
  have nx2: "tm_next (timer_at h2 j) = None" unfolding h2_def by (rule stopped_unlinked [OF L1 j1(1,2)])
  have dj: "tm_duration h1 j \<le> MAX_TIMER_DURATION" by (simp add: tm_duration_def duration_le)
  have st2: "tm_state (timer_at h2 j) = encode_state STOPPED_FLAG (tm_duration h1 j) now"
    unfolding h2_def using stopped_state [OF j1(1,2), of False] j1(3) by simp
  have noop: "stop_timer j True h2 = h2"
    by (simp add: stop_timer_def Let_def st2 decode_encode dj)
  have cb2: "tm_callback (timer_at h2 j) = Some cj" using cb(2) by (simp add: h2_def h1_def stop_timer_simps)
  have "wheel_walk call now (Some i) (w, h) = wheel_walk call now (Some j) (gi w, h2)"
    using i(3) cb(1) call(1) [of w h1] nx
    by (subst wheel_walk.simps) (simp add: h1_def [symmetric] Let_def timer_stop_def, simp add: h1_def h2_def stop_timer_simps)
  also have "\<dots> = Some (gj (gi w), h2)"
    using cb2 call(2) nx2 noop
    by (subst wheel_walk.simps) (simp add: Let_def st2 decode_encode dj wheel_walk_None)
  finally have walk: "wheel_walk call now (Some i) (w, h) = Some (gj (gi w), h2)" .
  define h' where "h' = h2\<lparr>th_cur_time := th_cur_time h2 + 1\<rparr>"
  have "step_all call (w, h) = Some (gj (gi w), h')"
    using walk head by (simp add: step_all_def now_def pos_def h'_def)
  moreover have "timer_at h' k = timer_at h2 k" "as_timers (abs_of h') = as_timers (abs_of h2)" for k
    by (simp_all add: h'_def timer_at_def abs_of_def)
  moreover have "as_timers (abs_of h2) ! k = as_timers (abs_of h) ! k" if "k \<noteq> i" "k \<noteq> j" for k
    using that i(1) j1(1) unfolding h2_def h1_def by (simp add: stop_timer_other stop_timer_simps)
  ultimately show ?thesis
    by (intro exI [of _ h']) (simp add: tm_is_running_def tm_is_expired_def st2 decode_encode dj)
qed

text \<open>Two timers of duration one, due at the next step; the callback of the second stops the first.\<close>

definition ticking_pair :: "nat timers" where
  "ticking_pair = \<lparr>th_cur_time = 0, th_nof_running = 2, th_nof_free = 0,
     th_list = [\<lparr>tm_allocated = True, tm_state = 0x8000000100000001, tm_callback = Some 0, tm_next = None, tm_prev = Some 1\<rparr>,
       \<lparr>tm_allocated = True, tm_state = 0x8000000100000001, tm_callback = Some 1, tm_next = Some 0, tm_prev = None\<rparr>],
     th_free = [], th_wheel = (\<lambda>_. None)(1 := Some 1)\<rparr>"

lemma ticking_pair_at:
  "timer_at ticking_pair 0 = \<lparr>tm_allocated = True, tm_state = 0x8000000100000001, tm_callback = Some 0, tm_next = None, tm_prev = Some 1\<rparr>"
  "timer_at ticking_pair (Suc 0) = \<lparr>tm_allocated = True, tm_state = 0x8000000100000001, tm_callback = Some 1, tm_next = Some 0, tm_prev = None\<rparr>"
  "length (th_list ticking_pair) = 2" "k < 2 \<Longrightarrow> tm_state (timer_at ticking_pair k) = 0x8000000100000001"
  by (auto simp: ticking_pair_def timer_at_def less_2_cases_iff)

lemma ticking_pair_state: "decode_is_running 0x8000000100000001" "decode_timeout 0x8000000100000001 = 1"
  by (simp_all add: decode_is_running_def decode_timeout_def)

lemma ticking_pair_ok: "timers_ok ticking_pair"
proof -
  let ?L = "\<lambda>p :: u32. if p = 1 then [1, 0 :: nat] else []"
  have "wheel_lists ticking_pair ?L"
  proof (rule wheel_listsI)
    show "links_ok ticking_pair ?L" by (auto simp: links_ok_def ticking_pair_def)
    show "k \<in> set (?L pos) \<longleftrightarrow> k < length (th_list ticking_pair) \<and> tm_is_running ticking_pair k \<and> pos = pos_of ticking_pair k" for k pos
      using ticking_pair_at(4) [of k] ticking_pair_state by (auto simp: ticking_pair_at(3) tm_is_running_def)
  qed
  moreover have "counts_ok ticking_pair"
  proof -
    have "running_set ticking_pair = {0, 1}"
      using ticking_pair_at(4) ticking_pair_state by (auto simp: running_set_def ticking_pair_at(3) tm_is_running_def)
    moreover have "tm_allocated (timer_at ticking_pair k)" if "k < 2" for k
      using that by (cases k rule: nat.exhaust) (auto simp: ticking_pair_at less_Suc_eq)
    moreover have "th_nof_running ticking_pair = 2" "th_nof_free ticking_pair = 0" "th_free ticking_pair = []"
      by (simp_all add: ticking_pair_def)
    ultimately show ?thesis unfolding counts_ok_def ticking_pair_at(3) by simp
  qed
  ultimately show ?thesis by (auto simp: timers_ok_def)
qed

theorem stop_in_callback_ignored_witness:
  "\<exists>h'. step_all (\<lambda>c i (w, h). (i # w, if i = 1 then timer_stop 0 h else h)) ([], ticking_pair) = Some ([0, 1], h') \<and>
    \<not> tm_is_running h' 0 \<and> \<not> tm_is_expired h' 0"
proof -
  have "0 \<in> due_timers (abs_of ticking_pair)" "1 \<in> due_timers (abs_of ticking_pair)"
    unfolding due_timers_iff using ticking_pair_at ticking_pair_state by (simp_all add: tm_is_running_def) (simp_all add: ticking_pair_def)
  moreover have "th_wheel ticking_pair ((th_cur_time ticking_pair + 1) AND WHEEL_MASK) = Some 1" by (simp add: ticking_pair_def)
  ultimately show ?thesis
    using stop_in_callback_ignored [OF ticking_pair_ok, of 1 0 1 0 "\<lambda>c i (w, h). (i # w, if i = 1 then timer_stop 0 h else h)" "\<lambda>w. 1 # w" "\<lambda>w. 0 # w" "[]"]
    by (auto simp: ticking_pair_at)
qed

end
