(* ===== verification/Rlc_Um_Nr_Header.thy ===== *)
theory Rlc_Um_Nr_Header
  imports Byte_Buffer Rlc_Am_Nr_Packing
begin

text \<open>
  The header of an NR UMD PDU: \<^verbatim>\<open>rlc_um_nr_pdu_header_t\<close> of \<^verbatim>\<open>lib/include/srsran/rlc/rlc_common.h\<close> and the
  helper functions at the end of \<^verbatim>\<open>lib/src/rlc/rlc_um_nr.cc\<close>. A complete SDU has a header of one octet
  without a sequence number; a segment has a sequence number of 6 or 12 bits, and an offset when it is not
  the first.
\<close>

datatype rlc_um_nr_sn_size = um_size6bits | um_size12bits | um_nulltype

record rlc_um_nr_pdu_header =
  u_si :: rlc_nr_si_field
  u_sn_size :: rlc_um_nr_sn_size
  u_sn :: u16
  u_so :: u16

definition um_header_new :: rlc_um_nr_pdu_header where
  "um_header_new = \<lparr>u_si = full_sdu, u_sn_size = um_size6bits, u_sn = 0, u_so = 0\<rparr>"

text \<open>
  The reader gets the memory from the payload pointer on. The length argument of the source is not looked
  at. The header is filled in as far as the reader gets; it returns the number of octets, 0 for a malformed PDU.
\<close>

definition um_read_so :: "bytes \<Rightarrow> nat \<Rightarrow> rlc_um_nr_pdu_header \<Rightarrow> (nat \<times> rlc_um_nr_pdu_header) option" where
  "um_read_so mem k h =
    (if u_si h = last_segment \<or> u_si h = neither_first_nor_last_segment then
       if length mem < k + 2 then None
       else Some (k + 2, h\<lparr>u_so := push_bit 8 (ucast (mem ! k AND 0xFF)) OR ucast (mem ! (k + 1) AND 0xFF)\<rparr>)
     else Some (k, h))"

definition rlc_um_nr_read_data_pdu_header ::
    "bytes \<Rightarrow> rlc_um_nr_sn_size \<Rightarrow> rlc_um_nr_pdu_header \<Rightarrow> (nat \<times> rlc_um_nr_pdu_header) option" where
  "rlc_um_nr_read_data_pdu_header mem sn_size header =
    (let h = header\<lparr>u_sn_size := sn_size\<rparr>; b0 = mem ! 0; si = si_of (drop_bit 6 b0 AND 0x03)
     in if sn_size = um_nulltype then Some (0, h)
        else if mem = [] then None
        else if sn_size = um_size6bits then
          let h = h\<lparr>u_si := si, u_sn := ucast (b0 AND 0x3F)\<rparr>
          in if si = full_sdu \<and> u_sn h \<noteq> 0 then Some (0, h) else um_read_so mem 1 h
        else
          let h = h\<lparr>u_si := si, u_sn := push_bit 8 (ucast (b0 AND 0x0F))\<rparr>
          in if si = full_sdu \<and> u_sn h \<noteq> 0 then Some (0, h)
             else if si = first_segment \<and> drop_bit 4 b0 AND 0x03 \<noteq> 0 then Some (0, h)
             else if si \<noteq> full_sdu then
               if length mem < 2 then None
               else um_read_so mem 2 (h\<lparr>u_sn := u_sn h OR ucast (mem ! 1 AND 0xFF)\<rparr>)
             else um_read_so mem 1 h)"

definition rlc_um_nr_packed_length :: "rlc_um_nr_pdu_header \<Rightarrow> nat" where
  "rlc_um_nr_packed_length h =
    (if u_si h = full_sdu then 1
     else (if u_sn_size h = um_size6bits then 1 else 2) + (if u_so h \<noteq> 0 then 2 else 0))"

definition um_header_bytes :: "rlc_um_nr_pdu_header \<Rightarrow> bytes" where
  "um_header_bytes h =
    (let b0 = push_bit 6 (si_bits (u_si h) AND 0x03)
     in if u_si h = full_sdu then [b0]
        else (if u_sn_size h = um_size6bits then [b0 OR ucast (u_sn h AND 0x3F)]
              else [b0 OR ucast (drop_bit 8 (u_sn h) AND 0xF), ucast (u_sn h AND 0xFF)]) @
          (if u_so h \<noteq> 0 then [ucast (drop_bit 8 (u_so h)), ucast (u_so h AND 0xFF)] else []))"

definition rlc_um_nr_write_data_pdu_header :: "rlc_um_nr_pdu_header \<Rightarrow> byte_buffer \<Rightarrow> (nat \<times> byte_buffer) option" where
  "rlc_um_nr_write_data_pdu_header h pdu = map_option (Pair (rlc_um_nr_packed_length h)) (push_header pdu (um_header_bytes h))"

section \<open>Round trip\<close>

lemma length_um_header_bytes: "length (um_header_bytes h) = rlc_um_nr_packed_length h"
  by (simp add: um_header_bytes_def rlc_um_nr_packed_length_def Let_def)

lemma packed_length_pos [simp]: "0 < rlc_um_nr_packed_length h"
  by (simp add: rlc_um_nr_packed_length_def)

lemma packed_length_le: "rlc_um_nr_packed_length h \<le> 4"
  by (simp add: rlc_um_nr_packed_length_def)

text \<open>The headers of the specification.\<close>

definition um_header_ok :: "rlc_um_nr_pdu_header \<Rightarrow> bool" where
  "um_header_ok h \<longleftrightarrow> u_sn_size h \<noteq> um_nulltype \<and>
    u_sn h < (if u_si h = full_sdu then 1 else if u_sn_size h = um_size6bits then 64 else 4096) \<and>
    (u_so h \<noteq> 0 \<longleftrightarrow> u_si h = last_segment \<or> u_si h = neither_first_nor_last_segment)"

lemma um_first_octet:
  fixes s x :: u8
  assumes "take_bit 2 s = s" "take_bit n x = x" "n \<le> 6"
  shows "drop_bit 6 (push_bit 6 s OR x) AND 3 = s" "(push_bit 6 s OR x) AND 63 = x"
    "n \<le> 4 \<Longrightarrow> (push_bit 6 s OR x) AND 15 = x" "n \<le> 4 \<Longrightarrow> drop_bit 4 (push_bit 6 s OR x) AND 3 = 0"
  using assms(3) unfolding and_masks
  by - (rule bit_word_eqI, auto simp: bits simp del: bit_0 take_bit_Suc_0 dest: assms(1,2) [THEN take_bit_idE])+

lemma um_sn_6:
  assumes "(x :: u16) < 64"
  shows "ucast (ucast (x AND 63) :: u8) = x"
proof -
  have "x < 2 ^ 6" using assms by simp
  then have b: "i < 6" if "bit x i" for i using that by (rule bit_below)
  show ?thesis unfolding and_masks by (rule bit_word_eqI) (auto simp: bits simp del: bit_0 dest: b)
qed

lemma um_sn_12:
  assumes "(x :: u16) < 4096"
  shows "push_bit 8 (ucast (ucast (drop_bit 8 x AND 15) :: u8)) OR ucast (ucast (x AND 255) AND 255 :: u8) = x"
proof -
  have "x < 2 ^ 12" using assms by simp
  then have b: "i < 12" if "bit x i" for i using that by (rule bit_below)
  show ?thesis unfolding and_masks by (rule bit_word_eqI) (auto simp: bits simp del: bit_0 dest: b)
qed

lemma um_so_16: "push_bit 8 (ucast (ucast (drop_bit 8 x) AND 255 :: u8)) OR ucast (ucast (x AND 255) AND 255 :: u8) = (x :: u16)"
  unfolding and_masks by (rule bit_word_eqI) (auto simp: bits simp del: bit_0)

lemma um_small: "take_bit 6 (ucast (x AND 63 :: u16) :: u8) = ucast (x AND 63)" "take_bit 4 (ucast (y AND 15 :: u16) :: u8) = ucast (y AND 15)"
  unfolding and_masks by (rule bit_word_eqI, auto simp: bits simp del: bit_0)+

lemma um_read_write:
  assumes ok: "um_header_ok h"
  shows "rlc_um_nr_read_data_pdu_header (um_header_bytes h @ rest) (u_sn_size h) um_header_new =
    Some (rlc_um_nr_packed_length h, h)"
proof -
  have s3: "si_bits si AND 3 = si_bits si" for si unfolding and_masks by (rule si_bits_small)
  note o6 = um_first_octet [OF si_bits_small um_small(1), simplified]
  note o12 = um_first_octet [OF si_bits_small um_small(2), simplified]
  have w: "u_sn h = 0" if "u_si h = full_sdu"
    using ok that by (simp add: um_header_ok_def word_less_nat_alt unat_eq_0)
  show ?thesis
  proof (cases "u_si h = full_sdu")
    case True
    then show ?thesis
      using ok w by (cases h)
        (simp add: um_header_ok_def um_header_bytes_def rlc_um_nr_read_data_pdu_header_def um_read_so_def um_header_new_def
          rlc_um_nr_packed_length_def Let_def si_bits_def si_of_def)
  next
    case seg: False
    then have so: "u_so h = 0 \<longleftrightarrow> u_si h = first_segment"
      using ok by (cases "u_si h") (auto simp: um_header_ok_def)
    show ?thesis
    proof (cases "u_sn_size h")
      case um_size6bits
      then have sn: "u_sn h < 64" using ok seg by (simp add: um_header_ok_def)
      show ?thesis
        using seg so um_size6bits um_so_16 [of "u_so h"] um_sn_6 [OF sn]
        by (cases h, cases "u_si h") (simp_all add: um_header_bytes_def rlc_um_nr_read_data_pdu_header_def um_read_so_def um_header_new_def
            rlc_um_nr_packed_length_def Let_def s3 o6 si_of_bits)
    next
      case um_size12bits
      then have sn: "u_sn h < 4096" using ok seg by (simp add: um_header_ok_def)
      show ?thesis
        using seg so um_size12bits um_so_16 [of "u_so h"] um_sn_12 [OF sn]
        by (cases h, cases "u_si h") (simp_all add: um_header_bytes_def rlc_um_nr_read_data_pdu_header_def um_read_so_def um_header_new_def
            rlc_um_nr_packed_length_def Let_def s3 o12 si_of_bits)
    qed (use ok in \<open>simp add: um_header_ok_def\<close>)
  qed
qed

text \<open>
  : a header of the specification, written in front of a payload, is read back, and what follows it is the payload.
\<close>

theorem um_nr_header_roundtrip:
  assumes "um_header_ok h" "bb_ok sdu" "rlc_um_nr_packed_length h \<le> get_headroom sdu"
  shows "\<exists>pdu. rlc_um_nr_write_data_pdu_header h sdu = Some (rlc_um_nr_packed_length h, pdu) \<and>
    rlc_um_nr_read_data_pdu_header (bb_data pdu) (u_sn_size h) um_header_new = Some (rlc_um_nr_packed_length h, h) \<and>
    drop (rlc_um_nr_packed_length h) (bb_data pdu) = bb_data sdu"
proof -
  obtain pdu where "push_header sdu (um_header_bytes h) = Some pdu" "bb_data pdu = um_header_bytes h @ bb_data sdu"
    using bb.push_ok [OF assms(2), of "um_header_bytes h"] assms(3) by (auto simp: length_um_header_bytes)
  then show ?thesis
    using um_read_write [OF assms(1)] by (simp add: rlc_um_nr_write_data_pdu_header_def length_um_header_bytes)
qed

lemma um_nr_header_roundtrip_witness:
  "\<exists>pdu. rlc_um_nr_write_data_pdu_header \<lparr>u_si = last_segment, u_sn_size = um_size12bits, u_sn = 0x123, u_so = 0x456\<rparr>
      \<lparr>bb_buffer = [0, 0, 0, 0, 7, 8], bb_msg = 4, bb_n = 2, bb_pdcp_sn = 0\<rparr> = Some (4, pdu) \<and>
    rlc_um_nr_read_data_pdu_header (bb_data pdu) um_size12bits um_header_new =
      Some (4, \<lparr>u_si = last_segment, u_sn_size = um_size12bits, u_sn = 0x123, u_so = 0x456\<rparr>) \<and> drop 4 (bb_data pdu) = [7, 8]"
  using um_nr_header_roundtrip [of "\<lparr>u_si = last_segment, u_sn_size = um_size12bits, u_sn = 0x123, u_so = 0x456\<rparr>"
      "\<lparr>bb_buffer = [0, 0, 0, 0, 7, 8], bb_msg = 4, bb_n = 2, bb_pdcp_sn = 0\<rparr>"]
  by (simp add: um_header_ok_def rlc_um_nr_packed_length_def bb_ok_def get_headroom_def bb_data_def)

end
