(* ===== verification/Circular_Buffer.thy ===== *)
theory Circular_Buffer
  imports Prelude
begin

text \<open>
  Circular buffers and the blocking queue over them, \<^verbatim>\<open>lib/include/srsran/adt/circular_buffer.h\<close>.
  A slot of storage that holds no object is \<open>None\<close>. A failed assertion, the use of an empty slot and a pop that
  waits for ever have no result.
\<close>

section \<open>The buffer\<close>

record 'a circ =
  cb_buffer :: "'a option list"
  cb_rpos :: nat
  cb_count :: nat

definition cb_new :: "nat \<Rightarrow> 'a circ" where
  "cb_new n = \<lparr>cb_buffer = replicate n None, cb_rpos = 0, cb_count = 0\<rparr>"

definition cb_max_size :: "'a circ \<Rightarrow> nat" where
  "cb_max_size c = length (cb_buffer c)"

definition cb_full :: "'a circ \<Rightarrow> bool" where
  "cb_full c \<longleftrightarrow> cb_count c = cb_max_size c"

definition cb_empty :: "'a circ \<Rightarrow> bool" where
  "cb_empty c \<longleftrightarrow> cb_count c = 0"

definition cb_push :: "'a \<Rightarrow> 'a circ \<Rightarrow> 'a circ option" where
  "cb_push x c =
    (if cb_full c then None
     else
       let wpos = (cb_rpos c + cb_count c) mod cb_max_size c
       in Some (c\<lparr>cb_buffer := (cb_buffer c)[wpos := Some x], cb_count := cb_count c + 1\<rparr>))"

definition cb_try_push :: "'a \<Rightarrow> 'a circ \<Rightarrow> (bool \<times> 'a circ) option" where
  "cb_try_push x c = (if cb_full c then Some (False, c) else map_option (Pair True) (cb_push x c))"

definition cb_pop :: "'a circ \<Rightarrow> 'a circ option" where
  "cb_pop c =
    (if cb_empty c then None
     else Some (c\<lparr>cb_buffer := (cb_buffer c)[cb_rpos c := None], cb_rpos := (cb_rpos c + 1) mod cb_max_size c,
       cb_count := cb_count c - 1\<rparr>))"

definition cb_top :: "'a circ \<Rightarrow> 'a option" where
  "cb_top c = (if cb_empty c then None else cb_buffer c ! cb_rpos c)"

definition cb_clear :: "'a circ \<Rightarrow> 'a circ" where
  "cb_clear c = c\<lparr>cb_buffer := fold (\<lambda>i b. b[(cb_rpos c + i) mod cb_max_size c := None]) [0..<cb_count c] (cb_buffer c),
     cb_count := 0\<rparr>"

definition cb_nth :: "'a circ \<Rightarrow> nat \<Rightarrow> 'a option" where
  "cb_nth c i = (if cb_count c \<le> i then None else cb_buffer c ! ((cb_rpos c + i) mod cb_max_size c))"

text \<open>The iterators are indices into the storage.\<close>

definition cb_begin :: "'a circ \<Rightarrow> nat" where
  "cb_begin c = cb_rpos c"

definition cb_end :: "'a circ \<Rightarrow> nat" where
  "cb_end c = (cb_rpos c + cb_count c) mod cb_max_size c"

definition cb_get :: "'a circ \<Rightarrow> nat \<Rightarrow> 'a option" where
  "cb_get c idx =
    (if idx + (if cb_rpos c \<le> idx then 0 else cb_max_size c) < cb_rpos c + cb_count c then cb_buffer c ! idx else None)"

text \<open>
  \<open>apply_first\<close>: the function may change the element and a state of its caller's; the walk ends when it
  returns true.
\<close>

partial_function (option) cb_apply_from ::
    "('a \<Rightarrow> 's \<Rightarrow> bool \<times> 'a \<times> 's) \<Rightarrow> nat \<Rightarrow> 'a circ \<Rightarrow> 's \<Rightarrow> (bool \<times> 'a circ \<times> 's) option" where
  "cb_apply_from f idx c s =
    (if idx = cb_end c then Some (False, c, s)
     else
       case cb_get c idx of
         None \<Rightarrow> None
       | Some x \<Rightarrow>
           (case f x s of (stop, x', s') \<Rightarrow>
             (let c' = c\<lparr>cb_buffer := (cb_buffer c)[idx := Some x']\<rparr>
              in if stop then Some (True, c', s') else cb_apply_from f ((idx + 1) mod cb_max_size c) c' s')))"

definition cb_apply_first ::
    "('a \<Rightarrow> 's \<Rightarrow> bool \<times> 'a \<times> 's) \<Rightarrow> 'a circ \<Rightarrow> 's \<Rightarrow> (bool \<times> 'a circ \<times> 's) option" where
  "cb_apply_first f c s = cb_apply_from f (cb_begin c) c s"

text \<open>
  \<open>set_size\<close> of the buffer over a vector. What counts as its size is the vector's capacity: resizing
  keeps it when the size fits and grows it to \<open>grow old new\<close> otherwise.
\<close>

definition cb_set_size :: "(nat \<Rightarrow> nat \<Rightarrow> nat) \<Rightarrow> nat \<Rightarrow> 'a circ \<Rightarrow> 'a circ option" where
  "cb_set_size grow sz c =
    (if cb_empty c \<or> sz = cb_count c then
       (if sz \<le> cb_max_size c then Some c
        else Some (c\<lparr>cb_buffer := cb_buffer c @ replicate (grow (cb_max_size c) sz - cb_max_size c) None\<rparr>))
     else None)"

section \<open>The list it holds\<close>

definition cb_ok :: "'a circ \<Rightarrow> bool" where
  "cb_ok c \<longleftrightarrow> cb_count c \<le> cb_max_size c \<and> (if cb_max_size c = 0 then cb_rpos c = 0 else cb_rpos c < cb_max_size c) \<and>
    (\<forall>i < cb_count c. cb_buffer c ! ((cb_rpos c + i) mod cb_max_size c) \<noteq> None)"

definition cb_list :: "'a circ \<Rightarrow> 'a list" where
  "cb_list c = map (\<lambda>i. the (cb_buffer c ! ((cb_rpos c + i) mod cb_max_size c))) [0..<cb_count c]"

lemma length_cb_list [simp]: "length (cb_list c) = cb_count c"
  by (simp add: cb_list_def)

lemma cb_ok_new [simp]: "cb_ok (cb_new n)" "cb_list (cb_new n) = []" "cb_max_size (cb_new n) = n"
  by (auto simp: cb_ok_def cb_new_def cb_list_def cb_max_size_def)

lemma cb_slot_inj:
  fixes m :: nat
  assumes "i < m" "j < m" "(r + i) mod m = (r + j) mod m"
  shows "i = j"
proof -
  have *: "i = j" if "i \<le> j" "j < m" "(r + j) mod m = (r + i) mod m" for i j
  proof -
    have "m dvd (r + j) - (r + i)" using that by (simp only: mod_eq_dvd_iff_nat)
    then have "m dvd j - i" by simp
    then show ?thesis using that by (auto dest: dvd_imp_le)
  qed
  show ?thesis using * [of i j] * [of j i] assms by (cases "i \<le> j") auto
qed

lemma cb_push_ok:
  assumes ok: "cb_ok c" and room: "cb_count c < cb_max_size c"
  shows "\<exists>c'. cb_push x c = Some c' \<and> cb_ok c' \<and> cb_list c' = cb_list c @ [x] \<and> cb_max_size c' = cb_max_size c"
proof -
  let ?m = "cb_max_size c" and ?w = "(cb_rpos c + cb_count c) mod cb_max_size c"
  let ?c = "c\<lparr>cb_buffer := (cb_buffer c)[?w := Some x], cb_count := cb_count c + 1\<rparr>"
  have ne: "(cb_rpos c + i) mod ?m \<noteq> ?w" if "i < cb_count c" for i
    using cb_slot_inj [of i ?m "cb_count c" "cb_rpos c"] that room by auto
  have "0 < cb_max_size c" using room by simp
  then have w: "?w < length (cb_buffer c)" unfolding cb_max_size_def by (rule mod_less_divisor)
  have "cb_ok ?c"
    using ok room w unfolding cb_ok_def cb_max_size_def by (auto simp: nth_list_update less_Suc_eq)
  moreover have "cb_list ?c = cb_list c @ [x]"
  proof -
    have "map (\<lambda>i. the (cb_buffer ?c ! ((cb_rpos c + i) mod ?m))) [0..<cb_count c] = cb_list c"
      unfolding cb_list_def by (rule map_cong [OF refl]) (use ne in \<open>simp add: neq_commute\<close>)
    then show ?thesis using w by (simp add: cb_list_def cb_max_size_def)
  qed
  ultimately show ?thesis using room by (simp add: cb_push_def cb_full_def cb_max_size_def Let_def)
qed

lemma cb_pop_ok:
  assumes ok: "cb_ok c" and ne: "cb_list c \<noteq> []"
  shows "cb_top c = Some (hd (cb_list c))"
    "\<exists>c'. cb_pop c = Some c' \<and> cb_ok c' \<and> cb_list c' = tl (cb_list c) \<and> cb_max_size c' = cb_max_size c"
proof -
  let ?m = "cb_max_size c" and ?r = "(cb_rpos c + 1) mod cb_max_size c"
  let ?c = "c\<lparr>cb_buffer := (cb_buffer c)[cb_rpos c := None], cb_rpos := ?r, cb_count := cb_count c - 1\<rparr>"
  have pos: "0 < cb_count c" using ne by (metis length_cb_list length_greater_0_conv)
  then have m: "0 < ?m" "cb_rpos c < ?m" "cb_count c \<le> ?m" using ok by (auto simp: cb_ok_def)
  have slot: "(?r + i) mod ?m = (cb_rpos c + Suc i) mod ?m" for i by (simp add: mod_add_left_eq)
  have ne: "(cb_rpos c + Suc i) mod ?m \<noteq> cb_rpos c" if "i < cb_count c - 1" for i
  proof -
    have "Suc i < ?m" using that m(3) by simp
    then show ?thesis using cb_slot_inj [of "Suc i" ?m 0 "cb_rpos c"] m by auto
  qed
  have "cb_list c = map (\<lambda>i. the (cb_buffer c ! ((cb_rpos c + i) mod ?m))) (0 # map Suc [0..<cb_count c - 1])"
    using pos unfolding cb_list_def map_Suc_upt by (simp add: upt_conv_Cons)
  then have list: "cb_list c = the (cb_buffer c ! cb_rpos c) # map (\<lambda>i. the (cb_buffer c ! ((cb_rpos c + Suc i) mod ?m))) [0..<cb_count c - 1]"
    using m by simp
  have "cb_buffer c ! ((cb_rpos c + 0) mod ?m) \<noteq> None" using ok pos unfolding cb_ok_def by blast
  then show "cb_top c = Some (hd (cb_list c))"
    using pos m unfolding list by (auto simp: cb_top_def cb_empty_def)
  have "cb_ok ?c"
    unfolding cb_ok_def
  proof (intro conjI allI impI)
    fix i
    assume i: "i < cb_count ?c"
    then have "Suc i < cb_count c" by simp
    then have "cb_buffer c ! ((cb_rpos c + Suc i) mod ?m) \<noteq> None" using ok unfolding cb_ok_def by blast
    then show "cb_buffer ?c ! ((cb_rpos ?c + i) mod cb_max_size ?c) \<noteq> None"
      using slot [of i] ne [of i] i by (simp add: cb_max_size_def)
  qed (use m in \<open>auto simp: cb_max_size_def\<close>)
  moreover have "cb_list ?c = tl (cb_list c)"
  proof -
    have "map (\<lambda>i. the (cb_buffer ?c ! ((?r + i) mod ?m))) [0..<cb_count c - 1] =
        map (\<lambda>i. the (cb_buffer c ! ((cb_rpos c + Suc i) mod ?m))) [0..<cb_count c - 1]"
    proof (rule map_cong [OF refl])
      fix i
      assume "i \<in> set [0..<cb_count c - 1]"
      then have "(cb_rpos c + Suc i) mod ?m \<noteq> cb_rpos c" using ne [of i] by simp
      then show "the (cb_buffer ?c ! ((?r + i) mod ?m)) = the (cb_buffer c ! ((cb_rpos c + Suc i) mod ?m))"
        unfolding slot by (simp add: neq_commute)
    qed
    then show ?thesis unfolding list list.sel by (simp add: cb_list_def cb_max_size_def)
  qed
  ultimately show "\<exists>c'. cb_pop c = Some c' \<and> cb_ok c' \<and> cb_list c' = tl (cb_list c) \<and> cb_max_size c' = cb_max_size c"
    using pos by (simp add: cb_pop_def cb_empty_def cb_max_size_def)
qed


lemma cb_clear_ok:
  assumes "cb_ok c"
  shows "cb_ok (cb_clear c) \<and> cb_list (cb_clear c) = [] \<and> cb_max_size (cb_clear c) = cb_max_size c"
proof -
  have "length (fold (\<lambda>i b. b[f i := None]) is b) = length b" for f :: "nat \<Rightarrow> nat" and "is" and b :: "'a option list"
    by (induction "is" arbitrary: b) simp_all
  then show ?thesis using assms by (auto simp: cb_ok_def cb_list_def cb_clear_def cb_max_size_def split: if_splits)
qed

lemma cb_nth_ok: "cb_ok c \<Longrightarrow> i < cb_count c \<Longrightarrow> cb_nth c i = Some (cb_list c ! i)"
  by (auto simp: cb_nth_def cb_list_def cb_ok_def)

lemma cb_set_size_ok:
  assumes "cb_ok c" "cb_list c = [] \<or> sz = length (cb_list c)" "\<And>old. old < sz \<Longrightarrow> sz \<le> grow old sz"
  shows "\<exists>c'. cb_set_size grow sz c = Some c' \<and> sz \<le> cb_max_size c' \<and> (cb_list c = [] \<longrightarrow> cb_ok c' \<and> cb_list c' = [])"
proof -
  have e: "cb_list c = [] \<longleftrightarrow> cb_count c = 0" by (metis length_0_conv length_cb_list)
  have g: "cb_max_size c < sz \<Longrightarrow> sz \<le> grow (cb_max_size c) sz \<and> 0 < sz" using assms(3) [of "cb_max_size c"] by simp
  show ?thesis
    using assms(1,2) g e
    by (cases "sz = 0")
      (auto simp: cb_set_size_def cb_empty_def cb_ok_def cb_list_def cb_max_size_def split: if_splits)
qed

section \<open>Visiting the elements\<close>

text \<open>What a walk does to the list.\<close>

primrec list_apply :: "('a \<Rightarrow> 's \<Rightarrow> bool \<times> 'a \<times> 's) \<Rightarrow> 'a list \<Rightarrow> 's \<Rightarrow> bool \<times> 'a list \<times> 's" where
  "list_apply f [] s = (False, [], s)"
| "list_apply f (x # xs) s =
    (case f x s of (stop, x', s') \<Rightarrow>
      if stop then (True, x' # xs, s') else (case list_apply f xs s' of (b, ys, s'') \<Rightarrow> (b, x' # ys, s'')))"

definition cb_set_at :: "'a circ \<Rightarrow> nat \<Rightarrow> 'a \<Rightarrow> 'a circ" where
  "cb_set_at c k x = c\<lparr>cb_buffer := (cb_buffer c)[(cb_rpos c + k) mod cb_max_size c := Some x]\<rparr>"

lemma cb_set_at_ok:
  assumes ok: "cb_ok c" and k: "k < cb_count c"
  shows "cb_ok (cb_set_at c k x)" "cb_list (cb_set_at c k x) = (cb_list c)[k := x]"
    "cb_max_size (cb_set_at c k x) = cb_max_size c" "cb_count (cb_set_at c k x) = cb_count c"
    "cb_rpos (cb_set_at c k x) = cb_rpos c"
proof -
  have m: "0 < cb_max_size c" "cb_count c \<le> cb_max_size c" using ok k by (auto simp: cb_ok_def)
  have lt: "(cb_rpos c + i) mod cb_max_size c < length (cb_buffer c)" for i
    using mod_less_divisor [OF m(1)] unfolding cb_max_size_def .
  have inj: "(cb_rpos c + i) mod cb_max_size c = (cb_rpos c + k) mod cb_max_size c \<longleftrightarrow> i = k" if "i < cb_count c" for i
    using cb_slot_inj [of i "cb_max_size c" k "cb_rpos c"] that k m by auto
  show f: "cb_max_size (cb_set_at c k x) = cb_max_size c" "cb_count (cb_set_at c k x) = cb_count c"
    "cb_rpos (cb_set_at c k x) = cb_rpos c"
    by (simp_all add: cb_set_at_def cb_max_size_def)
  have at: "cb_buffer (cb_set_at c k x) ! ((cb_rpos c + i) mod cb_max_size c) =
      (if i = k then Some x else cb_buffer c ! ((cb_rpos c + i) mod cb_max_size c))" if "i < cb_count c" for i
    using inj [OF that] lt [of k] by (cases "i = k") (simp_all add: cb_set_at_def neq_commute)
  show "cb_ok (cb_set_at c k x)" using ok at unfolding cb_ok_def f by auto
  show "cb_list (cb_set_at c k x) = (cb_list c)[k := x]"
    by (rule nth_equalityI) (use at f k in \<open>auto simp: cb_list_def nth_list_update\<close>)
qed

lemma cb_get_nth:
  assumes ok: "cb_ok c" and k: "k < cb_count c"
  shows "cb_get c ((cb_rpos c + k) mod cb_max_size c) = Some (cb_list c ! k)"
proof -
  have m: "cb_rpos c < cb_max_size c" "cb_count c \<le> cb_max_size c" using ok k by (auto simp: cb_ok_def)
  have "(cb_rpos c + k) mod cb_max_size c =
      (if cb_rpos c + k < cb_max_size c then cb_rpos c + k else cb_rpos c + k - cb_max_size c)"
    using m k by (simp add: mod_if)
  then have "(cb_rpos c + k) mod cb_max_size c +
      (if cb_rpos c \<le> (cb_rpos c + k) mod cb_max_size c then 0 else cb_max_size c) < cb_rpos c + cb_count c"
    using m k by auto
  then show ?thesis using ok k by (auto simp: cb_get_def cb_list_def cb_ok_def)
qed

lemma cb_apply_from_ok:
  assumes "cb_ok c" "cb_count c < cb_max_size c" "k \<le> cb_count c"
  shows "\<exists>c'. cb_apply_from f ((cb_rpos c + k) mod cb_max_size c) c s =
      Some (fst (list_apply f (drop k (cb_list c)) s), c', snd (snd (list_apply f (drop k (cb_list c)) s))) \<and>
    cb_ok c' \<and> cb_max_size c' = cb_max_size c \<and>
    cb_list c' = take k (cb_list c) @ fst (snd (list_apply f (drop k (cb_list c)) s))"
  using assms
proof (induction "cb_count c - k" arbitrary: k c s)
  case 0
  then have "k = cb_count c" by simp
  then show ?case using 0 by (auto simp: cb_apply_from.simps cb_end_def)
next
  case (Suc n)
  then have k: "k < cb_count c" by simp
  have drop: "drop k (cb_list c) = cb_list c ! k # drop (Suc k) (cb_list c)" using k by (simp add: Cons_nth_drop_Suc)
  have ne: "(cb_rpos c + k) mod cb_max_size c \<noteq> cb_end c"
    using cb_slot_inj [of k "cb_max_size c" "cb_count c" "cb_rpos c"] k Suc.prems(2) by (auto simp: cb_end_def)
  obtain stop x s' where f: "f (cb_list c ! k) s = (stop, x, s')" by (metis prod_cases3)
  note set = cb_set_at_ok [OF Suc.prems(1) k, of x]
  have take: "take (Suc k) ((cb_list c)[k := x]) = take k (cb_list c) @ [x]"
    using k by (simp add: take_Suc_conv_app_nth)
  have rest: "drop (Suc k) ((cb_list c)[k := x]) = drop (Suc k) (cb_list c)" using k by simp
  show ?case
  proof (cases stop)
    case True
    have "(cb_list c)[k := x] = take k (cb_list c) @ x # drop (Suc k) (cb_list c)" using k by (simp add: upd_conv_take_nth_drop)
    then show ?thesis
      using True f ne cb_get_nth [OF Suc.prems(1) k] set unfolding drop
      by (subst cb_apply_from.simps) (simp add: cb_set_at_def [symmetric])
  next
    case False
    have next_idx: "((cb_rpos c + k) mod cb_max_size c + 1) mod cb_max_size c = (cb_rpos c + Suc k) mod cb_max_size c"
      by (simp add: mod_Suc_eq)
    have "\<exists>c'. cb_apply_from f ((cb_rpos (cb_set_at c k x) + Suc k) mod cb_max_size (cb_set_at c k x)) (cb_set_at c k x) s' =
        Some (fst (list_apply f (drop (Suc k) (cb_list (cb_set_at c k x))) s'), c',
          snd (snd (list_apply f (drop (Suc k) (cb_list (cb_set_at c k x))) s'))) \<and>
      cb_ok c' \<and> cb_max_size c' = cb_max_size (cb_set_at c k x) \<and>
      cb_list c' = take (Suc k) (cb_list (cb_set_at c k x)) @ fst (snd (list_apply f (drop (Suc k) (cb_list (cb_set_at c k x))) s'))"
      by (rule Suc.hyps(1)) (use Suc.hyps(2) Suc.prems k set in auto)
    then obtain c' where c': "cb_apply_from f ((cb_rpos c + Suc k) mod cb_max_size c) (cb_set_at c k x) s' =
        Some (fst (list_apply f (drop (Suc k) (cb_list c)) s'), c', snd (snd (list_apply f (drop (Suc k) (cb_list c)) s')))"
      "cb_ok c'" "cb_max_size c' = cb_max_size c"
      "cb_list c' = take k (cb_list c) @ x # fst (snd (list_apply f (drop (Suc k) (cb_list c)) s'))"
      unfolding set take rest by auto
    show ?thesis
      using False f ne cb_get_nth [OF Suc.prems(1) k] c' unfolding drop
      by (subst cb_apply_from.simps) (simp add: cb_set_at_def [symmetric] next_idx mod_Suc_eq split: prod.split)
  qed
qed

text \<open>On a full buffer the first and the last iterator are equal: nothing is visited.\<close>

lemma cb_apply_first_full: "cb_ok c \<Longrightarrow> cb_full c \<Longrightarrow> cb_max_size c \<noteq> 0 \<Longrightarrow> cb_apply_first f c s = Some (False, c, s)"
  by (simp add: cb_apply_first_def cb_apply_from.simps cb_begin_def cb_end_def cb_ok_def cb_full_def)

lemma cb_apply_first_ok:
  assumes "cb_ok c" "\<not> cb_full c"
  shows "\<exists>c'. cb_apply_first f c s = Some (fst (list_apply f (cb_list c) s), c', snd (snd (list_apply f (cb_list c) s))) \<and>
    cb_ok c' \<and> cb_max_size c' = cb_max_size c \<and> cb_list c' = fst (snd (list_apply f (cb_list c) s))"
  using cb_apply_from_ok [of c 0 f s] assms by (simp add: cb_apply_first_def cb_begin_def cb_full_def cb_ok_def)

section \<open>The contract\<close>

text \<open>A bounded queue: what its clients rely on.\<close>

locale bounded_queue =
  fixes ok :: "'q \<Rightarrow> bool"
    and items :: "'q \<Rightarrow> 'a list"
    and capacity :: "'q \<Rightarrow> nat"
    and offer :: "'a \<Rightarrow> 'q \<Rightarrow> (bool \<times> 'q) option"
    and front :: "'q \<Rightarrow> 'a option"
    and remove :: "'q \<Rightarrow> 'q option"
  assumes bound: "ok q \<Longrightarrow> length (items q) \<le> capacity q"
    and offer_ok: "ok q \<Longrightarrow> length (items q) < capacity q \<Longrightarrow>
      \<exists>q'. offer x q = Some (True, q') \<and> ok q' \<and> items q' = items q @ [x] \<and> capacity q' = capacity q"
    and offer_full: "ok q \<Longrightarrow> length (items q) = capacity q \<Longrightarrow> offer x q = Some (False, q)"
    and front_ok: "ok q \<Longrightarrow> items q \<noteq> [] \<Longrightarrow> front q = Some (hd (items q))"
    and remove_ok: "ok q \<Longrightarrow> items q \<noteq> [] \<Longrightarrow>
      \<exists>q'. remove q = Some q' \<and> ok q' \<and> items q' = tl (items q) \<and> capacity q' = capacity q"
begin

text \<open>Offering never fails, and keeps what is there.\<close>

lemma offer_total:
  assumes "ok q"
  shows "\<exists>b q'. offer x q = Some (b, q') \<and> ok q' \<and> capacity q' = capacity q \<and>
    items q' = items q @ (if b then [x] else []) \<and> (b \<longleftrightarrow> length (items q) < capacity q)"
proof (cases "length (items q) < capacity q")
  case True
  then show ?thesis using offer_ok [OF assms True, of x] by auto
next
  case False
  then have "length (items q) = capacity q" using bound [OF assms] by simp
  then show ?thesis using offer_full [OF assms, of x] assms by auto
qed

end

interpretation cq: bounded_queue cb_ok cb_list cb_max_size cb_try_push cb_top cb_pop
proof
  fix q :: "'a circ" and x
  assume ok: "cb_ok q"
  then show "length (cb_list q) \<le> cb_max_size q" by (simp add: cb_ok_def)
  show "length (cb_list q) < cb_max_size q \<Longrightarrow>
      \<exists>q'. cb_try_push x q = Some (True, q') \<and> cb_ok q' \<and> cb_list q' = cb_list q @ [x] \<and> cb_max_size q' = cb_max_size q"
    using cb_push_ok [OF ok, of x] by (auto simp: cb_try_push_def cb_full_def)
  show "length (cb_list q) = cb_max_size q \<Longrightarrow> cb_try_push x q = Some (False, q)"
    by (simp add: cb_try_push_def cb_full_def)
qed (rule cb_pop_ok; assumption)+

end
