(* ===== verification/Byte_Buffer_Queue.thy ===== *)
theory Byte_Buffer_Queue
  imports Byte_Buffer Circular_Buffer
begin

text \<open>
  The queue of byte buffers between layers, \<^verbatim>\<open>lib/include/srsran/upper/byte_buffer_queue.h\<close>: a blocking queue of
  buffers that may be null, with counters of what is unread that the callbacks of the queue keep.
\<close>

type_synonym unique_byte_buffer = "byte_buffer option"

definition SRSRAN_MAX_BUFFER_SIZE_BYTES :: nat where
  "SRSRAN_MAX_BUFFER_SIZE_BYTES = 97896 div 8 + SRSRAN_BUFFER_HEADER_OFFSET"

record bbq =
  bq_queue :: "unique_byte_buffer circ"
  bq_unread_bytes :: u32
  bq_n_sdus :: u32

definition bbq_new :: "nat \<Rightarrow> bbq" where
  "bbq_new capacity = \<lparr>bq_queue = cb_new capacity, bq_unread_bytes = 0, bq_n_sdus = 0\<rparr>"

definition push_callback :: "byte_buffer \<Rightarrow> u32 \<times> u32 \<Rightarrow> u32 \<times> u32" where
  "push_callback msg s = (fst s + of_nat (bb_n msg), snd s + 1)"

definition pop_callback :: "unique_byte_buffer \<Rightarrow> u32 \<times> u32 \<Rightarrow> u32 \<times> u32" where
  "pop_callback msg s =
    (case msg of
       None \<Rightarrow> s
     | Some b \<Rightarrow> (fst s - min (of_nat (bb_n b)) (fst s), of_int (max 0 (sint (snd s) - 1))))"

text \<open>Whether the message was taken. The callback reads the message: a null message has no result.\<close>

definition bbq_try_write :: "unique_byte_buffer \<Rightarrow> bbq \<Rightarrow> (bool \<times> bbq) option" where
  "bbq_try_write msg q =
    (if cb_full (bq_queue q) then Some (False, q)
     else
       case msg of
         None \<Rightarrow> None
       | Some b \<Rightarrow>
           (let (u, n) = push_callback b (bq_unread_bytes q, bq_n_sdus q)
            in map_option (\<lambda>c. (True, \<lparr>bq_queue = c, bq_unread_bytes = u, bq_n_sdus = n\<rparr>)) (cb_push msg (bq_queue q))))"

text \<open>Blocking reads and writes; one that has to wait has no result.\<close>

definition bbq_write :: "unique_byte_buffer \<Rightarrow> bbq \<Rightarrow> bbq option" where
  "bbq_write msg q =
    (case bbq_try_write msg q of Some (True, q') \<Rightarrow> Some q' | _ \<Rightarrow> None)"

definition bbq_read :: "bbq \<Rightarrow> (unique_byte_buffer \<times> bbq) option" where
  "bbq_read q =
    (case cb_top (bq_queue q) of
       None \<Rightarrow> None
     | Some msg \<Rightarrow>
         (let (u, n) = pop_callback msg (bq_unread_bytes q, bq_n_sdus q)
          in map_option (\<lambda>c. (msg, \<lparr>bq_queue = c, bq_unread_bytes = u, bq_n_sdus = n\<rparr>)) (cb_pop (bq_queue q))))"

definition bbq_try_read :: "bbq \<Rightarrow> (unique_byte_buffer option \<times> bbq) option" where
  "bbq_try_read q = (if cb_empty (bq_queue q) then Some (None, q) else map_option (\<lambda>(m, q). (Some m, q)) (bbq_read q))"

definition bbq_resize :: "(nat \<Rightarrow> nat \<Rightarrow> nat) \<Rightarrow> u32 \<Rightarrow> bbq \<Rightarrow> bbq option" where
  "bbq_resize grow capacity q = map_option (\<lambda>c. q\<lparr>bq_queue := c\<rparr>) (cb_set_size grow (unat capacity) (bq_queue q))"

definition bbq_size :: "bbq \<Rightarrow> u32" where
  "bbq_size q = of_nat (cb_count (bq_queue q))"

definition bbq_size_tail_bytes :: "bbq \<Rightarrow> u32" where
  "bbq_size_tail_bytes q = (case cb_top (bq_queue q) of Some (Some b) \<Rightarrow> of_nat (bb_n b) | _ \<Rightarrow> 0)"

definition bbq_reset :: "bbq \<Rightarrow> bbq" where
  "bbq_reset q = q\<lparr>bq_unread_bytes := 0\<rparr>"

definition bbq_is_empty :: "bbq \<Rightarrow> bool" where
  "bbq_is_empty q = cb_empty (bq_queue q)"

definition bbq_is_full :: "bbq \<Rightarrow> bool" where
  "bbq_is_full q = cb_full (bq_queue q)"

text \<open>The function may change a message and the counters.\<close>

definition bbq_apply_first ::
    "(unique_byte_buffer \<Rightarrow> u32 \<times> u32 \<Rightarrow> bool \<times> unique_byte_buffer \<times> (u32 \<times> u32)) \<Rightarrow> bbq \<Rightarrow> (bool \<times> bbq) option" where
  "bbq_apply_first f q =
    map_option (\<lambda>(b, c, s). (b, \<lparr>bq_queue = c, bq_unread_bytes = fst s, bq_n_sdus = snd s\<rparr>))
      (cb_apply_first f (bq_queue q) (bq_unread_bytes q, bq_n_sdus q))"

section \<open>The counters\<close>

definition bbq_items :: "bbq \<Rightarrow> unique_byte_buffer list" where
  "bbq_items q = cb_list (bq_queue q)"

definition bbq_capacity :: "bbq \<Rightarrow> nat" where
  "bbq_capacity q = cb_max_size (bq_queue q)"

definition sdu_octets :: "unique_byte_buffer \<Rightarrow> nat" where
  "sdu_octets m = (case m of None \<Rightarrow> 0 | Some b \<Rightarrow> bb_n b)"

definition sdu_count :: "unique_byte_buffer \<Rightarrow> nat" where
  "sdu_count m = (case m of None \<Rightarrow> 0 | Some _ \<Rightarrow> 1)"

lemma item_simps [simp]: "sdu_octets None = 0" "sdu_octets (Some b) = bb_n b" "sdu_count None = 0" "sdu_count (Some b) = 1"
  by (simp_all add: sdu_octets_def sdu_count_def)

text \<open>No message is longer than a buffer, and the capacity is such that the counters cannot overflow.\<close>

definition bbq_ok :: "bbq \<Rightarrow> bool" where
  "bbq_ok q \<longleftrightarrow> cb_ok (bq_queue q) \<and> bbq_capacity q \<le> 2 ^ 17 \<and>
    (\<forall>m \<in> set (bbq_items q). sdu_octets m \<le> SRSRAN_MAX_BUFFER_SIZE_BYTES) \<and>
    bq_unread_bytes q = of_nat (sum_list (map sdu_octets (bbq_items q))) \<and>
    bq_n_sdus q = of_nat (sum_list (map sdu_count (bbq_items q)))"

lemma sdu_count_le: "sum_list (map sdu_count ms) \<le> length ms"
  by (induction ms) (auto simp: sdu_count_def split: option.split)

lemma bytes_le: "\<forall>m \<in> set ms. sdu_octets m \<le> k \<Longrightarrow> sum_list (map sdu_octets ms) \<le> k * length ms"
  by (induction ms) auto

lemma counter_bounds:
  assumes "length ms \<le> 2 ^ 17" "\<forall>m \<in> set ms. sdu_octets m \<le> SRSRAN_MAX_BUFFER_SIZE_BYTES"
  shows "sum_list (map sdu_octets ms) < 2 ^ 32" "sum_list (map sdu_count ms) < 2 ^ 31"
proof -
  have "sum_list (map sdu_octets ms) \<le> SRSRAN_MAX_BUFFER_SIZE_BYTES * length ms" by (rule bytes_le [OF assms(2)])
  also have "\<dots> \<le> SRSRAN_MAX_BUFFER_SIZE_BYTES * 2 ^ 17" using assms(1) by simp
  finally show "sum_list (map sdu_octets ms) < 2 ^ 32"
    by (simp add: SRSRAN_MAX_BUFFER_SIZE_BYTES_def SRSRAN_BUFFER_HEADER_OFFSET_def)
  show "sum_list (map sdu_count ms) < 2 ^ 31" using sdu_count_le [of ms] assms(1) by simp
qed

lemma pop_callback_sum:
  assumes "sdu_octets m \<le> b" "sdu_count m \<le> n" "b < 2 ^ 32" "n < 2 ^ 31"
  shows "pop_callback m (of_nat b, of_nat n) = (of_nat (b - sdu_octets m), of_nat (n - sdu_count m))"
proof (cases m)
  case (Some x)
  have u: "unat (of_nat b :: u32) = b" "unat (of_nat n :: u32) = n" "unat (of_nat (bb_n x) :: u32) = bb_n x"
    using assms Some by (auto intro: unat_of_nat_eq [where 'a = 32, simplified])
  have "of_nat (bb_n x) \<le> (of_nat b :: u32)" using assms(1) Some by (simp add: word_le_nat_alt u)
  moreover have "sint (of_nat n :: u32) = int n"
    using assms(4) u(2) by (subst sint_small) (simp_all add: uint_nat)
  moreover have "max 0 (int n - 1) = int (n - 1)" using assms(2) Some by auto
  ultimately show ?thesis
    using assms(1) Some by (simp add: pop_callback_def min_def of_nat_diff del: of_nat_diff_if)
qed (simp add: pop_callback_def)

lemma bbq_is_empty_iff: "bbq_is_empty q \<longleftrightarrow> bbq_items q = []"
  using length_cb_list [of "bq_queue q"] by (auto simp: bbq_is_empty_def bbq_items_def cb_empty_def simp del: length_cb_list)

lemma bbq_ok_new: "n \<le> 2 ^ 17 \<Longrightarrow> bbq_ok (bbq_new n) \<and> bbq_items (bbq_new n) = []"
  by (simp add: bbq_ok_def bbq_new_def bbq_items_def bbq_capacity_def)

lemma bbq_try_write_ok:
  assumes ok: "bbq_ok q" and b: "bb_n b \<le> SRSRAN_MAX_BUFFER_SIZE_BYTES"
  shows "\<exists>w q'. bbq_try_write (Some b) q = Some (w, q') \<and> bbq_ok q' \<and> bbq_capacity q' = bbq_capacity q \<and>
    bbq_items q' = bbq_items q @ (if w then [Some b] else []) \<and> (w \<longleftrightarrow> length (bbq_items q) < bbq_capacity q)"
proof (cases "length (bbq_items q) < bbq_capacity q")
  case True
  have c: "cb_ok (bq_queue q)" "cb_count (bq_queue q) < cb_max_size (bq_queue q)"
    using ok True by (simp_all add: bbq_ok_def bbq_items_def bbq_capacity_def)
  obtain c' where "cb_push (Some b) (bq_queue q) = Some c'" "cb_ok c'" "cb_list c' = cb_list (bq_queue q) @ [Some b]"
    "cb_max_size c' = cb_max_size (bq_queue q)"
    using cb_push_ok [OF c] by blast
  then show ?thesis
    using True ok b c(2)
    by (intro exI [of _ True]
      exI [of _ "\<lparr>bq_queue = c', bq_unread_bytes = bq_unread_bytes q + of_nat (bb_n b), bq_n_sdus = bq_n_sdus q + 1\<rparr>"])
      (simp add: bbq_try_write_def cb_full_def push_callback_def bbq_ok_def bbq_items_def bbq_capacity_def add.commute)
next
  case False
  then have "cb_full (bq_queue q)"
    using ok cq.bound [of "bq_queue q"] by (simp add: bbq_ok_def bbq_items_def bbq_capacity_def cb_full_def)
  then show ?thesis using False ok by (intro exI [of _ False] exI [of _ q]) (simp add: bbq_try_write_def)
qed

lemma bbq_read_ok:
  assumes ok: "bbq_ok q" and ne: "bbq_items q \<noteq> []"
  shows "\<exists>q'. bbq_read q = Some (hd (bbq_items q), q') \<and> bbq_ok q' \<and> bbq_items q' = tl (bbq_items q) \<and>
    bbq_capacity q' = bbq_capacity q"
proof -
  have c: "cb_ok (bq_queue q)" "cb_list (bq_queue q) \<noteq> []" using ok ne by (simp_all add: bbq_ok_def bbq_items_def)
  obtain c' where pop: "cb_pop (bq_queue q) = Some c'" "cb_ok c'" "cb_list c' = tl (bbq_items q)"
      "cb_max_size c' = bbq_capacity q"
    using cb_pop_ok(2) [OF c] by (auto simp: bbq_items_def bbq_capacity_def)
  obtain m ms where items: "bbq_items q = m # ms" using ne by (cases "bbq_items q") auto
  have top: "cb_top (bq_queue q) = Some m" using cb_pop_ok(1) [OF c] items by (simp add: bbq_items_def)
  have len: "length (m # ms) \<le> 2 ^ 17"
    using ok cq.bound [OF c(1)] unfolding items [symmetric] by (simp add: bbq_ok_def bbq_items_def bbq_capacity_def)
  have all: "\<forall>m \<in> set (m # ms). sdu_octets m \<le> SRSRAN_MAX_BUFFER_SIZE_BYTES"
    using ok unfolding items [symmetric] by (simp add: bbq_ok_def)
  have cb: "pop_callback m (bq_unread_bytes q, bq_n_sdus q) = (of_nat (sum_list (map sdu_octets ms)), of_nat (sum_list (map sdu_count ms)))"
    using ok pop_callback_sum [of m "sum_list (map sdu_octets (m # ms))" "sum_list (map sdu_count (m # ms))"]
      counter_bounds [OF len all] by (simp add: bbq_ok_def items)
  then show ?thesis
    using pop top ok items by (auto simp: bbq_read_def bbq_ok_def bbq_items_def bbq_capacity_def)
qed

end
