(* ===== verification/Rlc_Um_Nr_Tx.thy ===== *)
theory Rlc_Um_Nr_Tx
  imports Rlc_Um_Nr_Header Byte_Buffer_Queue
begin

text \<open>
  The transmitter of the NR UM RLC entity: \<open>rlc_um_nr_tx\<close> of \<^verbatim>\<open>lib/src/rlc/rlc_um_nr.cc\<close> over \<open>rlc_um_base_tx\<close> of
  \<^verbatim>\<open>lib/src/rlc/rlc_um_base.cc\<close>. An access outside a buffer, a failed assertion and a read that waits for ever
  have no result.
\<close>

section \<open>Model\<close>

record um_tx =
  t_queue :: bbq
  t_sdu :: unique_byte_buffer
  t_TX_Next :: u32
  t_next_so :: u32
  t_mod :: u32
  t_UM_Window_Size :: u32
  t_head_len_first :: u32
  t_head_len_segment :: u32
  t_sn_size :: rlc_um_nr_sn_size
  t_is_mrb :: bool
  t_bsr_callback :: bool

definition um_tx_new :: um_tx where
  "um_tx_new = \<lparr>t_queue = bbq_new 128, t_sdu = None, t_TX_Next = 0, t_next_so = 0, t_mod = 0, t_UM_Window_Size = 0,
     t_head_len_first = 0, t_head_len_segment = 0, t_sn_size = um_size6bits, t_is_mrb = False, t_bsr_callback = False\<rparr>"

definition um_mod :: "rlc_um_nr_sn_size \<Rightarrow> u32" where
  "um_mod s = (if s = um_size6bits then 64 else 4096)"

definition um_window_size :: "rlc_um_nr_sn_size \<Rightarrow> u32" where
  "um_window_size s = (if s = um_size6bits then 32 else 2048)"

text \<open>The header whose length is measured keeps the sequence number size it is created with.\<close>

definition um_tx_configure :: "(nat \<Rightarrow> nat \<Rightarrow> nat) \<Rightarrow> rlc_um_nr_sn_size \<Rightarrow> bool \<Rightarrow> u32 \<Rightarrow> um_tx \<Rightarrow> um_tx option" where
  "um_tx_configure grow sn_size is_mrb tx_queue_length tx =
    (let header = um_header_new\<lparr>u_si := first_segment, u_so := 0\<rparr>
     in map_option (\<lambda>q. tx\<lparr>t_queue := q, t_sn_size := sn_size, t_is_mrb := is_mrb, t_mod := um_mod sn_size,
            t_UM_Window_Size := um_window_size sn_size, t_head_len_first := of_nat (rlc_um_nr_packed_length header),
            t_head_len_segment := of_nat (rlc_um_nr_packed_length (header\<lparr>u_so := 1\<rparr>))\<rparr>)
          (bbq_resize grow tx_queue_length (t_queue tx)))"

definition um_tx_set_bsr_callback :: "um_tx \<Rightarrow> um_tx" where
  "um_tx_set_bsr_callback tx = tx\<lparr>t_bsr_callback := True\<rparr>"

definition um_tx_has_data :: "um_tx \<Rightarrow> bool" where
  "um_tx_has_data tx \<longleftrightarrow> t_sdu tx \<noteq> None \<or> \<not> bbq_is_empty (t_queue tx)"

definition um_tx_sdu_queue_is_full :: "um_tx \<Rightarrow> bool" where
  "um_tx_sdu_queue_is_full tx = bbq_is_full (t_queue tx)"

text \<open>
  The sum of the header extensions is computed in \<open>double\<close>, exactly, and cut off; a value that does not fit
  32 bits has no result.
\<close>

definition um_tx_get_buffer_state :: "um_tx \<Rightarrow> u32 option" where
  "um_tx_get_buffer_state tx =
    (let (n_sdus, n_bytes) = (case t_sdu tx of
         None \<Rightarrow> (bq_n_sdus (t_queue tx), bq_unread_bytes (t_queue tx))
       | Some s \<Rightarrow> (bq_n_sdus (t_queue tx) + 1, bq_unread_bytes (t_queue tx) + of_nat (bb_n s)));
       sum = (if 1 < n_sdus then unat n_bytes + (3 * unat (n_sdus - 1) + 1) div 2 else unat n_bytes)
     in if 2 ^ 32 \<le> sum then None
        else Some (let n = of_nat sum in if 0 < n then n + (if t_is_mrb tx then 2 else 3) else n))"

text \<open>What the callback is told.\<close>

definition um_tx_bsr_report :: "u32 \<Rightarrow> um_tx \<Rightarrow> (u32 \<times> u32 \<times> u32) option" where
  "um_tx_bsr_report lcid tx =
    (if t_bsr_callback tx then map_option (\<lambda>n. (lcid, n, 0)) (um_tx_get_buffer_state tx) else None)"

definition um_tx_try_write_sdu :: "unique_byte_buffer \<Rightarrow> um_tx \<Rightarrow> (bool \<times> um_tx) option" where
  "um_tx_try_write_sdu sdu tx =
    (case sdu of
       None \<Rightarrow> Some (False, tx)
     | Some _ \<Rightarrow> map_option (\<lambda>(ok, q). (ok, tx\<lparr>t_queue := q\<rparr>)) (bbq_try_write sdu (t_queue tx)))"

definition um_tx_write_sdu :: "unique_byte_buffer \<Rightarrow> um_tx \<Rightarrow> um_tx option" where
  "um_tx_write_sdu sdu tx =
    (case sdu of None \<Rightarrow> Some tx | Some _ \<Rightarrow> map_option (\<lambda>q. tx\<lparr>t_queue := q\<rparr>) (bbq_write sdu (t_queue tx)))"

text \<open>The function given to \<open>apply_first\<close>: it frees the SDU and lets the walk go on.\<close>

definition um_discard_step :: "u32 \<Rightarrow> unique_byte_buffer \<Rightarrow> u32 \<times> u32 \<Rightarrow> bool \<times> unique_byte_buffer \<times> (u32 \<times> u32)" where
  "um_discard_step discard_sn sdu s =
    (case sdu of
       None \<Rightarrow> (False, sdu, s)
     | Some b \<Rightarrow> if bb_pdcp_sn b = discard_sn then (False, None, pop_callback sdu s) else (False, sdu, s))"

text \<open>Also whether the log says that the SDU was discarded.\<close>

definition um_tx_discard_sdu :: "u32 \<Rightarrow> um_tx \<Rightarrow> (bool \<times> um_tx) option" where
  "um_tx_discard_sdu discard_sn tx =
    map_option (\<lambda>(discarded, q). (discarded, tx\<lparr>t_queue := q\<rparr>)) (bbq_apply_first (um_discard_step discard_sn) (t_queue tx))"

partial_function (option) um_drain :: "bbq \<Rightarrow> bbq option" where
  "um_drain q = (if bbq_is_empty q then Some q else Option.bind (bbq_read q) (\<lambda>(_, q). um_drain q))"

definition um_tx_empty_queue :: "um_tx \<Rightarrow> um_tx option" where
  "um_tx_empty_queue tx = map_option (\<lambda>q. tx\<lparr>t_queue := q, t_sdu := None\<rparr>) (um_drain (t_queue tx))"

definition um_tx_reset :: "um_tx \<Rightarrow> um_tx" where
  "um_tx_reset tx = tx\<lparr>t_TX_Next := 0, t_next_so := 0\<rparr>"

definition um_tx_stop :: "um_tx \<Rightarrow> um_tx option" where
  "um_tx_stop tx = map_option um_tx_reset (um_tx_empty_queue tx)"

definition um_tx_reestablish :: "um_tx \<Rightarrow> um_tx option" where
  "um_tx_reestablish tx = um_tx_stop tx"

text \<open>The next SDU that has not been discarded.\<close>

partial_function (option) um_read_sdu :: "bbq \<Rightarrow> (unique_byte_buffer \<times> bbq) option" where
  "um_read_sdu q =
    Option.bind (bbq_read q) (\<lambda>(m, q). if m = None \<and> bbq_size q \<noteq> 0 then um_read_sdu q else Some (m, q))"

text \<open>The segmentation information and the SDU it is about; no SDU when all were discarded.\<close>

definition um_select :: "u32 \<Rightarrow> um_tx \<Rightarrow> (rlc_nr_si_field \<times> byte_buffer option \<times> um_tx) option" where
  "um_select pdu_space tx =
    (case t_sdu tx of
       None \<Rightarrow>
         map_option (\<lambda>(m, q).
           let tx = tx\<lparr>t_queue := q, t_sdu := m\<rparr>
           in case m of
                None \<Rightarrow> (full_sdu, None, tx)
              | Some s \<Rightarrow> (if of_nat (bb_n s) \<le> pdu_space - 1 then full_sdu else first_segment, m, tx\<lparr>t_next_so := 0\<rparr>))
           (um_read_sdu (t_queue tx))
     | Some s \<Rightarrow>
         Some (if of_nat (bb_n s) \<le> pdu_space - t_head_len_segment tx then last_segment else neither_first_nor_last_segment,
           t_sdu tx, tx))"

text \<open>The payload is the memory that the MAC lends; the octets returned are its first ones.\<close>

definition um_fill_pdu ::
    "rlc_um_nr_pdu_header \<Rightarrow> u32 \<Rightarrow> byte_buffer \<Rightarrow> byte_buffer \<Rightarrow> bytes \<Rightarrow> um_tx \<Rightarrow> (nat \<times> bytes \<times> um_tx) option" where
  "um_fill_pdu header to_move s pdu payload tx =
    (if length (bb_buffer s) < bb_msg s + unat to_move then None
     else
       Option.bind (append_bytes pdu (take (unat to_move) (drop (bb_msg s) (bb_buffer s)))) (\<lambda>pdu.
         let s = strip (unat to_move) s;
             tx = tx\<lparr>t_sdu := (if bb_n s = 0 then None else Some s), t_next_so := t_next_so tx + to_move\<rparr>;
             tx = (if u_si header = last_segment then tx\<lparr>t_TX_Next := (t_TX_Next tx + 1) mod t_mod tx, t_next_so := 0\<rparr> else tx)
         in Option.bind (rlc_um_nr_write_data_pdu_header header pdu) (\<lambda>(_, pdu).
              map_option (\<lambda>payload. (bb_n pdu, payload, tx)) (mem_write payload 0 (bb_data pdu)))))"

definition um_tx_build_pdu :: "byte_buffer \<Rightarrow> bytes \<Rightarrow> u32 \<Rightarrow> um_tx \<Rightarrow> (nat \<times> bytes \<times> um_tx) option" where
  "um_tx_build_pdu pdu payload nof_bytes tx =
    (if nof_bytes < 2 then Some (0, payload, tx)
     else
       let pdu_space = min nof_bytes (get_tailroom pdu); sn = ucast (t_TX_Next tx)
       in Option.bind (um_select pdu_space tx) (\<lambda>(si, m, tx).
            case m of
              None \<Rightarrow> Some (0, payload, tx)
            | Some s \<Rightarrow>
                let header = \<lparr>u_si = si, u_sn_size = t_sn_size tx, u_sn = sn, u_so = ucast (t_next_so tx)\<rparr>;
                    head_len = of_nat (rlc_um_nr_packed_length header)
                in if pdu_space \<le> head_len + 1 then Some (0, payload, tx)
                   else
                     let space = pdu_space - head_len;
                         to_move = (if of_nat (bb_n s) \<le> space then of_nat (bb_n s) else space)
                     in um_fill_pdu header to_move s pdu payload tx))"

text \<open>The buffer comes from the pool, which may have none left.\<close>

definition um_tx_build_data_pdu :: "byte_buffer option \<Rightarrow> bytes \<Rightarrow> u32 \<Rightarrow> um_tx \<Rightarrow> (nat \<times> bytes \<times> um_tx) option" where
  "um_tx_build_data_pdu pool payload nof_bytes tx =
    (if \<not> um_tx_has_data tx then Some (0, payload, tx)
     else
       case pool of
         None \<Rightarrow> Some (0, payload, tx)
       | Some pdu \<Rightarrow> if bb_n pdu \<noteq> 0 then Some (0, payload, tx) else um_tx_build_pdu pdu payload nof_bytes tx)"

end
