(* ===== verification/Rlc_Um_Nr_Rx.thy ===== *)
theory Rlc_Um_Nr_Rx
  imports Rlc_Um_Nr_Header Std_Map
begin

text \<open>
  The receiver of the NR UM RLC entity: \<open>rlc_um_nr_rx\<close> of \<^verbatim>\<open>lib/src/rlc/rlc_um_nr.cc\<close>. The reassembly timer is
  its state of running; its expiry is an operation. Every operation that takes in a PDU gives the SDUs that it hands
  to PDCP. An access outside a buffer or through a null pointer, and a loop that does not end, have no result.
\<close>

section \<open>Model\<close>

record um_pdu =
  up_header :: rlc_um_nr_pdu_header
  up_buf :: byte_buffer

record um_segments =
  s_segments :: "(u32, um_pdu) std_map"
  s_sdu :: "byte_buffer option"
  s_next_expected_so :: u32
  s_total_sdu_length :: u32

definition um_segments_new :: um_segments where
  "um_segments_new = \<lparr>s_segments = [], s_sdu = None, s_next_expected_so = 0, s_total_sdu_length = 0\<rparr>"

record um_rx =
  r_RX_Next_Reassembly :: u32
  r_RX_Timer_Trigger :: u32
  r_RX_Next_Highest :: u32
  r_UM_Window_Size :: u32
  r_mod :: u32
  r_sn_size :: rlc_um_nr_sn_size
  r_window :: "(u32, um_segments) std_map"
  r_timer_running :: bool
  r_sdu :: "byte_buffer option"
  r_num_lost_pdus :: u32

definition um_rx_new :: "rlc_um_nr_sn_size \<Rightarrow> um_rx" where
  "um_rx_new sn_size =
    \<lparr>r_RX_Next_Reassembly = 0, r_RX_Timer_Trigger = 0, r_RX_Next_Highest = 0, r_UM_Window_Size = 0, r_mod = 0,
     r_sn_size = sn_size, r_window = [], r_timer_running = False, r_sdu = None, r_num_lost_pdus = 0\<rparr>"

definition um_rx_configure :: "um_rx \<Rightarrow> um_rx" where
  "um_rx_configure rx =
    rx\<lparr>r_mod := (if r_sn_size rx = um_size6bits then 64 else 4096),
       r_UM_Window_Size := (if r_sn_size rx = um_size6bits then 32 else 2048)\<rparr>"

definition um_rx_reset :: "um_rx \<Rightarrow> um_rx" where
  "um_rx_reset rx =
    rx\<lparr>r_RX_Next_Reassembly := 0, r_RX_Timer_Trigger := 0, r_RX_Next_Highest := 0, r_sdu := None, r_window := [],
       r_timer_running := False\<rparr>"

definition um_rx_stop :: "um_rx \<Rightarrow> um_rx" where
  "um_rx_stop rx = (um_rx_reset rx)\<lparr>r_timer_running := False\<rparr>"

definition um_rx_reestablish :: "um_rx \<Rightarrow> um_rx" where
  "um_rx_reestablish rx = um_rx_reset rx"

definition RX_MOD_NR_BASE :: "um_rx \<Rightarrow> u32 \<Rightarrow> u32" where
  "RX_MOD_NR_BASE rx x = (x - r_RX_Next_Highest rx - r_UM_Window_Size rx) mod r_mod rx"

definition sn_in_reassembly_window :: "um_rx \<Rightarrow> u32 \<Rightarrow> bool" where
  "sn_in_reassembly_window rx sn \<longleftrightarrow>
    RX_MOD_NR_BASE rx (r_RX_Next_Highest rx - r_UM_Window_Size rx) \<le> RX_MOD_NR_BASE rx sn \<and>
    RX_MOD_NR_BASE rx sn < RX_MOD_NR_BASE rx (r_RX_Next_Highest rx)"

definition sn_invalid_for_rx_buffer :: "um_rx \<Rightarrow> u32 \<Rightarrow> bool" where
  "sn_invalid_for_rx_buffer rx sn \<longleftrightarrow>
    RX_MOD_NR_BASE rx (r_RX_Next_Highest rx - r_UM_Window_Size rx) \<le> RX_MOD_NR_BASE rx sn \<and>
    RX_MOD_NR_BASE rx sn < RX_MOD_NR_BASE rx (r_RX_Next_Reassembly rx)"

definition has_missing_byte_segment :: "um_rx \<Rightarrow> u32 \<Rightarrow> bool" where
  "has_missing_byte_segment rx sn \<longleftrightarrow> map_of (r_window rx) sn \<noteq> None"

definition um_start_timer :: "um_rx \<Rightarrow> um_rx" where
  "um_start_timer rx = rx\<lparr>r_timer_running := True, r_RX_Timer_Trigger := r_RX_Next_Highest rx\<rparr>"

definition um_start_condition :: "um_rx \<Rightarrow> bool" where
  "um_start_condition rx \<longleftrightarrow>
    RX_MOD_NR_BASE rx (r_RX_Next_Highest rx) > RX_MOD_NR_BASE rx (r_RX_Next_Reassembly rx + 1) \<or>
    (RX_MOD_NR_BASE rx (r_RX_Next_Highest rx) = RX_MOD_NR_BASE rx (r_RX_Next_Reassembly rx + 1) \<and>
     has_missing_byte_segment rx (r_RX_Next_Reassembly rx))"

subsection \<open>Expiry of the timer\<close>

partial_function (option) um_advance_reassembly :: "um_rx \<Rightarrow> um_rx option" where
  "um_advance_reassembly rx =
    (if RX_MOD_NR_BASE rx (r_RX_Next_Reassembly rx) < RX_MOD_NR_BASE rx (r_RX_Next_Highest rx)
     then um_advance_reassembly (rx\<lparr>r_RX_Next_Reassembly := (r_RX_Next_Reassembly rx + 1) mod r_mod rx\<rparr>)
     else Some rx)"

definition um_rx_timer_expired :: "um_rx \<Rightarrow> um_rx option" where
  "um_rx_timer_expired rx =
    map_option (\<lambda>rx.
      let rx = rx\<lparr>r_window := filter (\<lambda>(sn, _).
                \<not> RX_MOD_NR_BASE rx sn < RX_MOD_NR_BASE rx (r_RX_Next_Reassembly rx)) (r_window rx)\<rparr>
      in if um_start_condition rx then um_start_timer rx else rx)
    (um_advance_reassembly (rx\<lparr>r_timer_running := False, r_num_lost_pdus := r_num_lost_pdus rx + 1,
       r_sdu := map_option bb_clear (r_sdu rx), r_RX_Next_Reassembly := r_RX_Timer_Trigger rx\<rparr>))"

subsection \<open>Reception\<close>

text \<open>The fresh buffer is given by its memory.\<close>

definition rlc_um_nr_strip_pdu_header :: "bytes \<Rightarrow> rlc_um_nr_pdu_header \<Rightarrow> bytes \<Rightarrow> nat \<Rightarrow> byte_buffer option" where
  "rlc_um_nr_strip_pdu_header mem header payload nof_bytes =
    (if length payload < nof_bytes then None
     else map_option (strip (rlc_um_nr_packed_length header)) (append_bytes (bb_new mem) (take nof_bytes payload)))"

text \<open>
  The walk over the segments of an SDU. It ends with all of them seen, with the SDU complete, with the SDU
  given up (and a number of PDUs counted as lost), or in a crash.
\<close>

datatype um_outcome = Um_Incomplete um_segments | Um_Complete um_segments | Um_Dropped u32 | Um_Crash

text \<open>
  The first argument is \<open>rx_sdu\<close>, which the error message about a full buffer looks into. The second is the rest of the
  walk.
\<close>

definition um_append_segment :: "byte_buffer option \<Rightarrow> byte_buffer \<Rightarrow> byte_buffer \<Rightarrow> um_outcome + byte_buffer" where
  "um_append_segment rx_sdu sdu buf =
    (if get_tailroom sdu < of_nat (bb_n buf) then Inl (if rx_sdu = None then Um_Crash else Um_Dropped 1)
     else case Option.bind (bb_read buf) (append_bytes sdu) of None \<Rightarrow> Inl Um_Crash | Some sdu \<Rightarrow> Inr sdu)"

partial_function (option) um_reassemble :: "byte_buffer option \<Rightarrow> (u32, um_pdu) std_map \<Rightarrow> um_segments \<Rightarrow> um_outcome option" where
  "um_reassemble rx_sdu its pdu =
    (case its of
       [] \<Rightarrow> Some (Um_Incomplete pdu)
     | it # rest \<Rightarrow>
         let so = ucast (u_so (up_header (snd it))); buf = up_buf (snd it) in
         if so = s_next_expected_so pdu then
           if s_next_expected_so pdu = 0 then
             if s_sdu pdu = None then
               um_reassemble rx_sdu rest
                 (pdu\<lparr>s_sdu := Some buf, s_next_expected_so := of_nat (bb_n buf), s_segments := map_erase (fst it) (s_segments pdu)\<rparr>)
             else if so \<noteq> s_next_expected_so pdu then Some (Um_Dropped 0)
             else um_reassemble rx_sdu its pdu
           else
             case s_sdu pdu of
               None \<Rightarrow> Some Um_Crash
             | Some sdu \<Rightarrow>
                 (case um_append_segment rx_sdu sdu buf of
                    Inl out \<Rightarrow> Some out
                  | Inr sdu \<Rightarrow>
                      let pdu = pdu\<lparr>s_sdu := Some sdu, s_next_expected_so := s_next_expected_so pdu + of_nat (bb_n buf),
                            s_segments := map_erase (fst it) (s_segments pdu)\<rparr>
                      in if s_next_expected_so pdu = s_total_sdu_length pdu then Some (Um_Complete pdu)
                         else um_reassemble rx_sdu rest pdu)
         else um_reassemble rx_sdu rest pdu)"

text \<open>After a delivery: the next SN in the buffer.\<close>

definition um_after_delivery :: "u32 \<Rightarrow> um_rx \<Rightarrow> um_rx" where
  "um_after_delivery sn rx =
    (if sn = r_RX_Next_Reassembly rx then
       if r_window rx = [] then rx\<lparr>r_RX_Next_Reassembly := r_RX_Next_Highest rx\<rparr>
       else
         case List.find (\<lambda>(k, _). RX_MOD_NR_BASE rx k > RX_MOD_NR_BASE rx (r_RX_Next_Reassembly rx)) (r_window rx) of
           None \<Rightarrow> rx
         | Some (k, _) \<Rightarrow> rx\<lparr>r_RX_Next_Reassembly := k\<rparr>
     else rx)"

text \<open>An SN above the window moves it.\<close>

definition um_move_window :: "u32 \<Rightarrow> um_rx \<Rightarrow> um_rx" where
  "um_move_window sn rx =
    (let rx = rx\<lparr>r_RX_Next_Highest := (sn + 1) mod r_mod rx\<rparr>;
         kept = filter (\<lambda>(k, _). sn_in_reassembly_window rx k) (r_window rx);
         rx = rx\<lparr>r_window := kept, r_num_lost_pdus := r_num_lost_pdus rx + of_nat (length (r_window rx) - length kept)\<rparr>
     in if sn_in_reassembly_window rx (r_RX_Next_Reassembly rx) then rx
        else
          case List.find (\<lambda>(k, _). k \<ge> RX_MOD_NR_BASE rx (r_RX_Next_Highest rx - r_UM_Window_Size rx)) (r_window rx) of
            None \<Rightarrow> rx
          | Some (k, _) \<Rightarrow> rx\<lparr>r_RX_Next_Reassembly := k\<rparr>)"

definition um_update_timer :: "um_rx \<Rightarrow> um_rx" where
  "um_update_timer rx =
    (let rx = (if r_timer_running rx \<and>
             (r_RX_Timer_Trigger rx \<le> r_RX_Next_Reassembly rx \<or>
              (\<not> sn_in_reassembly_window rx (r_RX_Timer_Trigger rx) \<and> r_RX_Timer_Trigger rx \<noteq> r_RX_Next_Highest rx) \<or>
              (r_RX_Next_Highest rx = r_RX_Next_Reassembly rx + 1 \<and> \<not> has_missing_byte_segment rx (r_RX_Next_Reassembly rx)))
           then rx\<lparr>r_timer_running := False\<rparr> else rx)
     in if \<not> r_timer_running rx \<and> um_start_condition rx then um_start_timer rx else rx)"

definition um_handle_rx_buffer_update :: "u32 \<Rightarrow> um_rx \<Rightarrow> (byte_buffer list \<times> um_rx) option" where
  "um_handle_rx_buffer_update sn rx =
    (case map_of (r_window rx) sn of
       None \<Rightarrow> Some ([], rx)
     | Some pdu \<Rightarrow>
         Option.bind (um_reassemble (r_sdu rx) (s_segments pdu) pdu) (\<lambda>out.
           case out of
             Um_Crash \<Rightarrow> None
           | Um_Dropped lost \<Rightarrow>
               Some ([], rx\<lparr>r_window := map_erase sn (r_window rx), r_num_lost_pdus := r_num_lost_pdus rx + lost\<rparr>)
           | Um_Complete pdu \<Rightarrow>
               Some ((case s_sdu pdu of None \<Rightarrow> [] | Some sdu \<Rightarrow> [sdu]),
                 um_update_timer (um_after_delivery sn (rx\<lparr>r_window := map_erase sn (r_window rx)\<rparr>)))
           | Um_Incomplete pdu \<Rightarrow>
               let rx = rx\<lparr>r_window := map_put sn pdu (r_window rx)\<rparr>
               in Some ([], um_update_timer (if sn_in_reassembly_window rx sn then rx else um_move_window sn rx))))"

definition update_total_sdu_length :: "um_pdu \<Rightarrow> um_segments \<Rightarrow> um_segments" where
  "update_total_sdu_length rx_pdu pdu =
    (if u_si (up_header rx_pdu) = last_segment
     then pdu\<lparr>s_total_sdu_length := ucast (u_so (up_header rx_pdu)) + of_nat (bb_n (up_buf rx_pdu))\<rparr> else pdu)"

definition um_place :: "um_pdu \<Rightarrow> um_rx \<Rightarrow> um_rx" where
  "um_place rx_pdu rx =
    (let sn = ucast (u_sn (up_header rx_pdu)); so = ucast (u_so (up_header rx_pdu));
         pdu = update_total_sdu_length rx_pdu (case map_of (r_window rx) sn of None \<Rightarrow> um_segments_new | Some pdu \<Rightarrow> pdu)
     in rx\<lparr>r_window := map_put sn (pdu\<lparr>s_segments := map_insert so rx_pdu (s_segments pdu)\<rparr>) (r_window rx)\<rparr>)"

definition um_rx_handle_data_pdu :: "bytes \<Rightarrow> bytes \<Rightarrow> nat \<Rightarrow> um_rx \<Rightarrow> (byte_buffer list \<times> um_rx) option" where
  "um_rx_handle_data_pdu mem payload nof_bytes rx =
    Option.bind (rlc_um_nr_read_data_pdu_header payload (r_sn_size rx) um_header_new) (\<lambda>(_, header).
      if u_si header = full_sdu then
        map_option (\<lambda>sdu. ([sdu], rx)) (rlc_um_nr_strip_pdu_header mem header payload nof_bytes)
      else if sn_invalid_for_rx_buffer rx (ucast (u_sn header)) then Some ([], rx)
      else
        Option.bind (rlc_um_nr_strip_pdu_header mem header payload nof_bytes) (\<lambda>buf.
          um_handle_rx_buffer_update (ucast (u_sn header)) (um_place \<lparr>up_header = header, up_buf = buf\<rparr> rx)))"

end
