(* ===== verification/Rlc_Um_Nr.thy ===== *)
theory Rlc_Um_Nr
  imports Rlc_Um_Nr_Tx Rlc_Um_Nr_Rx
begin

text \<open>
  The NR UM RLC entity: \<open>rlc_um_base\<close> of \<^verbatim>\<open>lib/src/rlc/rlc_um_base.cc\<close> with the transmitter and receiver of NR, its
  configuration in \<^verbatim>\<open>lib/src/rlc/rlc_um_nr.cc\<close>, and suspension and resumption in
  \<^verbatim>\<open>lib/include/srsran/rlc/rlc_common.h\<close>. Operations give the SDUs handed to PDCP in order.
\<close>

record um_metrics =
  num_tx_sdus :: u32
  num_tx_sdu_bytes :: u64
  num_lost_sdus :: u32
  num_tx_pdus :: u32
  num_rx_pdus :: u32
  num_tx_pdu_bytes :: u64
  num_rx_pdu_bytes :: u64

definition um_metrics_zero :: um_metrics where
  "um_metrics_zero = \<lparr>num_tx_sdus = 0, num_tx_sdu_bytes = 0, num_lost_sdus = 0, num_tx_pdus = 0, num_rx_pdus = 0,
     num_tx_pdu_bytes = 0, num_rx_pdu_bytes = 0\<rparr>"

record um_config =
  c_sn_field_length :: rlc_um_nr_sn_size
  c_is_mrb :: bool
  c_tx_queue_length :: u32

record um_entity =
  e_lcid :: u32
  e_cfg :: um_config
  e_tx :: "um_tx option"
  e_rx :: "um_rx option"
  e_tx_enabled :: bool
  e_rx_enabled :: bool
  e_metrics :: um_metrics
  e_suspended :: bool
  e_rx_pdu_resume_queue :: "unique_byte_buffer circ"
  e_tx_sdu_resume_queue :: "unique_byte_buffer circ"

definition um_entity_new :: "u32 \<Rightarrow> um_entity" where
  "um_entity_new lcid =
    \<lparr>e_lcid = lcid, e_cfg = \<lparr>c_sn_field_length = um_size6bits, c_is_mrb = False, c_tx_queue_length = 256\<rparr>, e_tx = None, e_rx = None,
     e_tx_enabled = False, e_rx_enabled = False, e_metrics = um_metrics_zero, e_suspended = False,
     e_rx_pdu_resume_queue = cb_new 256, e_tx_sdu_resume_queue = cb_new 256\<rparr>"

text \<open>The number of lost PDUs is a metric of the entity that the receiver counts.\<close>

definition um_lost_pdus :: "um_entity \<Rightarrow> u32" where
  "um_lost_pdus e = (case e_rx e of None \<Rightarrow> 0 | Some rx \<Rightarrow> r_num_lost_pdus rx)"

definition um_configure :: "(nat \<Rightarrow> nat \<Rightarrow> nat) \<Rightarrow> um_config \<Rightarrow> um_entity \<Rightarrow> um_entity option" where
  "um_configure grow cfg e =
    (let rx = um_rx_configure ((um_rx_new (c_sn_field_length cfg))\<lparr>r_num_lost_pdus := um_lost_pdus e\<rparr>)
     in map_option (\<lambda>tx. e\<lparr>e_cfg := cfg, e_rx := Some rx, e_tx := Some tx, e_rx_enabled := True, e_tx_enabled := True\<rparr>)
          (um_tx_configure grow (c_sn_field_length cfg) (c_is_mrb cfg) (c_tx_queue_length cfg) um_tx_new))"

text \<open>An operation on the transmitter, if there is one.\<close>

definition um_on_tx :: "(um_tx \<Rightarrow> um_tx option) \<Rightarrow> um_entity \<Rightarrow> um_entity option" where
  "um_on_tx f e = (case e_tx e of None \<Rightarrow> Some e | Some tx \<Rightarrow> map_option (\<lambda>tx. e\<lparr>e_tx := Some tx\<rparr>) (f tx))"

definition um_stop :: "um_entity \<Rightarrow> um_entity option" where
  "um_stop e = map_option (\<lambda>e. e\<lparr>e_rx := map_option um_rx_stop (e_rx e)\<rparr>) (um_on_tx um_tx_stop e)"

definition um_is_mrb :: "um_entity \<Rightarrow> bool" where
  "um_is_mrb e = c_is_mrb (e_cfg e)"

definition um_reestablish :: "um_entity \<Rightarrow> um_entity option" where
  "um_reestablish e =
    map_option (\<lambda>e. e\<lparr>e_rx := map_option um_rx_reestablish (e_rx e), e_tx_enabled := True\<rparr>)
      (um_on_tx um_tx_reestablish (e\<lparr>e_tx_enabled := False\<rparr>))"

definition um_empty_queue :: "um_entity \<Rightarrow> um_entity option" where
  "um_empty_queue e = um_on_tx um_tx_empty_queue e"

definition um_count_lost :: "um_entity \<Rightarrow> um_entity" where
  "um_count_lost e = e\<lparr>e_metrics := (e_metrics e)\<lparr>num_lost_sdus := num_lost_sdus (e_metrics e) + 1\<rparr>\<rparr>"

text \<open>A null SDU is looked into.\<close>

definition um_write_sdu :: "unique_byte_buffer \<Rightarrow> um_entity \<Rightarrow> um_entity option" where
  "um_write_sdu sdu e =
    (case sdu of
       None \<Rightarrow> None
     | Some b \<Rightarrow>
         (case e_tx e of
            None \<Rightarrow> Some (um_count_lost e)
          | Some tx \<Rightarrow>
              if \<not> e_tx_enabled e then Some (um_count_lost e)
              else map_option (\<lambda>(ok, tx).
                let e = e\<lparr>e_tx := Some tx\<rparr>; m = e_metrics e
                in if ok then e\<lparr>e_metrics := m\<lparr>num_tx_sdus := num_tx_sdus m + 1,
                     num_tx_sdu_bytes := num_tx_sdu_bytes m + of_int (sint (of_nat (bb_n b) :: u32))\<rparr>\<rparr>
                   else um_count_lost e) (um_tx_try_write_sdu sdu tx)))"

definition um_discard_sdu :: "u32 \<Rightarrow> um_entity \<Rightarrow> um_entity option" where
  "um_discard_sdu discard_sn e =
    (if \<not> e_tx_enabled e \<or> e_tx e = None then Some e
     else map_option um_count_lost (um_on_tx (\<lambda>tx. map_option snd (um_tx_discard_sdu discard_sn tx)) e))"

definition um_sdu_queue_is_full :: "um_entity \<Rightarrow> bool option" where
  "um_sdu_queue_is_full e = map_option um_tx_sdu_queue_is_full (e_tx e)"

definition um_has_data :: "um_entity \<Rightarrow> bool" where
  "um_has_data e = (case e_tx e of None \<Rightarrow> False | Some tx \<Rightarrow> um_tx_has_data tx)"

definition um_get_buffer_state :: "um_entity \<Rightarrow> u32 option" where
  "um_get_buffer_state e = (case e_tx e of None \<Rightarrow> Some 0 | Some tx \<Rightarrow> um_tx_get_buffer_state tx)"

definition um_read_pdu :: "byte_buffer option \<Rightarrow> bytes \<Rightarrow> u32 \<Rightarrow> um_entity \<Rightarrow> (nat \<times> bytes \<times> um_entity) option" where
  "um_read_pdu pool payload nof_bytes e =
    (case e_tx e of
       None \<Rightarrow> Some (0, payload, e)
     | Some tx \<Rightarrow>
         if \<not> e_tx_enabled e then Some (0, payload, e)
         else map_option (\<lambda>(len, payload, tx).
           let e = e\<lparr>e_tx := Some tx\<rparr>; m = e_metrics e
           in (len, payload, if 0 < len then e\<lparr>e_metrics := m\<lparr>num_tx_pdu_bytes := num_tx_pdu_bytes m + of_nat len,
                num_tx_pdus := num_tx_pdus m + 1\<rparr>\<rparr> else e))
           (um_tx_build_data_pdu pool payload nof_bytes tx))"

definition um_write_pdu :: "bytes \<Rightarrow> bytes \<Rightarrow> nat \<Rightarrow> um_entity \<Rightarrow> (byte_buffer list \<times> um_entity) option" where
  "um_write_pdu mem payload nof_bytes e =
    (case e_rx e of
       None \<Rightarrow> Some ([], e)
     | Some rx \<Rightarrow>
         if \<not> e_rx_enabled e then Some ([], e)
         else
           let m = e_metrics e;
               e = e\<lparr>e_metrics := m\<lparr>num_rx_pdus := num_rx_pdus m + 1, num_rx_pdu_bytes := num_rx_pdu_bytes m + of_nat nof_bytes\<rparr>\<rparr>
           in map_option (\<lambda>(out, rx). (out, e\<lparr>e_rx := Some rx\<rparr>)) (um_rx_handle_data_pdu mem payload nof_bytes rx))"

definition um_timer_expiry :: "um_entity \<Rightarrow> um_entity option" where
  "um_timer_expiry e =
    (case e_rx e of
       None \<Rightarrow> Some e
     | Some rx \<Rightarrow> if r_timer_running rx then map_option (\<lambda>rx. e\<lparr>e_rx := Some rx\<rparr>) (um_rx_timer_expired rx) else Some e)"

definition um_get_metrics :: "um_entity \<Rightarrow> um_metrics \<times> u32" where
  "um_get_metrics e = (e_metrics e, um_lost_pdus e)"

definition um_reset_metrics :: "um_entity \<Rightarrow> um_entity" where
  "um_reset_metrics e = e\<lparr>e_metrics := um_metrics_zero, e_rx := map_option (\<lambda>rx. rx\<lparr>r_num_lost_pdus := 0\<rparr>) (e_rx e)\<rparr>"

definition um_set_bsr_callback :: "um_entity \<Rightarrow> um_entity option" where
  "um_set_bsr_callback e = map_option (\<lambda>tx. e\<lparr>e_tx := Some (um_tx_set_bsr_callback tx)\<rparr>) (e_tx e)"

section \<open>Suspension\<close>

definition um_suspend :: "um_entity \<Rightarrow> bool \<times> um_entity" where
  "um_suspend e = (if e_suspended e then (False, e) else (True, e\<lparr>e_suspended := True\<rparr>))"

text \<open>A PDU that does not fit a buffer or the queue is dropped; there may be no buffer.\<close>

definition um_queue_rx_pdu :: "bytes option \<Rightarrow> bytes \<Rightarrow> nat \<Rightarrow> um_entity \<Rightarrow> um_entity option" where
  "um_queue_rx_pdu pool payload nof_bytes e =
    (case pool of
       None \<Rightarrow> Some e
     | Some mem \<Rightarrow>
         if get_tailroom (bb_new mem) < of_nat nof_bytes then Some e
         else if length payload < nof_bytes then None
         else Option.bind (append_bytes (bb_new mem) (take nof_bytes payload)) (\<lambda>rx_pdu.
           map_option (\<lambda>(_, q). e\<lparr>e_rx_pdu_resume_queue := q\<rparr>) (cb_try_push (Some rx_pdu) (e_rx_pdu_resume_queue e))))"

definition um_queue_tx_sdu :: "unique_byte_buffer \<Rightarrow> um_entity \<Rightarrow> um_entity option" where
  "um_queue_tx_sdu sdu e = map_option (\<lambda>(_, q). e\<lparr>e_tx_sdu_resume_queue := q\<rparr>) (cb_try_push sdu (e_tx_sdu_resume_queue e))"

definition um_write_pdu_s :: "bytes \<Rightarrow> bytes \<Rightarrow> nat \<Rightarrow> um_entity \<Rightarrow> (byte_buffer list \<times> um_entity) option" where
  "um_write_pdu_s mem payload nof_bytes e =
    (if e_suspended e then map_option (Pair []) (um_queue_rx_pdu (Some mem) payload nof_bytes e)
     else um_write_pdu mem payload nof_bytes e)"

definition um_write_sdu_s :: "unique_byte_buffer \<Rightarrow> um_entity \<Rightarrow> um_entity option" where
  "um_write_sdu_s sdu e = (if e_suspended e then um_queue_tx_sdu sdu e else um_write_sdu sdu e)"

partial_function (option) um_resume_rx :: "bytes \<Rightarrow> um_entity \<Rightarrow> (byte_buffer list \<times> um_entity) option" where
  "um_resume_rx mem e =
    (if cb_empty (e_rx_pdu_resume_queue e) then Some ([], e)
     else
       Option.bind (Option.bind (cb_top (e_rx_pdu_resume_queue e)) id) (\<lambda>b.
       Option.bind (cb_pop (e_rx_pdu_resume_queue e)) (\<lambda>q.
       Option.bind (um_write_pdu mem (drop (bb_msg b) (bb_buffer b)) (bb_n b) (e\<lparr>e_rx_pdu_resume_queue := q\<rparr>)) (\<lambda>(out, e).
       Option.bind (um_resume_rx mem e) (\<lambda>(out', e). Some (out @ out', e))))))"

partial_function (option) um_resume_tx :: "um_entity \<Rightarrow> um_entity option" where
  "um_resume_tx e =
    (if cb_empty (e_tx_sdu_resume_queue e) then Some e
     else
       Option.bind (cb_top (e_tx_sdu_resume_queue e)) (\<lambda>sdu.
       Option.bind (cb_pop (e_tx_sdu_resume_queue e)) (\<lambda>q.
       Option.bind (um_write_sdu sdu (e\<lparr>e_tx_sdu_resume_queue := q\<rparr>)) um_resume_tx)))"

definition um_resume :: "bytes \<Rightarrow> um_entity \<Rightarrow> (bool \<times> byte_buffer list \<times> um_entity) option" where
  "um_resume mem e =
    (if \<not> e_suspended e then Some (False, [], e)
     else Option.bind (um_resume_rx mem e) (\<lambda>(out, e).
       map_option (\<lambda>e. (True, out, e\<lparr>e_suspended := False\<rparr>)) (um_resume_tx e)))"

end
