(* ===== verification/Rlc_Um_Nr_Tx_Proofs.thy ===== *)
theory Rlc_Um_Nr_Tx_Proofs
  imports Rlc_Um_Nr_Tx
begin

text \<open>
  Correctness of the NR UM transmitter: what a PDU holds and what is left of the SDU, in the four cases of
  segmentation.
\<close>

section \<open>Filling a PDU\<close>

text \<open>An empty buffer with room for a header in front.\<close>

definition um_pdu_buffer_ok :: "byte_buffer \<Rightarrow> bool" where
  "um_pdu_buffer_ok pdu \<longleftrightarrow> bb_ok pdu \<and> bb_n pdu = 0 \<and> 4 \<le> bb_msg pdu \<and> length (bb_buffer pdu) < 2 ^ 32"

lemma pdu_tailroom: "um_pdu_buffer_ok pdu \<Longrightarrow> unat (get_tailroom pdu) = length (bb_buffer pdu) - bb_msg pdu"
proof -
  assume p: "um_pdu_buffer_ok pdu"
  then have "get_tailroom pdu = of_nat (length (bb_buffer pdu) - bb_msg pdu)"
    by (simp add: get_tailroom_def um_pdu_buffer_ok_def bb_ok_def of_nat_diff)
  moreover have "length (bb_buffer pdu) - bb_msg pdu < 2 ^ LENGTH(32)" using p by (auto simp: um_pdu_buffer_ok_def)
  ultimately show ?thesis by (simp only: unat_of_nat_eq)
qed

text \<open>The transmitter after \<open>k\<close> octets of \<open>s\<close> have gone into a PDU.\<close>

definition um_tx_after :: "rlc_nr_si_field \<Rightarrow> nat \<Rightarrow> byte_buffer \<Rightarrow> um_tx \<Rightarrow> um_tx" where
  "um_tx_after si k s tx =
    (let tx = tx\<lparr>t_sdu := (if bb_n (strip k s) = 0 then None else Some (strip k s)), t_next_so := t_next_so tx + of_nat k\<rparr>
     in if si = last_segment then tx\<lparr>t_TX_Next := (t_TX_Next tx + 1) mod t_mod tx, t_next_so := 0\<rparr> else tx)"

lemma um_fill_pdu_ok:
  assumes s: "bb_ok s" "k \<le> bb_n s" "k < 2 ^ 32"
    and pdu: "um_pdu_buffer_ok pdu" "bb_msg pdu + k \<le> length (bb_buffer pdu)"
    and room: "rlc_um_nr_packed_length h + k \<le> length payload"
  shows "um_fill_pdu h (of_nat k) s pdu payload tx =
    Some (rlc_um_nr_packed_length h + k,
      um_header_bytes h @ take k (bb_data s) @ drop (rlc_um_nr_packed_length h + k) payload, um_tx_after (u_si h) k s tx)"
proof -
  let ?x = "take k (bb_data s)" and ?l = "rlc_um_nr_packed_length h"
  have u: "unat (of_nat k :: u32) = k" using s(3) by (intro unat_of_nat_eq) simp
  have src: "take k (drop (bb_msg s) (bb_buffer s)) = ?x" "bb_msg s + k \<le> length (bb_buffer s)" "length ?x = k"
    using s(1,2) by (auto simp: bb_data_def bb_ok_def)
  have p: "bb_ok pdu" "bb_data pdu = []" using pdu(1) by (simp_all add: um_pdu_buffer_ok_def bb_data_def)
  have "length ?x \<le> length (bb_buffer pdu) - bb_msg pdu - bb_n pdu" using pdu src(3) by (simp add: um_pdu_buffer_ok_def)
  from bb.append_ok [OF p(1) this] obtain p1 where p1: "append_bytes pdu ?x = Some p1" "bb_ok p1" "bb_data p1 = ?x"
    "get_headroom p1 = get_headroom pdu"
    unfolding p(2) by auto
  have "length (um_header_bytes h) \<le> get_headroom p1"
    using pdu(1) packed_length_le [of h] p1(4) by (simp add: length_um_header_bytes um_pdu_buffer_ok_def get_headroom_def)
  from bb.push_ok [OF p1(2) this] obtain p2 where p2: "push_header p1 (um_header_bytes h) = Some p2" "bb_ok p2"
    "bb_data p2 = um_header_bytes h @ ?x"
    unfolding p1(3) by auto
  have n: "bb_n p2 = ?l + k" using length_bb_data [OF p2(2)] src(3) unfolding p2(3) by (simp add: length_um_header_bytes)
  have "mem_write payload 0 (bb_data p2) = Some (um_header_bytes h @ ?x @ drop (?l + k) payload)"
    using room src(3) unfolding p2(3) by (simp add: mem_write_def length_um_header_bytes)
  then show ?thesis
    using u src p1(1) p2(1) n
    by (simp add: um_fill_pdu_def rlc_um_nr_write_data_pdu_header_def um_tx_after_def Let_def not_less)
qed

section \<open>Sequence numbers of six bits\<close>

definition um_tx_ok :: "um_tx \<Rightarrow> bool" where
  "um_tx_ok tx \<longleftrightarrow> bbq_ok (t_queue tx) \<and> (\<forall>m \<in> set (bbq_items (t_queue tx)). \<exists>b. m = Some b \<and> bb_ok b \<and> bb_n b < 2 ^ 16) \<and>
    t_sn_size tx = um_size6bits \<and> t_mod tx = 64 \<and> t_head_len_segment tx = 3 \<and> t_TX_Next tx < 64 \<and>
    (case t_sdu tx of None \<Rightarrow> True
     | Some s \<Rightarrow> bb_ok s \<and> 0 < bb_n s \<and> 0 < unat (t_next_so tx) \<and> unat (t_next_so tx) + bb_n s < 2 ^ 16)"

definition um_queued :: "um_tx \<Rightarrow> bytes list" where
  "um_queued tx = map (\<lambda>m. bb_data (the m)) (bbq_items (t_queue tx))"

text \<open>Reading the next SDU, when none was discarded.\<close>

lemma um_read_sdu_ok:
  assumes "bbq_ok q" "bbq_items q = Some b # ms"
  shows "\<exists>q'. um_read_sdu q = Some (Some b, q') \<and> bbq_ok q' \<and> bbq_items q' = ms"
  using bbq_read_ok [OF assms(1)] assms(2) by (subst um_read_sdu.simps) auto

definition um_cur_header :: "rlc_nr_si_field \<Rightarrow> um_tx \<Rightarrow> rlc_um_nr_pdu_header" where
  "um_cur_header si tx = \<lparr>u_si = si, u_sn_size = um_size6bits, u_sn = ucast (t_TX_Next tx), u_so = ucast (t_next_so tx)\<rparr>"

text \<open>
  A PDU built with a grant of at least five octets: the header, a part of the SDU under way and a transmitter
  that goes on with the rest.
\<close>

lemma um_build_selected:
  assumes sel: "um_select (min g (get_tailroom pdu)) tx = Some (si, Some s, tx1)"
    and s: "bb_ok s" "bb_n s < 2 ^ 16"
    and pdu: "um_pdu_buffer_ok pdu" "bb_msg pdu + 5 \<le> length (bb_buffer pdu)"
    and g: "5 \<le> unat g" "unat g \<le> length payload"
  defines "h \<equiv> \<lparr>u_si = si, u_sn_size = t_sn_size tx1, u_sn = ucast (t_TX_Next tx), u_so = ucast (t_next_so tx1)\<rparr>"
    and "space \<equiv> unat (min g (get_tailroom pdu))"
  defines "k \<equiv> min (bb_n s) (space - rlc_um_nr_packed_length h)"
  assumes fits: "rlc_um_nr_packed_length h + 1 < space"
  shows "um_tx_build_pdu pdu payload g tx = Some (rlc_um_nr_packed_length h + k,
      um_header_bytes h @ take k (bb_data s) @ drop (rlc_um_nr_packed_length h + k) payload, um_tx_after si k s tx1)"
proof -
  let ?sp = "min g (get_tailroom pdu)" and ?l = "rlc_um_nr_packed_length h"
  have sp: "space \<le> unat g" "space \<le> length (bb_buffer pdu) - bb_msg pdu"
    using pdu_tailroom [OF pdu(1)] by (auto simp: min_def word_le_nat_alt space_def)
  have l2: "unat (of_nat (?l + 1) :: u32) = ?l + 1" using packed_length_le [of h] by (intro unat_of_nat_eq) simp
  have l: "unat (of_nat ?l :: u32) = ?l" "unat (of_nat (bb_n s) :: u32) = bb_n s"
    using packed_length_le [of h] s(2) by (intro unat_of_nat_eq; simp)+
  have big: "\<not> g < 2" using g(1) by (simp add: word_less_nat_alt)
  have head: "\<not> ?sp \<le> of_nat ?l + 1" using fits l2 by (simp add: word_le_nat_alt space_def add.commute)
  have sub: "unat (?sp - of_nat ?l) = space - ?l"
    using fits l(1) by (subst unat_sub) (simp_all add: word_le_nat_alt space_def)
  have move: "(if of_nat (bb_n s) \<le> ?sp - of_nat ?l then of_nat (bb_n s) else ?sp - of_nat ?l) = (of_nat k :: u32)"
  proof (cases "bb_n s \<le> space - ?l")
    case True
    then show ?thesis using sub l(2) by (simp add: word_le_nat_alt k_def)
  next
    case False
    have "?sp - of_nat ?l = of_nat (space - ?l)" unfolding sub [symmetric] by simp
    then show ?thesis using False sub l(2) by (simp add: word_le_nat_alt k_def)
  qed
  have "um_fill_pdu h (of_nat k) s pdu payload tx1 = Some (?l + k,
      um_header_bytes h @ take k (bb_data s) @ drop (?l + k) payload, um_tx_after (u_si h) k s tx1)"
    using s pdu g sp fits by (intro um_fill_pdu_ok) (auto simp: k_def min_def)
  moreover have "u_si h = si" by (simp add: h_def)
  ultimately show ?thesis
    using big head move by (simp add: um_tx_build_pdu_def sel h_def [symmetric] Let_def)
qed

text \<open>
  A PDU built with a grant of at least five octets. The first lemma is about an SDU that is begun, the second about one
  that goes on.
\<close>

definition um_grant_ok :: "byte_buffer \<Rightarrow> u32 \<Rightarrow> bytes \<Rightarrow> bool" where
  "um_grant_ok pdu g payload \<longleftrightarrow> um_pdu_buffer_ok pdu \<and> bb_msg pdu + 5 \<le> length (bb_buffer pdu) \<and> 5 \<le> unat g \<and> unat g \<le> length payload"

lemma grant_space: "um_grant_ok pdu g payload \<Longrightarrow> 5 \<le> unat (min g (get_tailroom pdu)) \<and> unat (min g (get_tailroom pdu)) \<le> unat g"
  using pdu_tailroom [of pdu] by (auto simp: um_grant_ok_def min_def word_le_nat_alt)

lemma unat_u32_small: "n < 2 ^ 16 \<Longrightarrow> unat (of_nat n :: u32) = n"
  by (intro unat_of_nat_eq) simp

lemma um_build_new:
  assumes ok: "um_tx_ok tx" and new: "t_sdu tx = None" "bbq_items (t_queue tx) = Some b # ms" and g: "um_grant_ok pdu g payload"
  shows "\<exists>q k si tx'. bbq_ok q \<and> bbq_items q = ms \<and>
    um_tx_build_data_pdu (Some pdu) payload g tx = Some (1 + k,
      um_header_bytes (um_cur_header si (tx\<lparr>t_next_so := 0\<rparr>)) @ take k (bb_data b) @ drop (1 + k) payload, tx') \<and>
    tx' = um_tx_after si k b (tx\<lparr>t_queue := q, t_sdu := Some b, t_next_so := 0\<rparr>) \<and> k \<le> bb_n b \<and> 1 + k \<le> unat g \<and>
    (if si = full_sdu then k = bb_n b else si = first_segment \<and> 0 < k \<and> k < bb_n b)"
proof -
  let ?sp = "min g (get_tailroom pdu)"
  have b: "bb_ok b" "bb_n b < 2 ^ 16" and q: "bbq_ok (t_queue tx)" and sz: "t_sn_size tx = um_size6bits"
    using ok new(2) by (auto simp: um_tx_ok_def)
  obtain q' where rd: "um_read_sdu (t_queue tx) = Some (Some b, q')" "bbq_ok q'" "bbq_items q' = ms"
    using um_read_sdu_ok [OF q new(2)] by blast
  let ?si = "if of_nat (bb_n b) \<le> ?sp - 1 then full_sdu else first_segment"
  let ?tx = "tx\<lparr>t_queue := q', t_sdu := Some b, t_next_so := 0\<rparr>"
  have sel: "um_select ?sp tx = Some (?si, Some b, ?tx)" using new(1) rd(1) by (simp add: um_select_def Let_def)
  note sp = grant_space [OF g]
  have one: "unat (?sp - 1) = unat ?sp - 1" using sp by (subst unat_sub) (simp_all add: word_le_nat_alt)
  have full: "of_nat (bb_n b) \<le> ?sp - 1 \<longleftrightarrow> bb_n b \<le> unat ?sp - 1"
    using one unat_u32_small [OF b(2)] by (simp add: word_le_nat_alt)
  have len: "rlc_um_nr_packed_length \<lparr>u_si = ?si, u_sn_size = t_sn_size ?tx, u_sn = ucast (t_TX_Next tx), u_so = ucast (t_next_so ?tx)\<rparr> = 1"
    using sz by (simp add: rlc_um_nr_packed_length_def)
  have hd: "\<lparr>u_si = ?si, u_sn_size = t_sn_size ?tx, u_sn = ucast (t_TX_Next tx), u_so = ucast (t_next_so ?tx)\<rparr> = um_cur_header ?si (tx\<lparr>t_next_so := 0\<rparr>)"
    using sz by (simp add: um_cur_header_def)
  have data: "um_tx_has_data tx"
    using new by (simp add: um_tx_has_data_def bbq_is_empty_iff)
  have n0: "bb_n pdu = 0" using g by (simp add: um_grant_ok_def um_pdu_buffer_ok_def)
  have "um_tx_build_data_pdu (Some pdu) payload g tx = um_tx_build_pdu pdu payload g tx"
    using data n0 by (simp add: um_tx_build_data_pdu_def)
  also have "\<dots> = Some (1 + min (bb_n b) (unat ?sp - 1),
      um_header_bytes (um_cur_header ?si (tx\<lparr>t_next_so := 0\<rparr>)) @ take (min (bb_n b) (unat ?sp - 1)) (bb_data b) @
        drop (1 + min (bb_n b) (unat ?sp - 1)) payload, um_tx_after ?si (min (bb_n b) (unat ?sp - 1)) b ?tx)"
    using um_build_selected [OF sel b, of payload, unfolded len, unfolded hd] g sp by (simp add: um_grant_ok_def)
  finally have eq: "um_tx_build_data_pdu (Some pdu) payload g tx = \<dots>" .
  define k where "k = min (bb_n b) (unat ?sp - 1)"
  have k: "k \<le> bb_n b" "1 + k \<le> unat g" "if ?si = full_sdu then k = bb_n b else ?si = first_segment \<and> 0 < k \<and> k < bb_n b"
    unfolding k_def full using sp by auto
  show ?thesis using eq k rd(2,3) unfolding k_def [symmetric] by blast
qed

lemma um_build_rest:
  assumes ok: "um_tx_ok tx" and s: "t_sdu tx = Some s" and g: "um_grant_ok pdu g payload"
  shows "\<exists>k si tx'. um_tx_build_data_pdu (Some pdu) payload g tx = Some (3 + k,
      um_header_bytes (um_cur_header si tx) @ take k (bb_data s) @ drop (3 + k) payload, tx') \<and>
    tx' = um_tx_after si k s tx \<and> k \<le> bb_n s \<and> 3 + k \<le> unat g \<and> 0 < k \<and>
    (if si = last_segment then k = bb_n s else si = neither_first_nor_last_segment \<and> k < bb_n s)"
proof -
  let ?sp = "min g (get_tailroom pdu)"
  have b: "bb_ok s" "bb_n s < 2 ^ 16" "0 < bb_n s" and so: "0 < unat (t_next_so tx)" "unat (t_next_so tx) < 2 ^ 16"
    and sz: "t_sn_size tx = um_size6bits" "t_head_len_segment tx = 3"
    using ok s by (auto simp: um_tx_ok_def)
  let ?si = "if of_nat (bb_n s) \<le> ?sp - 3 then last_segment else neither_first_nor_last_segment"
  have sel: "um_select ?sp tx = Some (?si, Some s, tx)" using s sz(2) by (simp add: um_select_def)
  note sp = grant_space [OF g]
  have three: "unat (?sp - 3) = unat ?sp - 3" using sp by (subst unat_sub) (simp_all add: word_le_nat_alt)
  have fit: "of_nat (bb_n s) \<le> ?sp - 3 \<longleftrightarrow> bb_n s \<le> unat ?sp - 3"
    using three unat_u32_small [OF b(2)] by (simp add: word_le_nat_alt)
  have "unat (ucast (t_next_so tx) :: u16) = unat (t_next_so tx)"
    using so(2) by (simp add: unsigned_ucast_eq take_bit_nat_eq_self)
  then have "(ucast (t_next_so tx) :: u16) \<noteq> 0" using so(1) by (metis less_numeral_extra(3) unat_0)
  then have len: "rlc_um_nr_packed_length \<lparr>u_si = ?si, u_sn_size = t_sn_size tx, u_sn = ucast (t_TX_Next tx), u_so = ucast (t_next_so tx)\<rparr> = 3"
    using sz by (simp add: rlc_um_nr_packed_length_def)
  have hd: "\<lparr>u_si = ?si, u_sn_size = t_sn_size tx, u_sn = ucast (t_TX_Next tx), u_so = ucast (t_next_so tx)\<rparr> = um_cur_header ?si tx"
    using sz by (simp add: um_cur_header_def)
  have "um_tx_build_data_pdu (Some pdu) payload g tx = um_tx_build_pdu pdu payload g tx"
    using s g by (simp add: um_tx_build_data_pdu_def um_tx_has_data_def um_grant_ok_def um_pdu_buffer_ok_def)
  also have "\<dots> = Some (3 + min (bb_n s) (unat ?sp - 3),
      um_header_bytes (um_cur_header ?si tx) @ take (min (bb_n s) (unat ?sp - 3)) (bb_data s) @
        drop (3 + min (bb_n s) (unat ?sp - 3)) payload, um_tx_after ?si (min (bb_n s) (unat ?sp - 3)) s tx)"
    using um_build_selected [OF sel b(1,2), of payload, unfolded len, unfolded hd] g sp by (simp add: um_grant_ok_def)
  finally have eq: "um_tx_build_data_pdu (Some pdu) payload g tx = \<dots>" .
  define k where "k = min (bb_n s) (unat ?sp - 3)"
  have k: "k \<le> bb_n s" "3 + k \<le> unat g" "0 < k" "if ?si = last_segment then k = bb_n s else ?si = neither_first_nor_last_segment \<and> k < bb_n s"
    unfolding k_def fit using b(3) sp by auto
  show ?thesis using eq k unfolding k_def [symmetric] by blast
qed

text \<open>The state that is left.\<close>

lemma um_tx_after_ok:
  assumes "bb_ok s" "k \<le> bb_n s" "bb_n s < 2 ^ 16"
  shows "t_sdu (um_tx_after si k s tx) = (if k = bb_n s then None else Some (strip k s))"
    "bb_ok (strip k s)" "bb_data (strip k s) = drop k (bb_data s)" "bb_n (strip k s) = bb_n s - k"
  using strip_data [OF assms(1,2)] assms by (auto simp: um_tx_after_def Let_def)

end
