(* ===== verification/Rlc_Um_Nr_Rx_Proofs.thy ===== *)
theory Rlc_Um_Nr_Rx_Proofs
  imports Rlc_Um_Nr_Rx
begin

text \<open>
  Correctness of the NR UM receiver: the arithmetic of its window, the reassembly of one SDU, and the invariant that
  every operation keeps.
\<close>

section \<open>The window\<close>

definition um_cfg_ok :: "um_rx \<Rightarrow> bool" where
  "um_cfg_ok rx \<longleftrightarrow> r_sn_size rx = um_size6bits \<and> r_mod rx = 64 \<and> r_UM_Window_Size rx = 32 \<or>
    r_sn_size rx \<noteq> um_size6bits \<and> r_mod rx = 4096 \<and> r_UM_Window_Size rx = 2048"

lemma um_cfg_ok_configure [simp]: "um_cfg_ok (um_rx_configure rx)"
  by (simp add: um_cfg_ok_def um_rx_configure_def)

text \<open>The base of a number, as integers.\<close>

lemma uint_base:
  assumes "um_cfg_ok rx"
  shows "uint (RX_MOD_NR_BASE rx x) = (uint x - uint (r_RX_Next_Highest rx) - uint (r_UM_Window_Size rx)) mod uint (r_mod rx)"
proof -
  have d: "(2 :: int) ^ 32 mod 64 = 0" "(64 :: int) dvd 2 ^ 32" "(4096 :: int) dvd 2 ^ 32" by simp_all
  have "uint (a - b - c :: u32) mod m = (uint a - uint b - uint c) mod m" if "m dvd 2 ^ 32" for a b c m
    using that by (simp add: uint_word_ariths mod_mod_cancel mod_simps)
  with d show ?thesis
    using assms uint_mod_distrib [of "x - r_RX_Next_Highest rx - r_UM_Window_Size rx" "r_mod rx"]
    by (auto simp: um_cfg_ok_def RX_MOD_NR_BASE_def)
qed

text \<open>For numbers in range: three intervals.\<close>

lemma base_cases:
  assumes cfg: "um_cfg_ok rx" and r: "r_RX_Next_Highest rx < r_mod rx" "x < r_mod rx"
  defines "w \<equiv> uint (r_UM_Window_Size rx)" and "d \<equiv> uint x - uint (r_RX_Next_Highest rx)"
  shows "uint (RX_MOD_NR_BASE rx x) = (if w \<le> d then d - w else if - w \<le> d then d + w else d + 3 * w)"
proof -
  have m: "uint (r_mod rx) = 2 * w" "0 < w" using cfg by (auto simp: um_cfg_ok_def w_def)
  have "uint x < 2 * w" "uint (r_RX_Next_Highest rx) < 2 * w"
    using r unfolding word_less_def m(1) by simp_all
  then have b: "- (2 * w) < d" "d < 2 * w"
    using uint_ge_0 [of x] uint_ge_0 [of "r_RX_Next_Highest rx"] unfolding d_def by linarith+
  have e: "uint (RX_MOD_NR_BASE rx x) = (d - w) mod (2 * w)"
    using uint_base [OF cfg] by (simp add: m(1) w_def d_def)
  have "(d - w) mod (2 * w) = (d + w) mod (2 * w)" "(d - w) mod (2 * w) = (d + 3 * w) mod (2 * w)"
    using mod_add_self2 [of "d - w" "2 * w"] mod_add_self2 [of "d + w" "2 * w"] by (simp_all add: algebra_simps)
  then show ?thesis
    unfolding e using b m(2) by (auto simp: mod_pos_pos_trivial)
qed

lemma base_top: "um_cfg_ok rx \<Longrightarrow> RX_MOD_NR_BASE rx (r_RX_Next_Highest rx) = r_UM_Window_Size rx"
  unfolding word_uint_eq_iff by (subst uint_base) (auto simp: um_cfg_ok_def)

lemma base_bottom: "um_cfg_ok rx \<Longrightarrow> RX_MOD_NR_BASE rx (r_RX_Next_Highest rx - r_UM_Window_Size rx) = 0"
  by (elim um_cfg_ok_def [THEN iffD1, THEN disjE]) (simp_all add: RX_MOD_NR_BASE_def)

lemma in_window_iff: "um_cfg_ok rx \<Longrightarrow> sn_in_reassembly_window rx sn \<longleftrightarrow> RX_MOD_NR_BASE rx sn < r_UM_Window_Size rx"
  by (simp add: sn_in_reassembly_window_def base_top base_bottom)

lemma invalid_iff:
  "um_cfg_ok rx \<Longrightarrow> sn_invalid_for_rx_buffer rx sn \<longleftrightarrow> RX_MOD_NR_BASE rx sn < RX_MOD_NR_BASE rx (r_RX_Next_Reassembly rx)"
  by (simp add: sn_invalid_for_rx_buffer_def base_bottom)

lemma base_inj_int:
  fixes a b h w :: int
  assumes "0 \<le> a" "a < 2 * w" "0 \<le> b" "b < 2 * w" "0 \<le> h" "h < 2 * w"
    "(if w \<le> a - h then a - h - w else if - w \<le> a - h then a - h + w else a - h + 3 * w) =
     (if w \<le> b - h then b - h - w else if - w \<le> b - h then b - h + w else b - h + 3 * w)"
  shows "a = b"
  using assms by (simp split: if_splits)

lemma base_inj:
  assumes "um_cfg_ok rx" "r_RX_Next_Highest rx < r_mod rx" "x < r_mod rx" "y < r_mod rx"
    "RX_MOD_NR_BASE rx x = RX_MOD_NR_BASE rx y"
  shows "x = y"
proof -
  have m: "uint (r_mod rx) = 2 * uint (r_UM_Window_Size rx)" using assms(1) by (auto simp: um_cfg_ok_def)
  have "uint x < 2 * uint (r_UM_Window_Size rx)" "uint y < 2 * uint (r_UM_Window_Size rx)"
    "uint (r_RX_Next_Highest rx) < 2 * uint (r_UM_Window_Size rx)"
    using assms(2-4) unfolding word_less_def m(1) by simp_all
  moreover have "uint (RX_MOD_NR_BASE rx x) = uint (RX_MOD_NR_BASE rx y)" using assms(5) by simp
  ultimately have "uint x = uint y"
    unfolding base_cases [OF assms(1-3)] base_cases [OF assms(1,2,4)]
    by (intro base_inj_int [of "uint x" "uint (r_UM_Window_Size rx)" "uint y" "uint (r_RX_Next_Highest rx)"]) simp_all
  then show ?thesis by (simp add: word_uint_eq_iff)
qed

text \<open>No more sequence numbers are kept than the window has.\<close>

definition um_window_ok :: "um_rx \<Rightarrow> bool" where
  "um_window_ok rx \<longleftrightarrow> um_cfg_ok rx \<and> r_RX_Next_Highest rx < r_mod rx \<and> r_RX_Next_Reassembly rx < r_mod rx \<and>
    r_RX_Timer_Trigger rx < r_mod rx \<and> map_ok (r_window rx) \<and>
    (\<forall>k \<in> fst ` set (r_window rx). k < r_mod rx \<and> sn_in_reassembly_window rx k)"

lemma window_bound:
  assumes "um_window_ok rx"
  shows "length (r_window rx) \<le> unat (r_UM_Window_Size rx)"
proof -
  let ?b = "\<lambda>k. unat (RX_MOD_NR_BASE rx k)"
  have ok: "um_cfg_ok rx" "r_RX_Next_Highest rx < r_mod rx" "map_ok (r_window rx)"
    and keys: "\<forall>k \<in> fst ` set (r_window rx). k < r_mod rx \<and> sn_in_reassembly_window rx k"
    using assms by (simp_all add: um_window_ok_def)
  have "distinct (map fst (r_window rx))"
    using ok(3) unfolding map_ok_def by (simp add: strict_sorted_iff)
  from distinct_card [OF this] have "card (fst ` set (r_window rx)) = length (r_window rx)" by simp
  moreover have "inj_on ?b (fst ` set (r_window rx))"
  proof (rule inj_onI)
    fix x y
    assume k: "x \<in> fst ` set (r_window rx)" "y \<in> fst ` set (r_window rx)" and "?b x = ?b y"
    then have "RX_MOD_NR_BASE rx x = RX_MOD_NR_BASE rx y" by (simp only: word_unat_eq_iff)
    moreover have "x < r_mod rx" "y < r_mod rx" using bspec [OF keys k(1)] bspec [OF keys k(2)] by simp_all
    ultimately show "x = y" by (rule base_inj [OF ok(1,2), rotated 2])
  qed
  moreover have "?b ` fst ` set (r_window rx) \<subseteq> {..<unat (r_UM_Window_Size rx)}"
    using keys by (auto simp: in_window_iff [OF ok(1)] word_less_nat_alt)
  ultimately show ?thesis
    using card_mono [of "{..<unat (r_UM_Window_Size rx)}" "?b ` fst ` set (r_window rx)"] by (simp add: card_image)
qed

text \<open>What the base of a number depends on.\<close>

lemma base_cong:
  "r_RX_Next_Highest rx' = r_RX_Next_Highest rx \<Longrightarrow> r_UM_Window_Size rx' = r_UM_Window_Size rx \<Longrightarrow> r_mod rx' = r_mod rx \<Longrightarrow>
    RX_MOD_NR_BASE rx' = RX_MOD_NR_BASE rx \<and> sn_in_reassembly_window rx' = sn_in_reassembly_window rx"
  by (simp add: fun_eq_iff RX_MOD_NR_BASE_def sn_in_reassembly_window_def)

lemma um_update_timer_same:
  "\<exists>t b. um_update_timer rx = rx\<lparr>r_RX_Timer_Trigger := t, r_timer_running := b\<rparr> \<and>
    (t = r_RX_Timer_Trigger rx \<or> t = r_RX_Next_Highest rx)"
proof -
  have u: "\<exists>t b. rx = rx\<lparr>r_RX_Timer_Trigger := t, r_timer_running := b\<rparr> \<and> (t = r_RX_Timer_Trigger rx \<or> t = r_RX_Next_Highest rx)" for rx
    by (intro exI [of _ "r_RX_Timer_Trigger rx"] exI [of _ "r_timer_running rx"]) simp
  show ?thesis
    using u [of rx] by (cases rx) (auto simp: um_update_timer_def um_start_timer_def Let_def)
qed

lemma um_update_timer_ok:
  assumes "um_window_ok rx"
  shows "um_window_ok (um_update_timer rx)" "r_window (um_update_timer rx) = r_window rx" "r_sdu (um_update_timer rx) = r_sdu rx"
    "r_sn_size (um_update_timer rx) = r_sn_size rx"
proof -
  obtain t b where e: "um_update_timer rx = rx\<lparr>r_RX_Timer_Trigger := t, r_timer_running := b\<rparr>"
    "t = r_RX_Timer_Trigger rx \<or> t = r_RX_Next_Highest rx"
    using um_update_timer_same by blast
  have "sn_in_reassembly_window (rx\<lparr>r_RX_Timer_Trigger := t, r_timer_running := b\<rparr>) = sn_in_reassembly_window rx"
    by (rule base_cong [THEN conjunct2]) simp_all
  then show "um_window_ok (um_update_timer rx)" using assms e(2) unfolding e(1) by (auto simp: um_window_ok_def um_cfg_ok_def)
qed (use um_update_timer_same [of rx] in auto)

lemma find_key: "List.find P m = Some a \<Longrightarrow> fst a \<in> fst ` set m"
  by (induction m) (auto split: if_splits)

lemma um_after_delivery_ok:
  assumes "um_window_ok rx"
  shows "um_window_ok (um_after_delivery sn rx)" "r_window (um_after_delivery sn rx) = r_window rx"
    "r_sdu (um_after_delivery sn rx) = r_sdu rx" "r_sn_size (um_after_delivery sn rx) = r_sn_size rx"
proof -
  obtain x where e: "um_after_delivery sn rx = rx\<lparr>r_RX_Next_Reassembly := x\<rparr>" and
    x: "x = r_RX_Next_Reassembly rx \<or> x = r_RX_Next_Highest rx \<or> x \<in> fst ` set (r_window rx)"
  proof (cases "sn = r_RX_Next_Reassembly rx \<and> r_window rx \<noteq> []")
    case True
    show ?thesis
    proof (cases "List.find (\<lambda>(k, _). RX_MOD_NR_BASE rx k > RX_MOD_NR_BASE rx (r_RX_Next_Reassembly rx)) (r_window rx)")
      case None
      with True show ?thesis by (intro that [of "r_RX_Next_Reassembly rx"]) (simp_all add: um_after_delivery_def)
    next
      case (Some a)
      with True find_key [OF Some] show ?thesis by (intro that [of "fst a"]) (cases a; auto simp: um_after_delivery_def)+
    qed
  next
    case False
    then show ?thesis
      by (cases "sn = r_RX_Next_Reassembly rx")
        (auto simp: um_after_delivery_def intro: that [of "r_RX_Next_Reassembly rx"] that [of "r_RX_Next_Highest rx"])
  qed
  have "sn_in_reassembly_window (rx\<lparr>r_RX_Next_Reassembly := x\<rparr>) = sn_in_reassembly_window rx"
    by (rule base_cong [THEN conjunct2]) simp_all
  moreover have "x < r_mod rx" using x assms unfolding um_window_ok_def by blast
  ultimately show "um_window_ok (um_after_delivery sn rx)"
    using assms unfolding e by (auto simp: um_window_ok_def um_cfg_ok_def)
  show "r_window (um_after_delivery sn rx) = r_window rx" "r_sdu (um_after_delivery sn rx) = r_sdu rx"
    "r_sn_size (um_after_delivery sn rx) = r_sn_size rx"
    by (simp_all add: e)
qed

lemma um_move_window_ok:
  assumes cfg: "um_cfg_ok rx" and r: "r_RX_Next_Reassembly rx < r_mod rx" "r_RX_Timer_Trigger rx < r_mod rx" "map_ok (r_window rx)"
    "\<forall>k \<in> fst ` set (r_window rx). k < r_mod rx"
  shows "um_window_ok (um_move_window sn rx)" "set (r_window (um_move_window sn rx)) \<subseteq> set (r_window rx)"
    "r_sdu (um_move_window sn rx) = r_sdu rx" "r_sn_size (um_move_window sn rx) = r_sn_size rx"
    "r_RX_Next_Highest (um_move_window sn rx) = (sn + 1) mod r_mod rx"
proof -
  let ?h = "rx\<lparr>r_RX_Next_Highest := (sn + 1) mod r_mod rx\<rparr>"
  let ?kept = "filter (\<lambda>(k, _). sn_in_reassembly_window ?h k) (r_window rx)"
  let ?rx = "?h\<lparr>r_window := ?kept, r_num_lost_pdus := r_num_lost_pdus rx + of_nat (length (r_window rx) - length ?kept)\<rparr>"
  have w: "sn_in_reassembly_window (?rx\<lparr>r_RX_Next_Reassembly := x\<rparr>) = sn_in_reassembly_window ?h"
    "sn_in_reassembly_window ?rx = sn_in_reassembly_window ?h" for x
    by (rule base_cong [THEN conjunct2]; simp)+
  obtain x where e: "um_move_window sn rx = ?rx\<lparr>r_RX_Next_Reassembly := x\<rparr>" and
    x: "x = r_RX_Next_Reassembly rx \<or> x \<in> fst ` set ?kept"
  proof (cases "sn_in_reassembly_window ?rx (r_RX_Next_Reassembly rx)")
    case True
    then show ?thesis by (intro that [of "r_RX_Next_Reassembly rx"]) (simp_all add: um_move_window_def Let_def)
  next
    case False
    note F = this
    show ?thesis
    proof (cases "List.find (\<lambda>(k, _). k \<ge> RX_MOD_NR_BASE ?rx (r_RX_Next_Highest ?rx - r_UM_Window_Size ?rx)) ?kept")
      case None
      then show ?thesis using F by (intro that [of "r_RX_Next_Reassembly rx"]) (simp_all add: um_move_window_def Let_def)
    next
      case (Some a)
      then show ?thesis
        using F find_key [OF Some] by (intro that [of "fst a"]) (cases a; simp add: um_move_window_def Let_def)+
    qed
  qed
  have m: "0 < r_mod rx" using cfg by (auto simp: um_cfg_ok_def)
  have h: "(sn + 1) mod r_mod rx < r_mod rx" using m by (metis word_mod_less_divisor)
  have "x < r_mod rx" using x r(1,4) by auto
  then show "um_window_ok (um_move_window sn rx)"
    using cfg r h unfolding e um_window_ok_def w by (auto simp: um_cfg_ok_def map_ok_filter)
  show "set (r_window (um_move_window sn rx)) \<subseteq> set (r_window rx)" "r_sdu (um_move_window sn rx) = r_sdu rx"
    "r_sn_size (um_move_window sn rx) = r_sn_size rx" "r_RX_Next_Highest (um_move_window sn rx) = (sn + 1) mod r_mod rx"
    unfolding e by auto
qed

section \<open>Reassembly of one SDU\<close>

text \<open>A segment of an SDU, in a buffer that has room for all of it.\<close>

definition bb_room :: "bytes \<Rightarrow> byte_buffer \<Rightarrow> bool" where
  "bb_room d b \<longleftrightarrow> bb_ok b \<and> bb_msg b + length d \<le> length (bb_buffer b) \<and> length (bb_buffer b) < 2 ^ 32"

definition seg_of :: "bytes \<Rightarrow> u32 \<times> um_pdu \<Rightarrow> bool" where
  "seg_of d kp \<longleftrightarrow> (let p = snd kp; so = u_so (up_header p); b = up_buf p in
    fst kp = ucast so \<and> bb_room d b \<and> 0 < bb_n b \<and> unat so + bb_n b \<le> length d \<and>
    bb_data b = take (bb_n b) (drop (unat so) d) \<and> (u_si (up_header p) = last_segment \<longrightarrow> unat so + bb_n b = length d))"

text \<open>What is assembled is a beginning of the SDU, and its length when that is known.\<close>

definition segs_ok :: "bytes \<Rightarrow> um_segments \<Rightarrow> bool" where
  "segs_ok d s \<longleftrightarrow> map_ok (s_segments s) \<and> (\<forall>kp \<in> set (s_segments s). seg_of d kp) \<and>
    (case s_sdu s of
       None \<Rightarrow> s_next_expected_so s = 0
     | Some b \<Rightarrow> bb_room d b \<and> 0 < bb_n b \<and> bb_n b \<le> length d \<and> bb_data b = take (bb_n b) d \<and> s_next_expected_so s = of_nat (bb_n b)) \<and>
    (s_total_sdu_length s = 0 \<or> s_total_sdu_length s = of_nat (length d))"

lemma segs_ok_new [simp]: "segs_ok d um_segments_new"
  by (simp add: segs_ok_def um_segments_new_def)

lemma tailroom_room: "bb_room d b \<Longrightarrow> unat (get_tailroom b) = length (bb_buffer b) - bb_msg b - bb_n b"
proof -
  assume r: "bb_room d b"
  then have le: "bb_msg b + bb_n b \<le> length (bb_buffer b)" "length (bb_buffer b) < 2 ^ 32" by (auto simp: bb_room_def bb_ok_def)
  have "get_tailroom b = of_nat (length (bb_buffer b) - bb_msg b - bb_n b)"
    using le by (simp add: get_tailroom_def of_nat_diff)
  then show ?thesis using le by (simp add: unat_of_nat_eq del: of_nat_diff)
qed

lemma append_segment_ok:
  assumes s: "bb_room d s" "bb_data s = take (bb_n s) d" "bb_n s \<le> length d"
    and b: "bb_room d b" "bb_data b = take (bb_n b) (drop (bb_n s) d)" "bb_n s + bb_n b \<le> length d"
  shows "\<exists>s'. um_append_segment None s b = Inr s' \<and> bb_room d s' \<and> bb_n s' = bb_n s + bb_n b \<and> bb_data s' = take (bb_n s') d"
proof -
  have r: "bb_n b \<le> length (bb_buffer s) - bb_msg s - bb_n s" "length (bb_data b) = bb_n b" "bb_ok s" "bb_ok b"
    "length (bb_buffer s) < 2 ^ 32" "bb_msg s + length d \<le> length (bb_buffer s)"
    using s(1) b(1,3) by (auto simp: bb_room_def bb_ok_def)
  have "unat (of_nat (bb_n b) :: u32) = bb_n b" using r(1,5) by (intro unat_of_nat_eq) simp
  then have "\<not> get_tailroom s < of_nat (bb_n b)" using r(1) tailroom_room [OF s(1)] by (simp add: word_less_nat_alt)
  moreover obtain s' where s': "append_bytes s (bb_data b) = Some s'" "bb_ok s'" "bb_data s' = bb_data s @ bb_data b"
    using bb.append_ok [OF r(3), of "bb_data b"] r(1,2) by auto
  moreover have "bb_n s' = bb_n s + bb_n b" "bb_msg s' = bb_msg s" "length (bb_buffer s') = length (bb_buffer s)"
    using s'(1) r(2) by (auto simp: append_bytes_def mem_write_def split: if_splits)
  moreover have "bb_data s' = take (bb_n s + bb_n b) d"
    unfolding s'(3) s(2) b(2) by (simp add: take_add)
  ultimately show ?thesis using r by (simp add: um_append_segment_def bb_read_def bb_room_def)
qed

lemma um_reassemble_ok:
  assumes "segs_ok d pdu" "sorted_wrt (<) (map fst its)" "\<forall>kp \<in> set its. seg_of d kp"
  shows "\<exists>out. um_reassemble None its pdu = Some out \<and>
    (case out of Um_Incomplete pdu' \<Rightarrow> segs_ok d pdu'
     | Um_Complete pdu' \<Rightarrow> \<exists>b. s_sdu pdu' = Some b \<and> bb_ok b \<and> bb_data b = d
     | _ \<Rightarrow> False)"
  using assms
proof (induction its arbitrary: pdu)
  case Nil
  then show ?case by (simp add: um_reassemble.simps)
next
  case (Cons it rest)
  let ?h = "up_header (snd it)" and ?b = "up_buf (snd it)"
  have seg: "seg_of d it" and rest: "sorted_wrt (<) (map fst rest)" "\<forall>kp \<in> set rest. seg_of d kp" using Cons.prems by auto
  note IH = Cons.IH [OF _ rest]
  have b: "bb_room d ?b" "0 < bb_n ?b" "unat (u_so ?h) + bb_n ?b \<le> length d" "bb_data ?b = take (bb_n ?b) (drop (unat (u_so ?h)) d)"
    "length d < 2 ^ 32"
    using seg by (auto simp: seg_of_def Let_def bb_room_def)
  have erased: "map_ok (map_erase (fst it) (s_segments pdu))" "\<forall>kp \<in> set (map_erase (fst it) (s_segments pdu)). seg_of d kp"
    using Cons.prems(1) set_map_erase [of "fst it" "s_segments pdu"] by (auto simp: segs_ok_def)
  have so16: "unat (ucast (u_so ?h) :: u32) = unat (u_so ?h)" by (rule unat_ucast_up) simp
  have total: "s_total_sdu_length pdu = 0 \<or> s_total_sdu_length pdu = of_nat (length d)" using Cons.prems(1) by (simp add: segs_ok_def)
  show ?case
  proof (cases "ucast (u_so ?h) = s_next_expected_so pdu")
    case False
    then show ?thesis using IH [OF Cons.prems(1)] by (simp add: um_reassemble.simps [of _ "it # rest"] Let_def)
  next
    case so: True
    show ?thesis
    proof (cases "s_sdu pdu")
      case None
      then have n0: "s_next_expected_so pdu = 0" using Cons.prems(1) by (simp add: segs_ok_def)
      then have "unat (u_so ?h) = 0" using so16 so by simp
      then have "segs_ok d (pdu\<lparr>s_sdu := Some ?b, s_next_expected_so := of_nat (bb_n ?b), s_segments := map_erase (fst it) (s_segments pdu)\<rparr>)"
        using b erased total by (simp add: segs_ok_def)
      then show ?thesis using IH so n0 None by (simp add: um_reassemble.simps [of _ "it # rest"] Let_def)
    next
      case (Some s)
      then have s: "bb_room d s" "0 < bb_n s" "bb_n s \<le> length d" "bb_data s = take (bb_n s) d" "s_next_expected_so pdu = of_nat (bb_n s)"
        using Cons.prems(1) by (simp_all add: segs_ok_def)
      have un: "unat (of_nat (bb_n s) :: u32) = bb_n s" using s(3) b(5) by (intro unat_of_nat_eq) simp
      then have n0: "s_next_expected_so pdu \<noteq> 0" using s(2,5) by (metis less_numeral_extra(3) unat_0)
      have eq: "unat (u_so ?h) = bb_n s"
        using so16 so s(5) un by simp
      obtain s' where s': "um_append_segment None s ?b = Inr s'" "bb_room d s'" "bb_n s' = bb_n s + bb_n ?b" "bb_data s' = take (bb_n s') d"
        using append_segment_ok [OF s(1,4,3) b(1)] b(3,4) eq by auto
      let ?p = "pdu\<lparr>s_sdu := Some s', s_next_expected_so := s_next_expected_so pdu + of_nat (bb_n ?b), s_segments := map_erase (fst it) (s_segments pdu)\<rparr>"
      have le: "bb_n s' \<le> length d" using s'(3) b(3) eq by simp
      have ok: "segs_ok d ?p"
        using s' erased total s(2,5) le by (simp add: segs_ok_def)
      show ?thesis
      proof (cases "s_next_expected_so pdu + of_nat (bb_n ?b) = s_total_sdu_length pdu")
        case True
        have un': "unat (of_nat (bb_n s') :: u32) = bb_n s'" "unat (of_nat (length d) :: u32) = length d"
          using le b(5) by (auto intro!: unat_of_nat_eq)
        have "of_nat (bb_n s') = s_total_sdu_length pdu" using True s(5) s'(3) by simp
        then have "bb_n s' = length d" using total un' s(2) s'(3) by (metis add_is_0 less_numeral_extra(3) unat_0)
        then show ?thesis
          using True so n0 Some s'(1,2,4) by (simp add: um_reassemble.simps [of _ "it # rest"] Let_def bb_room_def)
      next
        case False
        then show ?thesis using IH [OF ok] so n0 Some s'(1) by (simp add: um_reassemble.simps [of _ "it # rest"] Let_def)
      qed
    qed
  qed
qed

section \<open>One PDU\<close>

definition um_rx_inv :: "(u32 \<Rightarrow> bytes) \<Rightarrow> um_rx \<Rightarrow> bool" where
  "um_rx_inv sent rx \<longleftrightarrow> um_window_ok rx \<and> r_sdu rx = None \<and> (\<forall>(k, pdu) \<in> set (r_window rx). segs_ok (sent k) pdu)"

lemma strip_header_ok:
  assumes p: "payload = um_header_bytes h @ chunk @ rest" "nof = rlc_um_nr_packed_length h + length chunk"
    and m: "SRSRAN_BUFFER_HEADER_OFFSET + nof \<le> length mem" "length mem < 2 ^ 32"
  shows "\<exists>b. rlc_um_nr_strip_pdu_header mem h payload nof = Some b \<and> bb_ok b \<and> bb_data b = chunk \<and> bb_n b = length chunk \<and>
    bb_msg b = SRSRAN_BUFFER_HEADER_OFFSET + rlc_um_nr_packed_length h \<and> length (bb_buffer b) = length mem"
proof -
  have t: "take nof payload = um_header_bytes h @ chunk" "nof \<le> length payload" "length (take nof payload) = nof"
    using p by (simp_all add: length_um_header_bytes)
  have new: "bb_ok (bb_new mem)" "bb_data (bb_new mem) = []" using m(1) by (simp_all add: bb_ok_def bb_new_def bb_data_def)
  have "length (take nof payload) \<le> length (bb_buffer (bb_new mem)) - bb_msg (bb_new mem) - bb_n (bb_new mem)"
    using m(1) t(3) by (simp add: bb_new_def)
  from bb.append_ok [OF new(1) this] obtain b where
    b: "append_bytes (bb_new mem) (take nof payload) = Some b" "bb_ok b" "bb_data b = um_header_bytes h @ chunk"
    unfolding new(2) t(1) by auto
  have f: "bb_n b = nof" "bb_msg b = SRSRAN_BUFFER_HEADER_OFFSET" "length (bb_buffer b) = length mem"
    using b(1) t(2) by (auto simp: append_bytes_def mem_write_def bb_new_def split: if_splits)
  have "bb_n b < 2 ^ 32" "rlc_um_nr_packed_length h \<le> bb_n b" using f(1) m p(2) by simp_all
  note s = strip_data [OF b(2) this(2,1)]
  have "bb_data (strip (rlc_um_nr_packed_length h) b) = chunk"
    unfolding s(3) b(3) by (simp add: length_um_header_bytes [symmetric])
  then show ?thesis using s f b(1) t(2) p(2) by (simp add: rlc_um_nr_strip_pdu_header_def)
qed

text \<open>
  Memory that holds a PDU of a sender whose SDU of sequence number \<open>k\<close> is \<open>sent k\<close>; \<open>whole\<close> is the set of SDUs sent without
  segmentation.
\<close>

definition um_genuine :: "rlc_um_nr_sn_size \<Rightarrow> bytes set \<Rightarrow> (u32 \<Rightarrow> bytes) \<Rightarrow> bytes \<Rightarrow> nat \<Rightarrow> bool" where
  "um_genuine sn_size whole sent payload nof \<longleftrightarrow>
    (\<exists>h chunk rest. payload = um_header_bytes h @ chunk @ rest \<and> nof = rlc_um_nr_packed_length h + length chunk \<and>
      um_header_ok h \<and> u_sn_size h = sn_size \<and>
      (if u_si h = full_sdu then chunk \<in> whole
       else chunk \<noteq> [] \<and> unat (u_so h) + length chunk \<le> length (sent (ucast (u_sn h))) \<and>
         chunk = take (length chunk) (drop (unat (u_so h)) (sent (ucast (u_sn h)))) \<and>
         (if u_si h = last_segment then unat (u_so h) + length chunk = length (sent (ucast (u_sn h))) else True)))"

text \<open>A fresh buffer that has room for every SDU and its header.\<close>

definition um_mem_ok :: "bytes set \<Rightarrow> (u32 \<Rightarrow> bytes) \<Rightarrow> bytes \<Rightarrow> bool" where
  "um_mem_ok whole sent mem \<longleftrightarrow> length mem < 2 ^ 32 \<and>
    (\<forall>d \<in> whole \<union> range sent. SRSRAN_BUFFER_HEADER_OFFSET + 4 + length d \<le> length mem)"

lemma update_total_ok:
  assumes s: "segs_ok d s" and seg: "seg_of d (ucast (u_so (up_header p)), p)"
  shows "segs_ok d (update_total_sdu_length p s) \<and> s_segments (update_total_sdu_length p s) = s_segments s"
proof (cases "u_si (up_header p) = last_segment")
  case True
  then have "unat (u_so (up_header p)) + bb_n (up_buf p) = length d" using seg by (simp add: seg_of_def Let_def)
  then have "ucast (u_so (up_header p)) + of_nat (bb_n (up_buf p)) = (of_nat (length d) :: u32)"
    by (metis of_nat_add of_nat_unat)
  then show ?thesis using s True by (cases "s_sdu s") (simp_all add: update_total_sdu_length_def segs_ok_def)
qed (simp add: update_total_sdu_length_def s)

lemma insert_segment_ok:
  assumes "segs_ok d s" "seg_of d (k, p)"
  shows "segs_ok d (s\<lparr>s_segments := map_insert k p (s_segments s)\<rparr>)"
  using assms set_map_insert [of k p "s_segments s"] by (cases "s_sdu s") (auto simp: segs_ok_def)

lemma um_place_ok:
  assumes inv: "um_rx_inv sent rx"
    and seg: "seg_of (sent (ucast (u_sn (up_header p)))) (ucast (u_so (up_header p)), p)"
  defines "k \<equiv> ucast (u_sn (up_header p))"
  shows "\<exists>s. um_place p rx = rx\<lparr>r_window := map_put k s (r_window rx)\<rparr> \<and> segs_ok (sent k) s"
proof -
  let ?s0 = "case map_of (r_window rx) k of None \<Rightarrow> um_segments_new | Some pdu \<Rightarrow> pdu"
  have "segs_ok (sent k) ?s0"
    using inv by (auto simp: um_rx_inv_def split: option.split dest!: map_of_SomeD)
  then have "segs_ok (sent k) (update_total_sdu_length p ?s0)"
    using update_total_ok [OF _ seg] unfolding k_def by blast
  then have "segs_ok (sent k) ((update_total_sdu_length p ?s0)\<lparr>s_segments :=
      map_insert (ucast (u_so (up_header p))) p (s_segments (update_total_sdu_length p ?s0))\<rparr>)"
    using seg unfolding k_def by (rule insert_segment_ok)
  then show ?thesis unfolding um_place_def Let_def k_def by blast
qed

lemma window_put:
  assumes inv: "um_rx_inv sent rx" and s: "segs_ok (sent k) s"
  shows "\<forall>(k', pdu) \<in> set (map_put k s (r_window rx)). segs_ok (sent k') pdu"
  using assms set_map_put [of k s "r_window rx"] by (auto simp: um_rx_inv_def)

text \<open>The update after a PDU has been placed, and so the handling of a PDU.\<close>

lemma handle_update_ok:
  assumes inv: "um_rx_inv sent rx" and k: "k < r_mod rx" and s: "segs_ok (sent k) s"
  shows "\<exists>out rx'. um_handle_rx_buffer_update k (rx\<lparr>r_window := map_put k s (r_window rx)\<rparr>) = Some (out, rx') \<and>
    um_rx_inv sent rx' \<and> r_sn_size rx' = r_sn_size rx \<and> (\<forall>b \<in> set out. bb_ok b \<and> bb_data b = sent k)"
proof -
  let ?rx = "rx\<lparr>r_window := map_put k s (r_window rx)\<rparr>"
  have w: "um_window_ok rx" "map_ok (r_window rx)" "r_sdu rx = None" using inv by (simp_all add: um_rx_inv_def um_window_ok_def)
  have win: "sn_in_reassembly_window (rx\<lparr>r_window := m\<rparr>) = sn_in_reassembly_window rx" for m
    by (rule base_cong [THEN conjunct2]) simp_all
  have "sorted_wrt (<) (map fst (s_segments s))" "\<forall>kp \<in> set (s_segments s). seg_of (sent k) kp"
    using s by (simp_all add: segs_ok_def map_ok_def)
  from um_reassemble_ok [OF s this] obtain res where
    res: "um_reassemble None (s_segments s) s = Some res"
    and post: "case res of Um_Incomplete pdu' \<Rightarrow> segs_ok (sent k) pdu'
     | Um_Complete pdu' \<Rightarrow> \<exists>b. s_sdu pdu' = Some b \<and> bb_ok b \<and> bb_data b = sent k | _ \<Rightarrow> False" by blast
  show ?thesis
  proof (cases res)
    case (Um_Incomplete p)
    then have p: "segs_ok (sent k) p" using post by simp
    let ?r = "rx\<lparr>r_window := map_put k p (map_put k s (r_window rx))\<rparr>"
    let ?m = "if sn_in_reassembly_window ?r k then ?r else um_move_window k ?r"
    have segs: "\<forall>(k', pdu) \<in> set (r_window ?r). segs_ok (sent k') pdu"
      using window_put [OF inv s] p set_map_put [of k p "map_put k s (r_window rx)"] by auto
    have pre: "um_cfg_ok ?r" "r_RX_Next_Reassembly ?r < r_mod ?r" "r_RX_Timer_Trigger ?r < r_mod ?r" "map_ok (r_window ?r)"
      "\<forall>k \<in> fst ` set (r_window ?r). k < r_mod ?r"
      using w(1,2) k by (auto simp: um_window_ok_def um_cfg_ok_def)
    note mv = um_move_window_ok [OF pre, of k]
    have "um_window_ok ?m"
    proof (cases "sn_in_reassembly_window ?r k")
      case True
      then have "um_window_ok ?r" using w(1,2) k unfolding um_window_ok_def win by (auto simp: um_cfg_ok_def)
      then show ?thesis using True by simp
    qed (use mv(1) in simp)
    moreover have "set (r_window ?m) \<subseteq> set (r_window ?r)" "r_sdu ?m = None" "r_sn_size ?m = r_sn_size rx"
      using mv(2-4) w(3) by auto
    ultimately show ?thesis
      using res Um_Incomplete segs um_update_timer_ok [of ?m] w(2,3)
      by (auto simp: um_handle_rx_buffer_update_def um_rx_inv_def Let_def)
  next
    case (Um_Complete p)
    then obtain b where b: "s_sdu p = Some b" "bb_ok b" "bb_data b = sent k" using post by auto
    let ?r = "?rx\<lparr>r_window := map_erase k (map_put k s (r_window rx))\<rparr>"
    have keys: "fst ` set (r_window ?r) \<subseteq> fst ` set (r_window rx)" using w(2) by (auto simp: keys_map_erase)
    have "\<forall>k \<in> fst ` set (r_window ?r). k < r_mod rx \<and> sn_in_reassembly_window rx k"
      using w(1) keys unfolding um_window_ok_def by blast
    then have "um_window_ok ?r" using w(1,2) unfolding um_window_ok_def by (simp add: um_cfg_ok_def win)
    note d = um_after_delivery_ok [OF this] and t = um_update_timer_ok [OF um_after_delivery_ok(1) [OF this, of k]]
    have "\<forall>(k', pdu) \<in> set (r_window ?r). segs_ok (sent k') pdu"
      using window_put [OF inv s] set_map_erase [of k "map_put k s (r_window rx)"] by auto
    then show ?thesis
      using res Um_Complete b t d w(2,3)
      by (auto simp: um_handle_rx_buffer_update_def um_rx_inv_def)
  qed (use post in simp_all)
qed

lemma handle_data_pdu_ok:
  assumes inv: "um_rx_inv sent rx" and g: "um_genuine (r_sn_size rx) whole sent payload nof" and mem: "um_mem_ok whole sent mem"
  shows "\<exists>out rx'. um_rx_handle_data_pdu mem payload nof rx = Some (out, rx') \<and>
    um_rx_inv sent rx' \<and> r_sn_size rx' = r_sn_size rx \<and> (\<forall>b \<in> set out. bb_ok b \<and> bb_data b \<in> whole \<union> range sent)"
proof -
  obtain h chunk rest where p: "payload = um_header_bytes h @ chunk @ rest" "nof = rlc_um_nr_packed_length h + length chunk"
      "um_header_ok h" "u_sn_size h = r_sn_size rx"
    and c: "if u_si h = full_sdu then chunk \<in> whole
       else chunk \<noteq> [] \<and> unat (u_so h) + length chunk \<le> length (sent (ucast (u_sn h))) \<and>
         chunk = take (length chunk) (drop (unat (u_so h)) (sent (ucast (u_sn h)))) \<and>
         (if u_si h = last_segment then unat (u_so h) + length chunk = length (sent (ucast (u_sn h))) else True)"
    using g unfolding um_genuine_def by blast
  let ?k = "ucast (u_sn h) :: u32"
  have hdr: "rlc_um_nr_read_data_pdu_header payload (r_sn_size rx) um_header_new = Some (rlc_um_nr_packed_length h, h)"
    using um_read_write [OF p(3)] unfolding p(1) p(4) .
  have "length chunk \<le> length (if u_si h = full_sdu then chunk else sent ?k)" "(if u_si h = full_sdu then chunk else sent ?k) \<in> whole \<union> range sent"
    using c by (auto split: if_splits)
  then have len: "SRSRAN_BUFFER_HEADER_OFFSET + nof \<le> length mem" "length mem < 2 ^ 32"
    using mem p(2) packed_length_le [of h] by (force simp: um_mem_ok_def)+
  obtain b where b: "rlc_um_nr_strip_pdu_header mem h payload nof = Some b" "bb_ok b" "bb_data b = chunk" "bb_n b = length chunk"
    "bb_msg b = SRSRAN_BUFFER_HEADER_OFFSET + rlc_um_nr_packed_length h" "length (bb_buffer b) = length mem"
    using strip_header_ok [OF p(1,2) len] by blast
  show ?thesis
  proof (cases "u_si h = full_sdu")
    case True
    then show ?thesis using hdr b(1-3) inv c by (simp add: um_rx_handle_data_pdu_def)
  next
    case seg: False
    show ?thesis
    proof (cases "sn_invalid_for_rx_buffer rx ?k")
      case True
      then show ?thesis using seg hdr inv by (simp add: um_rx_handle_data_pdu_def)
    next
      case False
      let ?p = "\<lparr>up_header = h, up_buf = b\<rparr>"
      have "SRSRAN_BUFFER_HEADER_OFFSET + 4 + length (sent ?k) \<le> length mem" using mem by (simp add: um_mem_ok_def)
      then have "seg_of (sent ?k) (ucast (u_so h), ?p)"
        using seg c b(2-6) packed_length_le [of h] len(2) by (auto simp: seg_of_def Let_def bb_room_def split: if_splits)
      then obtain s where s: "um_place ?p rx = rx\<lparr>r_window := map_put ?k s (r_window rx)\<rparr>" "segs_ok (sent ?k) s"
        using um_place_ok [OF inv, of ?p] by auto
      have "?k < r_mod rx"
      proof -
        have u: "unat ?k = unat (u_sn h)" by (rule unat_ucast_up) simp
        show ?thesis
          using p(3,4) seg inv by (auto simp: word_less_nat_alt u um_header_ok_def um_rx_inv_def um_window_ok_def um_cfg_ok_def split: if_splits)
      qed
      from handle_update_ok [OF inv this s(2)] show ?thesis
        using seg False hdr b(1) s(1) by (fastforce simp: um_rx_handle_data_pdu_def)
    qed
  qed
qed

section \<open>Expiry of the timer\<close>

lemma base_next:
  assumes cfg: "um_cfg_ok rx" and lt: "RX_MOD_NR_BASE rx x < r_UM_Window_Size rx"
  shows "uint (RX_MOD_NR_BASE rx ((x + 1) mod r_mod rx)) = uint (RX_MOD_NR_BASE rx x) + 1"
proof -
  let ?m = "uint (r_mod rx)"
  have m: "?m dvd 2 ^ 32" "uint (r_UM_Window_Size rx) < ?m" "0 < ?m" using cfg by (auto simp: um_cfg_ok_def)
  have e: "uint ((x + 1) mod r_mod rx) mod ?m = (uint x + 1) mod ?m"
    using m(1) by (simp add: uint_mod_distrib uint_word_ariths mod_mod_cancel)
  have step: "(y - a - b) mod m = ((x - a - b) mod m + 1) mod m" if "y mod m = (x + 1) mod m" for y x a b m :: int
  proof -
    have "(y - (a + b)) mod m = (y mod m - (a + b)) mod m" by (rule mod_diff_left_eq [symmetric])
    also have "\<dots> = (x + 1 - (a + b)) mod m" unfolding that by (rule mod_diff_left_eq)
    also have "x + 1 - (a + b) = x - a - b + 1" by simp
    also have "(x - a - b + 1) mod m = ((x - a - b) mod m + 1) mod m" by (rule mod_add_left_eq [symmetric])
    finally show ?thesis by (simp add: diff_diff_eq)
  qed
  have "uint (RX_MOD_NR_BASE rx ((x + 1) mod r_mod rx)) = (uint (RX_MOD_NR_BASE rx x) + 1) mod ?m"
    unfolding uint_base [OF cfg] by (rule step [OF e])
  moreover have "uint (RX_MOD_NR_BASE rx x) + 1 < ?m" using lt m(2) by (simp add: word_less_def)
  ultimately show ?thesis by (simp add: mod_pos_pos_trivial)
qed

text \<open>The loop ends: at the upper edge of the window, or at once when it starts above it.\<close>

lemma um_advance_ok:
  assumes "um_cfg_ok rx" "r_RX_Next_Reassembly rx < r_mod rx"
  shows "\<exists>x. um_advance_reassembly rx = Some (rx\<lparr>r_RX_Next_Reassembly := x\<rparr>) \<and> x < r_mod rx \<and>
    r_UM_Window_Size rx \<le> RX_MOD_NR_BASE rx x"
  using assms
proof (induction "nat (uint (r_UM_Window_Size rx) - uint (RX_MOD_NR_BASE rx (r_RX_Next_Reassembly rx)))" arbitrary: rx rule: less_induct)
  case less
  show ?case
  proof (cases "RX_MOD_NR_BASE rx (r_RX_Next_Reassembly rx) < r_UM_Window_Size rx")
    case False
    then show ?thesis
      using less.prems base_top [OF less.prems(1)]
      by (intro exI [of _ "r_RX_Next_Reassembly rx"]) (subst um_advance_reassembly.simps, simp)
  next
    case True
    let ?n = "(r_RX_Next_Reassembly rx + 1) mod r_mod rx"
    let ?rx = "rx\<lparr>r_RX_Next_Reassembly := ?n\<rparr>"
    have c: "RX_MOD_NR_BASE ?rx = RX_MOD_NR_BASE rx" by (rule base_cong [THEN conjunct1]) simp_all
    have "0 < r_mod rx" using less.prems(1) by (auto simp: um_cfg_ok_def)
    then have n: "?n < r_mod rx" by (metis word_mod_less_divisor)
    have "\<exists>x. um_advance_reassembly ?rx = Some (?rx\<lparr>r_RX_Next_Reassembly := x\<rparr>) \<and> x < r_mod ?rx \<and>
        r_UM_Window_Size ?rx \<le> RX_MOD_NR_BASE ?rx x"
      using less.prems(1) n base_next [OF less.prems(1) True] True
      by (intro less.hyps) (simp_all add: c um_cfg_ok_def word_less_def)
    then show ?thesis
      using True base_top [OF less.prems(1)] by (subst um_advance_reassembly.simps) (simp add: c)
  qed
qed

lemma timer_expired_ok:
  assumes inv: "um_rx_inv sent rx"
  shows "\<exists>rx'. um_rx_timer_expired rx = Some rx' \<and> um_rx_inv sent rx' \<and> r_sn_size rx' = r_sn_size rx"
proof -
  let ?rx = "rx\<lparr>r_timer_running := False, r_num_lost_pdus := r_num_lost_pdus rx + 1,
       r_sdu := map_option bb_clear (r_sdu rx), r_RX_Next_Reassembly := r_RX_Timer_Trigger rx\<rparr>"
  have w: "um_window_ok rx" "r_sdu rx = None" using inv by (simp_all add: um_rx_inv_def)
  then have "um_cfg_ok ?rx" "r_RX_Next_Reassembly ?rx < r_mod ?rx" by (simp_all add: um_window_ok_def um_cfg_ok_def)
  from um_advance_ok [OF this] obtain x where
    x: "um_advance_reassembly ?rx = Some (?rx\<lparr>r_RX_Next_Reassembly := x\<rparr>)" "x < r_mod rx" by auto
  let ?r = "?rx\<lparr>r_RX_Next_Reassembly := x\<rparr>"
  let ?f = "?r\<lparr>r_window := filter (\<lambda>(sn, _). \<not> RX_MOD_NR_BASE ?r sn < RX_MOD_NR_BASE ?r (r_RX_Next_Reassembly ?r)) (r_window ?r)\<rparr>"
  have win: "sn_in_reassembly_window ?f = sn_in_reassembly_window rx" "sn_in_reassembly_window (um_start_timer ?f) = sn_in_reassembly_window rx"
    by (rule base_cong [THEN conjunct2]; simp add: um_start_timer_def)+
  have "um_window_ok ?f" "um_window_ok (um_start_timer ?f)"
    using w(1) x(2) unfolding um_window_ok_def win by (auto simp: um_cfg_ok_def map_ok_filter um_start_timer_def)
  then have "um_rx_inv sent ?f" "um_rx_inv sent (um_start_timer ?f)"
    using inv by (auto simp: um_rx_inv_def um_start_timer_def)
  then show ?thesis using x(1) by (simp add: um_rx_timer_expired_def Let_def um_start_timer_def)
qed

end
