(* ===== verification/Rlc_Um_Nr_Link.thy ===== *)
theory Rlc_Um_Nr_Link
  imports Rlc_Um_Nr Rlc_Um_Nr_Tx_Proofs Rlc_Um_Nr_Rx_Proofs
begin

text \<open>
  Two NR UM entities joined by a channel that keeps order and loses nothing: what goes in comes out.
\<close>

section \<open>The receiver in order\<close>

text \<open>Between SDUs, and with a beginning \<open>pre\<close> of the SDU \<open>d\<close> received.\<close>

definition um_rx_base :: "u32 \<Rightarrow> um_rx \<Rightarrow> bool" where
  "um_rx_base n rx \<longleftrightarrow> um_cfg_ok rx \<and> r_sdu rx = None \<and> n < r_mod rx \<and> r_RX_Next_Reassembly rx = n"

definition um_idle :: "u32 \<Rightarrow> um_rx \<Rightarrow> bool" where
  "um_idle n rx \<longleftrightarrow> um_rx_base n rx \<and> r_RX_Next_Highest rx = n \<and> r_window rx = []"

definition um_mid :: "u32 \<Rightarrow> bytes \<Rightarrow> nat \<Rightarrow> um_rx \<Rightarrow> bool" where
  "um_mid n d k rx \<longleftrightarrow> um_rx_base n rx \<and> r_RX_Next_Highest rx = (n + 1) mod r_mod rx \<and> 0 < k \<and> k < length d \<and>
    (\<exists>s b. r_window rx = [(n, s)] \<and> s_segments s = [] \<and> s_sdu s = Some b \<and> s_next_expected_so s = of_nat k \<and>
      s_total_sdu_length s = 0 \<and> bb_room d b \<and> bb_n b = k \<and> bb_data b = take k d)"

lemma base_self:
  assumes cfg: "um_cfg_ok rx" and n: "n < r_mod rx" and h: "r_RX_Next_Highest rx = (n + 1) mod r_mod rx"
  shows "sn_in_reassembly_window rx n"
proof -
  let ?m = "uint (r_mod rx)" and ?w = "uint (r_UM_Window_Size rx)"
  have m: "?m dvd 2 ^ 32" "?m = 2 * ?w" "1 < ?w" using cfg by (auto simp: um_cfg_ok_def)
  have "uint (r_RX_Next_Highest rx) mod ?m = (uint n + 1) mod ?m"
    using m(1) by (simp add: h uint_mod_distrib uint_word_ariths mod_mod_cancel)
  then have "(uint n - ?w - uint (r_RX_Next_Highest rx)) mod ?m = (uint n - ?w - (uint n + 1)) mod ?m"
    by (rule mod_diff_cong [OF refl])
  also have "\<dots> = (- 1 - ?w) mod (2 * ?w)" using m(2) by (simp add: algebra_simps)
  also have "\<dots> = (?w - 1) mod (2 * ?w)" using mod_add_self2 [of "- 1 - ?w" "2 * ?w"] by (simp add: algebra_simps)
  also have "\<dots> = ?w - 1" using m(3) by (simp add: mod_pos_pos_trivial)
  finally have "uint (RX_MOD_NR_BASE rx n) = ?w - 1"
    unfolding uint_base [OF cfg] by (simp add: algebra_simps)
  then show ?thesis using in_window_iff [OF cfg] by (simp add: word_less_def)
qed

text \<open>The PDU that a transmitter builds, in memory that goes on behind it.\<close>

definition um_carries :: "rlc_um_nr_pdu_header \<Rightarrow> bytes \<Rightarrow> bytes \<Rightarrow> nat \<Rightarrow> bool" where
  "um_carries h chunk payload nof \<longleftrightarrow> (\<exists>rest. payload = um_header_bytes h @ chunk @ rest) \<and>
    nof = rlc_um_nr_packed_length h + length chunk \<and> um_header_ok h"

definition um_room_for :: "bytes \<Rightarrow> bytes \<Rightarrow> bool" where
  "um_room_for mem d \<longleftrightarrow> length mem < 2 ^ 32 \<and> SRSRAN_BUFFER_HEADER_OFFSET + 4 + length d \<le> length mem"

lemma um_receive:
  assumes c: "um_carries h chunk payload nof" and sz: "u_sn_size h = r_sn_size rx"
    and m: "um_room_for mem d" "length chunk \<le> length d"
  shows "\<exists>b. bb_room d b \<and> bb_n b = length chunk \<and> bb_data b = chunk \<and>
    um_rx_handle_data_pdu mem payload nof rx =
      (if u_si h = full_sdu then Some ([b], rx)
       else if sn_invalid_for_rx_buffer rx (ucast (u_sn h)) then Some ([], rx)
       else um_handle_rx_buffer_update (ucast (u_sn h)) (um_place \<lparr>up_header = h, up_buf = b\<rparr> rx))"
proof -
  obtain rest where p: "payload = um_header_bytes h @ chunk @ rest" "nof = rlc_um_nr_packed_length h + length chunk" "um_header_ok h"
    using c by (auto simp: um_carries_def)
  have hdr: "rlc_um_nr_read_data_pdu_header payload (r_sn_size rx) um_header_new = Some (rlc_um_nr_packed_length h, h)"
    using um_read_write [OF p(3)] unfolding p(1) sz .
  have "SRSRAN_BUFFER_HEADER_OFFSET + nof \<le> length mem" "length mem < 2 ^ 32"
    using m p(2) packed_length_le [of h] by (simp_all add: um_room_for_def)
  from strip_header_ok [OF p(1,2) this] obtain b where
    b: "rlc_um_nr_strip_pdu_header mem h payload nof = Some b" "bb_ok b" "bb_data b = chunk" "bb_n b = length chunk"
    "bb_msg b = SRSRAN_BUFFER_HEADER_OFFSET + rlc_um_nr_packed_length h" "length (bb_buffer b) = length mem"
    by blast
  moreover have "bb_room d b" using b(2,5,6) m(1) packed_length_le [of h] by (simp add: bb_room_def um_room_for_def)
  ultimately show ?thesis using hdr by (intro exI [of _ b]) (simp add: um_rx_handle_data_pdu_def)
qed

lemma not_invalid: "um_rx_base n rx \<Longrightarrow> \<not> sn_invalid_for_rx_buffer rx n"
  by (simp add: um_rx_base_def invalid_iff)

lemma um_update_timer_keeps:
  "um_idle n (um_update_timer rx) = um_idle n rx" "um_mid n d k (um_update_timer rx) = um_mid n d k rx"
  "r_sn_size (um_update_timer rx) = r_sn_size rx"
  using um_update_timer_same [of rx] by (auto simp: um_idle_def um_mid_def um_rx_base_def um_cfg_ok_def)

lemma so_word: "unat (u_so h) = k \<Longrightarrow> (ucast (u_so h) :: u32) = of_nat k"
  by auto

text \<open>The first segment.\<close>

definition um_begun :: "byte_buffer \<Rightarrow> um_segments" where
  "um_begun b = um_segments_new\<lparr>s_sdu := Some b, s_next_expected_so := of_nat (bb_n b)\<rparr>"

lemma um_first_placed:
  assumes idle: "um_idle n rx" and h: "u_si h = first_segment" "ucast (u_sn h) = n" "u_so h = 0"
  shows "um_handle_rx_buffer_update n (um_place \<lparr>up_header = h, up_buf = b\<rparr> rx) =
    Some ([], um_update_timer (rx\<lparr>r_window := [(n, um_begun b)], r_RX_Next_Highest := (n + 1) mod r_mod rx\<rparr>))"
proof -
  have base: "um_cfg_ok rx" "r_sdu rx = None" "n < r_mod rx" "r_RX_Next_Reassembly rx = n" "r_RX_Next_Highest rx = n" "r_window rx = []"
    using idle by (simp_all add: um_idle_def um_rx_base_def)
  let ?p = "\<lparr>up_header = h, up_buf = b\<rparr>"
  let ?s = "um_segments_new\<lparr>s_segments := [(0, ?p)]\<rparr>"
  have place: "um_place ?p rx = rx\<lparr>r_window := [(n, ?s)]\<rparr>"
    using h base(6) by (simp add: um_place_def update_total_sdu_length_def um_segments_new_def map_insert_def)
  have re: "um_reassemble None (s_segments ?s) ?s = Some (Um_Incomplete (um_begun b))"
    using h(3) by (subst um_reassemble.simps) (simp add: um_reassemble.simps [of _ "[]"] um_segments_new_def um_begun_def)
  let ?r = "rx\<lparr>r_window := [(n, um_begun b)]\<rparr>"
  have win: "sn_in_reassembly_window ?r = sn_in_reassembly_window rx" by (rule base_cong [THEN conjunct2]) simp_all
  have out: "\<not> sn_in_reassembly_window ?r n"
    using base_top [OF base(1)] base(5) unfolding win in_window_iff [OF base(1)] by simp
  let ?h = "?r\<lparr>r_RX_Next_Highest := (n + 1) mod r_mod rx\<rparr>"
  have "um_cfg_ok ?h" using base(1) by (simp add: um_cfg_ok_def)
  then have "sn_in_reassembly_window ?h n" using base(3) by (intro base_self) simp_all
  moreover have "sn_in_reassembly_window (?h\<lparr>r_window := w, r_num_lost_pdus := l\<rparr>) = sn_in_reassembly_window ?h" for w l
    by (rule base_cong [THEN conjunct2]) simp_all
  ultimately have mv: "um_move_window n ?r = ?h" using base(4) by (simp add: um_move_window_def Let_def)
  show ?thesis
    using re out mv base(2) unfolding place by (simp add: um_handle_rx_buffer_update_def)
qed

lemma um_rx_first:
  assumes idle: "um_idle n rx" and c: "um_carries h chunk payload nof" and sz: "u_sn_size h = r_sn_size rx"
    and h: "u_si h = first_segment" "ucast (u_sn h) = n" "u_so h = 0"
    and m: "um_room_for mem d" and k: "chunk = take k d" "0 < k" "k < length d"
  shows "\<exists>rx'. um_rx_handle_data_pdu mem payload nof rx = Some ([], rx') \<and> um_mid n d k rx' \<and> r_sn_size rx' = r_sn_size rx"
proof -
  have len: "length chunk = k" using k by simp
  obtain b where b: "bb_room d b" "bb_n b = k" "bb_data b = take k d" and
    eq: "um_rx_handle_data_pdu mem payload nof rx = um_handle_rx_buffer_update n (um_place \<lparr>up_header = h, up_buf = b\<rparr> rx)"
    using um_receive [OF c sz m] len k not_invalid [of n rx] idle h(1,2) by (auto simp: um_idle_def)
  have "um_mid n d k (rx\<lparr>r_window := [(n, um_begun b)], r_RX_Next_Highest := (n + 1) mod r_mod rx\<rparr>)"
    using idle b k by (simp add: um_mid_def um_idle_def um_rx_base_def um_cfg_ok_def um_segments_new_def um_begun_def)
  then show ?thesis unfolding eq um_first_placed [OF idle h] by (simp add: um_update_timer_keeps)
qed

text \<open>A later segment, the last one included.\<close>

lemma um_rx_later:
  assumes mid: "um_mid n d j rx" and c: "um_carries h chunk payload nof" and sz: "u_sn_size h = r_sn_size rx"
    and h: "if j + k = length d then u_si h = last_segment else u_si h = neither_first_nor_last_segment"
      "ucast (u_sn h) = n" "unat (u_so h) = j"
    and m: "um_room_for mem d" and k: "chunk = take k (drop j d)" "0 < k" "j + k \<le> length d"
  shows "\<exists>out rx'. um_rx_handle_data_pdu mem payload nof rx = Some (out, rx') \<and> r_sn_size rx' = r_sn_size rx \<and>
    (if j + k = length d then um_idle ((n + 1) mod r_mod rx) rx' \<and> (\<exists>b. out = [b] \<and> bb_ok b \<and> bb_data b = d)
     else out = [] \<and> um_mid n d (j + k) rx')"
proof -
  have len: "length chunk = k" "length chunk \<le> length d" "u_si h \<noteq> full_sdu" using k h by (auto split: if_splits)
  obtain b where b: "bb_room d b" "bb_n b = k" "bb_data b = take k (drop j d)" and
    eq: "um_rx_handle_data_pdu mem payload nof rx = um_handle_rx_buffer_update n (um_place \<lparr>up_header = h, up_buf = b\<rparr> rx)"
    using um_receive [OF c sz m len(2)] len k(1) not_invalid [of n rx] mid h(2) by (auto simp: um_mid_def)
  have base: "um_cfg_ok rx" "r_sdu rx = None" "n < r_mod rx" "r_RX_Next_Reassembly rx = n" "r_RX_Next_Highest rx = (n + 1) mod r_mod rx"
    "0 < j" "j < length d"
    using mid by (simp_all add: um_mid_def um_rx_base_def)
  obtain s a where s: "r_window rx = [(n, s)]" "s_segments s = []" "s_sdu s = Some a" "s_next_expected_so s = of_nat j"
      "s_total_sdu_length s = 0" "bb_room d a" "bb_n a = j" "bb_data a = take j d"
    using mid by (auto simp: um_mid_def)
  have d32: "length d < 2 ^ 32" using m by (simp add: um_room_for_def)
  obtain a' where a': "um_append_segment None a b = Inr a'" "bb_room d a'" "bb_n a' = j + k" "bb_data a' = take (j + k) d"
    using append_segment_ok [OF s(6) _ _ b(1)] s(7,8) b(2,3) k(3) base(7) by auto
  let ?p = "\<lparr>up_header = h, up_buf = b\<rparr>"
  let ?t = "if j + k = length d then of_nat (length d) else 0 :: u32"
  let ?s = "s\<lparr>s_segments := [(of_nat j, ?p)], s_total_sdu_length := ?t\<rparr>"
  let ?s' = "?s\<lparr>s_sdu := Some a', s_next_expected_so := of_nat (j + k), s_segments := []\<rparr>"
  have so: "(ucast (u_so h) :: u32) = of_nat j" by (rule so_word [OF h(3)])
  have "update_total_sdu_length ?p s = s\<lparr>s_total_sdu_length := ?t\<rparr>"
    using h(1) so s(5) b(2) by (auto simp: update_total_sdu_length_def split: if_splits) (metis of_nat_add)
  then have place: "um_place ?p rx = rx\<lparr>r_window := [(n, ?s)]\<rparr>"
    using h(2) so s(1,2) by (simp add: um_place_def map_insert_def)
  have nz: "(of_nat i :: u32) \<noteq> 0" if "0 < i" "i \<le> length d" for i
  proof -
    have "unat (of_nat i :: u32) = i" using that d32 by (intro unat_of_nat_eq) simp
    then show ?thesis using that(1) by (metis less_numeral_extra(3) unat_0)
  qed
  have j0: "(of_nat j :: u32) \<noteq> 0" by (rule nz) (use base in simp_all)
  have inw: "sn_in_reassembly_window rx n" by (rule base_self [OF base(1,3,5)])
  have win: "sn_in_reassembly_window (rx\<lparr>r_window := w\<rparr>) = sn_in_reassembly_window rx" for w
    by (rule base_cong [THEN conjunct2]) simp_all
  show ?thesis
  proof (cases "j + k = length d")
    case True
    then have tot: "(of_nat j + of_nat k :: u32) = of_nat (length d)" by (metis of_nat_add)
    have re: "um_reassemble None (s_segments ?s) ?s = Some (Um_Complete ?s')"
      using so j0 s(3,4) b(2) a'(1) tot True by (subst um_reassemble.simps) simp
    have "um_handle_rx_buffer_update n (um_place ?p rx) =
        Some ([a'], um_update_timer (rx\<lparr>r_window := [], r_RX_Next_Reassembly := r_RX_Next_Highest rx\<rparr>))"
      using re base(2,4) unfolding place by (simp add: um_handle_rx_buffer_update_def um_after_delivery_def)
    moreover have "um_idle ((n + 1) mod r_mod rx) (rx\<lparr>r_window := [], r_RX_Next_Reassembly := r_RX_Next_Highest rx\<rparr>)"
    proof -
      have "0 < r_mod rx" using base(1) by (auto simp: um_cfg_ok_def)
      then have "(n + 1) mod r_mod rx < r_mod rx" by (metis word_mod_less_divisor)
      then show ?thesis using base by (simp add: um_idle_def um_rx_base_def um_cfg_ok_def)
    qed
    ultimately show ?thesis
      using True a' unfolding eq by (simp add: um_update_timer_keeps bb_room_def)
  next
    case False
    have "(of_nat j + of_nat k :: u32) \<noteq> 0" using nz [of "j + k"] k base(6) by simp
    then have re: "um_reassemble None (s_segments ?s) ?s = Some (Um_Incomplete ?s')"
      using so j0 s(3,4) b(2) a'(1) False by (subst um_reassemble.simps) (simp add: um_reassemble.simps [of _ "[]"])
    have "um_handle_rx_buffer_update n (um_place ?p rx) = Some ([], um_update_timer (rx\<lparr>r_window := [(n, ?s')]\<rparr>))"
      using re base(2) inw unfolding place by (simp add: um_handle_rx_buffer_update_def win)
    moreover have "um_mid n d (j + k) (rx\<lparr>r_window := [(n, ?s')]\<rparr>)"
      using base a' k False by (simp add: um_mid_def um_rx_base_def um_cfg_ok_def)
    ultimately show ?thesis using False unfolding eq by (simp add: um_update_timer_keeps)
  qed
qed

section \<open>The transmitter and the receiver\<close>

lemma ucast_small: "(x :: u32) < 64 \<Longrightarrow> unat (ucast x :: u16) = unat x" "(x :: u32) < 64 \<Longrightarrow> (ucast (ucast x :: u16) :: u32) = x"
proof -
  assume "x < 64"
  then have "unat x < 64" by (simp add: word_less_nat_alt)
  then show u: "unat (ucast x :: u16) = unat x" by (simp add: unsigned_ucast_eq take_bit_nat_eq_self)
  have "unat (ucast (ucast x :: u16) :: u32) = unat (ucast x :: u16)" by (rule unat_ucast_up) simp
  then show "(ucast (ucast x :: u16) :: u32) = x" using u by (simp add: word_unat_eq_iff)
qed

lemma cur_header_ok:
  assumes "t_TX_Next tx < 64" "unat (t_next_so tx) < 2 ^ 16"
    "t_next_so tx \<noteq> 0 \<longleftrightarrow> si = last_segment \<or> si = neither_first_nor_last_segment" "si \<noteq> full_sdu"
  shows "um_header_ok (um_cur_header si tx)" "unat (u_so (um_cur_header si tx)) = unat (t_next_so tx)"
    "ucast (u_sn (um_cur_header si tx)) = t_TX_Next tx"
proof -
  show so: "unat (u_so (um_cur_header si tx)) = unat (t_next_so tx)"
    using assms(2) by (simp add: um_cur_header_def unsigned_ucast_eq take_bit_nat_eq_self)
  then have "u_so (um_cur_header si tx) \<noteq> 0 \<longleftrightarrow> t_next_so tx \<noteq> 0" by (metis unat_eq_0)
  moreover have "u_sn (um_cur_header si tx) < 64"
    using ucast_small(1) [OF assms(1)] assms(1) by (simp add: um_cur_header_def word_less_nat_alt)
  ultimately show "um_header_ok (um_cur_header si tx)"
    using assms(3,4) by (simp add: um_header_ok_def um_cur_header_def)
  show "ucast (u_sn (um_cur_header si tx)) = t_TX_Next tx" using ucast_small(2) [OF assms(1)] by (simp add: um_cur_header_def)
qed

definition um_work :: "um_tx \<Rightarrow> nat" where
  "um_work tx = sum_list (map (\<lambda>d. length d + 1) (um_queued tx)) + (case t_sdu tx of None \<Rightarrow> 0 | Some s \<Rightarrow> bb_n s)"

definition um_link_inv :: "bytes list \<Rightarrow> bytes list \<Rightarrow> um_tx \<Rightarrow> um_rx \<Rightarrow> bool" where
  "um_link_inv sdus out tx rx \<longleftrightarrow> um_tx_ok tx \<and> r_sn_size rx = um_size6bits \<and>
    (case t_sdu tx of
       None \<Rightarrow> um_idle (t_TX_Next tx) rx \<and> sdus = out @ um_queued tx
     | Some s \<Rightarrow> \<exists>d. um_mid (t_TX_Next tx) d (unat (t_next_so tx)) rx \<and> bb_data s = drop (unat (t_next_so tx)) d \<and>
         length d < 2 ^ 16 \<and> sdus = out @ d # um_queued tx)"

definition um_pass :: "byte_buffer \<Rightarrow> bytes \<Rightarrow> bytes \<Rightarrow> u32 \<Rightarrow> um_tx \<Rightarrow> um_rx \<Rightarrow> (byte_buffer list \<times> um_tx \<times> um_rx) option" where
  "um_pass pdu mem payload g tx rx =
    Option.bind (um_tx_build_data_pdu (Some pdu) payload g tx) (\<lambda>(len, payload, tx).
      if len = 0 then Some ([], tx, rx)
      else map_option (\<lambda>(out, rx). (out, tx, rx)) (um_rx_handle_data_pdu mem payload len rx))"

lemma idle_mod: "um_idle n rx \<Longrightarrow> r_sn_size rx = um_size6bits \<Longrightarrow> r_mod rx = 64"
  "um_mid n d k rx \<Longrightarrow> r_sn_size rx = um_size6bits \<Longrightarrow> r_mod rx = 64"
  by (auto simp: um_idle_def um_mid_def um_rx_base_def um_cfg_ok_def)

lemma um_queued_update [simp]: "um_queued (tx\<lparr>t_sdu := a, t_next_so := b\<rparr>) = um_queued tx"
  by (simp add: um_queued_def)

lemma um_pass_new:
  assumes inv: "um_link_inv sdus out tx rx" and idle: "t_sdu tx = None" "bbq_items (t_queue tx) \<noteq> []"
    and g: "um_grant_ok pdu g payload" and room: "\<forall>d \<in> set sdus. um_room_for mem d"
  shows "\<exists>out' tx' rx'. um_pass pdu mem payload g tx rx = Some (out', tx', rx') \<and>
    um_link_inv sdus (out @ map bb_data out') tx' rx' \<and> um_work tx' < um_work tx"
proof -
  obtain m ms where q: "bbq_items (t_queue tx) = m # ms" using idle(2) by (cases "bbq_items (t_queue tx)") auto
  have tx: "um_tx_ok tx" using inv by (simp add: um_link_inv_def)
  then obtain b where m: "m = Some b" "bb_ok b" "bb_n b < 2 ^ 16" using q by (auto simp: um_tx_ok_def)
  have sn: "t_TX_Next tx < 64" using tx by (simp add: um_tx_ok_def)
  have l: "um_idle (t_TX_Next tx) rx" "sdus = out @ bb_data b # map (\<lambda>m. bb_data (the m)) ms" "r_sn_size rx = um_size6bits"
    using inv idle(1) q m(1) by (simp_all add: um_link_inv_def um_queued_def)
  have rm: "um_room_for mem (bb_data b)" using room l(2) by simp
  have qd: "um_queued tx = bb_data b # map (\<lambda>m. bb_data (the m)) ms" by (simp add: um_queued_def q m(1))
  obtain q' k si tx' where q': "bbq_ok q'" "bbq_items q' = ms" and
    bd: "um_tx_build_data_pdu (Some pdu) payload g tx = Some (1 + k,
      um_header_bytes (um_cur_header si (tx\<lparr>t_next_so := 0\<rparr>)) @ take k (bb_data b) @ drop (1 + k) payload, tx')"
    and tx': "tx' = um_tx_after si k b (tx\<lparr>t_queue := q', t_sdu := Some b, t_next_so := 0\<rparr>)" and k: "k \<le> bb_n b"
    and si: "if si = full_sdu then k = bb_n b else si = first_segment \<and> 0 < k \<and> k < bb_n b"
    using um_build_new [OF tx idle(1) q [unfolded m(1)] g] by blast
  let ?h = "um_cur_header si (tx\<lparr>t_next_so := 0\<rparr>)"
  note after = um_tx_after_ok(1) [OF m(2) k m(3), of si "tx\<lparr>t_queue := q', t_sdu := Some b, t_next_so := 0\<rparr>"]
    um_tx_after_ok(2-4) [OF m(2) k m(3)]
  have lens: "length (take k (bb_data b)) = k" "length (bb_data b) = bb_n b" using k m(2) by simp_all
  have pl: "rlc_um_nr_packed_length ?h = 1" by (simp add: um_cur_header_def rlc_um_nr_packed_length_def)
  have ok': "um_tx_ok tx'" "um_queued tx' = map (\<lambda>m. bb_data (the m)) ms" "t_next_so tx' = of_nat k" "t_TX_Next tx' = t_TX_Next tx"
    if "si \<noteq> last_segment"
  proof -
    show "um_queued tx' = map (\<lambda>m. bb_data (the m)) ms" "t_next_so tx' = of_nat k" "t_TX_Next tx' = t_TX_Next tx"
      using that q'(2) by (simp_all add: tx' um_tx_after_def Let_def um_queued_def)
    have "unat (of_nat k :: u32) = k" using k m(3) by (intro unat_u32_small) simp
    then show "um_tx_ok tx'"
      using tx q q' that after k m(3) si unfolding tx' um_tx_ok_def
      by (auto simp: um_tx_after_def Let_def split: if_splits)
  qed
  show ?thesis
  proof (cases "si = full_sdu")
    case True
    then have kb: "k = bb_n b" using si by simp
    have hd: "um_header_ok \<lparr>u_si = full_sdu, u_sn_size = um_size6bits, u_sn = 0, u_so = 0\<rparr>" by (simp add: um_header_ok_def)
    have bytes: "um_header_bytes ?h = um_header_bytes \<lparr>u_si = full_sdu, u_sn_size = um_size6bits, u_sn = 0, u_so = 0\<rparr>"
      using True by (simp add: um_header_bytes_def um_cur_header_def)
    have c: "um_carries \<lparr>u_si = full_sdu, u_sn_size = um_size6bits, u_sn = 0, u_so = 0\<rparr> (bb_data b)
        (um_header_bytes ?h @ take k (bb_data b) @ drop (1 + k) payload) (1 + k)"
      unfolding um_carries_def bytes using hd kb lens by (auto simp: rlc_um_nr_packed_length_def)
    obtain c' where "bb_data c' = bb_data b" "um_rx_handle_data_pdu mem
        (um_header_bytes ?h @ take k (bb_data b) @ drop (1 + k) payload) (1 + k) rx = Some ([c'], rx)"
      using um_receive [OF c _ rm order_refl, of rx] l(3) by auto
    moreover have "t_sdu tx' = None" using after(1) kb by (simp add: tx')
    ultimately show ?thesis
      using bd ok' l qd True by (auto simp: um_pass_def um_link_inv_def um_work_def)
  next
    case False
    then have f: "si = first_segment" "0 < k" "k < bb_n b" using si by auto
    note ch = cur_header_ok [of "tx\<lparr>t_next_so := 0\<rparr>" si, simplified, OF sn]
    have hd: "um_header_ok ?h" "u_so ?h = 0" "ucast (u_sn ?h) = t_TX_Next tx" using ch f(1) by (simp_all add: um_cur_header_def)
    have c: "um_carries ?h (take k (bb_data b)) (um_header_bytes ?h @ take k (bb_data b) @ drop (1 + k) payload) (1 + k)"
      unfolding um_carries_def pl using hd lens by auto
    have "\<exists>rx'. um_rx_handle_data_pdu mem (um_header_bytes ?h @ take k (bb_data b) @ drop (1 + k) payload) (1 + k) rx = Some ([], rx') \<and>
        um_mid (t_TX_Next tx) (bb_data b) k rx' \<and> r_sn_size rx' = r_sn_size rx"
      by (rule um_rx_first [OF l(1) c _ _ hd(3,2) rm refl f(2)]) (use f l(3) lens in \<open>simp_all add: um_cur_header_def\<close>)
    then obtain rx' where rx': "um_rx_handle_data_pdu mem (um_header_bytes ?h @ take k (bb_data b) @ drop (1 + k) payload) (1 + k) rx = Some ([], rx')"
        "um_mid (t_TX_Next tx) (bb_data b) k rx'" "r_sn_size rx' = r_sn_size rx" by blast
    have s': "t_sdu tx' = Some (strip k b)" using after(1) f(3) by (simp add: tx')
    have u: "unat (of_nat k :: u32) = k" using k m(3) by (intro unat_u32_small) simp
    have "um_pass pdu mem payload g tx rx = Some ([], tx', rx')" using bd rx'(1) by (simp add: um_pass_def)
    moreover have "um_link_inv sdus out tx' rx'"
      using ok' s' rx'(2,3) l after(3) lens(2) m(3) f(1) u by (auto simp: um_link_inv_def)
    moreover have "um_work tx' < um_work tx"
      using ok' s' qd idle(1) after(4) lens(2) f by (simp add: um_work_def)
    ultimately show ?thesis by (intro exI [of _ "[]"]) auto
  qed
qed

lemma um_pass_rest:
  assumes inv: "um_link_inv sdus out tx rx" and s: "t_sdu tx = Some s"
    and g: "um_grant_ok pdu g payload" and room: "\<forall>d \<in> set sdus. um_room_for mem d"
  shows "\<exists>out' tx' rx'. um_pass pdu mem payload g tx rx = Some (out', tx', rx') \<and>
    um_link_inv sdus (out @ map bb_data out') tx' rx' \<and> um_work tx' < um_work tx"
proof -
  let ?n = "t_TX_Next tx" and ?j = "unat (t_next_so tx)"
  have tx: "um_tx_ok tx" using inv by (simp add: um_link_inv_def)
  have b: "bb_ok s" "0 < bb_n s" "0 < ?j" "?j + bb_n s < 2 ^ 16" and sn: "?n < 64" and md: "t_mod tx = 64"
    using tx s by (simp_all add: um_tx_ok_def)
  obtain d where d: "um_mid ?n d ?j rx" "bb_data s = drop ?j d" "length d < 2 ^ 16" "sdus = out @ d # um_queued tx"
    and sz: "r_sn_size rx = um_size6bits"
    using inv s by (auto simp: um_link_inv_def)
  have rm: "um_room_for mem d" using room d(4) by simp
  have lens: "bb_n s = length d - ?j" "?j < length d" using length_bb_data [OF b(1)] d(1,2) by (auto simp: um_mid_def)
  obtain k si tx' where bd: "um_tx_build_data_pdu (Some pdu) payload g tx = Some (3 + k,
      um_header_bytes (um_cur_header si tx) @ take k (bb_data s) @ drop (3 + k) payload, tx')"
    and tx': "tx' = um_tx_after si k s tx" and k: "k \<le> bb_n s" "0 < k"
    and si: "if si = last_segment then k = bb_n s else si = neither_first_nor_last_segment \<and> k < bb_n s"
    using um_build_rest [OF tx s g] by blast
  let ?h = "um_cur_header si tx"
  have s16: "bb_n s < 2 ^ 16" using b by simp
  note after = um_tx_after_ok(1) [OF b(1) k(1) s16, of si tx] um_tx_after_ok(2-4) [OF b(1) k(1) s16]
  have so: "t_next_so tx \<noteq> 0 \<longleftrightarrow> si = last_segment \<or> si = neither_first_nor_last_segment" "si \<noteq> full_sdu" "?j < 2 ^ 16"
    using b(3,4) si by (auto split: if_splits)
  note ch = cur_header_ok [OF sn so(3,1,2)]
  have "u_so ?h \<noteq> 0" using ch(2) b(3) by auto
  then have pl: "rlc_um_nr_packed_length ?h = 3" using so(2) by (simp add: um_cur_header_def rlc_um_nr_packed_length_def)
  have c: "um_carries ?h (take k (drop ?j d)) (um_header_bytes ?h @ take k (bb_data s) @ drop (3 + k) payload) (3 + k)"
    unfolding um_carries_def pl d(2) using ch(1) k(1) lens by auto
  have last: "?j + k = length d \<longleftrightarrow> k = bb_n s" using lens k(1) by auto
  have "\<exists>out' rx'. um_rx_handle_data_pdu mem (um_header_bytes ?h @ take k (bb_data s) @ drop (3 + k) payload) (3 + k) rx = Some (out', rx') \<and>
      r_sn_size rx' = r_sn_size rx \<and>
      (if ?j + k = length d then um_idle ((?n + 1) mod r_mod rx) rx' \<and> (\<exists>b. out' = [b] \<and> bb_ok b \<and> bb_data b = d)
       else out' = [] \<and> um_mid ?n d (?j + k) rx')"
    by (rule um_rx_later [OF d(1) c _ _ ch(3,2) rm refl k(2)])
      (use sz si last lens k(1) in \<open>auto simp: um_cur_header_def split: if_splits\<close>)
  then obtain out' rx' where rx': "um_rx_handle_data_pdu mem (um_header_bytes ?h @ take k (bb_data s) @ drop (3 + k) payload) (3 + k) rx = Some (out', rx')"
    "r_sn_size rx' = r_sn_size rx" "if ?j + k = length d then um_idle ((?n + 1) mod r_mod rx) rx' \<and> (\<exists>b. out' = [b] \<and> bb_ok b \<and> bb_data b = d)
       else out' = [] \<and> um_mid ?n d (?j + k) rx'" by blast
  have pass: "um_pass pdu mem payload g tx rx = Some (out', tx', rx')" using bd rx'(1) by (simp add: um_pass_def)
  have q: "um_queued tx' = um_queued tx" by (simp add: tx' um_tx_after_def Let_def um_queued_def)
  have m64: "r_mod rx = 64" by (rule idle_mod(2) [OF d(1) sz])
  show ?thesis
  proof (cases "k = bb_n s")
    case True
    then have l: "si = last_segment" "t_sdu tx' = None" using si after(1) by (auto simp: tx' split: if_splits)
    have n': "t_TX_Next tx' = (?n + 1) mod 64" using l(1) md by (simp add: tx' um_tx_after_def Let_def)
    obtain c where c: "out' = [c]" "bb_data c = d" "um_idle ((?n + 1) mod 64) rx'" using rx'(3) True last m64 by auto
    have "(?n + 1) mod 64 < 64" by (rule word_mod_less_divisor) simp
    then have "um_tx_ok tx'" using tx l n' unfolding um_tx_ok_def by (auto simp: tx' um_tx_after_def Let_def)
    then have "um_link_inv sdus (out @ map bb_data out') tx' rx'"
      using l(2) n' c q rx'(2) sz d(4) by (simp add: um_link_inv_def)
    moreover have "um_work tx' < um_work tx" using l(2) q s b(2) by (simp add: um_work_def)
    ultimately show ?thesis using pass by blast
  next
    case False
    then have l: "si = neither_first_nor_last_segment" "t_sdu tx' = Some (strip k s)" using si after(1) by (auto simp: tx' split: if_splits)
    have o: "out' = []" "um_mid ?n d (?j + k) rx'" using rx'(3) False last by auto
    have n': "t_TX_Next tx' = ?n" "t_next_so tx' = t_next_so tx + of_nat k" using l(1) by (simp_all add: tx' um_tx_after_def Let_def)
    have "t_next_so tx' = of_nat (?j + k)" unfolding n' by simp
    then have so': "unat (t_next_so tx') = ?j + k" using unat_u32_small [of "?j + k"] b(4) k(1) by simp
    have "um_tx_ok tx'"
      using tx l n'(1) so' after(2-4) b(4) k False unfolding um_tx_ok_def by (auto simp: tx' um_tx_after_def Let_def)
    then have "um_link_inv sdus (out @ map bb_data out') tx' rx'"
      using l(2) n'(1) so' o q rx'(2) sz d(2-4) after(3) by (simp add: um_link_inv_def add.commute)
    moreover have "um_work tx' < um_work tx" using l(2) q s after(4) k by (simp add: um_work_def)
    ultimately show ?thesis using pass by blast
  qed
qed

text \<open>One grant, whatever there is to send.\<close>

lemma um_pass_ok:
  assumes inv: "um_link_inv sdus out tx rx" and g: "um_grant_ok pdu g payload" and room: "\<forall>d \<in> set sdus. um_room_for mem d"
  shows "\<exists>out' tx' rx'. um_pass pdu mem payload g tx rx = Some (out', tx', rx') \<and>
    um_link_inv sdus (out @ map bb_data out') tx' rx' \<and> um_work tx' \<le> um_work tx - 1"
proof (cases "t_sdu tx")
  case (Some s)
  then show ?thesis using um_pass_rest [OF inv _ g room] by fastforce
next
  case None
  show ?thesis
  proof (cases "bbq_items (t_queue tx) = []")
    case True
    then have "um_tx_build_data_pdu (Some pdu) payload g tx = Some (0, payload, tx)" "um_work tx = 0"
      using None by (simp_all add: um_tx_build_data_pdu_def um_tx_has_data_def bbq_is_empty_iff um_work_def um_queued_def)
    then show ?thesis using inv by (intro exI [of _ "[]"] exI [of _ tx] exI [of _ rx]) (simp add: um_pass_def)
  next
    case False
    then show ?thesis using um_pass_new [OF inv None _ g room] by fastforce
  qed
qed

end
