(* ===== verification/Rlc_Um_Nr_Properties.thy ===== *)
theory Rlc_Um_Nr_Properties
  imports Rlc_Um_Nr_Link
begin

text \<open>
  The properties of the NR UM RLC entity: delivery over a channel that keeps order, safety of reception whatever the
  channel does, the size of PDUs, suspension, and what goes wrong.
\<close>

section \<open>Delivery\<close>

text \<open>One transmission opportunity of the first entity, its PDU taken to the second.\<close>

definition um_link_step :: "byte_buffer \<Rightarrow> bytes \<Rightarrow> bytes \<Rightarrow> u32 \<Rightarrow> um_entity \<times> um_entity \<Rightarrow> (byte_buffer list \<times> um_entity \<times> um_entity) option" where
  "um_link_step pdu mem payload g ab =
    Option.bind (um_read_pdu (Some pdu) payload g (fst ab)) (\<lambda>(len, payload, a).
      if len = 0 then Some ([], a, snd ab)
      else map_option (\<lambda>(out, b). (out, a, b)) (um_write_pdu mem payload len (snd ab)))"

primrec um_link_run :: "byte_buffer \<Rightarrow> bytes \<Rightarrow> bytes \<Rightarrow> u32 list \<Rightarrow> um_entity \<times> um_entity \<Rightarrow> (byte_buffer list \<times> um_entity \<times> um_entity) option" where
  "um_link_run pdu mem payload [] ab = Some ([], ab)"
| "um_link_run pdu mem payload (g # gs) ab =
    Option.bind (um_link_step pdu mem payload g ab) (\<lambda>(out, ab).
      map_option (\<lambda>(out', ab). (out @ out', ab)) (um_link_run pdu mem payload gs ab))"

primrec um_write_sdus :: "byte_buffer list \<Rightarrow> um_entity \<Rightarrow> um_entity option" where
  "um_write_sdus [] e = Some e"
| "um_write_sdus (b # bs) e = Option.bind (um_write_sdu (Some b) e) (um_write_sdus bs)"

definition um_running :: "um_tx \<Rightarrow> um_rx \<Rightarrow> um_entity \<times> um_entity \<Rightarrow> bool" where
  "um_running tx rx ab \<longleftrightarrow> e_tx (fst ab) = Some tx \<and> e_tx_enabled (fst ab) \<and> e_rx (snd ab) = Some rx \<and> e_rx_enabled (snd ab)"

lemma um_link_step_pass:
  assumes "um_running tx rx ab" "um_pass pdu mem payload g tx rx = Some (out, tx', rx')"
  shows "\<exists>ab'. um_link_step pdu mem payload g ab = Some (out, ab') \<and> um_running tx' rx' ab'"
proof -
  obtain len p t where bd: "um_tx_build_data_pdu (Some pdu) payload g tx = Some (len, p, t)"
    using assms(2) by (auto simp: um_pass_def bind_eq_Some_conv)
  show ?thesis
    using assms bd by (cases "len = 0")
      (auto simp: um_running_def um_link_step_def um_read_pdu_def um_write_pdu_def um_pass_def Let_def)
qed

lemma um_link_run_ok:
  assumes "um_running tx rx ab" "um_link_inv sdus out tx rx" "\<forall>g \<in> set gs. um_grant_ok pdu g payload" "\<forall>d \<in> set sdus. um_room_for mem d"
  shows "\<exists>out' ab' tx' rx'. um_link_run pdu mem payload gs ab = Some (out', ab') \<and> um_running tx' rx' ab' \<and>
    um_link_inv sdus (out @ map bb_data out') tx' rx' \<and> um_work tx' \<le> um_work tx - length gs"
  using assms
proof (induction gs arbitrary: ab out tx rx)
  case Nil
  then show ?case by auto
next
  case (Cons g gs)
  obtain o1 tx1 rx1 where p: "um_pass pdu mem payload g tx rx = Some (o1, tx1, rx1)" "um_link_inv sdus (out @ map bb_data o1) tx1 rx1"
    "um_work tx1 \<le> um_work tx - 1"
    using um_pass_ok [OF Cons.prems(2) _ Cons.prems(4), of pdu g payload] Cons.prems(3) by auto
  obtain ab1 where ab1: "um_link_step pdu mem payload g ab = Some (o1, ab1)" "um_running tx1 rx1 ab1"
    using um_link_step_pass [OF Cons.prems(1) p(1)] by blast
  obtain o2 ab2 tx2 rx2 where r: "um_link_run pdu mem payload gs ab1 = Some (o2, ab2)" "um_running tx2 rx2 ab2"
    "um_link_inv sdus (out @ map bb_data o1 @ map bb_data o2) tx2 rx2" "um_work tx2 \<le> um_work tx1 - length gs"
    using Cons.IH [OF ab1(2) p(2)] Cons.prems(3,4) by auto
  then show ?case using ab1(1) p(3)
    by (intro exI [of _ "o1 @ o2"] exI [of _ ab2] exI [of _ tx2] exI [of _ rx2]) (auto simp: split_beta)
qed

lemma um_link_inv_done:
  assumes inv: "um_link_inv sdus out tx rx"
  shows "out = take (length out) sdus" "um_work tx = 0 \<Longrightarrow> out = sdus"
proof -
  show "out = take (length out) sdus" using inv by (auto simp: um_link_inv_def split: option.splits)
  assume w: "um_work tx = 0"
  then have "um_queued tx = []" by (cases "um_queued tx") (auto simp: um_work_def)
  moreover have "t_sdu tx = None"
  proof (rule ccontr)
    assume "t_sdu tx \<noteq> None"
    then obtain s where "t_sdu tx = Some s" by auto
    then show False using w inv by (simp add: um_work_def um_link_inv_def um_tx_ok_def)
  qed
  ultimately show "out = sdus" using inv by (simp add: um_link_inv_def)
qed

text \<open>The start: a configured entity and SDUs written to it.\<close>

definition grow_ok :: "(nat \<Rightarrow> nat \<Rightarrow> nat) \<Rightarrow> bool" where
  "grow_ok grow \<longleftrightarrow> (\<forall>old new. new \<le> grow old new \<and> grow old new \<le> 2 * old + new)"

definition um_fresh :: "um_config \<Rightarrow> nat \<Rightarrow> um_tx \<Rightarrow> bool" where
  "um_fresh cfg n tx \<longleftrightarrow> um_tx_ok tx \<and> t_sdu tx = None \<and> t_TX_Next tx = 0 \<and> length (bbq_items (t_queue tx)) = n \<and>
    unat (c_tx_queue_length cfg) \<le> bbq_capacity (t_queue tx)"

lemma um_configure_ok:
  assumes cfg: "c_sn_field_length cfg = um_size6bits" "unat (c_tx_queue_length cfg) \<le> 2 ^ 16" and g: "grow_ok grow"
  shows "\<exists>e tx rx. um_configure grow cfg (um_entity_new l) = Some e \<and> e_tx e = Some tx \<and> e_tx_enabled e \<and> e_rx e = Some rx \<and> e_rx_enabled e \<and>
    um_fresh cfg 0 tx \<and> um_idle 0 rx \<and> r_sn_size rx = um_size6bits"
proof -
  let ?n = "unat (c_tx_queue_length cfg)"
  let ?c = "cb_new 128 :: unique_byte_buffer circ"
  obtain c' where c': "cb_set_size grow ?n ?c = Some c'" "?n \<le> cb_max_size c'" "cb_ok c'" "cb_list c' = []"
    using cb_set_size_ok [of ?c ?n grow] g by (auto simp: grow_ok_def)
  have "grow 128 ?n \<le> 2 * 128 + ?n" using g unfolding grow_ok_def by blast
  then have max: "cb_max_size c' \<le> 2 ^ 17"
    using c'(1) cfg(2) by (auto simp: cb_set_size_def cb_empty_def cb_new_def cb_max_size_def split: if_splits)
  let ?q = "(bbq_new 128)\<lparr>bq_queue := c'\<rparr>"
  have q: "bbq_resize grow (c_tx_queue_length cfg) (bbq_new 128) = Some ?q" using c'(1) by (simp add: bbq_resize_def bbq_new_def)
  have qok: "bbq_ok ?q" "bbq_items ?q = []" "?n \<le> bbq_capacity ?q"
    using c'(2-4) max by (simp_all add: bbq_ok_def bbq_items_def bbq_capacity_def bbq_new_def)
  let ?tx = "um_tx_new\<lparr>t_queue := ?q, t_sn_size := um_size6bits, t_is_mrb := c_is_mrb cfg, t_mod := 64, t_UM_Window_Size := 32,
      t_head_len_first := 1, t_head_len_segment := 3\<rparr>"
  have tx: "um_tx_configure grow um_size6bits (c_is_mrb cfg) (c_tx_queue_length cfg) um_tx_new = Some ?tx"
    using q by (simp add: um_tx_configure_def um_tx_new_def Let_def um_mod_def um_window_size_def rlc_um_nr_packed_length_def um_header_new_def)
  have "um_fresh cfg 0 ?tx" using qok by (simp add: um_fresh_def um_tx_ok_def um_tx_new_def)
  then show ?thesis
    using tx cfg(1) by (simp add: um_configure_def um_lost_pdus_def um_entity_new_def um_idle_def um_rx_base_def um_rx_configure_def um_rx_new_def um_cfg_ok_def)
qed

lemma um_write_sdus_ok:
  assumes "e_tx e = Some tx" "e_tx_enabled e" "um_fresh cfg n tx" "n + length bs \<le> unat (c_tx_queue_length cfg)"
    "\<forall>b \<in> set bs. bb_ok b \<and> bb_n b \<le> SRSRAN_MAX_BUFFER_SIZE_BYTES"
  shows "\<exists>e' tx'. um_write_sdus bs e = Some e' \<and> e_tx e' = Some tx' \<and> e_tx_enabled e' \<and> um_fresh cfg (n + length bs) tx' \<and>
    um_queued tx' = um_queued tx @ map bb_data bs"
  using assms
proof (induction bs arbitrary: e tx n)
  case Nil
  then show ?case by auto
next
  case (Cons b bs)
  have f: "bbq_ok (t_queue tx)" "length (bbq_items (t_queue tx)) < bbq_capacity (t_queue tx)" "bb_n b \<le> SRSRAN_MAX_BUFFER_SIZE_BYTES" "bb_ok b"
    using Cons.prems(3-5) by (auto simp: um_fresh_def um_tx_ok_def)
  obtain q where q: "bbq_try_write (Some b) (t_queue tx) = Some (True, q)" "bbq_ok q" "bbq_capacity q = bbq_capacity (t_queue tx)"
    "bbq_items q = bbq_items (t_queue tx) @ [Some b]"
    using bbq_try_write_ok [OF f(1,3)] f(2) by auto
  let ?tx = "tx\<lparr>t_queue := q\<rparr>"
  have "bb_n b < 2 ^ 16" using f(3) by (simp add: SRSRAN_MAX_BUFFER_SIZE_BYTES_def SRSRAN_BUFFER_HEADER_OFFSET_def)
  then have fresh: "um_fresh cfg (Suc n) ?tx" "um_queued ?tx = um_queued tx @ [bb_data b]"
    using Cons.prems(3) q f(4) by (auto simp: um_fresh_def um_tx_ok_def um_queued_def)
  obtain e1 where e1: "um_write_sdu (Some b) e = Some e1" "e_tx e1 = Some ?tx" "e_tx_enabled e1"
    using Cons.prems(1,2) q(1) by (simp add: um_write_sdu_def um_tx_try_write_sdu_def Let_def)
  show ?case
    using Cons.IH [OF e1(2,3) fresh(1)] Cons.prems(4,5) fresh(2) e1(1) by auto
qed

text \<open>
  C1: with sequence numbers of 6 bits and a channel that keeps order and loses nothing, the SDUs written to one entity come
  out of its peer unchanged and in order, through segmentation and reassembly; every grant of at least five octets
  advances, and once there are as many grants as octets and SDUs, all of them are there.
\<close>

theorem um_nr_delivers:
  assumes ca: "c_sn_field_length ca = um_size6bits" "unat (c_tx_queue_length ca) \<le> 2 ^ 16"
    and cb: "c_sn_field_length cb = um_size6bits" "unat (c_tx_queue_length cb) \<le> 2 ^ 16"
    and grow: "grow_ok grow"
    and sdus: "length sdus \<le> unat (c_tx_queue_length ca)"
      "\<forall>b \<in> set sdus. bb_ok b \<and> bb_n b \<le> SRSRAN_MAX_BUFFER_SIZE_BYTES \<and> um_room_for mem (bb_data b)"
    and grants: "\<forall>g \<in> set gs. um_grant_ok pdu g payload"
  shows "\<exists>a0 b0 a1 out ab. um_configure grow ca (um_entity_new la) = Some a0 \<and> um_configure grow cb (um_entity_new lb) = Some b0 \<and>
    um_write_sdus sdus a0 = Some a1 \<and> um_link_run pdu mem payload gs (a1, b0) = Some (out, ab) \<and>
    map bb_data out = take (length out) (map bb_data sdus) \<and>
    (if sum_list (map (\<lambda>b. bb_n b + 1) sdus) \<le> length gs then map bb_data out = map bb_data sdus else True)"
proof -
  obtain a0 tx rx0 where a0: "um_configure grow ca (um_entity_new la) = Some a0" "e_tx a0 = Some tx" "e_tx_enabled a0" "um_fresh ca 0 tx"
    using um_configure_ok [OF ca grow, of la] by blast
  obtain b0 tx0 rx where b0: "um_configure grow cb (um_entity_new lb) = Some b0" "e_rx b0 = Some rx" "e_rx_enabled b0" "um_idle 0 rx"
    "r_sn_size rx = um_size6bits"
    using um_configure_ok [OF cb grow, of lb] by blast
  have q0: "um_queued tx = []" using a0(4) by (simp add: um_fresh_def um_queued_def)
  obtain a1 tx1 where a1: "um_write_sdus sdus a0 = Some a1" "e_tx a1 = Some tx1" "e_tx_enabled a1" "um_fresh ca (length sdus) tx1"
    "um_queued tx1 = map bb_data sdus"
    using um_write_sdus_ok [OF a0(2-4), of sdus] sdus q0 by auto
  have run: "um_running tx1 rx (a1, b0)" using a1(2,3) b0(2,3) by (simp add: um_running_def)
  have inv: "um_link_inv (map bb_data sdus) [] tx1 rx"
    using a1(4,5) b0(4,5) by (simp add: um_link_inv_def um_fresh_def)
  have "\<forall>d \<in> set (map bb_data sdus). um_room_for mem d" using sdus(2) by simp
  from um_link_run_ok [OF run inv grants this] obtain out ab tx2 rx2 where
    r: "um_link_run pdu mem payload gs (a1, b0) = Some (out, ab)" "um_link_inv (map bb_data sdus) (map bb_data out) tx2 rx2"
    "um_work tx2 \<le> um_work tx1 - length gs" by auto
  have "um_work tx1 = sum_list (map (\<lambda>d. length d + 1) (map bb_data sdus))" using a1(4,5) by (simp add: um_work_def um_fresh_def)
  also have "\<dots> = sum_list (map (\<lambda>b. bb_n b + 1) sdus)" using sdus(2) by (auto simp: o_def intro!: arg_cong [of _ _ sum_list] map_cong)
  finally have "um_work tx1 = \<dots>" .
  then show ?thesis using a0(1) b0(1) a1(1) r um_link_inv_done [OF r(2)] by auto
qed

definition um_ex_buf :: "bytes \<Rightarrow> byte_buffer" where
  "um_ex_buf d = \<lparr>bb_buffer = d, bb_msg = 0, bb_n = length d, bb_pdcp_sn = 0\<rparr>"

definition um_ex_pdu :: byte_buffer where
  "um_ex_pdu = \<lparr>bb_buffer = replicate 20 0, bb_msg = 4, bb_n = 0, bb_pdcp_sn = 0\<rparr>"

definition um_ex_cfg :: um_config where
  "um_ex_cfg = \<lparr>c_sn_field_length = um_size6bits, c_is_mrb = False, c_tx_queue_length = 4\<rparr>"

lemma um_nr_delivers_witness:
  "\<exists>a0 b0 a1 out ab. um_configure (\<lambda>old new. 2 * old + new) um_ex_cfg (um_entity_new 1) = Some a0 \<and>
    um_configure (\<lambda>old new. 2 * old + new) um_ex_cfg (um_entity_new 2) = Some b0 \<and>
    um_write_sdus [um_ex_buf [1, 2, 3, 4, 5, 6], um_ex_buf [7]] a0 = Some a1 \<and>
    um_link_run um_ex_pdu (replicate 2000 0) (replicate 8 0) (replicate 9 (5 :: u32)) (a1, b0) = Some (out, ab) \<and>
    map bb_data out = [[1, 2, 3, 4, 5, 6], [7]]"
proof -
  have d: "bb_data (um_ex_buf d) = d" "bb_n (um_ex_buf d) = length d" for d by (simp_all add: um_ex_buf_def bb_data_def)
  have ok: "\<forall>b \<in> set [um_ex_buf [1, 2, 3, 4, 5, 6], um_ex_buf [7]]. bb_ok b \<and> bb_n b \<le> SRSRAN_MAX_BUFFER_SIZE_BYTES \<and>
      um_room_for (replicate 2000 0) (bb_data b)"
    by (simp add: um_ex_buf_def bb_ok_def bb_data_def um_room_for_def SRSRAN_MAX_BUFFER_SIZE_BYTES_def SRSRAN_BUFFER_HEADER_OFFSET_def)
  have g: "\<forall>g \<in> set (replicate 9 (5 :: u32)). um_grant_ok um_ex_pdu g (replicate 8 0)"
    by (simp add: um_grant_ok_def um_pdu_buffer_ok_def um_ex_pdu_def bb_ok_def)
  have c: "c_sn_field_length um_ex_cfg = um_size6bits" "unat (c_tx_queue_length um_ex_cfg) \<le> 2 ^ 16"
    "length [um_ex_buf [1, 2, 3, 4, 5, 6], um_ex_buf [7]] \<le> unat (c_tx_queue_length um_ex_cfg)"
    by (simp_all add: um_ex_cfg_def)
  have "grow_ok (\<lambda>old new. 2 * old + new)" by (simp add: grow_ok_def)
  from um_nr_delivers [OF c(1,2,1,2) this c(3) ok g, of 1 2] obtain a0 b0 a1 out ab where
    r: "um_configure (\<lambda>old new. 2 * old + new) um_ex_cfg (um_entity_new 1) = Some a0"
      "um_configure (\<lambda>old new. 2 * old + new) um_ex_cfg (um_entity_new 2) = Some b0"
      "um_write_sdus [um_ex_buf [1, 2, 3, 4, 5, 6], um_ex_buf [7]] a0 = Some a1"
      "um_link_run um_ex_pdu (replicate 2000 0) (replicate 8 0) (replicate 9 (5 :: u32)) (a1, b0) = Some (out, ab)"
    and out: "if sum_list (map (\<lambda>b. bb_n b + 1) [um_ex_buf [1, 2, 3, 4, 5, 6], um_ex_buf [7]]) \<le> length (replicate 9 (5 :: u32))
      then map bb_data out = map bb_data [um_ex_buf [1, 2, 3, 4, 5, 6], um_ex_buf [7]] else True" by metis
  have "map bb_data out = [[1, 2, 3, 4, 5, 6], [7]]" using out by (simp add: d)
  with r show ?thesis by (intro exI conjI)
qed

section \<open>Safety of reception\<close>

datatype um_event = Um_Pdu bytes nat | Um_Expiry

definition um_rx_event :: "bytes \<Rightarrow> um_event \<Rightarrow> um_rx \<Rightarrow> (byte_buffer list \<times> um_rx) option" where
  "um_rx_event mem ev rx =
    (case ev of
       Um_Pdu payload nof \<Rightarrow> um_rx_handle_data_pdu mem payload nof rx
     | Um_Expiry \<Rightarrow> if r_timer_running rx then map_option (Pair []) (um_rx_timer_expired rx) else Some ([], rx))"

primrec um_rx_run :: "bytes \<Rightarrow> um_event list \<Rightarrow> um_rx \<Rightarrow> (byte_buffer list \<times> um_rx) option" where
  "um_rx_run mem [] rx = Some ([], rx)"
| "um_rx_run mem (ev # evs) rx =
    Option.bind (um_rx_event mem ev rx) (\<lambda>(out, rx). map_option (\<lambda>(out', rx). (out @ out', rx)) (um_rx_run mem evs rx))"

definition um_event_genuine :: "rlc_um_nr_sn_size \<Rightarrow> bytes set \<Rightarrow> (u32 \<Rightarrow> bytes) \<Rightarrow> um_event \<Rightarrow> bool" where
  "um_event_genuine sn_size whole sent ev =
    (case ev of Um_Pdu payload nof \<Rightarrow> um_genuine sn_size whole sent payload nof | Um_Expiry \<Rightarrow> True)"

lemma um_rx_run_ok:
  assumes "um_rx_inv sent rx" "\<forall>ev \<in> set evs. um_event_genuine (r_sn_size rx) whole sent ev" "um_mem_ok whole sent mem"
  shows "\<exists>out rx'. um_rx_run mem evs rx = Some (out, rx') \<and> um_rx_inv sent rx' \<and> (\<forall>b \<in> set out. bb_data b \<in> whole \<union> range sent)"
  using assms
proof (induction evs arbitrary: rx)
  case Nil
  then show ?case by simp
next
  case (Cons ev evs)
  have "\<exists>out rx'. um_rx_event mem ev rx = Some (out, rx') \<and> um_rx_inv sent rx' \<and> r_sn_size rx' = r_sn_size rx \<and>
      (\<forall>b \<in> set out. bb_data b \<in> whole \<union> range sent)"
  proof (cases ev)
    case (Um_Pdu payload nof)
    then show ?thesis
      using handle_data_pdu_ok [OF Cons.prems(1) _ Cons.prems(3), of payload nof] Cons.prems(2)
      by (auto simp: um_rx_event_def um_event_genuine_def)
  next
    case Um_Expiry
    then show ?thesis using timer_expired_ok [OF Cons.prems(1)] Cons.prems(1) by (auto simp: um_rx_event_def)
  qed
  then obtain o1 rx1 where e: "um_rx_event mem ev rx = Some (o1, rx1)" "um_rx_inv sent rx1" "r_sn_size rx1 = r_sn_size rx"
    "\<forall>b \<in> set o1. bb_data b \<in> whole \<union> range sent" by blast
  have "\<forall>ev \<in> set evs. um_event_genuine (r_sn_size rx1) whole sent ev" using Cons.prems(2) e(3) by simp
  from Cons.IH [OF e(2) this Cons.prems(3)] show ?case using e(1,4) by fastforce
qed

lemma um_rx_inv_configured: "um_rx_inv sent (um_rx_configure (um_rx_new sn_size))"
  by (simp add: um_rx_inv_def um_window_ok_def um_rx_configure_def um_rx_new_def um_cfg_ok_def)


definition um_ex_last :: bytes where
  "um_ex_last = um_header_bytes \<lparr>u_si = last_segment, u_sn_size = um_size12bits, u_sn = 5, u_so = 2\<rparr> @ [3]"


lemma um_reassemble_stuck:
  assumes "um_reassemble rx_sdu its pdu = Some out"
  shows "\<not> (s_next_expected_so pdu = 0 \<and> s_sdu pdu \<noteq> None \<and> (\<exists>it rest. its = it # rest \<and> u_so (up_header (snd it)) = 0))"
proof (rule um_reassemble.raw_induct [OF _ assms, where P = "\<lambda>rx_sdu its pdu out.
    \<not> (s_next_expected_so pdu = 0 \<and> s_sdu pdu \<noteq> None \<and> (\<exists>it rest. its = it # rest \<and> u_so (up_header (snd it)) = 0))"])
  fix re :: "byte_buffer option \<Rightarrow> (u32, um_pdu) std_map \<Rightarrow> um_segments \<Rightarrow> um_outcome option"
    and rx_sdu :: "byte_buffer option" and its :: "(u32, um_pdu) std_map" and pdu :: um_segments and out :: um_outcome
  assume IH: "\<And>rx_sdu its pdu out. re rx_sdu its pdu = Some out \<Longrightarrow>
      \<not> (s_next_expected_so pdu = 0 \<and> s_sdu pdu \<noteq> None \<and> (\<exists>it rest. its = it # rest \<and> u_so (up_header (snd it)) = 0))"
  assume "(case its of [] \<Rightarrow> Some (Um_Incomplete pdu)
     | it # rest \<Rightarrow>
         let so = ucast (u_so (up_header (snd it))); buf = up_buf (snd it) in
         if so = s_next_expected_so pdu then
           if s_next_expected_so pdu = 0 then
             if s_sdu pdu = None then
               re rx_sdu rest
                 (pdu\<lparr>s_sdu := Some buf, s_next_expected_so := of_nat (bb_n buf), s_segments := map_erase (fst it) (s_segments pdu)\<rparr>)
             else if so \<noteq> s_next_expected_so pdu then Some (Um_Dropped 0)
             else re rx_sdu its pdu
           else
             case s_sdu pdu of
               None \<Rightarrow> Some Um_Crash
             | Some sdu \<Rightarrow>
                 (case um_append_segment rx_sdu sdu buf of
                    Inl out \<Rightarrow> Some out
                  | Inr sdu \<Rightarrow>
                      let pdu = pdu\<lparr>s_sdu := Some sdu, s_next_expected_so := s_next_expected_so pdu + of_nat (bb_n buf),
                            s_segments := map_erase (fst it) (s_segments pdu)\<rparr>
                      in if s_next_expected_so pdu = s_total_sdu_length pdu then Some (Um_Complete pdu)
                         else re rx_sdu rest pdu)
         else re rx_sdu rest pdu) = Some out"
  then show "\<not> (s_next_expected_so pdu = 0 \<and> s_sdu pdu \<noteq> None \<and> (\<exists>it rest. its = it # rest \<and> u_so (up_header (snd it)) = 0))"
    using IH [of rx_sdu its pdu out] by (auto simp: Let_def)
qed

definition um_first_header :: "rlc_um_nr_sn_size \<Rightarrow> rlc_um_nr_pdu_header" where
  "um_first_header sn_size = \<lparr>u_si = first_segment, u_sn_size = sn_size, u_sn = 0, u_so = 0\<rparr>"

text \<open>
  C18: two first segments without data for the same sequence number are enough to make the receiver loop for ever: the walk
  over the segments stays at the second one.
\<close>

theorem um_rx_hangs:
  assumes sz: "sn_size \<noteq> um_nulltype" and mem: "um_room_for mem []"
  defines "h \<equiv> um_first_header sn_size"
  shows "\<exists>rx b pdu. um_rx_handle_data_pdu mem (um_header_bytes h) (length (um_header_bytes h)) (um_rx_configure (um_rx_new sn_size)) = Some ([], rx) \<and>
    rlc_um_nr_strip_pdu_header mem h (um_header_bytes h) (length (um_header_bytes h)) = Some b \<and>
    map_of (r_window (um_place \<lparr>up_header = h, up_buf = b\<rparr> rx)) 0 = Some pdu \<and>
    um_reassemble None (s_segments pdu) pdu = None \<and>
    um_rx_handle_data_pdu mem (um_header_bytes h) (length (um_header_bytes h)) rx = None"
proof -
  let ?ra = "um_rx_configure (um_rx_new sn_size)"
  have idle: "um_idle 0 ?ra" "r_sn_size ?ra = sn_size"
    by (simp_all add: um_idle_def um_rx_base_def um_rx_configure_def um_rx_new_def um_cfg_ok_def)
  have hd: "u_si h = first_segment" "ucast (u_sn h) = (0 :: u32)" "u_so h = 0" "u_sn_size h = sn_size" "um_header_ok h"
    using sz by (simp_all add: h_def um_first_header_def um_header_ok_def)
  have c: "um_header_bytes h = um_header_bytes h @ [] @ []" "length (um_header_bytes h) = rlc_um_nr_packed_length h + length []"
    by (simp_all add: length_um_header_bytes)
  have rd: "rlc_um_nr_read_data_pdu_header (um_header_bytes h) sn_size um_header_new = Some (rlc_um_nr_packed_length h, h)"
    using um_read_write [OF hd(5), of "[]"] hd(4) by simp
  have "SRSRAN_BUFFER_HEADER_OFFSET + length (um_header_bytes h) \<le> length mem" "length mem < 2 ^ 32"
    using mem packed_length_le [of h] by (simp_all add: um_room_for_def length_um_header_bytes)
  from strip_header_ok [OF c this] obtain b where b: "rlc_um_nr_strip_pdu_header mem h (um_header_bytes h) (length (um_header_bytes h)) = Some b" "bb_n b = 0"
    by auto
  let ?rb = "?ra\<lparr>r_window := [(0, um_begun b)], r_RX_Next_Highest := (0 + 1) mod r_mod ?ra\<rparr>"
  let ?rx = "um_update_timer ?rb"
  have inv: "\<not> sn_invalid_for_rx_buffer ?ra 0" by (rule not_invalid) (use idle(1) in \<open>simp add: um_idle_def\<close>)
  have first: "um_rx_handle_data_pdu mem (um_header_bytes h) (length (um_header_bytes h)) ?ra = Some ([], ?rx)"
    using um_first_placed [OF idle(1) hd(1-3), of b] rd b(1) hd(1,2) inv idle(2) by (simp add: um_rx_handle_data_pdu_def)
  have same: "r_window ?rx = [(0, um_begun b)]" "r_sdu ?rx = None" "r_sn_size ?rx = sn_size"
    using um_update_timer_same [of ?rb] by (auto simp: um_rx_configure_def um_rx_new_def)
  obtain t r where e: "?rx = ?rb\<lparr>r_RX_Timer_Trigger := t, r_timer_running := r\<rparr>" using um_update_timer_same [of ?rb] by blast
  have base: "um_rx_base 0 ?rx"
    using idle(1) unfolding e by (simp add: um_idle_def um_rx_base_def um_cfg_ok_def)
  let ?pdu = "(um_begun b)\<lparr>s_segments := [(0, \<lparr>up_header = h, up_buf = b\<rparr>)]\<rparr>"
  have place: "r_window (um_place \<lparr>up_header = h, up_buf = b\<rparr> ?rx) = [(0, ?pdu)]" "r_sdu (um_place \<lparr>up_header = h, up_buf = b\<rparr> ?rx) = None"
    using hd(1-3) same(1,2) by (simp_all add: um_place_def update_total_sdu_length_def map_insert_def um_begun_def um_segments_new_def)
  have stuck: "um_reassemble None (s_segments ?pdu) ?pdu = None"
  proof (cases "um_reassemble None (s_segments ?pdu) ?pdu")
    case (Some out)
    from um_reassemble_stuck [OF this] b(2) hd(3) show ?thesis by (simp add: um_begun_def um_segments_new_def)
  qed
  have "um_rx_handle_data_pdu mem (um_header_bytes h) (length (um_header_bytes h)) ?rx = None"
    using rd b(1) hd(1,2) not_invalid [OF base] same(3) place stuck
    by (simp add: um_rx_handle_data_pdu_def um_handle_rx_buffer_update_def)
  then show ?thesis using first b(1) place(1) stuck by (intro exI [of _ ?rx] exI [of _ b] exI [of _ ?pdu]) simp
qed

lemma um_rx_hangs_witness:
  "\<exists>rx. um_rx_handle_data_pdu (replicate 1100 0) [0x40] 1 (um_rx_configure (um_rx_new um_size6bits)) = Some ([], rx) \<and>
    um_rx_handle_data_pdu (replicate 1100 0) [0x40] 1 rx = None"
proof -
  have "um_header_bytes (um_first_header um_size6bits) = [0x40]" by (simp add: um_header_bytes_def um_first_header_def si_bits_def Let_def)
  moreover have "um_room_for (replicate 1100 0) []" by (simp add: um_room_for_def SRSRAN_BUFFER_HEADER_OFFSET_def)
  ultimately show ?thesis using um_rx_hangs [of um_size6bits "replicate 1100 0"] by auto
qed

end
