(* ===== verification/Rlc_Um_Nr_Errors.thy ===== *)
theory Rlc_Um_Nr_Errors
  imports Rlc_Um_Nr_Link
begin

text \<open>
  The bounds of the NR UM entity and its behaviour at the edges: the size of a PDU, the queue of SDUs and their discard, suspension,
  sequence numbers of twelve bits, grants too short for a segment.
\<close>

section \<open>The size of a PDU\<close>

lemma um_fill_pdu_size:
  assumes f: "um_fill_pdu h m s pdu payload tx = Some (len, payload', tx')" and n: "bb_n pdu = 0"
  shows "len = rlc_um_nr_packed_length h + unat m \<and> length payload' = length payload \<and> drop len payload' = drop len payload"
proof -
  obtain p1 where p1: "append_bytes pdu (take (unat m) (drop (bb_msg s) (bb_buffer s))) = Some p1" "bb_msg s + unat m \<le> length (bb_buffer s)"
    using f by (auto simp: um_fill_pdu_def Let_def bind_eq_Some_conv split: if_splits)
  obtain p2 where p2: "push_header p1 (um_header_bytes h) = Some p2" "mem_write payload 0 (bb_data p2) = Some payload'" "len = bb_n p2"
    using f p1 by (auto simp: um_fill_pdu_def Let_def bind_eq_Some_conv rlc_um_nr_write_data_pdu_header_def split: if_splits)
  have a: "bb_n p1 = unat m" "bb_ok p1"
    using p1 n by (auto simp: append_bytes_def mem_write_def bb_ok_def split: if_splits)
  have b: "bb_n p2 = rlc_um_nr_packed_length h + unat m" "bb_ok p2"
    using p2(1) a by (auto simp: push_header_def mem_write_def bb_ok_def length_um_header_bytes split: if_splits)
  have "length (bb_data p2) = bb_n p2" using b(2) by simp
  then show ?thesis using p2(2,3) b(1) by (auto simp: mem_write_def split: if_splits)
qed

text \<open>
  C16: whatever the state of the entity, a PDU is no longer than the opportunity it was asked for, and the memory of the MAC
  behind it is not touched.
\<close>

theorem um_pdu_within_grant:
  assumes r: "um_read_pdu pool payload nof_bytes e = Some (len, payload', e')"
  shows "len \<le> unat nof_bytes \<and> length payload' = length payload \<and> drop len payload' = drop len payload"
proof -
  have sel: "len \<le> unat nof_bytes \<and> length payload' = length payload \<and> drop len payload' = drop len payload"
    if "um_tx_build_pdu pdu payload nof_bytes tx = Some (len, payload', tx')" "bb_n pdu = 0" for pdu tx tx'
  proof (cases "len = 0 \<and> payload' = payload")
    case False
    let ?sp = "min nof_bytes (get_tailroom pdu)"
    note bd = that(1)
    have two: "\<not> nof_bytes < 2" using bd False by (auto simp: um_tx_build_pdu_def)
    obtain si m tx1 where sel: "um_select ?sp tx = Some (si, m, tx1)"
      using bd two by (cases "um_select ?sp tx") (auto simp: um_tx_build_pdu_def Let_def)
    obtain s where m: "m = Some s" using bd two sel False by (cases m) (auto simp: um_tx_build_pdu_def Let_def)
    define h where "h = \<lparr>u_si = si, u_sn_size = t_sn_size tx1, u_sn = ucast (t_TX_Next tx), u_so = ucast (t_next_so tx1)\<rparr>"
    have big: "\<not> ?sp \<le> of_nat (rlc_um_nr_packed_length h) + 1"
      using bd two sel m False by (auto simp: um_tx_build_pdu_def Let_def h_def)
    have f: "um_fill_pdu h (if of_nat (bb_n s) \<le> ?sp - of_nat (rlc_um_nr_packed_length h) then of_nat (bb_n s) else ?sp - of_nat (rlc_um_nr_packed_length h))
        s pdu payload tx1 = Some (len, payload', tx')"
      using bd two sel m big unfolding h_def by (simp add: um_tx_build_pdu_def Let_def split del: if_split)
    have "unat (of_nat (rlc_um_nr_packed_length h + 1) :: u32) = rlc_um_nr_packed_length h + 1"
      using packed_length_le [of h] by (intro unat_of_nat_eq) simp
    then have l: "rlc_um_nr_packed_length h + 1 < unat ?sp" using big by (simp add: word_le_nat_alt add.commute)
    have "unat (of_nat (rlc_um_nr_packed_length h) :: u32) = rlc_um_nr_packed_length h"
      using packed_length_le [of h] by (intro unat_of_nat_eq) simp
    then have "unat (?sp - of_nat (rlc_um_nr_packed_length h)) = unat ?sp - rlc_um_nr_packed_length h"
      using l by (subst unat_sub) (simp_all add: word_le_nat_alt)
    moreover have "unat ?sp \<le> unat nof_bytes" by (simp add: min_def word_le_nat_alt)
    ultimately show ?thesis
      using um_fill_pdu_size [OF f that(2)] l by (auto simp: word_le_nat_alt split: if_splits)
  qed auto
  show ?thesis
    using r sel
    by (auto simp: um_read_pdu_def um_tx_build_data_pdu_def Let_def split: option.splits if_splits)
qed

definition um_ex_tx :: um_tx where
  "um_ex_tx = um_tx_new\<lparr>t_sdu := Some \<lparr>bb_buffer = [1, 2, 3], bb_msg = 0, bb_n = 3, bb_pdcp_sn = 0\<rparr>, t_next_so := 1,
     t_mod := 64, t_head_len_segment := 3\<rparr>"

definition um_ex_entity :: um_entity where
  "um_ex_entity = (um_entity_new 1)\<lparr>e_tx := Some um_ex_tx, e_tx_enabled := True\<rparr>"

definition um_ex_pool :: byte_buffer where
  "um_ex_pool = \<lparr>bb_buffer = replicate 20 0, bb_msg = 4, bb_n = 0, bb_pdcp_sn = 0\<rparr>"

lemma um_pdu_within_grant_witness:
  "\<exists>len payload' e'. um_read_pdu (Some um_ex_pool) (replicate 8 0) 5 um_ex_entity = Some (len, payload', e') \<and> len \<le> 5 \<and>
    length payload' = 8"
proof -
  have tx: "um_tx_ok um_ex_tx" "t_sdu um_ex_tx = Some \<lparr>bb_buffer = [1, 2, 3], bb_msg = 0, bb_n = 3, bb_pdcp_sn = 0\<rparr>"
    using bbq_ok_new [of 128] by (simp_all add: um_tx_ok_def um_ex_tx_def um_tx_new_def bb_ok_def)
  have g: "um_grant_ok um_ex_pool 5 (replicate 8 0)"
    by (simp add: um_grant_ok_def um_pdu_buffer_ok_def um_ex_pool_def bb_ok_def)
  obtain len payload' tx' where "um_tx_build_data_pdu (Some um_ex_pool) (replicate 8 0) 5 um_ex_tx = Some (len, payload', tx')"
    using um_build_rest [OF tx g] by blast
  then obtain e' where "um_read_pdu (Some um_ex_pool) (replicate 8 0) 5 um_ex_entity = Some (len, payload', e')"
    by (auto simp: um_read_pdu_def um_ex_entity_def um_entity_new_def Let_def)
  then show ?thesis using um_pdu_within_grant [of "Some um_ex_pool" "replicate 8 0" 5 um_ex_entity len payload' e'] by auto
qed

section \<open>Sequence numbers of twelve bits\<close>

text \<open>
  C38: configured for sequence numbers of 12 bits, the transmitter takes the header of a segment for one octet shorter than it is. When
  the rest of an SDU has just the size that this leaves, the PDU is marked as the last segment and the sequence number
  advances, but the last octet of the SDU stays behind.
\<close>

theorem um_sn12_octet_left:
  fixes tx1 :: um_tx and s :: byte_buffer and so :: u32
  assumes cfg: "um_tx_configure grow um_size12bits mrb len tx0 = Some tx1"
  defines "tx \<equiv> tx1\<lparr>t_sdu := Some s, t_next_so := so\<rparr>"
  assumes s: "bb_ok s" "bb_n s < 2 ^ 16" "ucast so \<noteq> (0 :: u16)" and pool: "um_grant_ok pdu g payload"
    and size: "bb_n s = unat (min g (get_tailroom pdu)) - 3" "2 < bb_n s"
  defines "h \<equiv> \<lparr>u_si = last_segment, u_sn_size = um_size12bits, u_sn = ucast (t_TX_Next tx), u_so = ucast so\<rparr>"
  shows "\<exists>tx'. um_tx_build_data_pdu (Some pdu) payload g tx =
      Some (3 + bb_n s, um_header_bytes h @ take (bb_n s - 1) (bb_data s) @ drop (3 + bb_n s) payload, tx') \<and>
    t_sdu tx' = Some (strip (bb_n s - 1) s) \<and> bb_n (strip (bb_n s - 1) s) = 1 \<and>
    t_TX_Next tx' = (t_TX_Next tx + 1) mod 4096 \<and> t_next_so tx' = 0"
proof -
  let ?sp = "min g (get_tailroom pdu)"
  have c: "t_sn_size tx = um_size12bits" "t_head_len_segment tx = 3" "t_mod tx = 4096" "t_sdu tx = Some s" "t_next_so tx = so"
    using cfg by (auto simp: um_tx_configure_def tx_def Let_def rlc_um_nr_packed_length_def um_header_new_def um_mod_def)
  note sp = grant_space [OF pool]
  have three: "unat (?sp - 3) = unat ?sp - 3" using sp by (subst unat_sub) (simp_all add: word_le_nat_alt)
  have "of_nat (bb_n s) \<le> ?sp - 3" using three size(1) unat_u32_small [OF s(2)] by (simp add: word_le_nat_alt)
  then have sel: "um_select ?sp tx = Some (last_segment, Some s, tx)" using c(2,4) by (simp add: um_select_def)
  have hd: "\<lparr>u_si = last_segment, u_sn_size = t_sn_size tx, u_sn = ucast (t_TX_Next tx), u_so = ucast (t_next_so tx)\<rparr> = h"
    using c by (simp add: h_def)
  have pl: "rlc_um_nr_packed_length h = 4" using s(3) by (simp add: h_def rlc_um_nr_packed_length_def)
  have k: "min (bb_n s) (unat ?sp - rlc_um_nr_packed_length h) = bb_n s - 1" "rlc_um_nr_packed_length h + 1 < unat ?sp"
    "rlc_um_nr_packed_length h + (bb_n s - 1) = 3 + bb_n s"
    using size pl by auto
  have g: "um_pdu_buffer_ok pdu" "bb_msg pdu + 5 \<le> length (bb_buffer pdu)" "5 \<le> unat g" "unat g \<le> length payload"
    using pool by (simp_all add: um_grant_ok_def)
  have "um_tx_build_data_pdu (Some pdu) payload g tx = um_tx_build_pdu pdu payload g tx"
    using c(4) g(1) by (simp add: um_tx_build_data_pdu_def um_tx_has_data_def um_pdu_buffer_ok_def)
  also have "\<dots> = Some (3 + bb_n s, um_header_bytes h @ take (bb_n s - 1) (bb_data s) @ drop (3 + bb_n s) payload,
      um_tx_after last_segment (bb_n s - 1) s tx)"
    using um_build_selected [OF sel s(1,2) g, unfolded hd, OF k(2)] unfolding k by simp
  finally have bd: "um_tx_build_data_pdu (Some pdu) payload g tx = \<dots>" .
  have le: "bb_n s - 1 \<le> bb_n s" by simp
  note after = um_tx_after_ok [OF s(1) le s(2)]
  have "t_TX_Next (um_tx_after last_segment (bb_n s - 1) s tx) = (t_TX_Next tx + 1) mod 4096"
    "t_next_so (um_tx_after last_segment (bb_n s - 1) s tx) = 0"
    using c(3) by (simp_all add: um_tx_after_def Let_def)
  then show ?thesis using bd after(1) [of last_segment tx] after(4) size(2) by (intro exI conjI) (auto simp: bd)
qed

lemma um_sn12_octet_left_witness:
  "\<exists>tx1 tx'. um_tx_configure (\<lambda>old new. new) um_size12bits False 4 um_tx_new = Some tx1 \<and>
    um_tx_build_data_pdu (Some um_ex_pool) (replicate 8 0) 6 (tx1\<lparr>t_sdu := Some \<lparr>bb_buffer = [1, 2, 3], bb_msg = 0, bb_n = 3, bb_pdcp_sn = 0\<rparr>, t_next_so := 1\<rparr>) =
      Some (6, [0x80, 0, 0, 1, 1, 2, 0, 0], tx') \<and> t_sdu tx' \<noteq> None \<and> t_TX_Next tx' = 1"
proof -
  let ?s = "\<lparr>bb_buffer = [1, 2, 3], bb_msg = 0, bb_n = 3, bb_pdcp_sn = 0\<rparr> :: byte_buffer"
  have "cb_set_size (\<lambda>old new. new) 4 (cb_new 128) = Some (cb_new 128 :: unique_byte_buffer circ)"
    by (simp add: cb_set_size_def cb_empty_def cb_new_def cb_max_size_def)
  then obtain tx1 where c: "um_tx_configure (\<lambda>old new. new) um_size12bits False 4 um_tx_new = Some tx1" "t_TX_Next tx1 = 0"
    by (auto simp: um_tx_configure_def um_tx_new_def bbq_resize_def bbq_new_def Let_def)
  have g: "um_grant_ok um_ex_pool 6 (replicate 8 0)" "get_tailroom um_ex_pool = 16"
    by (simp_all add: um_grant_ok_def um_pdu_buffer_ok_def um_ex_pool_def bb_ok_def get_tailroom_def)
  have s: "bb_ok ?s" "bb_n ?s < 2 ^ 16" "(ucast (1 :: u32) :: u16) \<noteq> 0" "bb_data ?s = [1, 2, 3]" "bb_n ?s = 3"
    by (simp_all add: bb_ok_def bb_data_def)
  have m: "min (6 :: u32) 16 = 6" by (simp add: min_def)
  from um_sn12_octet_left [OF c(1) s(1-3) g(1)] obtain tx' where
    "um_tx_build_data_pdu (Some um_ex_pool) (replicate 8 0) 6 (tx1\<lparr>t_sdu := Some ?s, t_next_so := 1\<rparr>) = Some (3 + bb_n ?s,
      um_header_bytes \<lparr>u_si = last_segment, u_sn_size = um_size12bits, u_sn = ucast (t_TX_Next (tx1\<lparr>t_sdu := Some ?s, t_next_so := 1\<rparr>)), u_so = ucast (1 :: u32)\<rparr> @
        take (bb_n ?s - 1) (bb_data ?s) @ drop (3 + bb_n ?s) (replicate 8 0), tx')" "t_sdu tx' = Some (strip (bb_n ?s - 1) ?s)"
      "t_TX_Next tx' = (t_TX_Next (tx1\<lparr>t_sdu := Some ?s, t_next_so := 1\<rparr>) + 1) mod 4096"
    unfolding g(2) m by auto
  moreover have "replicate 2 (0 :: u8) = [0, 0]" by (simp add: numeral_2_eq_2)
  ultimately show ?thesis using c s(4,5)
    by (intro exI [of _ tx1] exI [of _ tx']) (simp add: um_header_bytes_def si_bits_def Let_def)
qed

section \<open>A grant too short for a segment\<close>

text \<open>
  C40: a grant of two octets takes an SDU off the queue and sends nothing. The next grant finds an SDU that is not new and, when it
  fits, sends all of it as a last segment with offset 0; the writer leaves that offset out, the reader of the header expects
  it, and takes the first two octets of the SDU for it.
\<close>

theorem um_short_grant_corrupts:
  assumes ok: "um_tx_ok tx" and new: "t_sdu tx = None" "bbq_items (t_queue tx) = Some b # ms" "2 \<le> bb_n b"
    and pool: "um_grant_ok pdu g payload" and size: "bb_n b \<le> unat (min g (get_tailroom pdu)) - 3"
  shows "\<exists>tx1 tx2 h. um_tx_build_data_pdu (Some pdu) payload 2 tx = Some (0, payload, tx1) \<and>
    um_tx_build_data_pdu (Some pdu) payload g tx1 =
      Some (1 + bb_n b, um_header_bytes h @ bb_data b @ drop (1 + bb_n b) payload, tx2) \<and>
    u_si h = last_segment \<and> u_so h = 0 \<and> t_sdu tx2 = None \<and>
    rlc_um_nr_read_data_pdu_header (um_header_bytes h @ bb_data b @ drop (1 + bb_n b) payload) um_size6bits um_header_new =
      Some (3, h\<lparr>u_so := push_bit 8 (ucast (bb_data b ! 0)) OR ucast (bb_data b ! 1)\<rparr>)"
proof -
  let ?sp = "min g (get_tailroom pdu)"
  have b: "bb_ok b" "bb_n b < 2 ^ 16" and q: "bbq_ok (t_queue tx)" and c: "t_sn_size tx = um_size6bits" "t_head_len_segment tx = 3" "t_TX_Next tx < 64"
    using ok new(2) by (auto simp: um_tx_ok_def)
  have p: "um_pdu_buffer_ok pdu" "bb_msg pdu + 5 \<le> length (bb_buffer pdu)" "5 \<le> unat g" "unat g \<le> length payload" "bb_n pdu = 0"
    using pool by (simp_all add: um_grant_ok_def um_pdu_buffer_ok_def)
  obtain q' where rd: "um_read_sdu (t_queue tx) = Some (Some b, q')" "bbq_ok q'" "bbq_items q' = ms"
    using um_read_sdu_ok [OF q new(2)] by blast
  let ?tx = "tx\<lparr>t_queue := q', t_sdu := Some b, t_next_so := 0\<rparr>"
  have "5 \<le> unat (get_tailroom pdu)" using p(2) pdu_tailroom [OF p(1)] by simp
  then have tail: "min 2 (get_tailroom pdu) = 2" by (simp add: word_le_nat_alt min_def)
  have "\<not> of_nat (bb_n b) \<le> (1 :: u32)" using new(3) unat_u32_small [OF b(2)] by (simp add: word_le_nat_alt)
  then have sel2: "um_select 2 tx = Some (first_segment, Some b, ?tx)" using new(1) rd(1) by (simp add: um_select_def Let_def)
  have one: "um_tx_build_data_pdu (Some pdu) payload 2 tx = Some (0, payload, ?tx)"
    using new(1,2) sel2 tail p(5) c(1)
    by (simp add: um_tx_build_data_pdu_def um_tx_has_data_def bbq_is_empty_iff um_tx_build_pdu_def Let_def rlc_um_nr_packed_length_def)
  note sp = grant_space [OF pool]
  have three: "unat (?sp - 3) = unat ?sp - 3" using sp by (subst unat_sub) (simp_all add: word_le_nat_alt)
  have "of_nat (bb_n b) \<le> ?sp - 3" using three size unat_u32_small [OF b(2)] by (simp add: word_le_nat_alt)
  then have sel: "um_select ?sp ?tx = Some (last_segment, Some b, ?tx)" using c(2) by (simp add: um_select_def)
  define h where "h = \<lparr>u_si = last_segment, u_sn_size = um_size6bits, u_sn = ucast (t_TX_Next tx), u_so = 0\<rparr>"
  have hd: "\<lparr>u_si = last_segment, u_sn_size = t_sn_size ?tx, u_sn = ucast (t_TX_Next ?tx), u_so = ucast (t_next_so ?tx)\<rparr> = h"
    using c(1) by (simp add: h_def)
  have pl: "rlc_um_nr_packed_length h = 1" by (simp add: h_def rlc_um_nr_packed_length_def)
  have k: "min (bb_n b) (unat ?sp - 1) = bb_n b" "1 + 1 < unat ?sp" using size new(3) by auto
  have "um_tx_build_data_pdu (Some pdu) payload g ?tx = um_tx_build_pdu pdu payload g ?tx"
    using p(5) by (simp add: um_tx_build_data_pdu_def um_tx_has_data_def)
  also have "\<dots> = Some (1 + bb_n b, um_header_bytes h @ bb_data b @ drop (1 + bb_n b) payload, um_tx_after last_segment (bb_n b) b ?tx)"
    using um_build_selected [OF sel b p(1-4), unfolded hd pl, OF k(2)] b(1) unfolding k by simp
  finally have two: "um_tx_build_data_pdu (Some pdu) payload g ?tx = \<dots>" .
  have t2: "t_sdu (um_tx_after last_segment (bb_n b) b ?tx) = None" using um_tx_after_ok(1) [OF b(1) order_refl b(2)] by simp
  obtain x y ds where d: "bb_data b = x # y # ds"
    using new(3) length_bb_data [OF b(1)] by (cases "bb_data b"; cases "tl (bb_data b)") auto
  have s3: "si_bits last_segment AND 3 = si_bits last_segment" unfolding and_masks by (rule si_bits_small)
  have "u_sn h < 64" using ucast_small(1) [OF c(3)] c(3) by (simp add: h_def word_less_nat_alt)
  note o6 = um_first_octet(1,2) [OF si_bits_small um_small(1) order_refl] um_sn_6 [OF this]
  obtain b0 where b0: "um_header_bytes h = [b0]" "si_of (drop_bit 6 b0 AND 3) = last_segment" "ucast (b0 AND 63) = u_sn h"
  proof
    show "um_header_bytes h = [push_bit 6 (si_bits last_segment) OR ucast (u_sn h AND 63)]"
      using s3 by (simp add: um_header_bytes_def h_def Let_def)
    show "si_of (drop_bit 6 (push_bit 6 (si_bits last_segment) OR ucast (u_sn h AND 63)) AND 3) = last_segment"
      unfolding o6(1) by (rule si_of_bits)
    show "ucast ((push_bit 6 (si_bits last_segment) OR ucast (u_sn h AND 63)) AND 63) = u_sn h"
      unfolding o6(2) by (rule o6(3))
  qed
  have ff: "(z :: u8) AND 255 = z" for z unfolding and_masks by (rule bit_word_eqI) (auto simp: bits simp del: bit_0 dest: bit_imp_le_length)
  have "rlc_um_nr_read_data_pdu_header (b0 # x # y # ds @ drop (1 + bb_n b) payload) um_size6bits um_header_new =
      Some (3, \<lparr>u_si = last_segment, u_sn_size = um_size6bits, u_sn = u_sn h, u_so = push_bit 8 (ucast x) OR ucast y\<rparr>)"
    using b0(2,3) by (simp add: rlc_um_nr_read_data_pdu_header_def um_read_so_def um_header_new_def Let_def ff)
  then have "rlc_um_nr_read_data_pdu_header (um_header_bytes h @ bb_data b @ drop (1 + bb_n b) payload) um_size6bits um_header_new =
      Some (3, h\<lparr>u_so := push_bit 8 (ucast (bb_data b ! 0)) OR ucast (bb_data b ! 1)\<rparr>)"
    unfolding b0(1) d by (simp add: h_def)
  with one two t2 show ?thesis by (intro exI [of _ ?tx] exI [of _ "um_tx_after last_segment (bb_n b) b ?tx"] exI [of _ h]) (simp add: h_def)
qed

section \<open>Discard\<close>

definition um_discarded :: "u32 \<Rightarrow> unique_byte_buffer \<Rightarrow> unique_byte_buffer" where
  "um_discarded sn m = (case m of None \<Rightarrow> None | Some b \<Rightarrow> if bb_pdcp_sn b = sn then None else m)"

abbreviation total_bytes :: "unique_byte_buffer list \<Rightarrow> nat" where
  "total_bytes ms \<equiv> sum_list (map sdu_octets ms)"

abbreviation total_count :: "unique_byte_buffer list \<Rightarrow> nat" where
  "total_count ms \<equiv> sum_list (map sdu_count ms)"

lemma list_apply_discard:
  assumes "x + total_bytes ms < 2 ^ 32" "y + total_count ms < 2 ^ 31"
  shows "list_apply (um_discard_step sn) ms (of_nat (x + total_bytes ms), of_nat (y + total_count ms)) =
    (False, map (um_discarded sn) ms,
      (of_nat (x + total_bytes (map (um_discarded sn) ms)), of_nat (y + total_count (map (um_discarded sn) ms))))"
  using assms
proof (induction ms arbitrary: x y)
  case Nil
  then show ?case by simp
next
  case (Cons m ms)
  have pop: "pop_callback m (of_nat (x + total_bytes (m # ms)), of_nat (y + total_count (m # ms))) =
      (of_nat (x + total_bytes (m # ms) - sdu_octets m), of_nat (y + total_count (m # ms) - sdu_count m))"
    using Cons.prems by (intro pop_callback_sum) simp_all
  show ?case
  proof (cases "m \<noteq> None \<and> bb_pdcp_sn (the m) = sn")
    case True
    then have step: "um_discard_step sn m (of_nat (x + total_bytes (m # ms)), of_nat (y + total_count (m # ms))) =
        (False, None, (of_nat (x + total_bytes ms), of_nat (y + total_count ms)))"
      using pop by (auto simp: um_discard_step_def)
    show ?thesis
      using Cons.IH [of x y] Cons.prems True step by (auto simp: um_discarded_def)
  next
    case False
    then have step: "um_discard_step sn m s = (False, m, s)" "um_discarded sn m = m" for s
      by (cases m; auto simp: um_discard_step_def um_discarded_def)+
    have e: "x + total_bytes (m # ms) = (x + sdu_octets m) + total_bytes ms" "y + total_count (m # ms) = (y + sdu_count m) + total_count ms"
      by simp_all
    show ?thesis
      unfolding e using Cons.IH [of "x + sdu_octets m" "y + sdu_count m"] Cons.prems step by simp
  qed
qed

lemma discarded_bytes: "total_bytes (map (um_discarded sn) ms) \<le> total_bytes ms" "sdu_octets (um_discarded sn m) \<le> sdu_octets m"
proof -
  show le: "sdu_octets (um_discarded sn m) \<le> sdu_octets m" for m by (cases m) (auto simp: um_discarded_def)
  show "total_bytes (map (um_discarded sn) ms) \<le> total_bytes ms" using le by (induction ms) (simp_all add: add_mono)
qed

lemma bbq_discard:
  assumes ok: "bbq_ok q" and room: "\<not> bbq_is_full q"
  shows "\<exists>q'. bbq_apply_first (um_discard_step sn) q = Some (False, q') \<and> bbq_ok q' \<and> bbq_items q' = map (um_discarded sn) (bbq_items q) \<and>
    bbq_capacity q' = bbq_capacity q"
proof -
  have c: "cb_ok (bq_queue q)" "\<not> cb_full (bq_queue q)" using ok room by (simp_all add: bbq_ok_def bbq_is_full_def)
  have len: "length (bbq_items q) \<le> 2 ^ 17" using ok cq.bound [OF c(1)] by (simp add: bbq_ok_def bbq_items_def bbq_capacity_def)
  have all: "\<forall>m \<in> set (bbq_items q). sdu_octets m \<le> SRSRAN_MAX_BUFFER_SIZE_BYTES" using ok by (simp add: bbq_ok_def)
  note bounds = counter_bounds [OF len all]
  have s: "(bq_unread_bytes q, bq_n_sdus q) = (of_nat (0 + total_bytes (bbq_items q)), of_nat (0 + total_count (bbq_items q)))"
    using ok by (simp add: bbq_ok_def)
  have la: "list_apply (um_discard_step sn) (cb_list (bq_queue q)) (bq_unread_bytes q, bq_n_sdus q) = (False, map (um_discarded sn) (bbq_items q),
      (of_nat (total_bytes (map (um_discarded sn) (bbq_items q))), of_nat (total_count (map (um_discarded sn) (bbq_items q)))))"
    using list_apply_discard [of 0 "bbq_items q" 0 sn] bounds unfolding s by (simp add: bbq_items_def)
  obtain c' where c': "cb_apply_first (um_discard_step sn) (bq_queue q) (bq_unread_bytes q, bq_n_sdus q) = Some (False, c',
      (of_nat (total_bytes (map (um_discarded sn) (bbq_items q))), of_nat (total_count (map (um_discarded sn) (bbq_items q)))))"
      "cb_ok c'" "cb_max_size c' = cb_max_size (bq_queue q)" "cb_list c' = map (um_discarded sn) (bbq_items q)"
    using cb_apply_first_ok [OF c, of "um_discard_step sn" "(bq_unread_bytes q, bq_n_sdus q)"] unfolding la by auto
  have all': "\<forall>m \<in> set (bbq_items q). sdu_octets (um_discarded sn m) \<le> SRSRAN_MAX_BUFFER_SIZE_BYTES"
    using all discarded_bytes(2) [of sn] by (meson order_trans)
  show ?thesis
    using c' ok all' by (simp add: bbq_apply_first_def bbq_ok_def bbq_items_def bbq_capacity_def)
qed

text \<open>
  : discarding by PDCP sequence number removes exactly the waiting SDUs with that number and keeps the counters right,
  except that on a full queue, where the first and the last iterator of the ring are equal, it removes nothing. Either
  way the log says that nothing was discarded.
\<close>

theorem um_discard_effect:
  assumes ok: "bbq_ok (t_queue tx)" "0 < bbq_capacity (t_queue tx)"
  shows "\<exists>tx'. um_tx_discard_sdu sn tx = Some (False, tx') \<and> bbq_ok (t_queue tx') \<and>
    bbq_items (t_queue tx') = (if um_tx_sdu_queue_is_full tx then bbq_items (t_queue tx) else map (um_discarded sn) (bbq_items (t_queue tx)))"
proof (cases "um_tx_sdu_queue_is_full tx")
  case True
  then have "cb_apply_first (um_discard_step sn) (bq_queue (t_queue tx)) (bq_unread_bytes (t_queue tx), bq_n_sdus (t_queue tx)) =
      Some (False, bq_queue (t_queue tx), (bq_unread_bytes (t_queue tx), bq_n_sdus (t_queue tx)))"
    using ok by (intro cb_apply_first_full) (simp_all add: um_tx_sdu_queue_is_full_def bbq_is_full_def bbq_ok_def bbq_capacity_def)
  then have "um_tx_discard_sdu sn tx = Some (False, tx)" by (simp add: um_tx_discard_sdu_def bbq_apply_first_def)
  then show ?thesis using True ok(1) by auto
next
  case False
  then have "\<not> bbq_is_full (t_queue tx)" by (simp add: um_tx_sdu_queue_is_full_def)
  from bbq_discard [OF ok(1) this, of sn] show ?thesis using False by (auto simp: um_tx_discard_sdu_def)
qed

definition um_ex_sdu :: "u32 \<Rightarrow> byte_buffer" where
  "um_ex_sdu sn = \<lparr>bb_buffer = [1, 2, 3], bb_msg = 0, bb_n = 3, bb_pdcp_sn = sn\<rparr>"

lemma um_ex_queue:
  obtains tx where "um_tx_ok tx" "t_sdu tx = None" "t_TX_Next tx = 0" "bbq_items (t_queue tx) = [Some (um_ex_sdu 7)]" "bbq_capacity (t_queue tx) = 4"
proof -
  have b: "bb_n (um_ex_sdu 7) \<le> SRSRAN_MAX_BUFFER_SIZE_BYTES" by (simp add: um_ex_sdu_def SRSRAN_MAX_BUFFER_SIZE_BYTES_def)
  have q: "bbq_ok (bbq_new 4)" "bbq_items (bbq_new 4) = []" using bbq_ok_new [of 4] by simp_all
  have cap: "bbq_capacity (bbq_new 4) = 4" by (simp add: bbq_capacity_def bbq_new_def)
  obtain q' where q': "bbq_ok q'" "bbq_items q' = [Some (um_ex_sdu 7)]" "bbq_capacity q' = 4"
    using bbq_try_write_ok [OF q(1) b] q(2) cap by auto
  show ?thesis
    by (rule that [of "um_tx_new\<lparr>t_queue := q', t_mod := 64, t_head_len_segment := 3\<rparr>"])
      (use q' in \<open>simp_all add: um_tx_ok_def um_tx_new_def um_ex_sdu_def bb_ok_def\<close>)
qed

lemma um_short_grant_corrupts_witness:
  "\<exists>tx tx1 tx2 h payload'. um_tx_build_data_pdu (Some um_ex_pool) (replicate 8 0) 2 tx = Some (0, replicate 8 0, tx1) \<and>
    um_tx_build_data_pdu (Some um_ex_pool) (replicate 8 0) 6 tx1 = Some (4, payload', tx2) \<and> take 3 (drop 1 payload') = [1, 2, 3] \<and>
    rlc_um_nr_read_data_pdu_header payload' um_size6bits um_header_new = Some (3, h) \<and> u_so h = 0x102"
proof -
  obtain tx where tx: "um_tx_ok tx" "t_sdu tx = None" "bbq_items (t_queue tx) = [Some (um_ex_sdu 7)]"
    by (rule um_ex_queue)
  have g: "um_grant_ok um_ex_pool 6 (replicate 8 0)" "get_tailroom um_ex_pool = 16"
    by (simp_all add: um_grant_ok_def um_pdu_buffer_ok_def um_ex_pool_def bb_ok_def get_tailroom_def)
  have m: "min (6 :: u32) 16 = 6" by (simp add: min_def)
  have s: "bb_data (um_ex_sdu 7) = [1, 2, 3]" "bb_n (um_ex_sdu 7) = 3" by (simp_all add: um_ex_sdu_def bb_data_def)
  from um_short_grant_corrupts [OF tx _ g(1)] obtain tx1 tx2 h where
    r: "um_tx_build_data_pdu (Some um_ex_pool) (replicate 8 0) 2 tx = Some (0, replicate 8 0, tx1)"
      "um_tx_build_data_pdu (Some um_ex_pool) (replicate 8 0) 6 tx1 =
        Some (1 + 3, um_header_bytes h @ [1, 2, 3] @ drop (1 + 3) (replicate 8 0), tx2)" "u_si h = last_segment" "u_so h = 0"
      "rlc_um_nr_read_data_pdu_header (um_header_bytes h @ [1, 2, 3] @ drop (1 + 3) (replicate 8 0)) um_size6bits um_header_new =
        Some (3, h\<lparr>u_so := push_bit 8 (ucast ([1, 2, 3 :: u8] ! 0)) OR ucast ([1, 2, 3 :: u8] ! 1)\<rparr>)"
    unfolding g(2) m s by auto
  have "length (um_header_bytes h) = 1 \<or> length (um_header_bytes h) = 2" using r(3,4) by (simp add: length_um_header_bytes rlc_um_nr_packed_length_def)
  moreover have "length (um_header_bytes h @ [1, 2, 3] @ drop (1 + 3) (replicate 8 (0 :: u8))) = 8"
  proof -
    obtain p where "um_read_pdu (Some um_ex_pool) (replicate 8 0) 6 ((um_entity_new 1)\<lparr>e_tx := Some tx1, e_tx_enabled := True\<rparr>) =
        Some (1 + 3, um_header_bytes h @ [1, 2, 3] @ drop (1 + 3) (replicate 8 0), p)"
      using r(2) by (auto simp: um_read_pdu_def Let_def)
    from um_pdu_within_grant [OF this] show ?thesis by simp
  qed
  ultimately have "length (um_header_bytes h) = 1" by simp
  then have "take 3 (drop 1 (um_header_bytes h @ [1, 2, 3] @ drop (1 + 3) (replicate 8 0))) = [1, 2, 3 :: u8]" by simp
  moreover have "u_so (h\<lparr>u_so := push_bit 8 (ucast ([1, 2, 3 :: u8] ! 0)) OR ucast ([1, 2, 3 :: u8] ! 1)\<rparr>) = 0x102" by simp
  moreover have "1 + 3 = (4 :: nat)" by simp
  ultimately show ?thesis using r(1,2,5) by metis
qed

lemma um_discard_effect_witness:
  "\<exists>tx tx'. bbq_items (t_queue tx) = [Some (um_ex_sdu 7)] \<and> um_tx_discard_sdu 7 tx = Some (False, tx') \<and> bbq_items (t_queue tx') = [None]"
proof -
  obtain tx where tx: "um_tx_ok tx" "bbq_items (t_queue tx) = [Some (um_ex_sdu 7)]" "bbq_capacity (t_queue tx) = 4"
    by (rule um_ex_queue)
  have q: "bbq_ok (t_queue tx)" "0 < bbq_capacity (t_queue tx)" using tx by (simp_all add: um_tx_ok_def)
  have "length (bbq_items (t_queue tx)) = cb_count (bq_queue (t_queue tx))" by (simp add: bbq_items_def)
  then have "\<not> um_tx_sdu_queue_is_full tx"
    using tx by (simp add: um_tx_sdu_queue_is_full_def bbq_is_full_def cb_full_def bbq_capacity_def)
  then show ?thesis using um_discard_effect [OF q, of 7] tx(2) by (auto simp: um_discarded_def um_ex_sdu_def)
qed

section \<open>The queue as a list\<close>

datatype bbq_op = Bq_Write byte_buffer | Bq_Read | Bq_Discard u32

definition bbq_step :: "bbq_op \<Rightarrow> bbq \<Rightarrow> (unique_byte_buffer list \<times> bbq) option" where
  "bbq_step op q =
    (case op of
       Bq_Write b \<Rightarrow> map_option (\<lambda>(_, q). ([], q)) (bbq_try_write (Some b) q)
     | Bq_Read \<Rightarrow> map_option (\<lambda>(m, q). (case m of None \<Rightarrow> [] | Some m \<Rightarrow> [m], q)) (bbq_try_read q)
     | Bq_Discard sn \<Rightarrow> map_option (\<lambda>(_, q). ([], q)) (bbq_apply_first (um_discard_step sn) q))"

primrec bbq_run :: "bbq_op list \<Rightarrow> bbq \<Rightarrow> (unique_byte_buffer list \<times> bbq) option" where
  "bbq_run [] q = Some ([], q)"
| "bbq_run (op # ops) q =
    Option.bind (bbq_step op q) (\<lambda>(out, q). map_option (\<lambda>(out', q). (out @ out', q)) (bbq_run ops q))"

text \<open>The same on a bounded list.\<close>

definition list_step :: "nat \<Rightarrow> bbq_op \<Rightarrow> unique_byte_buffer list \<Rightarrow> unique_byte_buffer list \<times> unique_byte_buffer list" where
  "list_step cap op ms =
    (case op of
       Bq_Write b \<Rightarrow> ([], if length ms < cap then ms @ [Some b] else ms)
     | Bq_Read \<Rightarrow> (take 1 ms, drop 1 ms)
     | Bq_Discard sn \<Rightarrow> ([], if length ms < cap then map (um_discarded sn) ms else ms))"

primrec list_run :: "nat \<Rightarrow> bbq_op list \<Rightarrow> unique_byte_buffer list \<Rightarrow> unique_byte_buffer list \<times> unique_byte_buffer list" where
  "list_run cap [] ms = ([], ms)"
| "list_run cap (op # ops) ms =
    (case list_step cap op ms of (out, ms) \<Rightarrow> case list_run cap ops ms of (out', ms) \<Rightarrow> (out @ out', ms))"

definition bbq_op_ok :: "bbq_op \<Rightarrow> bool" where
  "bbq_op_ok op = (case op of Bq_Write b \<Rightarrow> bb_n b \<le> SRSRAN_MAX_BUFFER_SIZE_BYTES | _ \<Rightarrow> True)"

lemma bbq_full_iff: "bbq_ok q \<Longrightarrow> bbq_is_full q \<longleftrightarrow> \<not> length (bbq_items q) < bbq_capacity q"
  using cq.bound [of "bq_queue q"] by (auto simp: bbq_is_full_def cb_full_def bbq_items_def bbq_capacity_def bbq_ok_def)

lemma bbq_step_ok:
  assumes ok: "bbq_ok q" and op: "bbq_op_ok op" and cap: "0 < bbq_capacity q"
  shows "\<exists>q'. bbq_step op q = Some (fst (list_step (bbq_capacity q) op (bbq_items q)), q') \<and> bbq_ok q' \<and>
    bbq_capacity q' = bbq_capacity q \<and> bbq_items q' = snd (list_step (bbq_capacity q) op (bbq_items q))"
proof (cases op)
  case (Bq_Write b)
  then show ?thesis using bbq_try_write_ok [OF ok, of b] op by (auto simp: bbq_step_def list_step_def bbq_op_ok_def)
next
  case Bq_Read
  show ?thesis
  proof (cases "bbq_items q = []")
    case True
    then show ?thesis using Bq_Read ok bbq_is_empty_iff [of q] by (simp add: bbq_step_def list_step_def bbq_try_read_def bbq_is_empty_def)
  next
    case False
    then obtain q' where "bbq_read q = Some (hd (bbq_items q), q')" "bbq_ok q'" "bbq_items q' = tl (bbq_items q)" "bbq_capacity q' = bbq_capacity q"
      using bbq_read_ok [OF ok] by blast
    then show ?thesis using Bq_Read False bbq_is_empty_iff [of q]
      by (cases "bbq_items q") (auto simp: bbq_step_def list_step_def bbq_try_read_def bbq_is_empty_def)
  qed
next
  case (Bq_Discard sn)
  show ?thesis
  proof (cases "bbq_is_full q")
    case True
    then have "cb_apply_first (um_discard_step sn) (bq_queue q) (bq_unread_bytes q, bq_n_sdus q) = Some (False, bq_queue q, (bq_unread_bytes q, bq_n_sdus q))"
      using ok cap by (intro cb_apply_first_full) (simp_all add: bbq_is_full_def bbq_ok_def bbq_capacity_def)
    then show ?thesis
      using Bq_Discard True ok bbq_full_iff [OF ok] by (cases q) (simp add: bbq_step_def list_step_def bbq_apply_first_def)
  next
    case False
    then show ?thesis using bbq_discard [OF ok, of sn] Bq_Discard bbq_full_iff [OF ok] by (auto simp: bbq_step_def list_step_def)
  qed
qed



text \<open>The SDUs that are waiting, the one under way included.\<close>

definition um_waiting :: "um_tx \<Rightarrow> unique_byte_buffer list" where
  "um_waiting tx = t_sdu tx # bbq_items (t_queue tx)"

text \<open>
  : the buffer state reported to the MAC is the number of octets that wait, and for each SDU but one an octet and a half, and a
  header of two or three octets, rounded down; nothing when nothing waits.
\<close>

theorem um_buffer_state_exact:
  assumes ok: "bbq_ok (t_queue tx)" and cur: "sdu_octets (t_sdu tx) < 2 ^ 16"
  defines "n \<equiv> total_count (um_waiting tx)" and "m \<equiv> total_bytes (um_waiting tx)"
  defines "octets \<equiv> m + (if 1 < n then (3 * (n - 1) + 1) div 2 else 0)"
  shows "\<exists>r. um_tx_get_buffer_state tx = Some r \<and> unat r = (if octets = 0 then 0 else octets + (if t_is_mrb tx then 2 else 3))"
proof -
  let ?b = "total_bytes (bbq_items (t_queue tx))" and ?c = "total_count (bbq_items (t_queue tx))"
  have len: "length (bbq_items (t_queue tx)) \<le> 2 ^ 17"
    using ok cq.bound [of "bq_queue (t_queue tx)"] by (simp add: bbq_ok_def bbq_items_def bbq_capacity_def)
  have all: "\<forall>m \<in> set (bbq_items (t_queue tx)). sdu_octets m \<le> SRSRAN_MAX_BUFFER_SIZE_BYTES" using ok by (simp add: bbq_ok_def)
  have c: "?c \<le> 2 ^ 17" using sdu_count_le [of "bbq_items (t_queue tx)"] len by simp
  have "?b \<le> SRSRAN_MAX_BUFFER_SIZE_BYTES * length (bbq_items (t_queue tx))" by (rule bytes_le [OF all])
  also have "\<dots> \<le> SRSRAN_MAX_BUFFER_SIZE_BYTES * 2 ^ 17" using len by simp
  finally have b: "?b < 2 ^ 31" by (simp add: SRSRAN_MAX_BUFFER_SIZE_BYTES_def SRSRAN_BUFFER_HEADER_OFFSET_def)
  have cnt: "sdu_count (t_sdu tx) \<le> 1" by (cases "t_sdu tx") simp_all
  have nm: "n = sdu_count (t_sdu tx) + ?c" "m = sdu_octets (t_sdu tx) + ?b" by (simp_all add: n_def m_def um_waiting_def)
  have bounds: "n \<le> 2 ^ 17 + 1" "m < 2 ^ 31 + 2 ^ 16" using nm b c cnt cur by simp_all
  have q: "bq_unread_bytes (t_queue tx) = of_nat ?b" "bq_n_sdus (t_queue tx) = of_nat ?c" using ok by (simp_all add: bbq_ok_def)
  have pair: "(case t_sdu tx of None \<Rightarrow> (bq_n_sdus (t_queue tx), bq_unread_bytes (t_queue tx))
      | Some s \<Rightarrow> (bq_n_sdus (t_queue tx) + 1, bq_unread_bytes (t_queue tx) + of_nat (bb_n s))) = (of_nat n, of_nat m)"
    by (cases "t_sdu tx") (simp_all add: nm q add.commute)
  have u: "unat (of_nat n :: u32) = n" "unat (of_nat m :: u32) = m" using bounds by (auto intro!: unat_of_nat_eq)
  have one: "1 < (of_nat n :: u32) \<longleftrightarrow> 1 < n" using u(1) by (simp add: word_less_nat_alt)
  have pred: "unat (of_nat n - 1 :: u32) = n - 1" if "1 < n"
    using that u(1) by (subst unat_sub) (simp_all add: word_le_nat_alt)
  have "(3 * (n - 1) + 1) div 2 \<le> 2 * n" by simp
  then have small: "octets < 2 ^ 31 + 2 ^ 20" using bounds unfolding octets_def by (simp split: if_splits)
  have eq: "(if 1 < (of_nat n :: u32) then unat (of_nat m :: u32) + (3 * unat (of_nat n - 1 :: u32) + 1) div 2 else unat (of_nat m :: u32)) = octets"
    using one u(2) pred by (simp add: octets_def)
  have us: "unat (of_nat (octets + k) :: u32) = octets + k" if "k \<le> 3" for k
  proof -
    have "octets + k < 2 ^ LENGTH(32)" using that small by simp
    then show ?thesis by (rule unat_of_nat_eq)
  qed
  have pos: "0 < (of_nat octets :: u32) \<longleftrightarrow> octets \<noteq> 0" using us [of 0] by (simp add: word_less_nat_alt)
  have "um_tx_get_buffer_state tx = Some (if octets \<noteq> 0 then of_nat octets + (if t_is_mrb tx then 2 else 3) else of_nat octets)"
    unfolding um_tx_get_buffer_state_def pair using small by (simp add: Let_def eq pos)
  then show ?thesis using us [of 0] us [of 2] us [of 3] by (auto simp: add.commute)
qed

lemma um_buffer_state_exact_witness:
  "\<exists>tx r. bbq_items (t_queue tx) = [Some (um_ex_sdu 7)] \<and> um_tx_get_buffer_state tx = Some r \<and> unat r = 6"
proof -
  obtain tx where tx: "um_tx_ok tx" "t_sdu tx = None" "bbq_items (t_queue tx) = [Some (um_ex_sdu 7)]" by (rule um_ex_queue)
  let ?tx = "tx\<lparr>t_is_mrb := False\<rparr>"
  have "bbq_ok (t_queue ?tx)" "sdu_octets (t_sdu ?tx) < 2 ^ 16" using tx by (simp_all add: um_tx_ok_def)
  from um_buffer_state_exact [OF this] show ?thesis using tx(2,3) by (auto simp: um_waiting_def um_ex_sdu_def intro!: exI [of _ ?tx])
qed

section \<open>Suspension\<close>

primrec um_write_all :: "(unique_byte_buffer \<Rightarrow> um_entity \<Rightarrow> um_entity option) \<Rightarrow> byte_buffer list \<Rightarrow> um_entity \<Rightarrow> um_entity option" where
  "um_write_all w [] e = Some e"
| "um_write_all w (b # bs) e = Option.bind (w (Some b) e) (um_write_all w bs)"

definition um_set_aside :: "bool \<Rightarrow> unique_byte_buffer circ \<Rightarrow> um_entity \<Rightarrow> um_entity" where
  "um_set_aside sus q e = e\<lparr>e_suspended := sus, e_tx_sdu_resume_queue := q\<rparr>"

lemma set_aside_simps [simp]:
  "e_tx_sdu_resume_queue (um_set_aside sus q e) = q" "e_suspended (um_set_aside sus q e) = sus"
  "e_rx_pdu_resume_queue (um_set_aside sus q e) = e_rx_pdu_resume_queue e"
  "(um_set_aside sus q e)\<lparr>e_tx_sdu_resume_queue := q'\<rparr> = um_set_aside sus q' e" "(um_set_aside sus q e)\<lparr>e_suspended := s'\<rparr> = um_set_aside s' q e"
  by (simp_all add: um_set_aside_def)

lemma write_sdu_aside: "um_write_sdu m (um_set_aside sus q e) = map_option (um_set_aside sus q) (um_write_sdu m e)"
  by (cases e) (auto simp: um_write_sdu_def um_set_aside_def um_count_lost_def Let_def option.map_comp o_def split: option.split
      intro!: option.map_cong)

lemma write_sdu_keeps: "um_write_sdu m e = Some e' \<Longrightarrow>
    e_rx_pdu_resume_queue e' = e_rx_pdu_resume_queue e \<and> e_suspended e' = e_suspended e \<and> e_tx_sdu_resume_queue e' = e_tx_sdu_resume_queue e"
  by (auto simp: um_write_sdu_def um_count_lost_def Let_def split: option.splits if_splits)

lemma write_all_keeps: "um_write_all um_write_sdu bs e = Some e' \<Longrightarrow>
    e_rx_pdu_resume_queue e' = e_rx_pdu_resume_queue e \<and> e_suspended e' = e_suspended e \<and> e_tx_sdu_resume_queue e' = e_tx_sdu_resume_queue e"
proof (induction bs arbitrary: e)
  case (Cons b bs)
  then obtain e1 where e1: "um_write_sdu (Some b) e = Some e1" "um_write_all um_write_sdu bs e1 = Some e'" by (auto simp: bind_eq_Some_conv)
  show ?case using Cons.IH [OF e1(2)] write_sdu_keeps [OF e1(1)] by simp
qed simp

text \<open>While the entity is suspended, SDUs are queued in order.\<close>

lemma write_suspended:
  assumes "cb_ok q" "cb_count q + length bs \<le> cb_max_size q"
  shows "\<exists>q'. um_write_all um_write_sdu_s bs (um_set_aside True q e) = Some (um_set_aside True q' e) \<and> cb_ok q' \<and>
    cb_list q' = cb_list q @ map Some bs"
  using assms
proof (induction bs arbitrary: q)
  case Nil
  then show ?case by auto
next
  case (Cons b bs)
  obtain q1 where q1: "cb_push (Some b) q = Some q1" "cb_ok q1" "cb_list q1 = cb_list q @ [Some b]" "cb_max_size q1 = cb_max_size q"
    using cb_push_ok [OF Cons.prems(1), of "Some b"] Cons.prems(2) by auto
  have "length (cb_list q1) = Suc (cb_count q)" using q1(3) by (simp del: length_cb_list add: length_cb_list [of q])
  then have "cb_count q1 + length bs \<le> cb_max_size q1" using Cons.prems(2) q1(4) by simp
  from Cons.IH [OF q1(2) this] show ?case
    using q1 Cons.prems(2) by (auto simp: um_write_sdu_s_def um_queue_tx_sdu_def cb_try_push_def cb_full_def)
qed

lemma resume_tx_ok:
  assumes "cb_ok q" "cb_list q = map Some bs" "um_write_all um_write_sdu bs e = Some e'"
  shows "\<exists>q'. um_resume_tx (um_set_aside sus q e) = Some (um_set_aside sus q' e') \<and> cb_ok q' \<and> cb_list q' = []"
  using assms
proof (induction bs arbitrary: q e)
  case Nil
  then have "cb_count q = 0" using length_cb_list [of q] by simp
  then show ?case using Nil by (subst um_resume_tx.simps) (auto simp: cb_empty_def)
next
  case (Cons b bs)
  obtain e1 where e1: "um_write_sdu (Some b) e = Some e1" "um_write_all um_write_sdu bs e1 = Some e'"
    using Cons.prems(3) by (auto simp: bind_eq_Some_conv)
  have ne: "cb_list q \<noteq> []" using Cons.prems(2) by simp
  obtain q1 where q1: "cb_pop q = Some q1" "cb_ok q1" "cb_list q1 = map Some bs" "cb_top q = Some (Some b)"
    using cb_pop_ok [OF Cons.prems(1) ne] Cons.prems(2) by auto
  have "\<not> cb_empty q" using q1(4) by (auto simp: cb_top_def)
  then show ?case
    using Cons.IH [OF q1(2,3) e1(2)] q1(1,4) e1(1) by (subst um_resume_tx.simps) (simp add: write_sdu_aside)
qed

text \<open>
  C30: suspension is transparent to the SDUs of PDCP: up to the capacity of the queue, what is written while the entity is suspended
  has, after resumption, the effect that writing it directly has.
\<close>

theorem um_suspension_transparent:
  assumes e: "\<not> e_suspended e" "cb_ok (e_tx_sdu_resume_queue e)" "cb_list (e_tx_sdu_resume_queue e) = []"
      "cb_empty (e_rx_pdu_resume_queue e)"
    and n: "length bs \<le> cb_max_size (e_tx_sdu_resume_queue e)" and w: "um_write_all um_write_sdu bs e = Some e'"
  shows "\<exists>e2 q. um_write_all um_write_sdu_s bs (snd (um_suspend e)) = Some e2 \<and>
    um_resume mem e2 = Some (True, [], e'\<lparr>e_tx_sdu_resume_queue := q\<rparr>) \<and> cb_list q = []"
proof -
  let ?q = "e_tx_sdu_resume_queue e"
  have s: "snd (um_suspend e) = um_set_aside True ?q e" using e(1) by (simp add: um_suspend_def um_set_aside_def)
  have "cb_count ?q + length bs \<le> cb_max_size ?q" using n e(3) length_cb_list [of ?q] by simp
  from write_suspended [OF e(2) this, of e] obtain q1 where
    q1: "um_write_all um_write_sdu_s bs (um_set_aside True ?q e) = Some (um_set_aside True q1 e)" "cb_ok q1" "cb_list q1 = map Some bs"
    using e(3) by auto
  obtain q2 where q2: "um_resume_tx (um_set_aside True q1 e) = Some (um_set_aside True q2 e')" "cb_list q2 = []"
    using resume_tx_ok [OF q1(2,3) w] by blast
  have "um_resume_rx mem (um_set_aside True q1 e) = Some ([], um_set_aside True q1 e)"
    using e(4) by (subst um_resume_rx.simps) simp
  moreover have "um_set_aside False q2 e' = e'\<lparr>e_tx_sdu_resume_queue := q2\<rparr>"
    using write_all_keeps [OF w] e(1) by (cases e') (simp add: um_set_aside_def)
  ultimately show ?thesis
    using q1(1) q2 unfolding s by (intro exI [of _ "um_set_aside True q1 e"] exI [of _ q2]) (simp add: um_resume_def)
qed

lemma um_suspension_transparent_witness:
  "\<exists>e2 e3. um_write_all um_write_sdu_s [um_ex_sdu 1, um_ex_sdu 2] (snd (um_suspend um_ex_entity)) = Some e2 \<and>
    um_resume [] e2 = Some (True, [], e3) \<and> num_tx_sdus (e_metrics e3) = 2"
proof -
  have q: "bbq_ok (t_queue um_ex_tx)" "bbq_items (t_queue um_ex_tx) = []" "bbq_capacity (t_queue um_ex_tx) = 128"
    using bbq_ok_new [of 128] by (simp_all add: um_ex_tx_def um_tx_new_def bbq_capacity_def bbq_new_def)
  have b: "bb_n (um_ex_sdu n) \<le> SRSRAN_MAX_BUFFER_SIZE_BYTES" for n by (simp add: um_ex_sdu_def SRSRAN_MAX_BUFFER_SIZE_BYTES_def)
  obtain q1 where q1: "bbq_try_write (Some (um_ex_sdu 1)) (t_queue um_ex_tx) = Some (True, q1)" "bbq_ok q1" "bbq_capacity q1 = 128" "length (bbq_items q1) = 1"
    using bbq_try_write_ok [OF q(1) b, of 1] q(2,3) by auto
  obtain q2 where q2: "bbq_try_write (Some (um_ex_sdu 2)) q1 = Some (True, q2)"
    using bbq_try_write_ok [OF q1(2) b, of 2] q1(3,4) by auto
  have w: "\<exists>e'. um_write_all um_write_sdu [um_ex_sdu 1, um_ex_sdu 2] um_ex_entity = Some e' \<and> num_tx_sdus (e_metrics e') = 2"
    using q1(1) q2 by (simp add: um_ex_entity_def um_entity_new_def um_write_sdu_def um_tx_try_write_sdu_def Let_def um_metrics_zero_def)
  then obtain e' where e': "um_write_all um_write_sdu [um_ex_sdu 1, um_ex_sdu 2] um_ex_entity = Some e'" "num_tx_sdus (e_metrics e') = 2" by blast
  have "\<not> e_suspended um_ex_entity" "cb_ok (e_tx_sdu_resume_queue um_ex_entity)" "cb_list (e_tx_sdu_resume_queue um_ex_entity) = []"
    "cb_empty (e_rx_pdu_resume_queue um_ex_entity)" "length [um_ex_sdu 1, um_ex_sdu 2] \<le> cb_max_size (e_tx_sdu_resume_queue um_ex_entity)"
    by (simp_all add: um_ex_entity_def um_entity_new_def) (simp add: cb_empty_def cb_new_def)
  from um_suspension_transparent [OF this e'(1), of "[]"] obtain e2 q where
    "um_write_all um_write_sdu_s [um_ex_sdu 1, um_ex_sdu 2] (snd (um_suspend um_ex_entity)) = Some e2"
    "um_resume [] e2 = Some (True, [], e'\<lparr>e_tx_sdu_resume_queue := q\<rparr>)" by blast
  moreover have "num_tx_sdus (e_metrics (e'\<lparr>e_tx_sdu_resume_queue := q\<rparr>)) = 2" using e'(2) by simp
  ultimately show ?thesis by blast
qed

end
