(* ===== verification/Lte_Bands.thy ===== *)
theory Lte_Bands
  imports Prelude Complex_Main
begin

text \<open>
  The table of LTE bands and the conversions between bands, channel numbers (EARFCNs) and frequencies
  (\<open>lib/src/phy/common/phy_common.c\<close>).

  An EARFCN is a \<open>nat\<close> where the code has a \<open>uint32_t\<close> and an \<open>int\<close> where it has an \<open>int\<close>; the
  conversions between both are \<open>u32_of\<close> and \<open>s32_of\<close>. Frequencies are exact rational numbers of MHz:
  the rounding of \<open>double\<close> and \<open>float\<close> is not modelled. \<open>None\<close> stands for \<open>SRSRAN_ERROR\<close>. A list of
  channels stands for the array that the callee fills and the length that it returns.
\<close>

section \<open>The table\<close>

datatype band_geographical_area =
    GEO_AREA_ALL | GEO_AREA_NAR | GEO_AREA_APAC | GEO_AREA_EMEA | GEO_AREA_JAPAN | GEO_AREA_CALA | GEO_AREA_NA

record lte_band =
  lb_band :: nat
  lb_fd_low_mhz :: rat
  lb_dl_earfcn_offset :: nat
  lb_ul_earfcn_offset :: nat
  lb_duplex_mhz :: rat
  lb_area :: band_geographical_area

definition lte_band_row ::
  "nat \<Rightarrow> rat \<Rightarrow> nat \<Rightarrow> nat \<Rightarrow> rat \<Rightarrow> band_geographical_area \<Rightarrow> lte_band" where
  "lte_band_row b f dl ul dx a =
    \<lparr>lb_band = b, lb_fd_low_mhz = f, lb_dl_earfcn_offset = dl, lb_ul_earfcn_offset = ul,
     lb_duplex_mhz = dx, lb_area = a\<rparr>"

definition lte_bands :: "lte_band list" where
  "lte_bands = [
   lte_band_row 1 (2110) 0 18000 (190) GEO_AREA_ALL,
   lte_band_row 2 (1930) 600 18600 (80) GEO_AREA_NAR,
   lte_band_row 3 (1805) 1200 19200 (95) GEO_AREA_ALL,
   lte_band_row 4 (2110) 1950 19950 (400) GEO_AREA_NAR,
   lte_band_row 5 (869) 2400 20400 (45) GEO_AREA_NAR,
   lte_band_row 6 (875) 2650 20650 (45) GEO_AREA_APAC,
   lte_band_row 7 (2620) 2750 20750 (120) GEO_AREA_EMEA,
   lte_band_row 8 (925) 3450 21450 (45) GEO_AREA_ALL,
   lte_band_row 9 (18449/10) 3800 21800 (95) GEO_AREA_APAC,
   lte_band_row 10 (2110) 4150 22150 (400) GEO_AREA_NAR,
   lte_band_row 11 (14759/10) 4750 22750 (48) GEO_AREA_JAPAN,
   lte_band_row 12 (729) 5010 23010 (30) GEO_AREA_NAR,
   lte_band_row 13 (746) 5180 23180 (- 31) GEO_AREA_NAR,
   lte_band_row 14 (758) 5280 23280 (- 30) GEO_AREA_NAR,
   lte_band_row 17 (734) 5730 23730 (30) GEO_AREA_NAR,
   lte_band_row 18 (860) 5850 23850 (45) GEO_AREA_JAPAN,
   lte_band_row 19 (875) 6000 24000 (45) GEO_AREA_JAPAN,
   lte_band_row 20 (791) 6150 24150 (- 41) GEO_AREA_EMEA,
   lte_band_row 21 (14959/10) 6450 24450 (48) GEO_AREA_JAPAN,
   lte_band_row 22 (3500) 6600 24600 (100) GEO_AREA_NA,
   lte_band_row 23 (2180) 7500 25500 (180) GEO_AREA_NAR,
   lte_band_row 24 (1525) 7700 25700 (- 1015/10) GEO_AREA_NAR,
   lte_band_row 25 (1930) 8040 26040 (80) GEO_AREA_NAR,
   lte_band_row 26 (859) 8690 26690 (45) GEO_AREA_NAR,
   lte_band_row 27 (852) 9040 27040 (45) GEO_AREA_NAR,
   lte_band_row 28 (758) 9210 27210 (55) GEO_AREA_APAC,
   lte_band_row 29 (717) 9660 0 (0) GEO_AREA_NAR,
   lte_band_row 30 (2350) 9770 27660 (45) GEO_AREA_NAR,
   lte_band_row 31 (4625/10) 9870 27760 (10) GEO_AREA_CALA,
   lte_band_row 32 (1452) 9920 0 (0) GEO_AREA_EMEA,
   lte_band_row 33 (1900) 36000 0 (0) GEO_AREA_EMEA,
   lte_band_row 34 (2010) 36200 0 (0) GEO_AREA_EMEA,
   lte_band_row 35 (1850) 36350 0 (0) GEO_AREA_NAR,
   lte_band_row 36 (1930) 36950 0 (0) GEO_AREA_NAR,
   lte_band_row 37 (1910) 37550 0 (0) GEO_AREA_NAR,
   lte_band_row 38 (2570) 37750 0 (0) GEO_AREA_EMEA,
   lte_band_row 39 (1880) 38250 0 (0) GEO_AREA_APAC,
   lte_band_row 40 (2300) 38650 0 (0) GEO_AREA_APAC,
   lte_band_row 41 (2496) 39650 0 (0) GEO_AREA_ALL,
   lte_band_row 42 (3400) 41590 0 (0) GEO_AREA_ALL,
   lte_band_row 43 (3600) 43590 0 (0) GEO_AREA_ALL,
   lte_band_row 44 (703) 45590 0 (0) GEO_AREA_APAC,
   lte_band_row 45 (1447) 46590 0 (0) GEO_AREA_APAC,
   lte_band_row 46 (5150) 46790 0 (0) GEO_AREA_ALL,
   lte_band_row 47 (5855) 54540 0 (0) GEO_AREA_ALL,
   lte_band_row 48 (3550) 55240 0 (0) GEO_AREA_ALL,
   lte_band_row 49 (3550) 56740 0 (0) GEO_AREA_ALL,
   lte_band_row 50 (1432) 58240 0 (0) GEO_AREA_ALL,
   lte_band_row 51 (1427) 59090 0 (0) GEO_AREA_ALL,
   lte_band_row 52 (3300) 59140 0 (0) GEO_AREA_ALL,
   lte_band_row 64 (0) 60140 27810 (0) GEO_AREA_ALL,
   lte_band_row 65 (2110) 65536 131072 (190) GEO_AREA_ALL,
   lte_band_row 66 (2110) 66436 131972 (400) GEO_AREA_NAR,
   lte_band_row 67 (738) 67336 0 (0) GEO_AREA_EMEA,
   lte_band_row 68 (753) 67536 132672 (55) GEO_AREA_EMEA,
   lte_band_row 69 (2570) 67836 0 (0) GEO_AREA_EMEA,
   lte_band_row 70 (1995) 68336 132972 (300) GEO_AREA_NAR,
   lte_band_row 71 (617) 68586 133122 (- 46) GEO_AREA_NAR,
   lte_band_row 72 (0) 68936 133472 (0) GEO_AREA_NAR
  ]"

definition SRSRAN_NOF_LTE_BANDS :: nat where
  "SRSRAN_NOF_LTE_BANDS = 59"

section \<open>Conversions\<close>

definition u32_of :: "int \<Rightarrow> nat" where
  "u32_of x = nat (x mod 2 ^ 32)"

definition s32_of :: "nat \<Rightarrow> int" where
  "s32_of x = (int x + 2 ^ 31) mod 2 ^ 32 - 2 ^ 31"

definition get_fd :: "lte_band \<Rightarrow> nat \<Rightarrow> rat" where
  "get_fd band dl_earfcn =
    (if lb_dl_earfcn_offset band \<le> dl_earfcn
     then lb_fd_low_mhz band + 1 / 10 * of_nat (dl_earfcn - lb_dl_earfcn_offset band)
     else 0)"

definition get_fu :: "lte_band \<Rightarrow> nat \<Rightarrow> rat" where
  "get_fu band ul_earfcn =
    (if lb_ul_earfcn_offset band \<le> ul_earfcn
     then lb_fd_low_mhz band - lb_duplex_mhz band + 1 / 10 * of_nat (ul_earfcn - lb_ul_earfcn_offset band)
     else 0)"

text \<open>
  The loop that looks for a band number from index 0 on, and the loop that goes down from an index to
  the entry in which a downlink EARFCN lies.
\<close>

fun band_index_from :: "lte_band list \<Rightarrow> nat \<Rightarrow> nat \<Rightarrow> nat" where
  "band_index_from [] i band = i"
| "band_index_from (b # bs) i band = (if lb_band b = band then i else band_index_from bs (i + 1) band)"

definition band_index :: "nat \<Rightarrow> nat" where
  "band_index band = band_index_from lte_bands 0 band"

primrec dl_index_down :: "nat \<Rightarrow> nat \<Rightarrow> nat" where
  "dl_index_down 0 dl_earfcn = 0"
| "dl_index_down (Suc i) dl_earfcn =
    (if dl_earfcn < lb_dl_earfcn_offset (lte_bands ! Suc i) then dl_index_down i dl_earfcn else Suc i)"

primrec ul_index_down :: "nat \<Rightarrow> nat \<Rightarrow> nat" where
  "ul_index_down 0 ul_earfcn = 0"
| "ul_index_down (Suc i) ul_earfcn =
    (if ul_earfcn < lb_ul_earfcn_offset (lte_bands ! Suc i) \<or> lb_ul_earfcn_offset (lte_bands ! Suc i) = 0
     then ul_index_down i ul_earfcn else Suc i)"

definition srsran_band_is_tdd :: "nat \<Rightarrow> bool" where
  "srsran_band_is_tdd band =
    (let i = band_index band
     in if i = SRSRAN_NOF_LTE_BANDS then False else lb_ul_earfcn_offset (lte_bands ! i) = 0)"

definition srsran_band_get_band :: "nat \<Rightarrow> nat" where
  "srsran_band_get_band dl_earfcn =
    (let i = SRSRAN_NOF_LTE_BANDS - 1
     in if lb_dl_earfcn_offset (lte_bands ! i) < dl_earfcn then 0
        else lb_band (lte_bands ! dl_index_down (i - 1) dl_earfcn))"

definition srsran_band_fd :: "nat \<Rightarrow> rat" where
  "srsran_band_fd dl_earfcn =
    (let i = SRSRAN_NOF_LTE_BANDS - 1
     in if lb_dl_earfcn_offset (lte_bands ! i) < dl_earfcn then 0
        else get_fd (lte_bands ! dl_index_down (i - 1) dl_earfcn) dl_earfcn)"

definition srsran_band_fu :: "nat \<Rightarrow> rat" where
  "srsran_band_fu ul_earfcn =
    (let i = SRSRAN_NOF_LTE_BANDS - 1
     in if lb_ul_earfcn_offset (lte_bands ! i) < ul_earfcn then 0
        else get_fu (lte_bands ! ul_index_down (i - 1) ul_earfcn) ul_earfcn)"

definition srsran_band_ul_earfcn :: "nat \<Rightarrow> nat" where
  "srsran_band_ul_earfcn dl_earfcn =
    (let i = SRSRAN_NOF_LTE_BANDS - 1
     in if lb_dl_earfcn_offset (lte_bands ! i) < dl_earfcn then 0
        else let b = lte_bands ! dl_index_down (i - 1) dl_earfcn
             in lb_ul_earfcn_offset b + (dl_earfcn - lb_dl_earfcn_offset b))"

section \<open>The channels of a band\<close>

record srsran_earfcn =
  ch_id :: int
  ch_fd :: rat

definition fd_channel :: "lte_band \<Rightarrow> int \<Rightarrow> nat \<Rightarrow> srsran_earfcn" where
  "fd_channel b start_earfcn j =
    (let i = s32_of (u32_of (int j + start_earfcn)) in \<lparr>ch_id = i, ch_fd = get_fd b (u32_of i)\<rparr>)"

definition srsran_band_get_fd_band :: "nat \<Rightarrow> int \<Rightarrow> int \<Rightarrow> nat \<Rightarrow> srsran_earfcn list option" where
  "srsran_band_get_fd_band band start_earfcn end_earfcn max_elems =
    (let i = band_index band
     in if SRSRAN_NOF_LTE_BANDS - 1 \<le> i then None
        else let first = lb_dl_earfcn_offset (lte_bands ! i);
                 last = lb_dl_earfcn_offset (lte_bands ! (i + 1)) - 1
        in if end_earfcn \<noteq> -1 \<and> last < u32_of end_earfcn then None
        else if start_earfcn \<noteq> -1 \<and> u32_of start_earfcn < first then None
        else let end_e = (if end_earfcn = -1 then int last else end_earfcn);
                 start_e = (if start_earfcn = -1 then int first else start_earfcn);
                 nof_earfcn = u32_of (end_e - start_e);
                 n = (if max_elems < nof_earfcn then max_elems else nof_earfcn)
        in Some (map (fd_channel (lte_bands ! i) start_e) [0..<n]))"

definition srsran_band_get_fd_band_all :: "nat \<Rightarrow> nat \<Rightarrow> srsran_earfcn list option" where
  "srsran_band_get_fd_band_all band max_elems = srsran_band_get_fd_band band (-1) (-1) max_elems"

text \<open>
  The loop over the table collects the channels of the bands of a region. It hands the index \<open>i\<close> of the
  entry, not the number of its band, to \<open>srsran_band_get_fd_band\<close>.
\<close>

fun fd_region_from ::
  "lte_band list \<Rightarrow> nat \<Rightarrow> band_geographical_area \<Rightarrow> nat \<Rightarrow> srsran_earfcn list \<Rightarrow> srsran_earfcn list option" where
  "fd_region_from [] i region max_elems acc = Some acc"
| "fd_region_from (b # bs) i region max_elems acc =
    (if max_elems = 0 then Some acc
     else if lb_area b = region
          then (case srsran_band_get_fd_band i (-1) (-1) max_elems of
                  None \<Rightarrow> None
                | Some xs \<Rightarrow> fd_region_from bs (i + 1) region (max_elems - length xs) (acc @ xs))
          else fd_region_from bs (i + 1) region max_elems acc)"

definition srsran_band_get_fd_region ::
  "band_geographical_area \<Rightarrow> nat \<Rightarrow> srsran_earfcn list option" where
  "srsran_band_get_fd_region region max_elems = fd_region_from lte_bands 0 region max_elems []"

end
