(* ===== verification/Lte_Scan.thy ===== *)
theory Lte_Scan
  imports Lte_Bands
begin

text \<open>
  The LTE cell scanner, \<open>lib/examples/lte_scan.cc\<close> and \<open>lib/examples/lte_scan.h\<close>.

  What the radio and the signal processing answer is the environment of the scanner, a record of functions
  of the calls made so far: any behaviour of the air, also one that changes with time, is one of them.
  The calls themselves are kept in \<open>rf_log\<close>. The flag \<open>stop\<close> is volatile, and each reading of it asks the
  environment whether a signal handler or another thread has set it in the meantime. Numbers of type
  \<open>float\<close> are exact rational numbers. An array is a function of its index together with the checks that the
  code makes; a write behind its end has no result (\<open>None\<close>). Printing is left out.
\<close>

section \<open>Data\<close>

definition LTE_SCAN_MAX_RESULTS :: nat where "LTE_SCAN_MAX_RESULTS = 256"
definition LTE_SCAN_MAX_EARFCN :: nat where "LTE_SCAN_MAX_EARFCN = 2000"
definition LTE_SCAN_OP_NAME_LEN :: nat where "LTE_SCAN_OP_NAME_LEN = 64"
definition SAMP_FREQ :: rat where "SAMP_FREQ = 1920000"
definition MHZ :: rat where "MHZ = 1000000"
definition SRSRAN_UE_MIB_NOF_PRB :: nat where "SRSRAN_UE_MIB_NOF_PRB = 6"
definition SRSRAN_MAX_PORTS :: nat where "SRSRAN_MAX_PORTS = 4"

record lte_operator_entry =
  op_earfcn_min :: nat
  op_earfcn_max :: nat
  op_mcc :: nat
  op_mnc :: nat
  op_mnc_3digit :: bool
  op_operator_name :: string
  op_band_name :: string

record lte_scan_result =
  res_earfcn :: int
  res_freq_mhz :: rat
  res_pci :: nat
  res_nof_prb :: nat
  res_nof_ports :: nat
  res_rsrp_dbm :: rat
  res_psr :: rat
  res_cfo_hz :: rat
  res_mcc :: nat
  res_mnc :: nat
  res_mnc_3digit :: bool
  res_operator_name :: string
  res_from_sib1 :: bool
  res_tac :: nat
  res_cell_id :: nat
  res_sib1_decoded :: bool

record lte_scan_config =
  cfg_rf_device :: string
  cfg_rf_args :: string
  cfg_rf_gain_dB :: rat
  cfg_max_prb_sib1 :: nat
  cfg_psr_threshold :: rat
  cfg_try_sib1 :: bool

record cell_search_cfg =
  cs_max_frames_pbch :: nat
  cs_max_frames_pss :: nat
  cs_nof_valid_pss_frames :: nat
  cs_init_agc :: rat
  cs_force_tdd :: bool

text \<open>A cell that the search found, and the fields of a cell that the scanner reads.\<close>

record found_cell =
  fc_cell_id :: nat
  fc_cp :: nat
  fc_frame_type :: nat
  fc_peak :: rat
  fc_psr :: rat
  fc_cfo :: rat

record srsran_cell =
  cell_nof_prb :: nat
  cell_nof_ports :: nat
  cell_id :: nat
  cell_cp :: nat
  cell_frame_type :: nat

text \<open>
  The calls to the radio and to the signal processing that have an effect on it; those that acquire something
  with whether they did.
\<close>

datatype rf_event =
    Set_Gain rat | Set_Freq rat | Set_Srate rat | Start_Rx | Stop_Rx
  | Cs_Init nat bool | Cs_Valid_Frames nat | Cs_Scan | Cs_Free
  | Mib_Init bool | Mib_Set_Cell srsran_cell | Mib_Set_Cfo rat | Mib_Decode nat | Mib_Free
  | Buf_Malloc bool | Buf_Free
  | Sync_Init nat bool | Sync_Set_Cell srsran_cell | Sync_Set_Cfo rat | Sync_Get | Sync_Free
  | Dl_Init nat bool | Dl_Set_Cell srsran_cell | Dl_Decode nat | Dl_Free
  | Softbuf_Init nat bool | Softbuf_Free

type_synonym rf_log = "rf_event list"

text \<open>
  The parts of a decoded SIB1 that are read: the cell, the tracking area, and the networks with the digits of
  their codes (no country code when the field is absent).
\<close>

record sib1_info =
  sib_cell_id :: nat
  sib_tac :: nat
  sib_plmns :: "((nat \<times> nat \<times> nat) option \<times> nat list) list"

text \<open>
  The answers to the calls. An initialisation answers whether it fails; the search its return value and
  the three entries of its array; the decoder of the broadcast channel its return value with the bandwidth
  and the ports; the synchronisation its return value with the subframe and the frame; the decoder of SIB1 the
  message, when there is one that unpacks as SIB1. The last two fields are the conversion of a power to dB and
  the option of the build for the sample rates.
\<close>

record scan_env =
  env_open :: "rf_log \<Rightarrow> bool"
  env_cs_init :: "rf_log \<Rightarrow> bool"
  env_cs_scan :: "rf_log \<Rightarrow> int \<times> (nat \<Rightarrow> found_cell)"
  env_mib_init :: "rf_log \<Rightarrow> bool"
  env_mib_set_cell :: "rf_log \<Rightarrow> bool"
  env_mib_decode :: "rf_log \<Rightarrow> int \<times> nat \<times> nat"
  env_cfo :: "rf_log \<Rightarrow> rat"
  env_set_srate :: "rf_log \<Rightarrow> rat"
  env_malloc_fails :: "rf_log \<Rightarrow> bool"
  env_sync_init :: "rf_log \<Rightarrow> bool"
  env_sync_set_cell :: "rf_log \<Rightarrow> bool"
  env_dl_init :: "rf_log \<Rightarrow> bool"
  env_dl_set_cell :: "rf_log \<Rightarrow> bool"
  env_softbuf_init :: "rf_log \<Rightarrow> bool"
  env_sync_get :: "rf_log \<Rightarrow> int \<times> nat \<times> nat"
  env_sib1 :: "rf_log \<Rightarrow> sib1_info option"
  env_stop :: "rf_log \<Rightarrow> bool"
  env_power_to_dB :: "rat \<Rightarrow> rat"
  env_standard_rates :: bool

text \<open>
  The scanner. \<open>rf_handle\<close> is whether the handle is set, \<open>g_stop_scan\<close> whether the signal handler points to this
  scanner, \<open>detect_config\<close> the global configuration of the search.
\<close>

record lte_scan =
  rf_handle :: bool
  results :: "nat \<Rightarrow> lte_scan_result"
  nof_results :: nat
  coarse_earfcns :: "nat \<Rightarrow> int"
  coarse_freqs :: "nat \<Rightarrow> rat"
  coarse_power :: "nat \<Rightarrow> rat"
  coarse_cfo :: "nat \<Rightarrow> rat"
  nof_coarse :: nat
  scan_cfg :: lte_scan_config
  stop :: bool
  g_stop_scan :: bool
  detect_config :: cell_search_cfg
  rf_log :: rf_log

section \<open>Operators\<close>

definition operator_row ::
  "nat \<Rightarrow> nat \<Rightarrow> nat \<Rightarrow> nat \<Rightarrow> bool \<Rightarrow> string \<Rightarrow> string \<Rightarrow> lte_operator_entry" where
  "operator_row lo hi mcc mnc three nm band =
    \<lparr>op_earfcn_min = lo, op_earfcn_max = hi, op_mcc = mcc, op_mnc = mnc, op_mnc_3digit = three,
     op_operator_name = nm, op_band_name = band\<rparr>"

definition lte_operator_table_id :: "lte_operator_entry list" where
  "lte_operator_table_id = [
    operator_row 1200 1399 510 10 False ''Telkomsel'' ''Band 3'',
    operator_row 1400 1599 510 11 False ''XL Axiata'' ''Band 3'',
    operator_row 1600 1949 510 1 False ''Indosat Ooredoo Hutchison'' ''Band 3'',
    operator_row 2400 2649 510 9 False ''Smartfren'' ''Band 5'',
    operator_row 3450 3549 510 10 False ''Telkomsel'' ''Band 8'',
    operator_row 3550 3649 510 11 False ''XL Axiata'' ''Band 8'',
    operator_row 3650 3799 510 1 False ''Indosat Ooredoo Hutchison'' ''Band 8'',
    operator_row 9210 9359 510 10 False ''Telkomsel'' ''Band 28'',
    operator_row 9360 9509 510 1 False ''Indosat Ooredoo Hutchison'' ''Band 28'',
    operator_row 9510 9649 510 11 False ''XL Axiata'' ''Band 28'',
    operator_row 38650 39049 510 10 False ''Telkomsel'' ''Band 40'',
    operator_row 39050 39649 510 9 False ''Smartfren'' ''Band 40'',
    operator_row 39050 39649 510 28 False ''Smartfren'' ''Band 40'']"

fun lookup_from :: "lte_operator_entry list \<Rightarrow> int \<Rightarrow> lte_operator_entry option" where
  "lookup_from [] earfcn = None"
| "lookup_from (e # es) earfcn =
    (if int (op_earfcn_min e) \<le> earfcn \<and> earfcn \<le> int (op_earfcn_max e) then Some e
     else lookup_from es earfcn)"

definition lte_scan_lookup_operator :: "int \<Rightarrow> lte_operator_entry option" where
  "lte_scan_lookup_operator earfcn = lookup_from lte_operator_table_id earfcn"

definition earfcn_to_freq :: "int \<Rightarrow> rat option" where
  "earfcn_to_freq earfcn =
    (if 1200 \<le> earfcn \<and> earfcn \<le> 1949 then Some (1805 + 1 / 10 * of_int (earfcn - 1200))
     else if 2400 \<le> earfcn \<and> earfcn \<le> 2649 then Some (869 + 1 / 10 * of_int (earfcn - 2400))
     else if 3450 \<le> earfcn \<and> earfcn \<le> 3799 then Some (925 + 1 / 10 * of_int (earfcn - 3450))
     else if 9210 \<le> earfcn \<and> earfcn \<le> 9659 then Some (758 + 1 / 10 * of_int (earfcn - 9210))
     else if 38650 \<le> earfcn \<and> earfcn \<le> 39649 then Some (2300 + 1 / 10 * of_int (earfcn - 38650))
     else None)"

text \<open>The copy of a name into the array of a result, with room for the final zero.\<close>

definition copy_name :: "string \<Rightarrow> string" where
  "copy_name s = take (LTE_SCAN_OP_NAME_LEN - 1) s"

definition set_operator :: "int \<Rightarrow> lte_scan_result \<Rightarrow> lte_scan_result" where
  "set_operator earfcn out =
    (case lte_scan_lookup_operator earfcn of
       Some oper \<Rightarrow> out\<lparr>res_mcc := op_mcc oper, res_mnc := op_mnc oper, res_mnc_3digit := op_mnc_3digit oper,
         res_operator_name := copy_name (op_operator_name oper)\<rparr>
     | None \<Rightarrow> out\<lparr>res_operator_name := copy_name ''Unknown''\<rparr>)"

definition zero_result :: lte_scan_result where
  "zero_result = \<lparr>res_earfcn = 0, res_freq_mhz = 0, res_pci = 0, res_nof_prb = 0, res_nof_ports = 0,
    res_rsrp_dbm = 0, res_psr = 0, res_cfo_hz = 0, res_mcc = 0, res_mnc = 0, res_mnc_3digit = False,
    res_operator_name = [], res_from_sib1 = False, res_tac = 0, res_cell_id = 0, res_sib1_decoded = False\<rparr>"

definition fill_result :: "scan_env \<Rightarrow> int \<Rightarrow> rat \<Rightarrow> found_cell \<Rightarrow> lte_scan_result" where
  "fill_result env earfcn freq c = zero_result\<lparr>res_earfcn := earfcn, res_freq_mhz := freq,
    res_pci := fc_cell_id c, res_psr := fc_psr c, res_rsrp_dbm := env_power_to_dB env (fc_peak c)\<rparr>"

section \<open>The configuration of the search\<close>

definition cell_detect_config :: cell_search_cfg where
  "cell_detect_config = \<lparr>cs_max_frames_pbch = 50, cs_max_frames_pss = 3, cs_nof_valid_pss_frames = 3,
    cs_init_agc = 0, cs_force_tdd = False\<rparr>"

definition cell_detect_config_balance :: cell_search_cfg where
  "cell_detect_config_balance = \<lparr>cs_max_frames_pbch = 50, cs_max_frames_pss = 3,
    cs_nof_valid_pss_frames = 3, cs_init_agc = 0, cs_force_tdd = False\<rparr>"

definition set_cell_search_mode :: "int \<Rightarrow> cell_search_cfg \<Rightarrow> cell_search_cfg" where
  "set_cell_search_mode mode c =
    (if mode = 1 then c\<lparr>cs_max_frames_pbch := 50, cs_max_frames_pss := 3, cs_nof_valid_pss_frames := 3\<rparr>
     else if mode = 2 then c\<lparr>cs_max_frames_pbch := cs_max_frames_pbch cell_detect_config_balance,
       cs_max_frames_pss := cs_max_frames_pss cell_detect_config_balance,
       cs_nof_valid_pss_frames := cs_nof_valid_pss_frames cell_detect_config_balance\<rparr>
     else c\<lparr>cs_max_frames_pbch := 50, cs_max_frames_pss := 3, cs_nof_valid_pss_frames := 3\<rparr>)"

text \<open>The sample rate for a bandwidth, with the standard rates of LTE or the smaller ones.\<close>

definition srsran_symbol_sz_power2 :: "nat \<Rightarrow> int" where
  "srsran_symbol_sz_power2 nof_prb =
    (if nof_prb \<le> 6 then 128 else if nof_prb \<le> 15 then 256 else if nof_prb \<le> 25 then 512
     else if nof_prb \<le> 52 then 1024 else if nof_prb \<le> 79 then 1536 else if nof_prb \<le> 110 then 2048 else -1)"

definition srsran_symbol_sz :: "bool \<Rightarrow> nat \<Rightarrow> int" where
  "srsran_symbol_sz use_standard_rates nof_prb =
    (if nof_prb \<le> 0 then -1
     else if \<not> use_standard_rates then
       (if nof_prb \<le> 6 then 128 else if nof_prb \<le> 15 then 256 else if nof_prb \<le> 25 then 384
        else if nof_prb \<le> 52 then 768 else if nof_prb \<le> 79 then 1024 else if nof_prb \<le> 110 then 1536 else -1)
     else srsran_symbol_sz_power2 nof_prb)"

definition srsran_sampling_freq_hz :: "bool \<Rightarrow> nat \<Rightarrow> int" where
  "srsran_sampling_freq_hz use_standard_rates nof_prb =
    (let n = srsran_symbol_sz use_standard_rates nof_prb in if n = -1 then -1 else 15000 * n)"

section \<open>Decoding of the broadcast channel\<close>

definition decode_mib ::
  "scan_env \<Rightarrow> cell_search_cfg \<Rightarrow> rf_log \<Rightarrow> srsran_cell \<Rightarrow> rat \<Rightarrow> rf_log \<times> int \<times> srsran_cell \<times> rat" where
  "decode_mib env det tr cell cfo =
    (let tr1 = tr @ [Mib_Init (\<not> env_mib_init env tr)]
     in if env_mib_init env tr then (tr1, -1, cell, cfo)
     else let tr2 = tr1 @ [Mib_Set_Cell cell]
     in if env_mib_set_cell env tr1 then (tr2 @ [Mib_Free], -1, cell, cfo)
     else let srate = srsran_sampling_freq_hz (env_standard_rates env) SRSRAN_UE_MIB_NOF_PRB;
              tr3 = tr2 @ [Set_Srate (of_int srate), Start_Rx, Mib_Set_Cfo (cfo / 15000)];
              (ret, prb, ports) = env_mib_decode env tr3;
              tr4 = tr3 @ [Mib_Decode (cs_max_frames_pbch det)];
              cell' = (if ret = 1 then cell\<lparr>cell_nof_prb := prb, cell_nof_ports := ports\<rparr> else cell)
     in (tr4 @ [Stop_Rx, Mib_Free], ret, cell', env_cfo env tr4))"

section \<open>Decoding of SIB1\<close>

definition store_sib1 :: "sib1_info \<Rightarrow> lte_scan_result \<Rightarrow> lte_scan_result" where
  "store_sib1 s out =
    (let out1 = out\<lparr>res_sib1_decoded := True, res_cell_id := sib_cell_id s, res_tac := sib_tac s\<rparr>;
         out2 = (case sib_plmns s of
             [] \<Rightarrow> out1
           | (mcc, mnc) # _ \<Rightarrow>
               let o1 = (case mcc of None \<Rightarrow> out1
                         | Some (a, b, c) \<Rightarrow> out1\<lparr>res_mcc := a * 100 + b * 10 + c\<rparr>);
                   o2 = o1\<lparr>res_mnc_3digit := (length mnc = 3)\<rparr>
               in if 2 \<le> length mnc
                  then let m = mnc ! 0 * 10 + mnc ! 1
                       in o2\<lparr>res_mnc := (if length mnc = 3 then m * 10 + mnc ! 2 else m)\<rparr>
                  else o2)
     in out2\<lparr>res_from_sib1 := True\<rparr>)"

primrec alloc_buffers :: "scan_env \<Rightarrow> nat \<Rightarrow> nat \<Rightarrow> rf_log \<Rightarrow> rf_log \<times> nat \<times> bool" where
  "alloc_buffers env 0 n tr = (tr, n, True)"
| "alloc_buffers env (Suc k) n tr =
    (if env_malloc_fails env tr then (tr @ [Buf_Malloc False], n, False)
     else alloc_buffers env k (n + 1) (tr @ [Buf_Malloc True]))"

definition free_buffers :: "nat \<Rightarrow> rf_log \<Rightarrow> rf_log" where
  "free_buffers n tr = tr @ replicate n Buf_Free"

primrec sib1_trials ::
  "scan_env \<Rightarrow> nat \<Rightarrow> rf_log \<Rightarrow> lte_scan_result \<Rightarrow> rf_log \<times> int \<times> lte_scan_result" where
  "sib1_trials env 0 tr out = (tr, -1, out)"
| "sib1_trials env (Suc k) tr out =
    (let (ret, sf_idx, sfn) = env_sync_get env tr; tr1 = tr @ [Sync_Get]
     in if ret < 0 then (tr1, -1, out)
     else if ret = 0 then sib1_trials env k tr1 out
     else if sf_idx = 5 \<and> sfn mod 2 = 0
     then (case env_sib1 env tr1 of
             Some s \<Rightarrow> (tr1 @ [Dl_Decode (sfn * 10 + sf_idx)], 0, store_sib1 s out)
           | None \<Rightarrow> sib1_trials env k (tr1 @ [Dl_Decode (sfn * 10 + sf_idx)]) out)
     else sib1_trials env k tr1 out)"

text \<open>From the initialised receiver to the end of the trials, and the part before it with its error exits.\<close>

definition sib1_receive ::
  "scan_env \<Rightarrow> rf_log \<Rightarrow> lte_scan_result \<Rightarrow> rf_log \<times> int \<times> lte_scan_result" where
  "sib1_receive env tr out =
    (let (tr1, ret, out1) = sib1_trials env 300 (tr @ [Start_Rx]) out
     in (tr1 @ [Stop_Rx, Softbuf_Free, Dl_Free, Sync_Free], ret, out1))"

definition sib1_open ::
  "scan_env \<Rightarrow> nat \<Rightarrow> srsran_cell \<Rightarrow> rat \<Rightarrow> rf_log \<Rightarrow> rf_log + rf_log" where
  "sib1_open env sib_prb sib_cell cfo tr =
    (let tr1 = tr @ [Sync_Init sib_prb (\<not> env_sync_init env tr)]
     in if env_sync_init env tr then Inl tr1
     else let tr2 = tr1 @ [Sync_Set_Cell sib_cell]
     in if env_sync_set_cell env tr1 then Inl (tr2 @ [Sync_Free])
     else let tr3 = tr2 @ [Sync_Set_Cfo cfo]; tr4 = tr3 @ [Dl_Init sib_prb (\<not> env_dl_init env tr3)]
     in if env_dl_init env tr3 then Inl (tr4 @ [Sync_Free])
     else let tr5 = tr4 @ [Dl_Set_Cell sib_cell]
     in if env_dl_set_cell env tr4 then Inl (tr5 @ [Dl_Free, Sync_Free])
     else let tr6 = tr5 @ [Softbuf_Init sib_prb (\<not> env_softbuf_init env tr5)]
     in if env_softbuf_init env tr5 then Inl (tr6 @ [Dl_Free, Sync_Free])
     else Inr tr6)"

definition try_sib1 ::
  "scan_env \<Rightarrow> rf_log \<Rightarrow> srsran_cell \<Rightarrow> rat \<Rightarrow> nat \<Rightarrow> lte_scan_result \<Rightarrow> rf_log \<times> int \<times> lte_scan_result" where
  "try_sib1 env tr cell cfo max_prb out =
    (let sib_prb = (if max_prb < cell_nof_prb cell then max_prb else cell_nof_prb cell);
         srate = srsran_sampling_freq_hz (env_standard_rates env) sib_prb
     in if srate \<le> 0 then (tr, -1, out)
     else let actual_srate = env_set_srate env tr; tr1 = tr @ [Set_Srate (of_int srate)]
     in if 1000 < \<bar>actual_srate - of_int srate\<bar> then (tr1, -1, out)
     else let sib_cell = cell\<lparr>cell_nof_prb := sib_prb\<rparr>;
              (tr2, n, allocated) = alloc_buffers env SRSRAN_MAX_PORTS 0 tr1
     in if \<not> allocated then (free_buffers n tr2, -1, out)
     else case sib1_open env sib_prb sib_cell cfo tr2 of
            Inl tr3 \<Rightarrow> (free_buffers n tr3, -1, out)
          | Inr tr3 \<Rightarrow> sib1_receive env tr3 out)"

section \<open>One channel\<close>

text \<open>The strongest of the three cells of a search, above the threshold and above 0.\<close>

definition best_cell :: "rat \<Rightarrow> (nat \<Rightarrow> found_cell) \<Rightarrow> nat option" where
  "best_cell threshold found =
    foldl (\<lambda>best i.
      let best_psr = (case best of None \<Rightarrow> 0 | Some j \<Rightarrow> fc_psr (found j))
      in if threshold < fc_psr (found i) \<and> best_psr < fc_psr (found i) then Some i else best)
    None [0, 1, 2]"

text \<open>
  The part of \<open>scan_earfcn\<close> from the filling of the result on. The bandwidth and the ports of the cell have no
  value before the broadcast channel has been decoded; they are not read then.
\<close>

definition identify_cell ::
  "scan_env \<Rightarrow> cell_search_cfg \<Rightarrow> lte_scan_config \<Rightarrow> rf_log \<Rightarrow> int \<Rightarrow> rat \<Rightarrow> found_cell
    \<Rightarrow> rf_log \<times> lte_scan_result" where
  "identify_cell env det cfg tr earfcn freq_mhz c =
    (let out = fill_result env earfcn freq_mhz c;
         cell = \<lparr>cell_nof_prb = 0, cell_nof_ports = 0, cell_id = fc_cell_id c, cell_cp = fc_cp c,
           cell_frame_type = fc_frame_type c\<rparr>;
         (tr1, mib_ret, cell1, cfo) = decode_mib env det tr cell (fc_cfo c);
         out1 = out\<lparr>res_cfo_hz := cfo\<rparr>;
         out2 = (if mib_ret = 1
                 then out1\<lparr>res_nof_prb := cell_nof_prb cell1, res_nof_ports := cell_nof_ports cell1\<rparr>
                 else out1);
         (tr2, sib_ret, out3) =
           (if mib_ret = 1 \<and> cfg_try_sib1 cfg \<and> cell_nof_prb cell1 \<le> cfg_max_prb_sib1 cfg
            then try_sib1 env tr1 cell1 cfo (cfg_max_prb_sib1 cfg) out2 else (tr1, -1, out2))
     in (tr2, if sib_ret = 0 then out3 else set_operator earfcn out3))"

text \<open>The last component is \<open>None\<close> when \<open>*out\<close> is not written.\<close>

definition scan_earfcn ::
  "scan_env \<Rightarrow> cell_search_cfg \<Rightarrow> lte_scan_config \<Rightarrow> rf_log \<Rightarrow> int \<Rightarrow> rat
    \<Rightarrow> rf_log \<times> int \<times> lte_scan_result option" where
  "scan_earfcn env det cfg tr earfcn freq_mhz =
    (let tr1 = tr @ [Set_Freq (freq_mhz * MHZ), Set_Srate SAMP_FREQ, Start_Rx];
         tr2 = tr1 @ [Cs_Init (cs_max_frames_pss det) (\<not> env_cs_init env tr1)]
     in if env_cs_init env tr1 then (tr2 @ [Stop_Rx], -1, None)
     else let tr3 = tr2 @ [Cs_Valid_Frames (cs_nof_valid_pss_frames det)];
              (n, found) = env_cs_scan env tr3;
              tr4 = tr3 @ [Cs_Scan, Cs_Free, Stop_Rx]
     in if n \<le> 0 then (tr4, 0, None)
     else case best_cell (cfg_psr_threshold cfg) found of
            None \<Rightarrow> (tr4, 0, None)
          | Some i \<Rightarrow>
              let (tr5, out) = identify_cell env det cfg tr4 earfcn freq_mhz (found i) in (tr5, 1, Some out))"

end
