(* ===== verification/Lte_Scan_Ops.thy ===== *)
theory Lte_Scan_Ops
  imports Lte_Scan
begin

text \<open>
  The public operations of the LTE cell scanner (\<open>lib/examples/lte_scan.cc\<close>): initialisation, the scans
  of a band, the scans of one channel, stopping and freeing. An operation returns the scanner and the number
  that the code returns; it has no result when the code would write behind an array.
\<close>

section \<open>Steps\<close>

definition emit :: "rf_event list \<Rightarrow> lte_scan \<Rightarrow> lte_scan" where
  "emit es st = st\<lparr>rf_log := rf_log st @ es\<rparr>"

text \<open>The reading of the volatile flag.\<close>

definition poll_stop :: "scan_env \<Rightarrow> lte_scan \<Rightarrow> lte_scan" where
  "poll_stop env st = st\<lparr>stop := stop st \<or> env_stop env (rf_log st)\<rparr>"

definition store_result :: "lte_scan_result \<Rightarrow> lte_scan \<Rightarrow> lte_scan option" where
  "store_result r st =
    (if nof_results st < LTE_SCAN_MAX_RESULTS
     then Some (st\<lparr>results := (results st)(nof_results st := r), nof_results := nof_results st + 1\<rparr>)
     else None)"

text \<open>The start of a scan over a band: one stream, one search object.\<close>

definition open_search :: "scan_env \<Rightarrow> srsran_earfcn list \<Rightarrow> lte_scan \<Rightarrow> lte_scan \<times> bool" where
  "open_search env channels st =
    (let st1 = emit [Set_Srate SAMP_FREQ, Set_Freq (ch_fd (channels ! 0) * MHZ), Start_Rx] st;
         failed = env_cs_init env (rf_log st1);
         st2 = emit [Cs_Init (cs_max_frames_pss (detect_config st)) (\<not> failed)] st1
     in if failed then (emit [Stop_Rx] st2, False)
        else (emit [Cs_Valid_Frames (cs_nof_valid_pss_frames (detect_config st))] st2, True))"

definition close_search :: "lte_scan \<Rightarrow> lte_scan" where
  "close_search st = emit [Cs_Free, Stop_Rx] st"

text \<open>One search: the first of the three cells above the threshold, if the search found any.\<close>

definition search_channel :: "scan_env \<Rightarrow> srsran_earfcn \<Rightarrow> lte_scan \<Rightarrow> lte_scan \<times> found_cell option" where
  "search_channel env ch st =
    (let st1 = emit [Set_Freq (ch_fd ch * MHZ)] st;
         (n, found) = env_cs_scan env (rf_log st1);
         st2 = emit [Cs_Scan] st1
     in (st2, if 0 < n
              then List.find (\<lambda>c. cfg_psr_threshold (scan_cfg st) < fc_psr c) [found 0, found 1, found 2]
              else None))"

section \<open>Initialisation\<close>

text \<open>
  The scanner before its initialisation is only its global surroundings; \<open>malloc\<close> failing is the first argument.
\<close>

definition lte_scan_init_ex ::
  "bool \<Rightarrow> scan_env \<Rightarrow> lte_scan \<Rightarrow> lte_scan_config \<Rightarrow> lte_scan \<times> int" where
  "lte_scan_init_ex malloc_fails env st cfg =
    (let st1 = st\<lparr>rf_handle := False, results := (\<lambda>_. zero_result), nof_results := 0,
           coarse_earfcns := (\<lambda>_. 0), coarse_freqs := (\<lambda>_. 0), coarse_power := (\<lambda>_. 0), coarse_cfo := (\<lambda>_. 0),
           nof_coarse := 0, scan_cfg := cfg, stop := False\<rparr>
     in if malloc_fails then (st1, -1)
     else if env_open env (rf_log st1) then (st1\<lparr>rf_handle := False\<rparr>, -1)
     else (emit [Set_Gain (cfg_rf_gain_dB cfg)] (st1\<lparr>rf_handle := True\<rparr>)\<lparr>g_stop_scan := True\<rparr>, 0))"

definition default_config :: "string \<Rightarrow> string \<Rightarrow> lte_scan_config" where
  "default_config rf_device rf_args =
    \<lparr>cfg_rf_device = (if rf_device \<noteq> [] then rf_device else ''soapy''), cfg_rf_args = rf_args,
     cfg_rf_gain_dB = 42, cfg_max_prb_sib1 = 15, cfg_psr_threshold = 2, cfg_try_sib1 = False\<rparr>"

definition lte_scan_init ::
  "bool \<Rightarrow> scan_env \<Rightarrow> lte_scan \<Rightarrow> string \<Rightarrow> string \<Rightarrow> lte_scan \<times> int" where
  "lte_scan_init malloc_fails env st rf_device rf_args =
    lte_scan_init_ex malloc_fails env st (default_config rf_device rf_args)"

definition lte_scan_stop :: "lte_scan \<Rightarrow> lte_scan" where
  "lte_scan_stop st = st\<lparr>stop := True\<rparr>"

definition sigint_handler :: "lte_scan \<Rightarrow> lte_scan" where
  "sigint_handler st = (if g_stop_scan st then st\<lparr>stop := True\<rparr> else st)"

definition lte_scan_free :: "lte_scan \<Rightarrow> lte_scan" where
  "lte_scan_free st = st\<lparr>rf_handle := False, g_stop_scan := False\<rparr>"

section \<open>The fast scan\<close>

definition fast_visit :: "scan_env \<Rightarrow> srsran_earfcn \<Rightarrow> lte_scan \<Rightarrow> lte_scan option" where
  "fast_visit env ch st =
    (let (st1, hit) = search_channel env ch st
     in if nof_results st1 < LTE_SCAN_MAX_RESULTS
        then (case hit of
                None \<Rightarrow> Some st1
              | Some c \<Rightarrow> store_result (set_operator (ch_id ch) (fill_result env (ch_id ch) (ch_fd ch) c)) st1)
        else Some st1)"

function fast_loop :: "scan_env \<Rightarrow> srsran_earfcn list \<Rightarrow> nat \<Rightarrow> lte_scan \<Rightarrow> lte_scan option" where
  "fast_loop env channels i st =
    (if length channels \<le> i then Some st
     else let st1 = poll_stop env st
     in if stop st1 then Some st1
     else case fast_visit env (channels ! i) st1 of
            None \<Rightarrow> None
          | Some st2 \<Rightarrow> fast_loop env channels (i + 5) st2)"
  by pat_completeness auto
termination by (relation "measure (\<lambda>(env, channels, i, st). length channels - i)") auto

declare fast_loop.simps [simp del]

definition lte_scan_fast ::
  "scan_env \<Rightarrow> lte_scan \<Rightarrow> int \<Rightarrow> int \<Rightarrow> int \<Rightarrow> (lte_scan \<times> int) option" where
  "lte_scan_fast env st band earfcn_start earfcn_end =
    (if \<not> rf_handle st then Some (st, -1)
     else case srsran_band_get_fd_band (u32_of band) earfcn_start earfcn_end LTE_SCAN_MAX_EARFCN of
       None \<Rightarrow> Some (st, -1)
     | Some channels \<Rightarrow>
         if channels = [] then Some (st, -1)
         else let (st1, opened) = open_search env channels (st\<lparr>nof_results := 0, stop := False\<rparr>)
         in if \<not> opened then Some (st1, -1)
         else map_option (\<lambda>st2. let st3 = close_search st2 in (st3, int (nof_results st3)))
           (fast_loop env channels 0 st1))"

section \<open>The balance scan\<close>

definition balance_visit :: "scan_env \<Rightarrow> srsran_earfcn \<Rightarrow> lte_scan \<Rightarrow> lte_scan option" where
  "balance_visit env ch st =
    (let (st1, hit) = search_channel env ch st
     in if nof_results st1 < 20
        then (case hit of
                None \<Rightarrow> Some st1
              | Some c \<Rightarrow> store_result (set_operator (ch_id ch) (fill_result env (ch_id ch) (ch_fd ch) c)) st1)
        else Some st1)"

function balance_loop :: "scan_env \<Rightarrow> srsran_earfcn list \<Rightarrow> nat \<Rightarrow> lte_scan \<Rightarrow> lte_scan option" where
  "balance_loop env channels i st =
    (if length channels \<le> i then Some st
     else let st1 = poll_stop env st
     in if stop st1 \<or> 20 \<le> nof_results st1 then Some st1
     else case balance_visit env (channels ! i) st1 of
            None \<Rightarrow> None
          | Some st2 \<Rightarrow> balance_loop env channels (i + 1) st2)"
  by pat_completeness auto
termination by (relation "measure (\<lambda>(env, channels, i, st). length channels - i)") auto

declare balance_loop.simps [simp del]

definition lte_scan_balance ::
  "scan_env \<Rightarrow> lte_scan \<Rightarrow> int \<Rightarrow> int \<Rightarrow> int \<Rightarrow> (lte_scan \<times> int) option" where
  "lte_scan_balance env st band earfcn_start earfcn_end =
    (if \<not> rf_handle st then Some (st, -1)
     else case srsran_band_get_fd_band (u32_of band) earfcn_start earfcn_end LTE_SCAN_MAX_EARFCN of
       None \<Rightarrow> Some (st, -1)
     | Some channels \<Rightarrow>
         if channels = [] then Some (st, -1)
         else let (st1, opened) = open_search env channels (st\<lparr>nof_results := 0, stop := False\<rparr>)
         in if \<not> opened then Some (st1, -1)
         else map_option (\<lambda>st2. let st3 = close_search st2 in (st3, int (nof_results st3)))
           (balance_loop env channels 0 st1))"

section \<open>The coarse scan\<close>

definition coarse_visit :: "scan_env \<Rightarrow> srsran_earfcn \<Rightarrow> lte_scan \<Rightarrow> lte_scan" where
  "coarse_visit env ch st =
    (let (st1, hit) = search_channel env ch st; k = nof_coarse st1
     in if k < LTE_SCAN_MAX_EARFCN
        then (case hit of
                None \<Rightarrow> st1
              | Some c \<Rightarrow> st1\<lparr>coarse_earfcns := (coarse_earfcns st1)(k := ch_id ch),
                  coarse_freqs := (coarse_freqs st1)(k := ch_fd ch),
                  coarse_power := (coarse_power st1)(k := env_power_to_dB env (fc_peak c)),
                  nof_coarse := k + 1\<rparr>)
        else st1)"

primrec coarse_loop :: "scan_env \<Rightarrow> srsran_earfcn list \<Rightarrow> lte_scan \<Rightarrow> lte_scan" where
  "coarse_loop env [] st = st"
| "coarse_loop env (ch # chs) st =
    (let st1 = poll_stop env st in if stop st1 then st1 else coarse_loop env chs (coarse_visit env ch st1))"

definition lte_scan_coarse :: "scan_env \<Rightarrow> lte_scan \<Rightarrow> int \<Rightarrow> int \<Rightarrow> int \<Rightarrow> lte_scan \<times> int" where
  "lte_scan_coarse env st band earfcn_start earfcn_end =
    (if \<not> rf_handle st then (st, -1)
     else case srsran_band_get_fd_band (u32_of band) earfcn_start earfcn_end LTE_SCAN_MAX_EARFCN of
       None \<Rightarrow> (st, -1)
     | Some channels \<Rightarrow>
         if channels = [] then (st, -1)
         else let (st1, opened) = open_search env channels (st\<lparr>nof_coarse := 0, stop := False\<rparr>)
         in if \<not> opened then (st1, -1)
         else let st2 = close_search (coarse_loop env channels st1) in (st2, int (nof_coarse st2)))"

section \<open>Scans of one channel\<close>

text \<open>The call of \<open>scan_earfcn\<close> with the next free slot as its target; its number of results grows by the caller.\<close>

definition scan_into_slot :: "scan_env \<Rightarrow> lte_scan \<Rightarrow> int \<Rightarrow> rat \<Rightarrow> (lte_scan \<times> int) option" where
  "scan_into_slot env st earfcn freq =
    (let (tr, ret, out) = scan_earfcn env (detect_config st) (scan_cfg st) (rf_log st) earfcn freq;
         st1 = st\<lparr>rf_log := tr\<rparr>
     in case out of
          None \<Rightarrow> Some (st1, ret)
        | Some r \<Rightarrow>
            if nof_results st < LTE_SCAN_MAX_RESULTS
            then Some (st1\<lparr>results := (results st1)(nof_results st1 := r)\<rparr>, ret) else None)"

definition count_result :: "lte_scan \<times> int \<Rightarrow> lte_scan \<times> int" where
  "count_result p = (if 0 < snd p then ((fst p)\<lparr>nof_results := nof_results (fst p) + 1\<rparr>, snd p) else p)"

definition lte_scan_earfcn :: "scan_env \<Rightarrow> lte_scan \<Rightarrow> int \<Rightarrow> (lte_scan \<times> int) option" where
  "lte_scan_earfcn env st earfcn =
    (if \<not> rf_handle st then Some (st, -1)
     else case earfcn_to_freq earfcn of
       None \<Rightarrow> Some (st, -1)
     | Some freq \<Rightarrow> map_option count_result (scan_into_slot env (st\<lparr>stop := False\<rparr>) earfcn freq))"

definition lte_scan_fine :: "scan_env \<Rightarrow> lte_scan \<Rightarrow> int \<Rightarrow> rat \<Rightarrow> (lte_scan \<times> int) option" where
  "lte_scan_fine env st earfcn cfo =
    (if \<not> rf_handle st then Some (st, -1)
     else case earfcn_to_freq earfcn of
       None \<Rightarrow> Some (st, -1)
     | Some freq \<Rightarrow>
         if LTE_SCAN_MAX_RESULTS \<le> nof_results st then Some (st, -1)
         else map_option count_result (scan_into_slot env st earfcn freq))"

section \<open>The full scan\<close>

definition band_visit ::
  "scan_env \<Rightarrow> srsran_earfcn \<Rightarrow> srsran_earfcn list \<Rightarrow> lte_scan \<Rightarrow> lte_scan \<times> srsran_earfcn list" where
  "band_visit env ch candidates st =
    (let (st1, hit) = search_channel env ch st
     in case hit of
          None \<Rightarrow> (st1, candidates)
        | Some c \<Rightarrow> (st1, if length candidates < LTE_SCAN_MAX_EARFCN then candidates @ [ch] else candidates))"

primrec band_pass1 ::
  "scan_env \<Rightarrow> srsran_earfcn list \<Rightarrow> srsran_earfcn list \<Rightarrow> lte_scan \<Rightarrow> lte_scan \<times> srsran_earfcn list" where
  "band_pass1 env [] candidates st = (st, candidates)"
| "band_pass1 env (ch # chs) candidates st =
    (let st1 = poll_stop env st
     in if stop st1 then (st1, candidates)
     else let (st2, candidates') = band_visit env ch candidates st1 in band_pass1 env chs candidates' st2)"

primrec band_pass2 :: "scan_env \<Rightarrow> srsran_earfcn list \<Rightarrow> lte_scan \<Rightarrow> lte_scan option" where
  "band_pass2 env [] st = Some st"
| "band_pass2 env (ch # chs) st =
    (let st1 = poll_stop env st
     in if stop st1 then Some st1
     else if LTE_SCAN_MAX_RESULTS \<le> nof_results st1 then Some st1
     else case scan_into_slot env st1 (ch_id ch) (ch_fd ch) of
            None \<Rightarrow> None
          | Some p \<Rightarrow> band_pass2 env chs (fst (count_result p)))"

definition lte_scan_band ::
  "scan_env \<Rightarrow> lte_scan \<Rightarrow> int \<Rightarrow> int \<Rightarrow> int \<Rightarrow> (lte_scan \<times> int) option" where
  "lte_scan_band env st band earfcn_start earfcn_end =
    (if \<not> rf_handle st then Some (st, -1)
     else case srsran_band_get_fd_band (u32_of band) earfcn_start earfcn_end LTE_SCAN_MAX_EARFCN of
       None \<Rightarrow> Some (st, -1)
     | Some channels \<Rightarrow>
         if channels = [] then Some (st, -1)
         else let (st1, opened) = open_search env channels (st\<lparr>nof_results := 0, stop := False\<rparr>)
         in if \<not> opened then Some (st1, -1)
         else let (st2, candidates) = band_pass1 env channels [] st1
         in map_option (\<lambda>st3. (st3, int (nof_results st3))) (band_pass2 env candidates (close_search st2)))"

end
