(* ===== verification/Lte_Scan_Proofs.thy ===== *)
theory Lte_Scan_Proofs
  imports Lte_Scan_Ops "HOL-Library.Sublist"
begin

text \<open>
  The steps of the LTE cell scanner: what one search and one channel do to the results and to the calls of the
  radio. \<open>advanced\<close> is what a loop over channels does, whatever the environment answers: it appends
  results for a subsequence of the channels, at most one each.
\<close>

section \<open>Results\<close>

definition scan_results :: "lte_scan \<Rightarrow> lte_scan_result list" where
  "scan_results st = map (results st) [0..<nof_results st]"

definition reported :: "rat \<Rightarrow> srsran_earfcn \<Rightarrow> lte_scan_result \<Rightarrow> bool" where
  "reported threshold ch r \<longleftrightarrow> res_earfcn r = ch_id ch \<and> res_freq_mhz r = ch_fd ch \<and> threshold < res_psr r \<and>
    (res_from_sib1 r \<or> set_operator (ch_id ch) r = r)"

lemma length_scan_results [simp]: "length (scan_results st) = nof_results st"
  by (simp add: scan_results_def)

lemma scan_results_emit [simp]:
  "scan_results (emit es st) = scan_results st" "nof_results (emit es st) = nof_results st"
  "scan_cfg (emit es st) = scan_cfg st" "detect_config (emit es st) = detect_config st"
  "rf_log (emit es st) = rf_log st @ es" "nof_coarse (emit es st) = nof_coarse st" "stop (emit es st) = stop st"
  by (simp_all add: emit_def scan_results_def)

lemma scan_results_poll [simp]:
  "scan_results (poll_stop env st) = scan_results st" "nof_results (poll_stop env st) = nof_results st"
  "scan_cfg (poll_stop env st) = scan_cfg st" "detect_config (poll_stop env st) = detect_config st"
  "rf_log (poll_stop env st) = rf_log st" "nof_coarse (poll_stop env st) = nof_coarse st"
  by (simp_all add: poll_stop_def scan_results_def)

lemma scan_results_update [simp]:
  "scan_results (st\<lparr>stop := b\<rparr>) = scan_results st" "scan_results (st\<lparr>rf_log := tr\<rparr>) = scan_results st"
  "scan_results (st\<lparr>nof_coarse := k\<rparr>) = scan_results st" "scan_results (st\<lparr>coarse_earfcns := f\<rparr>) = scan_results st"
  "scan_results (st\<lparr>nof_results := 0\<rparr>) = []"
  by (simp_all add: scan_results_def)

lemma scan_results_extend [simp]:
  "scan_results (st\<lparr>results := (results st)(nof_results st := r), nof_results := nof_results st + 1\<rparr>) =
    scan_results st @ [r]"
  by (auto simp: scan_results_def)

lemma store_result:
  assumes "nof_results st < 256"
  obtains st' where "store_result r st = Some st'" "scan_results st' = scan_results st @ [r]"
    "nof_results st' = nof_results st + 1" "scan_cfg st' = scan_cfg st" "rf_log st' = rf_log st"
    "detect_config st' = detect_config st"
proof -
  let ?st = "st\<lparr>results := (results st)(nof_results st := r), nof_results := nof_results st + 1\<rparr>"
  show ?thesis
    by (rule that [of ?st]) (use assms in \<open>simp_all add: store_result_def LTE_SCAN_MAX_RESULTS_def del: Suc_eq_plus1
        Suc_eq_plus1_left add_Suc_right add_0_right One_nat_def\<close>)
qed

lemma set_operator_fields [simp]:
  "res_earfcn (set_operator e r) = res_earfcn r" "res_freq_mhz (set_operator e r) = res_freq_mhz r"
  "res_psr (set_operator e r) = res_psr r" "res_from_sib1 (set_operator e r) = res_from_sib1 r"
  "set_operator e (set_operator e r) = set_operator e r"
  by (simp_all add: set_operator_def split: option.split)

lemma fill_result_fields [simp]:
  "res_earfcn (fill_result env e f c) = e" "res_freq_mhz (fill_result env e f c) = f"
  "res_psr (fill_result env e f c) = fc_psr c" "res_from_sib1 (fill_result env e f c) = False"
  by (simp_all add: fill_result_def zero_result_def)

lemma reported_fill:
  "t < fc_psr c \<Longrightarrow> reported t ch (set_operator (ch_id ch) (fill_result env (ch_id ch) (ch_fd ch) c))"
  by (simp add: reported_def)

section \<open>One search\<close>

definition hit :: "rat \<Rightarrow> int \<times> (nat \<Rightarrow> found_cell) \<Rightarrow> found_cell option" where
  "hit threshold answer =
    (if 0 < fst answer
     then List.find (\<lambda>c. threshold < fc_psr c) [snd answer 0, snd answer 1, snd answer 2] else None)"

lemma hit_above: "hit t a = Some c \<Longrightarrow> t < fc_psr c"
  by (auto simp: hit_def split: if_splits)

lemma search_channel_eq:
  "search_channel env ch st =
    (emit [Set_Freq (ch_fd ch * MHZ), Cs_Scan] st,
     hit (cfg_psr_threshold (scan_cfg st)) (env_cs_scan env (rf_log st @ [Set_Freq (ch_fd ch * MHZ)])))"
  by (simp add: search_channel_def hit_def Let_def emit_def split: prod.split)

section \<open>Progress over channels\<close>

definition sweep_event :: "rf_event \<Rightarrow> bool" where
  "sweep_event e \<longleftrightarrow> e = Cs_Scan \<or> (\<exists>f. e = Set_Freq f)"

definition advanced :: "srsran_earfcn list \<Rightarrow> lte_scan \<Rightarrow> lte_scan \<Rightarrow> bool" where
  "advanced chs st st' \<longleftrightarrow> scan_cfg st' = scan_cfg st \<and> detect_config st' = detect_config st \<and>
    (\<exists>hs rs. subseq hs chs \<and> list_all2 (reported (cfg_psr_threshold (scan_cfg st))) hs rs \<and>
      scan_results st' = scan_results st @ rs)"

definition swept :: "lte_scan \<Rightarrow> lte_scan \<Rightarrow> bool" where
  "swept st st' \<longleftrightarrow> (\<exists>es. rf_log st' = rf_log st @ es \<and> list_all sweep_event es)"

lemma advanced_refl: "scan_cfg st' = scan_cfg st \<Longrightarrow> detect_config st' = detect_config st \<Longrightarrow>
    scan_results st' = scan_results st \<Longrightarrow> advanced chs st st'"
  unfolding advanced_def by (metis append_Nil2 list.rel_intros(1) list_emb_Nil)

lemma advanced_trans:
  assumes "advanced chs st st1" "advanced chs' st1 st2"
  shows "advanced (chs @ chs') st st2"
proof -
  from assms obtain hs rs hs' rs' where
    "subseq hs chs" "list_all2 (reported (cfg_psr_threshold (scan_cfg st))) hs rs"
    "scan_results st1 = scan_results st @ rs"
    "subseq hs' chs'" "list_all2 (reported (cfg_psr_threshold (scan_cfg st))) hs' rs'"
    "scan_results st2 = scan_results st1 @ rs'"
    unfolding advanced_def by auto
  then have "subseq (hs @ hs') (chs @ chs')"
    "list_all2 (reported (cfg_psr_threshold (scan_cfg st))) (hs @ hs') (rs @ rs')"
    "scan_results st2 = scan_results st @ rs @ rs'"
    by (auto intro: list_emb_append_mono list_all2_appendI)
  moreover have "scan_cfg st2 = scan_cfg st" "detect_config st2 = detect_config st"
    using assms unfolding advanced_def by auto
  ultimately show ?thesis unfolding advanced_def by blast
qed

lemma swept_refl: "rf_log st' = rf_log st \<Longrightarrow> swept st st'"
  by (simp add: swept_def)

lemma swept_trans: "swept st st1 \<Longrightarrow> swept st1 st2 \<Longrightarrow> swept st st2"
  unfolding swept_def by auto

lemma swept_search: "swept st (fst (search_channel env ch st))"
  by (simp add: swept_def search_channel_eq sweep_event_def)

fun every_nth :: "nat \<Rightarrow> 'a list \<Rightarrow> 'a list" where
  "every_nth n [] = []"
| "every_nth n (x # xs) = x # every_nth n (drop (n - 1) xs)"

lemma every_nth_drop: "0 < n \<Longrightarrow> i < length xs \<Longrightarrow>
    every_nth n (drop i xs) = xs ! i # every_nth n (drop (i + n) xs)"
  by (simp add: Cons_nth_drop_Suc [symmetric] add.commute)

lemma every_nth_1: "every_nth 1 xs = xs"
  by (induction xs) auto

lemma subseq_every_nth: "subseq (every_nth n xs) xs"
proof (induction n xs rule: every_nth.induct)
  case (2 n x xs)
  then show ?case by (simp add: subseq_order.trans [OF _ suffix_imp_subseq [OF suffix_drop]])
qed simp

text \<open>A visit of a channel, once for the three loops.\<close>

definition pss_result :: "scan_env \<Rightarrow> srsran_earfcn \<Rightarrow> found_cell \<Rightarrow> lte_scan_result" where
  "pss_result env ch c = set_operator (ch_id ch) (fill_result env (ch_id ch) (ch_fd ch) c)"

definition pss_visit :: "nat \<Rightarrow> scan_env \<Rightarrow> srsran_earfcn \<Rightarrow> lte_scan \<Rightarrow> lte_scan option" where
  "pss_visit bound env ch st =
    (let (st1, h) = search_channel env ch st
     in if nof_results st1 < bound
        then (case h of None \<Rightarrow> Some st1 | Some c \<Rightarrow> store_result (pss_result env ch c) st1) else Some st1)"

lemma fast_visit_eq: "fast_visit = pss_visit 256"
  by (intro ext) (simp only: fast_visit_def pss_visit_def pss_result_def LTE_SCAN_MAX_RESULTS_def)

lemma balance_visit_eq: "balance_visit = pss_visit 20"
  by (intro ext) (simp only: balance_visit_def pss_visit_def pss_result_def)

lemma pss_visit_results:
  assumes "bound \<le> 256" "nof_results st \<le> bound"
  obtains st' where "pss_visit bound env ch st = Some st'" "scan_cfg st' = scan_cfg st"
    "detect_config st' = detect_config st" "rf_log st' = rf_log st @ [Set_Freq (ch_fd ch * MHZ), Cs_Scan]"
    "scan_results st' = take bound (scan_results st @
      (case hit (cfg_psr_threshold (scan_cfg st)) (env_cs_scan env (rf_log st @ [Set_Freq (ch_fd ch * MHZ)])) of
         None \<Rightarrow> [] | Some c \<Rightarrow> [pss_result env ch c]))"
proof -
  let ?h = "hit (cfg_psr_threshold (scan_cfg st)) (env_cs_scan env (rf_log st @ [Set_Freq (ch_fd ch * MHZ)]))"
  let ?st1 = "emit [Set_Freq (ch_fd ch * MHZ), Cs_Scan] st"
  have eq: "pss_visit bound env ch st =
      (if nof_results st < bound
       then (case ?h of None \<Rightarrow> Some ?st1 | Some c \<Rightarrow> store_result (pss_result env ch c) ?st1) else Some ?st1)"
    by (simp add: pss_visit_def search_channel_eq)
  show ?thesis
  proof (cases "nof_results st < bound")
    case True
    show ?thesis
    proof (cases ?h)
      case None
      with True eq assms show ?thesis by (intro that [of ?st1]) simp_all
    next
      case (Some c)
      with True assms obtain st' where "store_result (pss_result env ch c) ?st1 = Some st'"
        "scan_results st' = scan_results ?st1 @ [pss_result env ch c]" "scan_cfg st' = scan_cfg ?st1"
        "rf_log st' = rf_log ?st1" "detect_config st' = detect_config ?st1"
        using store_result [of ?st1 "pss_result env ch c"] by auto
      with True eq Some show ?thesis by (intro that [of st']) simp_all
    qed
  next
    case False
    with eq assms show ?thesis by (intro that [of ?st1]) simp_all
  qed
qed

lemma pss_visit:
  assumes "bound \<le> 256" "nof_results st \<le> bound"
  obtains st' where "pss_visit bound env ch st = Some st'" "advanced [ch] st st'" "swept st st'"
    "nof_results st' \<le> bound"
proof -
  let ?h = "hit (cfg_psr_threshold (scan_cfg st)) (env_cs_scan env (rf_log st @ [Set_Freq (ch_fd ch * MHZ)]))"
  from assms obtain st' where st': "pss_visit bound env ch st = Some st'" "scan_cfg st' = scan_cfg st"
    "detect_config st' = detect_config st" "rf_log st' = rf_log st @ [Set_Freq (ch_fd ch * MHZ), Cs_Scan]"
    "scan_results st' = take bound (scan_results st @ (case ?h of None \<Rightarrow> [] | Some c \<Rightarrow> [pss_result env ch c]))"
    by (rule pss_visit_results)
  have n: "nof_results st' \<le> bound" using arg_cong [OF st'(5), of length] by simp
  have sw: "swept st st'" using st'(4) by (simp add: swept_def sweep_event_def)
  have ad: "advanced [ch] st st'"
  proof (cases "?h = None \<or> nof_results st = bound")
    case True
    with st' assms(2) show ?thesis by (intro advanced_refl) auto
  next
    case False
    then obtain c where c: "?h = Some c" by auto
    with False st' assms(2) have "scan_results st' = scan_results st @ [pss_result env ch c]" by simp
    moreover have "list_all2 (reported (cfg_psr_threshold (scan_cfg st))) [ch] [pss_result env ch c]"
      using hit_above [OF c] by (simp add: pss_result_def reported_fill)
    ultimately show ?thesis unfolding advanced_def using st' by blast
  qed
  from st' ad sw n show ?thesis by (intro that)
qed

section \<open>The loops\<close>

lemma advanced_Nil: "advanced [] st st' \<Longrightarrow> advanced chs st st'"
  unfolding advanced_def by (metis list_emb_Nil list_emb_Nil2)

lemma fast_loop_sound:
  "nof_results st \<le> 256 \<Longrightarrow> \<exists>st'. fast_loop env chs i st = Some st' \<and>
    advanced (every_nth 5 (drop i chs)) st st' \<and> swept st st' \<and> nof_results st' \<le> 256"
proof (induction env chs i st rule: fast_loop.induct)
  case (1 env chs i st)
  let ?st1 = "poll_stop env st"
  have poll: "advanced [] st ?st1" "swept st ?st1" by (simp_all add: advanced_refl swept_refl)
  show ?case
  proof (cases "length chs \<le> i \<or> stop ?st1")
    case True
    with 1(2) poll show ?thesis
      by (subst fast_loop.simps) (auto simp: Let_def advanced_refl swept_refl intro: advanced_Nil)
  next
    case False
    have "nof_results ?st1 \<le> 256" using 1(2) by simp
    then obtain st2 where st2: "pss_visit 256 env (chs ! i) ?st1 = Some st2" "advanced [chs ! i] ?st1 st2"
        "swept ?st1 st2" "nof_results st2 \<le> 256"
      using pss_visit by blast
    have "\<exists>st'. fast_loop env chs (i + 5) st2 = Some st' \<and>
        advanced (every_nth 5 (drop (i + 5) chs)) st2 st' \<and> swept st2 st' \<and> nof_results st' \<le> 256"
      using 1(1) [of ?st1 st2] False st2 by (simp add: fast_visit_eq)
    then obtain st' where st': "fast_loop env chs (i + 5) st2 = Some st'"
        "advanced (every_nth 5 (drop (i + 5) chs)) st2 st'" "swept st2 st'" "nof_results st' \<le> 256"
      by blast
    have "advanced ([] @ [chs ! i] @ every_nth 5 (drop (i + 5) chs)) st st'"
      using poll(1) st2(2) st'(2) by (intro advanced_trans)
    moreover have "swept st st'" using poll(2) st2(3) st'(3) by (blast intro: swept_trans)
    moreover have "fast_loop env chs i st = Some st'"
      using False st2(1) st'(1) by (subst fast_loop.simps) (simp add: Let_def fast_visit_eq)
    ultimately show ?thesis using False st'(4) every_nth_drop [of 5 i chs] by simp
  qed
qed

lemma le_20_256: "20 \<le> (256::nat)"
  by simp

lemma balance_loop_sound:
  "nof_results st \<le> 20 \<Longrightarrow> \<exists>st'. balance_loop env chs i st = Some st' \<and>
    advanced (drop i chs) st st' \<and> swept st st' \<and> nof_results st' \<le> 20"
proof (induction env chs i st rule: balance_loop.induct)
  case (1 env chs i st)
  let ?st1 = "poll_stop env st"
  have poll: "advanced [] st ?st1" "swept st ?st1" by (simp_all add: advanced_refl swept_refl)
  show ?case
  proof (cases "length chs \<le> i \<or> stop ?st1 \<or> 20 \<le> nof_results ?st1")
    case True
    with 1(2) poll show ?thesis
      by (subst balance_loop.simps) (auto simp: Let_def advanced_refl swept_refl intro: advanced_Nil)
  next
    case False
    have "nof_results ?st1 \<le> 20" using 1(2) by simp
    then obtain st2 where st2: "pss_visit 20 env (chs ! i) ?st1 = Some st2" "advanced [chs ! i] ?st1 st2"
        "swept ?st1 st2" "nof_results st2 \<le> 20"
      using pss_visit [OF le_20_256, of ?st1] by metis
    have "\<exists>st'. balance_loop env chs (i + 1) st2 = Some st' \<and>
        advanced (drop (i + 1) chs) st2 st' \<and> swept st2 st' \<and> nof_results st' \<le> 20"
      using 1(1) [of ?st1 st2] False st2 by (simp add: balance_visit_eq)
    then obtain st' where st': "balance_loop env chs (i + 1) st2 = Some st'"
        "advanced (drop (i + 1) chs) st2 st'" "swept st2 st'" "nof_results st' \<le> 20"
      by blast
    have "advanced ([] @ [chs ! i] @ drop (i + 1) chs) st st'"
      using poll(1) st2(2) st'(2) by (intro advanced_trans)
    moreover have "swept st st'" using poll(2) st2(3) st'(3) by (blast intro: swept_trans)
    moreover have "balance_loop env chs i st = Some st'"
      using False st2(1) st'(1) by (subst balance_loop.simps) (simp add: Let_def balance_visit_eq)
    ultimately show ?thesis using False st'(4) by (simp add: Cons_nth_drop_Suc)
  qed
qed

section \<open>A steady radio\<close>

text \<open>
  The radio is steady when what a search finds depends only on the frequency that is tuned, nobody stops the
  scan and the search can be initialised.
\<close>

definition tuned :: "rf_log \<Rightarrow> rat" where
  "tuned tr = foldl (\<lambda>f e. case e of Set_Freq x \<Rightarrow> x | _ \<Rightarrow> f) 0 tr"

definition steady :: "scan_env \<Rightarrow> (rat \<Rightarrow> int \<times> (nat \<Rightarrow> found_cell)) \<Rightarrow> bool" where
  "steady env air \<longleftrightarrow> (\<forall>tr. env_cs_scan env tr = air (tuned tr) \<and> \<not> env_stop env tr \<and> \<not> env_cs_init env tr)"

lemma tuned_snoc [simp]:
  "tuned (tr @ [Set_Freq f]) = f" "tuned (tr @ [Set_Freq f, e]) = tuned ([Set_Freq f, e])"
  by (simp_all add: tuned_def)

lemma steadyD [simp]:
  assumes "steady env air"
  shows "env_cs_scan env tr = air (tuned tr)" "\<not> env_stop env tr" "\<not> env_cs_init env tr"
  using assms by (simp_all add: steady_def)

lemma poll_steady: "steady env air \<Longrightarrow> poll_stop env st = st"
  by (simp add: poll_stop_def)

definition channel_hit :: "rat \<Rightarrow> (rat \<Rightarrow> int \<times> (nat \<Rightarrow> found_cell)) \<Rightarrow> srsran_earfcn \<Rightarrow> found_cell option" where
  "channel_hit threshold air ch = hit threshold (air (ch_fd ch * MHZ))"

definition pss_report ::
  "scan_env \<Rightarrow> rat \<Rightarrow> (rat \<Rightarrow> int \<times> (nat \<Rightarrow> found_cell)) \<Rightarrow> srsran_earfcn \<Rightarrow> lte_scan_result option" where
  "pss_report env threshold air ch = map_option (pss_result env ch) (channel_hit threshold air ch)"

lemma pss_visit_steady:
  assumes "steady env air" "bound \<le> 256" "nof_results st \<le> bound" "\<not> stop st"
  obtains st' where "pss_visit bound env ch st = Some st'" "scan_cfg st' = scan_cfg st" "\<not> stop st'"
    "scan_results st' = take bound (scan_results st @
      List.map_filter (pss_report env (cfg_psr_threshold (scan_cfg st)) air) [ch])"
proof -
  let ?h = "hit (cfg_psr_threshold (scan_cfg st)) (env_cs_scan env (rf_log st @ [Set_Freq (ch_fd ch * MHZ)]))"
  obtain st' where st': "pss_visit bound env ch st = Some st'" "scan_cfg st' = scan_cfg st"
    "scan_results st' = take bound (scan_results st @ (case ?h of None \<Rightarrow> [] | Some c \<Rightarrow> [pss_result env ch c]))"
    using assms pss_visit_results by metis
  have "\<not> stop st'"
    using st'(1) assms(4) by (auto simp: pss_visit_def search_channel_eq store_result_def split: if_splits option.splits)
  with st' assms(1) show ?thesis
    by (intro that) (auto simp: pss_report_def channel_hit_def List.map_filter_simps split: option.split)
qed

lemma map_filter_Cons: "List.map_filter f (x # xs) = List.map_filter f [x] @ List.map_filter f xs"
  by (simp add: List.map_filter_simps split: option.split)

lemma take_take_append: "take n (take n xs @ ys) = take n (xs @ (ys :: 'a list))"
  by (cases "n \<le> length xs") simp_all

lemma fast_loop_steady:
  "steady env air \<Longrightarrow> nof_results st \<le> 256 \<Longrightarrow> \<not> stop st \<Longrightarrow>
    map_option scan_results (fast_loop env chs i st) = Some (take 256 (scan_results st @
      List.map_filter (pss_report env (cfg_psr_threshold (scan_cfg st)) air) (every_nth 5 (drop i chs))))"
proof (induction env chs i st rule: fast_loop.induct)
  case (1 env chs i st)
  let ?R = "pss_report env (cfg_psr_threshold (scan_cfg st)) air"
  show ?case
  proof (cases "length chs \<le> i")
    case True
    with 1 show ?thesis by (subst fast_loop.simps) (simp add: List.map_filter_simps)
  next
    case False
    obtain st2 where st2: "pss_visit 256 env (chs ! i) st = Some st2" "scan_cfg st2 = scan_cfg st" "\<not> stop st2"
        "scan_results st2 = take 256 (scan_results st @ List.map_filter ?R [chs ! i])"
      using pss_visit_steady [OF 1(2) _ 1(3,4)] by (metis le_refl)
    have "nof_results st2 \<le> 256" using arg_cong [OF st2(4), of length] by simp
    then have "map_option scan_results (fast_loop env chs (i + 5) st2) = Some (take 256 (scan_results st2 @
        List.map_filter ?R (every_nth 5 (drop (i + 5) chs))))"
      using 1(1) [of st st2] 1(2,4) False st2(1-3) by (simp add: poll_steady fast_visit_eq)
    moreover have "fast_loop env chs i st = fast_loop env chs (i + 5) st2"
      using False st2(1) 1(2,4) by (subst fast_loop.simps) (simp add: Let_def fast_visit_eq poll_steady)
    moreover have "every_nth 5 (drop i chs) = chs ! i # every_nth 5 (drop (i + 5) chs)"
      using False by (intro every_nth_drop) simp_all
    ultimately show ?thesis
      by (simp only: st2(2,4) take_take_append append_assoc map_filter_Cons [of ?R "chs ! i" "every_nth 5 (drop (i + 5) chs)"])
  qed
qed

lemma balance_loop_steady:
  "steady env air \<Longrightarrow> nof_results st \<le> 20 \<Longrightarrow> \<not> stop st \<Longrightarrow>
    map_option scan_results (balance_loop env chs i st) = Some (take 20 (scan_results st @
      List.map_filter (pss_report env (cfg_psr_threshold (scan_cfg st)) air) (drop i chs)))"
proof (induction env chs i st rule: balance_loop.induct)
  case (1 env chs i st)
  let ?R = "pss_report env (cfg_psr_threshold (scan_cfg st)) air"
  show ?case
  proof (cases "length chs \<le> i \<or> 20 \<le> nof_results st")
    case True
    with 1 show ?thesis by (subst balance_loop.simps) (auto simp: poll_steady Let_def List.map_filter_simps)
  next
    case False
    obtain st2 where st2: "pss_visit 20 env (chs ! i) st = Some st2" "scan_cfg st2 = scan_cfg st" "\<not> stop st2"
        "scan_results st2 = take 20 (scan_results st @ List.map_filter ?R [chs ! i])"
      using pss_visit_steady [OF 1(2) le_20_256 1(3,4)] by metis
    have "nof_results st2 \<le> 20" using arg_cong [OF st2(4), of length] by simp
    then have "map_option scan_results (balance_loop env chs (i + 1) st2) = Some (take 20 (scan_results st2 @
        List.map_filter ?R (drop (i + 1) chs)))"
      using 1(1) [of st st2] 1(2,4) False st2(1-3) by (simp add: poll_steady balance_visit_eq)
    moreover have "balance_loop env chs i st = balance_loop env chs (i + 1) st2"
      using False st2(1) 1(2,4) by (subst balance_loop.simps) (simp add: Let_def balance_visit_eq poll_steady)
    moreover have "drop i chs = chs ! i # drop (i + 1) chs"
      using False by (simp add: Cons_nth_drop_Suc)
    ultimately show ?thesis
      by (simp only: st2(2,4) take_take_append append_assoc map_filter_Cons [of ?R "chs ! i" "drop (i + 1) chs"])
  qed
qed

end
