(* ===== verification/Lte_Scan_Radio.thy ===== *)
theory Lte_Scan_Radio
  imports Lte_Scan_Proofs
begin

text \<open>
  The discipline of the radio. \<open>rf_step\<close> says which call is allowed when: a stream is started only when
  none runs and stopped only when one runs, samples are received only while one runs, every object is initialised
  before its use and freed once. \<open>buffers\<close> counts the sample buffers that are allocated. The last sections
  show that every operation of the scanner keeps to it, and what it leaves behind.
\<close>

record rf_state =
  streaming :: bool
  searching :: bool
  mib_open :: bool
  sync_open :: bool
  dl_open :: bool
  softbuf_open :: bool
  buffers :: nat

definition idle :: "nat \<Rightarrow> rf_state" where
  "idle n = \<lparr>streaming = False, searching = False, mib_open = False, sync_open = False, dl_open = False,
    softbuf_open = False, buffers = n\<rparr>"

definition need :: "bool \<Rightarrow> rf_state \<Rightarrow> rf_state option" where
  "need b s = (if b then Some s else None)"

fun rf_step :: "rf_event \<Rightarrow> rf_state \<Rightarrow> rf_state option" where
  "rf_step (Set_Gain x) s = Some s"
| "rf_step (Set_Freq x) s = Some s"
| "rf_step (Set_Srate x) s = need (\<not> streaming s) s"
| "rf_step Start_Rx s = need (\<not> streaming s) (s\<lparr>streaming := True\<rparr>)"
| "rf_step Stop_Rx s = need (streaming s) (s\<lparr>streaming := False\<rparr>)"
| "rf_step (Cs_Init n done) s = need (\<not> searching s) (s\<lparr>searching := done\<rparr>)"
| "rf_step (Cs_Valid_Frames n) s = need (searching s) s"
| "rf_step Cs_Scan s = need (searching s \<and> streaming s) s"
| "rf_step Cs_Free s = need (searching s) (s\<lparr>searching := False\<rparr>)"
| "rf_step (Mib_Init done) s = need (\<not> mib_open s) (s\<lparr>mib_open := done\<rparr>)"
| "rf_step (Mib_Set_Cell c) s = need (mib_open s) s"
| "rf_step (Mib_Set_Cfo x) s = need (mib_open s) s"
| "rf_step (Mib_Decode n) s = need (mib_open s \<and> streaming s) s"
| "rf_step Mib_Free s = need (mib_open s) (s\<lparr>mib_open := False\<rparr>)"
| "rf_step (Buf_Malloc done) s = Some (s\<lparr>buffers := buffers s + of_bool done\<rparr>)"
| "rf_step Buf_Free s = need (0 < buffers s) (s\<lparr>buffers := buffers s - 1\<rparr>)"
| "rf_step (Sync_Init n done) s = need (\<not> sync_open s) (s\<lparr>sync_open := done\<rparr>)"
| "rf_step (Sync_Set_Cell c) s = need (sync_open s) s"
| "rf_step (Sync_Set_Cfo x) s = need (sync_open s) s"
| "rf_step Sync_Get s = need (sync_open s \<and> streaming s) s"
| "rf_step Sync_Free s = need (sync_open s) (s\<lparr>sync_open := False\<rparr>)"
| "rf_step (Dl_Init n done) s = need (\<not> dl_open s) (s\<lparr>dl_open := done\<rparr>)"
| "rf_step (Dl_Set_Cell c) s = need (dl_open s) s"
| "rf_step (Dl_Decode n) s = need (dl_open s \<and> softbuf_open s) s"
| "rf_step Dl_Free s = need (dl_open s) (s\<lparr>dl_open := False\<rparr>)"
| "rf_step (Softbuf_Init n done) s = need (\<not> softbuf_open s) (s\<lparr>softbuf_open := done\<rparr>)"
| "rf_step Softbuf_Free s = need (softbuf_open s) (s\<lparr>softbuf_open := False\<rparr>)"

primrec rf_run :: "rf_log \<Rightarrow> rf_state \<Rightarrow> rf_state option" where
  "rf_run [] s = Some s"
| "rf_run (e # es) s = Option.bind (rf_step e s) (rf_run es)"

lemma rf_run_append [simp]: "rf_run (es @ fs) s = Option.bind (rf_run es s) (rf_run fs)"
  by (induction es arbitrary: s) (auto simp: Option.bind_eq_None_conv split: Option.bind_split)

lemmas rf_simps = need_def idle_def

lemma rf_run_sweep:
  "list_all sweep_event es \<Longrightarrow> searching s \<Longrightarrow> streaming s \<Longrightarrow> rf_run es s = Some s"
  by (induction es) (auto simp: sweep_event_def need_def)

section \<open>One channel\<close>

lemma decode_mib_run:
  assumes "rf_run tr s0 = Some (idle n)"
  shows "rf_run (fst (decode_mib env det tr cell cfo)) s0 = Some (idle n)"
  using assms by (auto simp: decode_mib_def Let_def rf_simps split: prod.split)

lemma alloc_buffers_run:
  "rf_run tr s0 = Some (idle (m + n)) \<Longrightarrow> alloc_buffers env k n tr = (tr', n', ok) \<Longrightarrow>
    rf_run tr' s0 = Some (idle (m + n')) \<and> (ok \<longrightarrow> n' = n + k)"
proof (induction k arbitrary: n tr)
  case (Suc k)
  show ?case
  proof (cases "env_malloc_fails env tr")
    case False
    with Suc.prems have "rf_run (tr @ [Buf_Malloc True]) s0 = Some (idle (m + (n + 1)))"
      by (simp add: rf_simps)
    from Suc.IH [OF this] Suc.prems False show ?thesis by simp
  qed (use Suc.prems in \<open>auto simp: rf_simps\<close>)
qed simp

lemma free_buffers_run:
  "rf_run tr s0 = Some (idle (m + n)) \<Longrightarrow> rf_run (free_buffers n tr) s0 = Some (idle m)"
proof -
  have "rf_run (replicate n Buf_Free) (idle (m + n)) = Some (idle m)"
    by (induction n) (simp_all add: rf_simps)
  then show "rf_run tr s0 = Some (idle (m + n)) \<Longrightarrow> ?thesis" by (simp add: free_buffers_def)
qed

definition receiving :: "nat \<Rightarrow> rf_state" where
  "receiving n = (idle n)\<lparr>sync_open := True, dl_open := True, softbuf_open := True\<rparr>"

lemma sib1_trials_run:
  "rf_run tr s0 = Some ((receiving n)\<lparr>streaming := True\<rparr>) \<Longrightarrow>
    rf_run (fst (sib1_trials env k tr out)) s0 = Some ((receiving n)\<lparr>streaming := True\<rparr>)"
  by (induction k arbitrary: tr) (auto simp: receiving_def rf_simps Let_def split: prod.split option.split)

lemma sib1_receive_run:
  assumes "rf_run tr s0 = Some (receiving n)"
  shows "rf_run (fst (sib1_receive env tr out)) s0 = Some (idle n)"
proof -
  have "rf_run (tr @ [Start_Rx]) s0 = Some ((receiving n)\<lparr>streaming := True\<rparr>)"
    using assms by (simp add: receiving_def rf_simps)
  from sib1_trials_run [OF this, of env 300 out] show ?thesis
    by (auto simp: sib1_receive_def receiving_def rf_simps split: prod.split)
qed

lemma sib1_open_run:
  assumes "rf_run tr s0 = Some (idle n)"
  shows "case sib1_open env prb cell cfo tr of
      Inl tr' \<Rightarrow> rf_run tr' s0 = Some (idle n) | Inr tr' \<Rightarrow> rf_run tr' s0 = Some (receiving n)"
  using assms by (auto simp: sib1_open_def Let_def receiving_def rf_simps)

lemma try_sib1_run:
  assumes "rf_run tr s0 = Some (idle n)"
  shows "rf_run (fst (try_sib1 env tr cell cfo max_prb out)) s0 = Some (idle n) \<or>
    rf_run (fst (try_sib1 env tr cell cfo max_prb out)) s0 = Some (idle (n + 4))"
proof -
  let ?prb = "if max_prb < cell_nof_prb cell then max_prb else cell_nof_prb cell"
  let ?rate = "srsran_sampling_freq_hz (env_standard_rates env) ?prb"
  let ?tr1 = "tr @ [Set_Srate (of_int ?rate)]"
  obtain tr2 m ok where alloc: "alloc_buffers env 4 0 ?tr1 = (tr2, m, ok)" by (metis prod_cases3)
  have run1: "rf_run ?tr1 s0 = Some (idle (n + 0))" using assms by (simp add: rf_simps)
  note run2 = alloc_buffers_run [OF run1 alloc]
  show ?thesis
  proof (cases "?rate \<le> 0 \<or> 1000 < \<bar>env_set_srate env tr - of_int ?rate\<bar> \<or> \<not> ok")
    case True
    then show ?thesis
      using assms run1 alloc run2 free_buffers_run [of tr2 s0 n m]
      by (auto simp: try_sib1_def Let_def SRSRAN_MAX_PORTS_def)
  next
    case False
    with run2 have m: "m = 4" by simp
    let ?cell = "cell\<lparr>cell_nof_prb := ?prb\<rparr>"
    have eq: "try_sib1 env tr cell cfo max_prb out =
        (case sib1_open env ?prb ?cell cfo tr2 of
           Inl tr3 \<Rightarrow> (free_buffers 4 tr3, -1, out) | Inr tr3 \<Rightarrow> sib1_receive env tr3 out)"
      using False alloc m by (simp add: try_sib1_def Let_def SRSRAN_MAX_PORTS_def)
    note opened = sib1_open_run [OF conjunct1 [OF run2, unfolded m], of env ?prb ?cell cfo]
    show ?thesis
    proof (cases "sib1_open env ?prb ?cell cfo tr2")
      case (Inl tr3)
      with opened free_buffers_run [of tr3 s0 n 4] show ?thesis by (simp add: eq)
    next
      case (Inr tr3)
      with opened sib1_receive_run [of tr3 s0 "n + 4" env out] show ?thesis by (simp add: eq)
    qed
  qed
qed

lemma identify_cell_run:
  assumes "rf_run tr s0 = Some (idle n)"
  shows "\<exists>m. rf_run (fst (identify_cell env det cfg tr e f c)) s0 = Some (idle m) \<and>
    (m = n \<or> (cfg_try_sib1 cfg \<and> m = n + 4))"
proof -
  let ?cell = "\<lparr>cell_nof_prb = 0, cell_nof_ports = 0, cell_id = fc_cell_id c, cell_cp = fc_cp c,
    cell_frame_type = fc_frame_type c\<rparr>"
  obtain tr1 mib_ret cell1 cfo where mib: "decode_mib env det tr ?cell (fc_cfo c) = (tr1, mib_ret, cell1, cfo)"
    by (metis prod_cases4)
  have run1: "rf_run tr1 s0 = Some (idle n)" using decode_mib_run [OF assms, of env det ?cell] mib by (metis fst_conv)
  let ?out1 = "(fill_result env e f c)\<lparr>res_cfo_hz := cfo\<rparr>"
  let ?out2 = "if mib_ret = 1
    then ?out1\<lparr>res_nof_prb := cell_nof_prb cell1, res_nof_ports := cell_nof_ports cell1\<rparr> else ?out1"
  have "fst (identify_cell env det cfg tr e f c) =
      (if mib_ret = 1 \<and> cfg_try_sib1 cfg \<and> cell_nof_prb cell1 \<le> cfg_max_prb_sib1 cfg
       then fst (try_sib1 env tr1 cell1 cfo (cfg_max_prb_sib1 cfg) ?out2) else tr1)"
    by (simp add: identify_cell_def Let_def mib split: prod.split)
  with run1 try_sib1_run [OF run1, of env cell1 cfo "cfg_max_prb_sib1 cfg" ?out2] show ?thesis
    by (auto split: if_splits)
qed

lemma scan_earfcn_run:
  assumes "rf_run tr s0 = Some (idle n)"
  shows "\<exists>m. rf_run (fst (scan_earfcn env det cfg tr e f)) s0 = Some (idle m) \<and>
    (m = n \<or> (cfg_try_sib1 cfg \<and> m = n + 4))"
proof -
  let ?tr1 = "tr @ [Set_Freq (f * MHZ), Set_Srate SAMP_FREQ, Start_Rx]"
  let ?tr3 = "?tr1 @ [Cs_Init (cs_max_frames_pss det) True] @ [Cs_Valid_Frames (cs_nof_valid_pss_frames det)]"
  let ?tr4 = "?tr3 @ [Cs_Scan, Cs_Free, Stop_Rx]"
  have run4: "rf_run ?tr4 s0 = Some (idle n)" using assms by (simp add: rf_simps)
  have fail: "rf_run (?tr1 @ [Cs_Init (cs_max_frames_pss det) False] @ [Stop_Rx]) s0 = Some (idle n)"
    using assms by (simp add: rf_simps)
  show ?thesis
    using fail run4 identify_cell_run [OF run4]
    by (auto simp: scan_earfcn_def Let_def simp del: rf_run_append split: prod.split option.split)
      (metis fst_conv)+
qed

end
