(* ===== verification/Lte_Scan_Bands.thy ===== *)
theory Lte_Scan_Bands
  imports Lte_Scan_Radio
begin

text \<open>
  The scans of a band as a whole: start and end of the search, the two passes of the full scan, and what a
  scan of one channel reports.
\<close>

section \<open>What a scan of one channel reports\<close>

lemma all_less_3: "(\<forall>j < 3. P j) \<longleftrightarrow> P 0 \<and> P 1 \<and> P (2::nat)"
  by (auto simp: less_Suc_eq numeral_3_eq_3 numeral_2_eq_2)

lemma best_cell_Some:
  "best_cell t found = Some i \<Longrightarrow> i < 3 \<and> t < fc_psr (found i) \<and> 0 < fc_psr (found i) \<and>
    (\<forall>j < 3. fc_psr (found j) \<le> fc_psr (found i))"
  by (auto simp: best_cell_def all_less_3 not_less split: if_splits)

lemma best_cell_None:
  "best_cell t found = None \<longleftrightarrow> (\<forall>j < 3. fc_psr (found j) \<le> t \<or> fc_psr (found j) \<le> 0)"
  by (auto simp: best_cell_def all_less_3 not_less split: if_splits)

lemma hit_None:
  "hit t a = None \<longleftrightarrow> fst a \<le> 0 \<or> (\<forall>j < 3. fc_psr (snd a j) \<le> t)"
  by (auto simp: hit_def all_less_3 not_less)

lemma store_sib1_fields [simp]:
  "res_earfcn (store_sib1 s r) = res_earfcn r" "res_freq_mhz (store_sib1 s r) = res_freq_mhz r"
  "res_psr (store_sib1 s r) = res_psr r" "res_from_sib1 (store_sib1 s r)" "res_pci (store_sib1 s r) = res_pci r"
  "res_operator_name (store_sib1 s r) = res_operator_name r" "res_cell_id (store_sib1 s r) = sib_cell_id s"
  "res_tac (store_sib1 s r) = sib_tac s"
  by (simp_all add: store_sib1_def Let_def split: list.split option.split)

lemma sib1_trials_out:
  "sib1_trials env k tr out = (tr', ret, out') \<Longrightarrow> ret = 0 \<and> (\<exists>s. out' = store_sib1 s out) \<or> ret = -1 \<and> out' = out"
  by (induction k arbitrary: tr) (auto simp: Let_def split: prod.splits if_splits option.splits)

lemma try_sib1_out:
  assumes "try_sib1 env tr cell cfo p out = (tr', ret, out')"
  shows "ret = 0 \<and> (\<exists>s. out' = store_sib1 s out) \<or> ret = -1 \<and> out' = out"
  using assms sib1_trials_out [of env 300 _ out]
  by (force simp: try_sib1_def sib1_receive_def Let_def split: prod.splits if_splits sum.splits)

lemma identify_cell_reported:
  assumes "t < fc_psr c"
  shows "reported t ch (snd (identify_cell env det cfg tr (ch_id ch) (ch_fd ch) c))"
proof -
  have stored: "reported t ch (store_sib1 s r)"
    if "res_earfcn r = ch_id ch" "res_freq_mhz r = ch_fd ch" "t < res_psr r" for s r
    using that by (simp add: reported_def)
  have named: "reported t ch (set_operator (ch_id ch) r)"
    if "res_earfcn r = ch_id ch" "res_freq_mhz r = ch_fd ch" "t < res_psr r" for r
    using that by (simp add: reported_def)
  show ?thesis
    using assms
    by (auto simp: identify_cell_def Let_def intro!: stored named split: prod.splits if_splits dest!: try_sib1_out)
qed

lemma scan_earfcn_reported:
  assumes "scan_earfcn env det cfg tr (ch_id ch) (ch_fd ch) = (tr', ret, out)"
  shows "case out of None \<Rightarrow> ret \<le> 0 | Some r \<Rightarrow> ret = 1 \<and> reported (cfg_psr_threshold cfg) ch r"
proof -
  have id: "reported (cfg_psr_threshold cfg) ch r"
    if "identify_cell env det cfg tr (ch_id ch) (ch_fd ch) (found i) = (tr1, r)"
      "best_cell (cfg_psr_threshold cfg) found = Some i" for tr found i tr1 r
    using identify_cell_reported [of "cfg_psr_threshold cfg" "found i" ch env det cfg tr]
      best_cell_Some [OF that(2)] that(1) by simp
  show ?thesis
    using assms by (auto simp: scan_earfcn_def Let_def intro: id split: prod.splits if_splits option.splits)
qed

section \<open>Start and end of a search\<close>

definition search_start :: "srsran_earfcn list \<Rightarrow> lte_scan \<Rightarrow> bool \<Rightarrow> rf_log" where
  "search_start chs st ok =
    [Set_Srate SAMP_FREQ, Set_Freq (ch_fd (chs ! 0) * MHZ), Start_Rx, Cs_Init (cs_max_frames_pss (detect_config st)) ok] @
    (if ok then [Cs_Valid_Frames (cs_nof_valid_pss_frames (detect_config st))] else [Stop_Rx])"

lemma open_search_eq:
  obtains ok where "open_search env chs st = (emit (search_start chs st ok) st, ok)"
    "steady env air \<Longrightarrow> ok"
proof (rule that)
  let ?ok = "\<not> env_cs_init env (rf_log st @
    [Set_Srate SAMP_FREQ, Set_Freq (ch_fd (chs ! 0) * MHZ), Start_Rx])"
  show "open_search env chs st = (emit (search_start chs st ?ok) st, ?ok)"
    by (simp add: open_search_def Let_def search_start_def emit_def)
  show "steady env air \<Longrightarrow> ?ok" by simp
qed

lemma rf_run_search_start:
  "rf_run (search_start chs st ok) (idle n) = Some (if ok then (idle n)\<lparr>searching := True, streaming := True\<rparr> else idle n)"
  by (simp add: search_start_def rf_simps)

lemma swept_run:
  assumes "swept st st'" "rf_run (rf_log st) s0 = Some ((idle n)\<lparr>searching := True, streaming := True\<rparr>)"
  shows "rf_run (rf_log (close_search st')) s0 = Some (idle n)"
  using assms by (auto simp: swept_def close_search_def rf_run_sweep rf_simps)

lemma close_search_fields [simp]:
  "scan_results (close_search st) = scan_results st" "nof_results (close_search st) = nof_results st"
  "scan_cfg (close_search st) = scan_cfg st" "stop (close_search st) = stop st"
  "detect_config (close_search st) = detect_config st"
  by (simp_all add: close_search_def)

text \<open>
  From a radio that is idle to one that is idle again, with the buffers that there were, or more of them when SIB1
  is decoded.
\<close>

definition keeps_discipline :: "lte_scan \<Rightarrow> lte_scan \<Rightarrow> bool" where
  "keeps_discipline st st' \<longleftrightarrow> (\<forall>s0 n. rf_run (rf_log st) s0 = Some (idle n) \<longrightarrow>
    (\<exists>m. rf_run (rf_log st') s0 = Some (idle m) \<and> (m = n \<or> (cfg_try_sib1 (scan_cfg st) \<and> n \<le> m))))"

lemma keeps_discipline_refl: "rf_log st' = rf_log st \<Longrightarrow> keeps_discipline st st'"
  by (auto simp: keeps_discipline_def)

lemma keeps_discipline_trans:
  assumes "keeps_discipline st st1" "keeps_discipline st1 st2" "scan_cfg st1 = scan_cfg st"
  shows "keeps_discipline st st2"
  unfolding keeps_discipline_def
proof (intro allI impI)
  fix s0 n
  assume "rf_run (rf_log st) s0 = Some (idle n)"
  with assms(1) obtain m where m: "rf_run (rf_log st1) s0 = Some (idle m)"
    "m = n \<or> (cfg_try_sib1 (scan_cfg st) \<and> n \<le> m)"
    unfolding keeps_discipline_def by blast
  with assms(2,3) obtain m' where "rf_run (rf_log st2) s0 = Some (idle m')"
    "m' = m \<or> (cfg_try_sib1 (scan_cfg st) \<and> m \<le> m')"
    unfolding keeps_discipline_def by metis
  with m(2) show "\<exists>m. rf_run (rf_log st2) s0 = Some (idle m) \<and> (m = n \<or> (cfg_try_sib1 (scan_cfg st) \<and> n \<le> m))"
    by auto
qed

lemma keeps_discipline_search:
  assumes "swept (emit (search_start chs st1 True) st) st2" "rf_log st1 = rf_log st"
  shows "keeps_discipline st (close_search st2)"
  unfolding keeps_discipline_def
proof (intro allI impI)
  fix s0 n
  assume "rf_run (rf_log st) s0 = Some (idle n)"
  then have "rf_run (rf_log (emit (search_start chs st1 True) st)) s0 =
      Some ((idle n)\<lparr>searching := True, streaming := True\<rparr>)"
    by (simp add: rf_run_search_start)
  from swept_run [OF assms(1) this]
  show "\<exists>m. rf_run (rf_log (close_search st2)) s0 = Some (idle m) \<and>
      (m = n \<or> (cfg_try_sib1 (scan_cfg st) \<and> n \<le> m))"
    by blast
qed

lemma keeps_discipline_failed: "keeps_discipline st (emit (search_start chs st1 False) st)"
  by (auto simp: keeps_discipline_def rf_run_search_start)

lemma keeps_discipline_scan_earfcn:
  "rf_log st' = fst (scan_earfcn env det (scan_cfg st) (rf_log st) e f) \<Longrightarrow> keeps_discipline st st'"
  unfolding keeps_discipline_def using scan_earfcn_run [of "rf_log st" _ _ env det "scan_cfg st" e f] by fastforce

section \<open>Scanning into the next slot\<close>

lemma scan_into_slot:
  assumes "nof_results st < 256"
  obtains st' ret where "scan_into_slot env st (ch_id ch) (ch_fd ch) = Some (st', ret)"
    "advanced [ch] st (fst (count_result (st', ret)))" "ret \<in> {-1, 0, 1}"
    "nof_results (fst (count_result (st', ret))) \<le> nof_results st + 1"
    "rf_log (fst (count_result (st', ret))) =
      fst (scan_earfcn env (detect_config st) (scan_cfg st) (rf_log st) (ch_id ch) (ch_fd ch))"
    "stop (fst (count_result (st', ret))) = stop st"
proof -
  obtain tr ret out where eq:
    "scan_earfcn env (detect_config st) (scan_cfg st) (rf_log st) (ch_id ch) (ch_fd ch) = (tr, ret, out)"
    by (metis prod_cases3)
  note rep = scan_earfcn_reported [OF eq]
  have ret: "ret \<in> {-1, 0, 1}"
    using eq by (auto simp: scan_earfcn_def Let_def split: prod.splits if_splits option.splits)
  show ?thesis
  proof (cases out)
    case None
    with rep have "ret \<le> 0" by simp
    with None eq ret show ?thesis
      by (intro that [of "st\<lparr>rf_log := tr\<rparr>" ret])
        (auto simp: scan_into_slot_def count_result_def intro!: advanced_refl)
  next
    case (Some r)
    let ?st = "st\<lparr>rf_log := tr, results := (results st)(nof_results st := r)\<rparr>"
    let ?st' = "fst (count_result (?st, ret))"
    have one: "ret = 1" and r: "reported (cfg_psr_threshold (scan_cfg st)) ch r" using rep Some by simp_all
    have "scan_results ?st' = scan_results st @ [r]" by (auto simp: one count_result_def scan_results_def)
    moreover have "scan_cfg ?st' = scan_cfg st" "detect_config ?st' = detect_config st"
      by (simp_all add: count_result_def)
    moreover have "list_all2 (reported (cfg_psr_threshold (scan_cfg st))) [ch] [r]" using r by simp
    ultimately have "advanced [ch] st ?st'"
      unfolding advanced_def by blast
    then show ?thesis
      using Some eq assms ret
      by (intro that [of ?st ret])
        (auto simp: scan_into_slot_def count_result_def LTE_SCAN_MAX_RESULTS_def one)
  qed
qed

section \<open>The two passes of the full scan\<close>

lemma band_visit_eq:
  "band_visit env ch cs st = (let (st1, h) = search_channel env ch st
    in (st1, if h \<noteq> None \<and> length cs < 2000 then cs @ [ch] else cs))"
  by (simp add: band_visit_def LTE_SCAN_MAX_EARFCN_def Let_def split: prod.split option.split)

lemma band_pass1_sound:
  "band_pass1 env chs cs st = (st', cs') \<Longrightarrow> swept st st' \<and> scan_results st' = scan_results st \<and>
    scan_cfg st' = scan_cfg st \<and> detect_config st' = detect_config st \<and> (\<exists>ds. cs' = cs @ ds \<and> subseq ds chs)"
proof (induction chs arbitrary: cs st)
  case Nil
  then show ?case by (auto simp: swept_refl)
next
  case (Cons ch chs)
  show ?case
  proof (cases "stop (poll_stop env st)")
    case True
    with Cons.prems show ?thesis by (auto simp: swept_refl)
  next
    case False
    let ?st1 = "poll_stop env st"
    obtain st2 cs2 where visit: "band_visit env ch cs ?st1 = (st2, cs2)" by fastforce
    then have cs2: "cs2 = cs \<or> cs2 = cs @ [ch]" and st2: "st2 = fst (search_channel env ch ?st1)"
      by (auto simp: band_visit_eq search_channel_eq split: if_splits)
    have "band_pass1 env chs cs2 st2 = (st', cs')" using Cons.prems False visit by (simp add: Let_def)
    from Cons.IH [OF this] obtain ds where ds: "swept st2 st'" "scan_results st' = scan_results st2"
      "scan_cfg st' = scan_cfg st2" "detect_config st' = detect_config st2" "cs' = cs2 @ ds" "subseq ds chs"
      by blast
    have "swept st st2" using swept_search [of ?st1 env ch] st2 by (simp add: swept_def)
    moreover have "scan_results st2 = scan_results st" "scan_cfg st2 = scan_cfg st"
        "detect_config st2 = detect_config st"
      by (simp_all add: st2 search_channel_eq)
    moreover have "\<exists>es. cs' = cs @ es \<and> subseq es (ch # chs)"
      using cs2 ds(5,6) by (auto intro: exI [of _ "ch # ds"])
    ultimately show ?thesis using ds swept_trans [of st st2 st'] by auto
  qed
qed

lemma band_pass2_sound:
  "nof_results st \<le> 256 \<Longrightarrow>
    \<exists>st'. band_pass2 env chs st = Some st' \<and> advanced chs st st' \<and> nof_results st' \<le> 256 \<and> keeps_discipline st st'"
proof (induction chs arbitrary: st)
  case Nil
  then show ?case by (auto simp: advanced_refl keeps_discipline_refl)
next
  case (Cons ch chs)
  let ?st1 = "poll_stop env st"
  show ?case
  proof (cases "stop ?st1 \<or> 256 \<le> nof_results ?st1")
    case True
    then have "band_pass2 env (ch # chs) st = Some ?st1" by (auto simp: Let_def LTE_SCAN_MAX_RESULTS_def)
    with Cons.prems show ?thesis by (auto intro!: advanced_refl keeps_discipline_refl)
  next
    case False
    then obtain st2 ret where slot: "scan_into_slot env ?st1 (ch_id ch) (ch_fd ch) = Some (st2, ret)"
      "advanced [ch] ?st1 (fst (count_result (st2, ret)))"
      "nof_results (fst (count_result (st2, ret))) \<le> nof_results ?st1 + 1"
      "rf_log (fst (count_result (st2, ret))) =
        fst (scan_earfcn env (detect_config ?st1) (scan_cfg ?st1) (rf_log ?st1) (ch_id ch) (ch_fd ch))"
      using scan_into_slot [of ?st1] by (metis linorder_not_less)
    let ?st3 = "fst (count_result (st2, ret))"
    have kept: "keeps_discipline st ?st3"
      using slot(4) by (auto intro: keeps_discipline_scan_earfcn)
    have "nof_results ?st3 \<le> 256" using slot(3) False by simp
    from Cons.IH [OF this] obtain st' where st': "band_pass2 env chs ?st3 = Some st'"
      "advanced chs ?st3 st'" "nof_results st' \<le> 256" "keeps_discipline ?st3 st'"
      by blast
    have "scan_cfg ?st3 = scan_cfg st" using slot(2) by (simp add: advanced_def)
    with keeps_discipline_trans [OF kept st'(4)] have "keeps_discipline st st'" by simp
    moreover have "band_pass2 env (ch # chs) st = Some st'"
      using False slot(1) st'(1) by (simp add: Let_def LTE_SCAN_MAX_RESULTS_def)
    moreover have "advanced [] st ?st1" by (simp add: advanced_refl)
    then have "advanced ([] @ [ch] @ chs) st st'"
      using advanced_trans [OF _ advanced_trans [OF slot(2) st'(2)]] by blast
    ultimately show ?thesis using st'(3) by simp
  qed
qed

end
