(* ===== verification/Lte_Bands_Proofs.thy ===== *)
theory Lte_Bands_Proofs
  imports Lte_Bands
begin

text \<open>
  What the band table promises: entries are found from their number and from every channel between their
  offset and the next one, the channels of a band are the ones the single-channel functions know, and the
  pairing of downlink and uplink. Then what the code does for ranges in the wrong order and for regions.
\<close>

section \<open>The table is sorted\<close>

abbreviation dl_off :: "nat \<Rightarrow> nat" where
  "dl_off i \<equiv> lb_dl_earfcn_offset (lte_bands ! i)"

lemma length_lte_bands: "length lte_bands = 59"
  by (simp add: lte_bands_def)

lemma map_dl_offsets: "map lb_dl_earfcn_offset lte_bands =
  [0, 600, 1200, 1950, 2400, 2650, 2750, 3450, 3800, 4150, 4750, 5010, 5180, 5280, 5730, 5850, 6000, 6150,
   6450, 6600, 7500, 7700, 8040, 8690, 9040, 9210, 9660, 9770, 9870, 9920, 36000, 36200, 36350, 36950,
   37550, 37750, 38250, 38650, 39650, 41590, 43590, 45590, 46590, 46790, 54540, 55240, 56740, 58240, 59090,
   59140, 60140, 65536, 66436, 67336, 67536, 67836, 68336, 68586, 68936]"
  by (simp add: lte_bands_def lte_band_row_def)

lemma map_bands: "map lb_band lte_bands =
  [1, 2, 3, 4, 5, 6, 7, 8, 9, 10, 11, 12, 13, 14, 17, 18, 19, 20, 21, 22, 23, 24, 25, 26, 27, 28, 29, 30,
   31, 32, 33, 34, 35, 36, 37, 38, 39, 40, 41, 42, 43, 44, 45, 46, 47, 48, 49, 50, 51, 52, 64, 65, 66, 67,
   68, 69, 70, 71, 72]"
  by (simp add: lte_bands_def lte_band_row_def)

lemma sorted_dl_offsets: "sorted_wrt (<) (map lb_dl_earfcn_offset lte_bands)"
  by (simp add: map_dl_offsets)

lemma distinct_bands: "distinct (map lb_band lte_bands)"
  by (simp add: map_bands)

lemma dl_off_mono: "i < j \<Longrightarrow> j < 59 \<Longrightarrow> dl_off i < dl_off j"
  using sorted_wrt_nth_less [OF sorted_dl_offsets, of i j] by (simp add: length_lte_bands)

lemma dl_off_mono_le: "i \<le> j \<Longrightarrow> j < 59 \<Longrightarrow> dl_off i \<le> dl_off j"
  using dl_off_mono [of i j] by (cases "i = j") auto

lemma dl_off_last: "dl_off 58 = 68936"
proof -
  have "dl_off 58 = map lb_dl_earfcn_offset lte_bands ! 58" by (simp add: length_lte_bands)
  then show ?thesis by (simp add: map_dl_offsets)
qed

lemma dl_off_0: "dl_off 0 = 0"
proof -
  have "dl_off 0 = map lb_dl_earfcn_offset lte_bands ! 0" by (simp add: length_lte_bands)
  then show ?thesis by (simp add: map_dl_offsets)
qed

lemma band_index_from_nth:
  "distinct (map lb_band bs) \<Longrightarrow> i < length bs \<Longrightarrow> band_index_from bs k (lb_band (bs ! i)) = k + i"
proof (induction bs arbitrary: i k)
  case (Cons b bs)
  then show ?case by (cases i) force+
qed simp

lemma band_index_nth: "i < 59 \<Longrightarrow> band_index (lb_band (lte_bands ! i)) = i"
  using band_index_from_nth [OF distinct_bands] by (simp add: band_index_def length_lte_bands)

lemma dl_index_down_eq:
  "i \<le> k \<Longrightarrow> k < 59 \<Longrightarrow> dl_off i \<le> e \<Longrightarrow> e < dl_off (i + 1) \<Longrightarrow> dl_index_down k e = i"
proof (induction k)
  case (Suc k)
  show ?case
  proof (cases "i = Suc k")
    case False
    with Suc have "e < dl_off (Suc k)" using dl_off_mono_le [of "i + 1" "Suc k"] by simp
    with Suc False show ?thesis by simp
  qed (use Suc in simp)
qed simp

lemma dl_index_down_bounds:
  "k < 59 \<Longrightarrow> dl_index_down k e \<le> k \<and> dl_off (dl_index_down k e) \<le> e \<and>
    (dl_index_down k e < k \<longrightarrow> e < dl_off (dl_index_down k e + 1))"
proof (induction k)
  case (Suc k)
  then show ?case by (cases "dl_index_down k e = k") auto
qed (simp add: dl_off_0)

text \<open>The entry in which a channel below the end of the table lies.\<close>

definition band_entry :: "nat \<Rightarrow> nat" where
  "band_entry e = dl_index_down 57 e"

lemma band_entry:
  assumes "e < 68936"
  shows "band_entry e < 58" "dl_off (band_entry e) \<le> e" "e < dl_off (band_entry e + 1)"
proof -
  have lt: "57 < (59::nat)" by simp
  have *: "band_entry e \<le> 57" "dl_off (band_entry e) \<le> e"
      "band_entry e < 57 \<longrightarrow> e < dl_off (band_entry e + 1)"
    using dl_index_down_bounds [OF lt, of e] unfolding band_entry_def by blast+
  show "band_entry e < 58" "dl_off (band_entry e) \<le> e" using * by simp_all
  show "e < dl_off (band_entry e + 1)"
  proof (cases "band_entry e = 57")
    case True
    then show ?thesis using assms dl_off_last by simp
  qed (use * in simp)
qed

lemma band_entry_eq: "i < 58 \<Longrightarrow> dl_off i \<le> e \<Longrightarrow> e < dl_off (i + 1) \<Longrightarrow> band_entry e = i"
  unfolding band_entry_def by (rule dl_index_down_eq) auto

lemma get_band_entry: "e < 68936 \<Longrightarrow> srsran_band_get_band e = lb_band (lte_bands ! band_entry e)"
  using dl_off_last by (simp add: srsran_band_get_band_def SRSRAN_NOF_LTE_BANDS_def band_entry_def)

lemma band_fd_entry: "e < 68936 \<Longrightarrow> srsran_band_fd e = get_fd (lte_bands ! band_entry e) e"
  using dl_off_last by (simp add: srsran_band_fd_def SRSRAN_NOF_LTE_BANDS_def band_entry_def)

lemma get_band_inj:
  assumes "e < 68936" "f < 68936" "srsran_band_get_band e = srsran_band_get_band f"
  shows "band_entry e = band_entry f"
proof -
  have e: "band_entry e < 59" and f: "band_entry f < 59"
    using band_entry(1) [OF assms(1)] band_entry(1) [OF assms(2)] by simp_all
  have "lb_band (lte_bands ! band_entry e) = lb_band (lte_bands ! band_entry f)"
    using assms by (simp add: get_band_entry)
  with band_index_nth [OF e] band_index_nth [OF f] show ?thesis by metis
qed

lemma u32_of_id: "0 \<le> x \<Longrightarrow> x < 2 ^ 32 \<Longrightarrow> u32_of x = nat x"
  by (simp add: u32_of_def)

lemma s32_of_id: "x < 2 ^ 31 \<Longrightarrow> s32_of x = int x"
  by (simp add: s32_of_def)

section \<open>The channels of a band\<close>

lemma channels_between:
  fixes first last band max_elems :: nat
  assumes "first \<le> last" "last < 68936"
    and "srsran_band_get_band first = band" "srsran_band_get_band last = band"
  shows "srsran_band_get_fd_band band (int first) (int last) max_elems =
      Some (map (\<lambda>j. \<lparr>ch_id = int (first + j), ch_fd = srsran_band_fd (first + j)\<rparr>)
        [0..<min max_elems (last - first)]) \<and>
    (\<forall>j \<le> last - first. srsran_band_get_band (first + j) = band)"
proof -
  define i where "i = band_entry first"
  have i: "i < 58" "dl_off i \<le> first" "first < dl_off (i + 1)"
    using band_entry [of first] assms unfolding i_def by auto
  have "band_entry last = i" using get_band_inj [of last first] assms unfolding i_def by auto
  then have last: "last < dl_off (i + 1)" using band_entry(3) [of last] assms by simp
  have entry: "band_entry (first + j) = i" if "j \<le> last - first" for j
    using i last assms(1) that by (intro band_entry_eq) auto
  have idx: "band_index band = i"
    using assms i get_band_entry [of first] band_index_nth [of i] unfolding i_def by auto
  have ch: "fd_channel (lte_bands ! i) (int first) j =
      \<lparr>ch_id = int (first + j), ch_fd = srsran_band_fd (first + j)\<rparr>" if "j < last - first" for j
    using that assms entry [of j]
    by (simp add: fd_channel_def Let_def u32_of_def s32_of_id band_fd_entry nat_add_distrib add.commute)
  have range: "\<not> dl_off (i + 1) - 1 < u32_of (int last)" "\<not> u32_of (int first) < dl_off i"
    "u32_of (int last - int first) = last - first"
    using i last assms by (auto simp: u32_of_def)
  have "srsran_band_get_fd_band band (int first) (int last) max_elems =
      Some (map (fd_channel (lte_bands ! i) (int first)) [0..<min max_elems (last - first)])"
    using i range
    by (simp add: srsran_band_get_fd_band_def Let_def idx SRSRAN_NOF_LTE_BANDS_def min_def not_less)
  moreover have "map (fd_channel (lte_bands ! i) (int first)) [0..<min max_elems (last - first)] =
      map (\<lambda>j. \<lparr>ch_id = int (first + j), ch_fd = srsran_band_fd (first + j)\<rparr>) [0..<min max_elems (last - first)]"
    by (rule map_cong [OF refl]) (simp add: ch)
  moreover have "srsran_band_get_band (first + j) = band" if "j \<le> last - first" for j
    using that assms entry [of j] entry [of 0] get_band_entry [of "first + j"] get_band_entry [of first] by simp
  ultimately show ?thesis by simp
qed

text \<open>
  C28: For two channels of one band in order, \<open>srsran_band_get_fd_band\<close> gives the channels from the first
  up to, but not including, the last one (or the first \<open>max_elems\<close> of them), each with the frequency that
  \<open>srsran_band_fd\<close> computes for it, and each a channel of the band.
\<close>

theorem band_channels_correct:
  fixes first last band max_elems :: nat
  assumes "first \<le> last" "last < 68936"
    and "srsran_band_get_band first = band" "srsran_band_get_band last = band"
  shows "srsran_band_get_fd_band band (int first) (int last) max_elems =
      Some (map (\<lambda>j. \<lparr>ch_id = int (first + j), ch_fd = srsran_band_fd (first + j)\<rparr>)
        [0..<min max_elems (last - first)]) \<and>
    (\<forall>j \<le> last - first. srsran_band_get_band (first + j) = band)"
  using channels_between [OF assms] .

lemma band_channels_correct_witness:
  "map ch_id (the (srsran_band_get_fd_band 8 3450 3455 2000)) = [3450, 3451, 3452, 3453, 3454]"
proof -
  have e: "map lb_dl_earfcn_offset lte_bands ! 7 = 3450" "map lb_dl_earfcn_offset lte_bands ! 8 = 3800"
    "map lb_band lte_bands ! 7 = 8"
    by (simp_all add: map_dl_offsets map_bands)
  have i: "band_entry 3450 = 7" "band_entry 3455 = 7"
    using e by (auto intro!: band_entry_eq simp: length_lte_bands)
  have b: "srsran_band_get_band 3450 = 8" "srsran_band_get_band 3455 = 8"
    using e i by (simp_all add: get_band_entry length_lte_bands)
  show ?thesis
    using band_channels_correct [of 3450 3455 8 2000] b by (simp add: upt_rec)
qed

text \<open>
  : The range of a band taken by default ends one channel early: its last channel is not among the
  channels. And when the first channel is above the last one, the difference wraps around: the result
  always has \<open>Max_elems\<close> channels, and they run out of the band.
\<close>

theorem band_range_errors:
  fixes first last band max_elems :: nat
  assumes "last < first" "first < 68936" "max_elems \<le> 2 ^ 31"
    and "srsran_band_get_band first = band" "srsran_band_get_band last = band"
  shows "map_option (map ch_id) (srsran_band_get_fd_band band (int first) (int last) max_elems) =
      Some (map (\<lambda>j. s32_of (first + j)) [0..<max_elems]) \<and>
    map_option length (srsran_band_get_fd_band_all band max_elems) =
      Some (min max_elems (dl_off (band_entry first + 1) - 1 - dl_off (band_entry first)))"
proof -
  define i where "i = band_entry first"
  have i: "i < 58" "dl_off i \<le> first" "first < dl_off (i + 1)"
    using band_entry [of first] assms unfolding i_def by auto
  have "band_entry last = i" using get_band_inj [of last first] assms unfolding i_def by auto
  then have last: "dl_off i \<le> last" using band_entry(2) [of last] assms by simp
  have idx: "band_index band = i"
    using assms i get_band_entry [of first] band_index_nth [of i] unfolding i_def by auto
  have hi: "dl_off (i + 1) \<le> 68936" using dl_off_mono_le [of "i + 1" 58] dl_off_last i by simp
  have wrap: "u32_of (int last - int first) = 2 ^ 32 - (first - last)"
  proof -
    have "(int last - int first) mod 2 ^ 32 = (int last - int first + 2 ^ 32) mod 2 ^ 32" by simp
    also have "\<dots> = int last - int first + 2 ^ 32" using assms by (intro mod_pos_pos_trivial) auto
    finally show ?thesis using assms by (simp add: u32_of_def nat_diff_distrib)
  qed
  have n: "max_elems < 2 ^ 32 - (first - last)" and l: "last \<le> dl_off (i + 1) - 1"
    using assms i by simp_all
  have idj: "ch_id (fd_channel (lte_bands ! i) (int first) j) = s32_of (first + j)" if "j < max_elems" for j
    using that assms by (simp add: fd_channel_def Let_def u32_of_def nat_add_distrib add.commute)
  have "srsran_band_get_fd_band band (int first) (int last) max_elems =
      Some (map (fd_channel (lte_bands ! i) (int first)) [0..<max_elems])"
    using i(1,2) last assms(1,2) wrap n l
    by (simp add: srsran_band_get_fd_band_def Let_def idx SRSRAN_NOF_LTE_BANDS_def not_less u32_of_id)
  moreover have "map_option length (srsran_band_get_fd_band_all band max_elems) =
      Some (min max_elems (dl_off (i + 1) - 1 - dl_off i))"
    using i hi dl_off_mono [of i "i + 1"]
    by (simp add: srsran_band_get_fd_band_all_def srsran_band_get_fd_band_def Let_def idx
        SRSRAN_NOF_LTE_BANDS_def u32_of_def min_def nat_diff_distrib)
  ultimately show ?thesis using idj by (simp add: i_def)
qed

section \<open>Regions\<close>

lemma band_index_0: "band_index 0 = 59"
  by (simp add: band_index_def lte_bands_def lte_band_row_def)

lemma get_fd_band_0: "srsran_band_get_fd_band 0 s e m = None"
  by (simp add: srsran_band_get_fd_band_def band_index_0 SRSRAN_NOF_LTE_BANDS_def Let_def)

lemma fd_region_skip:
  "list_all (\<lambda>b. lb_area b \<noteq> r) bs \<Longrightarrow>
    fd_region_from (bs @ cs) i r m acc = (if m = 0 then Some acc else fd_region_from cs (i + length bs) r m acc)"
proof (induction bs arbitrary: i)
  case Nil
  then show ?case by (cases cs) auto
qed auto

lemma region_of_one:
  assumes "0 < m"
    and "list_all (\<lambda>b. lb_area b \<noteq> r) (take n lte_bands)" "lb_area (hd (drop n lte_bands)) = r"
    and "drop n lte_bands \<noteq> []" "list_all (\<lambda>b. lb_area b \<noteq> r) (tl (drop n lte_bands))"
  shows "srsran_band_get_fd_region r m = srsran_band_get_fd_band n (-1) (-1) m"
proof -
  obtain b cs where bs: "drop n lte_bands = b # cs" using assms(4) by (cases "drop n lte_bands") auto
  then have n: "length (take n lte_bands) = n" by (metis drop_all length_take list.distinct(1) min.absorb2 nat_le_linear)
  have tail: "fd_region_from cs i r m' acc = Some acc" for i m' acc
    using fd_region_skip [of r cs "[]" i m' acc] assms(5) bs by simp
  have "fd_region_from lte_bands 0 r m [] = fd_region_from (b # cs) n r m []"
    using fd_region_skip [OF assms(2), of "b # cs" 0 m "[]"] assms(1) bs n
    by (metis add_0 append_take_drop_id not_gr_zero)
  then show ?thesis
    using assms(1,3) bs tail by (simp add: srsran_band_get_fd_region_def split: option.split)
qed

text \<open>
  : The search for the channels of a region takes the index of a table entry for the number of its band.
  The channels of the region \<open>ALL\<close> are never found, and other regions get the channels of bands that
  are not theirs: North America, whose only band is 22, gets band 19, which is one of Japan; CALA, whose
  only band is 31, gets band 28.
\<close>

theorem region_search_wrong_band:
  assumes "0 < max_elems"
  shows "srsran_band_get_fd_region GEO_AREA_ALL max_elems = None \<and>
    srsran_band_get_fd_region GEO_AREA_NA max_elems = srsran_band_get_fd_band 19 (-1) (-1) max_elems \<and>
    srsran_band_get_fd_region GEO_AREA_CALA max_elems = srsran_band_get_fd_band 28 (-1) (-1) max_elems"
proof -
  obtain b bs where eq: "lte_bands = b # bs" and area: "lb_area b = GEO_AREA_ALL"
    by (simp add: lte_bands_def lte_band_row_def)
  have "fd_region_from (b # bs) 0 GEO_AREA_ALL max_elems [] = None"
    using assms area by (simp add: get_fd_band_0)
  then have "srsran_band_get_fd_region GEO_AREA_ALL max_elems = None"
    unfolding srsran_band_get_fd_region_def eq .
  moreover have "srsran_band_get_fd_region GEO_AREA_NA max_elems = srsran_band_get_fd_band 19 (-1) (-1) max_elems"
    using assms by (rule region_of_one) (simp_all add: lte_bands_def lte_band_row_def)
  moreover have "srsran_band_get_fd_region GEO_AREA_CALA max_elems = srsran_band_get_fd_band 28 (-1) (-1) max_elems"
    using assms by (rule region_of_one) (simp_all add: lte_bands_def lte_band_row_def)
  ultimately show ?thesis by simp
qed

lemma region_search_wrong_band_witness:
  "srsran_band_get_fd_region GEO_AREA_ALL 1000 = None"
  using region_search_wrong_band [of 1000] by simp

section \<open>Uplink and downlink\<close>

abbreviation ul_off :: "nat \<Rightarrow> nat" where
  "ul_off i \<equiv> lb_ul_earfcn_offset (lte_bands ! i)"

lemma map_ul_offsets: "map lb_ul_earfcn_offset lte_bands =
  [18000, 18600, 19200, 19950, 20400, 20650, 20750, 21450, 21800, 22150, 22750, 23010, 23180,
   23280, 23730, 23850, 24000, 24150, 24450, 24600, 25500, 25700, 26040, 26690, 27040, 27210, 0,
   27660, 27760, 0, 0, 0, 0, 0, 0, 0, 0, 0, 0, 0, 0, 0, 0, 0, 0, 0, 0, 0, 0, 0, 27810, 131072,
   131972, 0, 132672, 0, 132972, 133122, 133472]"
  by (simp add: lte_bands_def lte_band_row_def)

lemma ul_index_down_eq:
  "i \<le> k \<Longrightarrow> ul_off i \<noteq> 0 \<Longrightarrow> ul_off i \<le> u \<Longrightarrow>
    \<forall>j. i < j \<longrightarrow> j \<le> k \<longrightarrow> u < ul_off j \<or> ul_off j = 0 \<Longrightarrow> ul_index_down k u = i"
proof (induction k)
  case (Suc k)
  then show ?case by (cases "i = Suc k") auto
qed simp

text \<open>Whether each of the first \<open>n\<close> uplink ranges ends before the later ones start.\<close>

fun ranges_apart :: "nat \<Rightarrow> nat list \<Rightarrow> nat list \<Rightarrow> bool" where
  "ranges_apart n (u # us) (d # d' # ds) =
    (n = 0 \<or> (u = 0 \<or> list_all (\<lambda>v. v = 0 \<or> u + (d' - d) \<le> v) us) \<and> ranges_apart (n - 1) us (d' # ds))"
| "ranges_apart n us ds = True"

lemma ranges_apartD:
  "ranges_apart n us ds \<Longrightarrow> length us = length ds \<Longrightarrow> i < n \<Longrightarrow> i < j \<Longrightarrow> j < length us \<Longrightarrow> us ! i \<noteq> 0 \<Longrightarrow>
    us ! j = 0 \<or> us ! i + (ds ! (i + 1) - ds ! i) \<le> us ! j"
proof (induction n us ds arbitrary: i j rule: ranges_apart.induct)
  case (1 n u us d d' ds)
  show ?case
  proof (cases i)
    case 0
    with 1 show ?thesis by (cases j) (auto simp: list_all_length)
  next
    case (Suc k)
    with 1 obtain l where "j = Suc l" by (cases j) auto
    with 1 Suc show ?thesis using "1.IH" [of k l] by auto
  qed
qed auto

lemma uplink_entries_apart:
  assumes "i < 31" "ul_off i \<noteq> 0" "i < j" "j < 59"
  shows "ul_off j = 0 \<or> ul_off i + (dl_off (i + 1) - dl_off i) \<le> ul_off j"
proof -
  have "ranges_apart 31 (map lb_ul_earfcn_offset lte_bands) (map lb_dl_earfcn_offset lte_bands)"
    unfolding map_dl_offsets map_ul_offsets by simp
  from ranges_apartD [OF this, of i j] assms show ?thesis by (simp add: length_lte_bands)
qed

text \<open>
  : For the bands below 33, a downlink channel and its uplink channel are the duplex distance of their
  band apart, in every band that has an uplink.
\<close>

theorem duplex_distance:
  assumes "e < 36000" "band = srsran_band_get_band e" "\<not> srsran_band_is_tdd band"
  shows "srsran_band_fu (srsran_band_ul_earfcn e) =
    srsran_band_fd e - lb_duplex_mhz (lte_bands ! band_index band)"
proof -
  define i where "i = band_entry e"
  have i: "i < 58" "dl_off i \<le> e" "e < dl_off (i + 1)" using band_entry [of e] assms unfolding i_def by auto
  have "dl_off 30 = 36000" and "ul_off 58 = 133472"
    using nth_map [of 30 lte_bands lb_dl_earfcn_offset] nth_map [of 58 lte_bands lb_ul_earfcn_offset]
    by (simp_all add: length_lte_bands map_dl_offsets map_ul_offsets)
  with assms i have small: "i < 30" using dl_off_mono_le [of 30 i] by force
  have idx: "band_index band = i"
    using assms i get_band_entry [of e] band_index_nth [of i] unfolding i_def by auto
  then have nz: "ul_off i \<noteq> 0"
    using assms i by (simp add: srsran_band_is_tdd_def Let_def SRSRAN_NOF_LTE_BANDS_def)
  define u where "u = ul_off i + (e - dl_off i)"
  have ul: "srsran_band_ul_earfcn e = u"
    using assms i(1) dl_off_last unfolding srsran_band_ul_earfcn_def Let_def SRSRAN_NOF_LTE_BANDS_def u_def i_def
    by (simp add: band_entry_def)
  have apart: "u < ul_off j \<or> ul_off j = 0" if "i < j" "j < 59" for j
    using uplink_entries_apart [of i j] small nz that i unfolding u_def by auto
  have down: "ul_index_down 57 u = i"
    using i nz apart by (intro ul_index_down_eq) (auto simp: u_def)
  have "\<not> ul_off 58 < u" using apart [of 58] i \<open>ul_off 58 = 133472\<close> by simp
  then have "srsran_band_fu u = get_fu (lte_bands ! i) u"
    by (simp add: srsran_band_fu_def Let_def SRSRAN_NOF_LTE_BANDS_def down)
  moreover have "srsran_band_fd e = get_fd (lte_bands ! i) e"
    using assms by (simp add: band_fd_entry i_def)
  moreover have "ul_off i \<le> u" "u - ul_off i = e - dl_off i" by (simp_all add: u_def)
  ultimately show ?thesis
    using i(2) unfolding ul idx by (simp add: get_fu_def get_fd_def)
qed

lemma duplex_distance_witness:
  "srsran_band_fu (srsran_band_ul_earfcn 3500) = srsran_band_fd 3500 - 45"
proof -
  have e: "map lb_dl_earfcn_offset lte_bands ! 7 = 3450" "map lb_dl_earfcn_offset lte_bands ! 8 = 3800"
    "map lb_band lte_bands ! 7 = 8" "map lb_ul_earfcn_offset lte_bands ! 7 = 21450"
    by (simp_all add: map_dl_offsets map_bands map_ul_offsets)
  have "map lb_duplex_mhz lte_bands ! 7 = 45" by (simp add: lte_bands_def lte_band_row_def)
  moreover have "band_entry 3500 = 7"
    using e by (auto intro!: band_entry_eq simp: length_lte_bands)
  then have b: "srsran_band_get_band 3500 = 8" using e by (simp add: get_band_entry length_lte_bands)
  moreover have "band_index 8 = 7" using band_index_nth [of 7] e by (simp add: length_lte_bands)
  ultimately show ?thesis
    using duplex_distance [of 3500 8] e
    by (simp add: srsran_band_is_tdd_def SRSRAN_NOF_LTE_BANDS_def length_lte_bands)
qed

lemma band_range_errors_witness:
  "map_option (map ch_id) (srsran_band_get_fd_band 8 3500 3455 3) = Some [3500, 3501, 3502]"
proof -
  have e: "map lb_dl_earfcn_offset lte_bands ! 7 = 3450" "map lb_dl_earfcn_offset lte_bands ! 8 = 3800"
    "map lb_band lte_bands ! 7 = 8"
    by (simp_all add: map_dl_offsets map_bands)
  have i: "band_entry 3500 = 7" "band_entry 3455 = 7"
    using e by (auto intro!: band_entry_eq simp: length_lte_bands)
  have b: "srsran_band_get_band 3500 = 8" "srsran_band_get_band 3455 = 8"
    using e i by (simp_all add: get_band_entry length_lte_bands)
  show ?thesis
    using band_range_errors [of 3455 3500 3 8] b by (simp add: upt_rec s32_of_def)
qed

end
