(* ===== verification/Lte_Scan_Properties.thy ===== *)
theory Lte_Scan_Properties
  imports Lte_Scan_Bands Lte_Bands_Proofs
begin

text \<open>
  The properties of the LTE cell scanner: what the scans of a band report whatever the radio does, that they
  keep the discipline of the radio, what they find on a steady radio, the table of operators, and two errors.
\<close>

section \<open>What is reported\<close>

definition channels_of :: "int \<Rightarrow> int \<Rightarrow> int \<Rightarrow> srsran_earfcn list" where
  "channels_of band s e =
    (case srsran_band_get_fd_band (u32_of band) s e LTE_SCAN_MAX_EARFCN of None \<Rightarrow> [] | Some chs \<Rightarrow> chs)"

definition reports :: "srsran_earfcn list \<Rightarrow> lte_scan \<Rightarrow> bool" where
  "reports chs st \<longleftrightarrow> (\<exists>hs. subseq hs chs \<and>
    list_all2 (reported (cfg_psr_threshold (scan_cfg st))) hs (scan_results st))"

definition scan_outcome ::
  "nat \<Rightarrow> srsran_earfcn list \<Rightarrow> (lte_scan \<times> int) option \<Rightarrow> bool" where
  "scan_outcome bound chs res \<longleftrightarrow> (\<exists>st n. res = Some (st, n) \<and>
    (n = -1 \<or> (n = int (nof_results st) \<and> nof_results st \<le> bound \<and> reports chs st)))"

lemma advanced_reports: "advanced chs st st' \<Longrightarrow> scan_results st = [] \<Longrightarrow> reports chs st'"
  unfolding advanced_def reports_def by auto

lemma scan_unfold:
  "lte_scan_fast env st band s e =
    (if \<not> rf_handle st \<or> channels_of band s e = [] then Some (st, -1)
     else let (st1, opened) = open_search env (channels_of band s e) (st\<lparr>nof_results := 0, stop := False\<rparr>)
       in if \<not> opened then Some (st1, -1)
       else map_option (\<lambda>st2. (close_search st2, int (nof_results st2))) (fast_loop env (channels_of band s e) 0 st1))"
  "lte_scan_balance env st band s e =
    (if \<not> rf_handle st \<or> channels_of band s e = [] then Some (st, -1)
     else let (st1, opened) = open_search env (channels_of band s e) (st\<lparr>nof_results := 0, stop := False\<rparr>)
       in if \<not> opened then Some (st1, -1)
       else map_option (\<lambda>st2. (close_search st2, int (nof_results st2))) (balance_loop env (channels_of band s e) 0 st1))"
  "lte_scan_coarse env st band s e =
    (if \<not> rf_handle st \<or> channels_of band s e = [] then (st, -1)
     else let (st1, opened) = open_search env (channels_of band s e) (st\<lparr>nof_coarse := 0, stop := False\<rparr>)
       in if \<not> opened then (st1, -1)
       else let st2 = close_search (coarse_loop env (channels_of band s e) st1) in (st2, int (nof_coarse st2)))"
  "lte_scan_band env st band s e =
    (if \<not> rf_handle st \<or> channels_of band s e = [] then Some (st, -1)
     else let (st1, opened) = open_search env (channels_of band s e) (st\<lparr>nof_results := 0, stop := False\<rparr>)
       in if \<not> opened then Some (st1, -1)
       else let (st2, candidates) = band_pass1 env (channels_of band s e) [] st1
       in map_option (\<lambda>st3. (st3, int (nof_results st3))) (band_pass2 env candidates (close_search st2)))"
  by (simp_all add: lte_scan_fast_def lte_scan_balance_def lte_scan_coarse_def lte_scan_band_def channels_of_def
      Let_def split: option.split prod.split)

abbreviation scan_started :: "srsran_earfcn list \<Rightarrow> lte_scan \<Rightarrow> bool \<Rightarrow> lte_scan" where
  "scan_started chs st ok \<equiv>
    emit (search_start chs (st\<lparr>nof_results := 0, stop := False\<rparr>) ok) (st\<lparr>nof_results := 0, stop := False\<rparr>)"

text \<open>
  The three outcomes of a scan of a band: there is nothing to scan, the search cannot be initialised, or the
  loop has run.
\<close>

lemma scan_start_cases:
  assumes "chs \<noteq> []"
  obtains (failed) "open_search env chs (st\<lparr>nof_results := 0, stop := False\<rparr>) = (scan_started chs st False, False)"
      "keeps_discipline st (scan_started chs st False)"
  | (started) "open_search env chs (st\<lparr>nof_results := 0, stop := False\<rparr>) = (scan_started chs st True, True)"
proof -
  obtain ok where ok: "open_search env chs (st\<lparr>nof_results := 0, stop := False\<rparr>) = (scan_started chs st ok, ok)"
    by (rule open_search_eq)
  have "keeps_discipline st (scan_started chs st False)"
    by (auto simp: keeps_discipline_def rf_run_search_start)
  with ok that show ?thesis by (cases ok) auto
qed

lemma keeps_discipline_started:
  "swept (scan_started chs st True) st2 \<Longrightarrow> keeps_discipline st (close_search st2)"
  using keeps_discipline_search [of chs _ "st\<lparr>nof_results := 0, stop := False\<rparr>" st2]
  by (auto simp: keeps_discipline_def)

definition scan_result_ok :: "nat \<Rightarrow> srsran_earfcn list \<Rightarrow> lte_scan \<Rightarrow> (lte_scan \<times> int) option \<Rightarrow> bool" where
  "scan_result_ok bound chs st res \<longleftrightarrow> (\<exists>st' n. res = Some (st', n) \<and> keeps_discipline st st' \<and>
    (n = -1 \<or> (n = int (nof_results st') \<and> nof_results st' \<le> bound \<and> reports chs st')))"

lemma fast_ok: "scan_result_ok 256 (every_nth 5 (channels_of band s e)) st (lte_scan_fast env st band s e)"
proof (cases "\<not> rf_handle st \<or> channels_of band s e = []")
  case True
  then show ?thesis by (auto simp: scan_unfold scan_result_ok_def keeps_discipline_refl)
next
  case False
  let ?chs = "channels_of band s e"
  from False have "?chs \<noteq> []" by simp
  then show ?thesis
  proof (cases rule: scan_start_cases [of _ env st])
    case failed
    with False show ?thesis by (simp add: scan_unfold scan_result_ok_def)
  next
    case started
    obtain st2 where st2: "fast_loop env ?chs 0 (scan_started ?chs st True) = Some st2"
      "advanced (every_nth 5 ?chs) (scan_started ?chs st True) st2" "swept (scan_started ?chs st True) st2"
      "nof_results st2 \<le> 256"
      using fast_loop_sound [of "scan_started ?chs st True" env ?chs 0] by auto
    with False started advanced_reports [OF st2(2)] keeps_discipline_started [OF st2(3)] show ?thesis
      by (auto simp: scan_unfold scan_result_ok_def reports_def)
  qed
qed

lemma balance_ok: "scan_result_ok 20 (channels_of band s e) st (lte_scan_balance env st band s e)"
proof (cases "\<not> rf_handle st \<or> channels_of band s e = []")
  case True
  then show ?thesis by (auto simp: scan_unfold scan_result_ok_def keeps_discipline_refl)
next
  case False
  let ?chs = "channels_of band s e"
  from False have "?chs \<noteq> []" by simp
  then show ?thesis
  proof (cases rule: scan_start_cases [of _ env st])
    case failed
    with False show ?thesis by (simp add: scan_unfold scan_result_ok_def)
  next
    case started
    obtain st2 where st2: "balance_loop env ?chs 0 (scan_started ?chs st True) = Some st2"
      "advanced ?chs (scan_started ?chs st True) st2" "swept (scan_started ?chs st True) st2"
      "nof_results st2 \<le> 20"
      using balance_loop_sound [of "scan_started ?chs st True" env ?chs 0] by auto
    with False started advanced_reports [OF st2(2)] keeps_discipline_started [OF st2(3)] show ?thesis
      by (auto simp: scan_unfold scan_result_ok_def reports_def)
  qed
qed

lemma reports_mono: "reports hs st \<Longrightarrow> subseq hs chs \<Longrightarrow> reports chs st"
  unfolding reports_def by (meson subseq_order.trans)

lemma advanced_mono: "advanced hs st st' \<Longrightarrow> subseq hs chs \<Longrightarrow> advanced chs st st'"
  unfolding advanced_def by (meson subseq_order.trans)

lemma band_ok: "scan_result_ok 256 (channels_of band s e) st (lte_scan_band env st band s e)"
proof (cases "\<not> rf_handle st \<or> channels_of band s e = []")
  case True
  then show ?thesis by (auto simp: scan_unfold scan_result_ok_def keeps_discipline_refl)
next
  case False
  let ?chs = "channels_of band s e"
  from False have "?chs \<noteq> []" by simp
  then show ?thesis
  proof (cases rule: scan_start_cases [of _ env st])
    case failed
    with False show ?thesis by (simp add: scan_unfold scan_result_ok_def)
  next
    case started
    obtain st1 cs where p1: "band_pass1 env ?chs [] (scan_started ?chs st True) = (st1, cs)" by fastforce
    from band_pass1_sound [OF p1] have st1: "swept (scan_started ?chs st True) st1" "scan_results st1 = []"
      "scan_cfg st1 = scan_cfg st" "subseq cs ?chs"
      by auto
    have "nof_results st1 = 0" using arg_cong [OF st1(2), of length] by simp
    then have "nof_results (close_search st1) \<le> 256" by simp
    from band_pass2_sound [OF this, of env cs] obtain st2 where
      st2: "band_pass2 env cs (close_search st1) = Some st2" "advanced cs (close_search st1) st2"
        "nof_results st2 \<le> 256" "keeps_discipline (close_search st1) st2"
      by blast
    have "keeps_discipline st st2"
      using keeps_discipline_trans [OF keeps_discipline_started [OF st1(1)] st2(4)] st1(3) by simp
    moreover have "reports ?chs st2"
      using advanced_reports [OF advanced_mono [OF st2(2) st1(4)]] st1(2) by simp
    ultimately show ?thesis using False started p1 st2(1,3) by (simp add: scan_unfold scan_result_ok_def)
  qed
qed

text \<open>
  C12: Whatever the radio answers and whenever a stop is requested, the scans of a band return and never write
  behind the array of results; the number that they return is the number of results, bounded by 256 (20 for the
  balance scan); and the results are, in the order of the channels and at most one each, reports of channels that
  the mode visits (every fifth in the fast scan), with a peak above the threshold and with the operator of the
  table unless SIB1 named it.
\<close>

theorem band_scans_sound:
  "scan_outcome 256 (every_nth 5 (channels_of band s e)) (lte_scan_fast env st band s e) \<and>
   scan_outcome 20 (channels_of band s e) (lte_scan_balance env st band s e) \<and>
   scan_outcome 256 (channels_of band s e) (lte_scan_band env st band s e)"
proof -
  have "scan_outcome bound chs res" if "scan_result_ok bound chs st res" for bound chs res
    using that unfolding scan_result_ok_def scan_outcome_def by blast
  then show ?thesis using fast_ok balance_ok band_ok by blast
qed

section \<open>The discipline of the radio\<close>

lemma coarse_loop_swept: "swept st (coarse_loop env chs st)"
proof (induction chs arbitrary: st)
  case (Cons ch chs)
  show ?case
  proof (cases "stop (poll_stop env st)")
    case False
    let ?st2 = "coarse_visit env ch (poll_stop env st)"
    have "rf_log ?st2 = rf_log st @ [Set_Freq (ch_fd ch * MHZ), Cs_Scan]"
      by (auto simp: coarse_visit_def search_channel_eq Let_def split: option.split)
    then have "swept st ?st2" by (simp add: swept_def sweep_event_def)
    with False Cons.IH [of ?st2] swept_trans show ?thesis by (auto simp: Let_def)
  qed (simp add: Let_def swept_refl)
qed (simp add: swept_refl)

lemma coarse_keeps_discipline: "keeps_discipline st (fst (lte_scan_coarse env st band s e))"
proof (cases "\<not> rf_handle st \<or> channels_of band s e = []")
  case True
  then show ?thesis by (auto simp: scan_unfold keeps_discipline_refl)
next
  case False
  let ?chs = "channels_of band s e" and ?st = "st\<lparr>nof_coarse := 0, stop := False\<rparr>"
  obtain ok where ok: "open_search env ?chs ?st = (emit (search_start ?chs ?st ok) ?st, ok)"
    by (rule open_search_eq)
  show ?thesis
  proof (cases ok)
    case True
    have "keeps_discipline ?st (close_search (coarse_loop env ?chs (emit (search_start ?chs ?st True) ?st)))"
      by (rule keeps_discipline_search [OF coarse_loop_swept refl])
    with False True ok show ?thesis by (simp add: scan_unfold Let_def keeps_discipline_def)
  next
    case not_ok: False
    have "keeps_discipline ?st (emit (search_start ?chs ?st False) ?st)" by (rule keeps_discipline_failed)
    with False not_ok ok show ?thesis by (simp add: scan_unfold Let_def keeps_discipline_def)
  qed
qed

lemma one_channel_discipline:
  assumes "nof_results st < 256"
  shows "\<exists>st' n. map_option count_result (scan_into_slot env st e f) = Some (st', n) \<and>
    keeps_discipline st st' \<and> n \<in> {-1, 0, 1}"
proof -
  obtain st' ret where slot: "scan_into_slot env st (ch_id \<lparr>ch_id = e, ch_fd = f\<rparr>) (ch_fd \<lparr>ch_id = e, ch_fd = f\<rparr>) =
      Some (st', ret)" "ret \<in> {-1, 0, 1}"
    "rf_log (fst (count_result (st', ret))) = fst (scan_earfcn env (detect_config st) (scan_cfg st) (rf_log st)
      (ch_id \<lparr>ch_id = e, ch_fd = f\<rparr>) (ch_fd \<lparr>ch_id = e, ch_fd = f\<rparr>))"
    using scan_into_slot [OF assms, of env "\<lparr>ch_id = e, ch_fd = f\<rparr>"] by metis
  then have "keeps_discipline st (fst (count_result (st', ret)))"
    by (auto intro: keeps_discipline_scan_earfcn)
  moreover have "snd (count_result (st', ret)) = ret" by (simp add: count_result_def)
  ultimately show ?thesis using slot(1,2) by (cases "count_result (st', ret)") auto
qed

text \<open>
  C22: From an idle radio every scan leads back to an idle radio, on every path and whatever the radio answers: no
  stream is started while one runs or stopped while none runs, samples are only received from a running stream,
  and every object is freed once. The sample buffers are those that were allocated before, unless SIB1 is to be
  decoded. (\<open>keeps_discipline st st'\<close> says this of the calls between two states.)
\<close>

theorem scans_keep_radio_discipline:
  assumes "nof_results st < LTE_SCAN_MAX_RESULTS"
  shows "(\<exists>st' n. lte_scan_fast env st band s e = Some (st', n) \<and> keeps_discipline st st') \<and>
    (\<exists>st' n. lte_scan_balance env st band s e = Some (st', n) \<and> keeps_discipline st st') \<and>
    (\<exists>st' n. lte_scan_band env st band s e = Some (st', n) \<and> keeps_discipline st st') \<and>
    keeps_discipline st (fst (lte_scan_coarse env st band s e)) \<and>
    (\<exists>st' n. lte_scan_fine env st earfcn cfo = Some (st', n) \<and> keeps_discipline st st' \<and> n \<in> {-1, 0, 1}) \<and>
    (\<exists>st' n. lte_scan_earfcn env st earfcn = Some (st', n) \<and> keeps_discipline st st' \<and> n \<in> {-1, 0, 1})"
proof -
  have bands: "\<exists>st' n. res = Some (st', n) \<and> keeps_discipline st st'" if "scan_result_ok bound chs st res" for bound chs res
    using that unfolding scan_result_ok_def by blast
  have small: "nof_results st < 256" using assms by (simp add: LTE_SCAN_MAX_RESULTS_def)
  have fine: "\<exists>st' n. lte_scan_fine env st earfcn cfo = Some (st', n) \<and> keeps_discipline st st' \<and> n \<in> {-1, 0, 1}"
  proof (cases "earfcn_to_freq earfcn")
    case (Some f)
    with small one_channel_discipline [OF small, of env earfcn f] show ?thesis
      by (auto simp: lte_scan_fine_def LTE_SCAN_MAX_RESULTS_def keeps_discipline_refl)
  qed (auto simp: lte_scan_fine_def keeps_discipline_refl)
  have one: "\<exists>st' n. lte_scan_earfcn env st earfcn = Some (st', n) \<and> keeps_discipline st st' \<and> n \<in> {-1, 0, 1}"
  proof (cases "earfcn_to_freq earfcn")
    case (Some f)
    have "keeps_discipline (st\<lparr>stop := False\<rparr>) st' \<longleftrightarrow> keeps_discipline st st'" for st'
      by (simp add: keeps_discipline_def)
    with Some small one_channel_discipline [of "st\<lparr>stop := False\<rparr>" env earfcn f] show ?thesis
      by (auto simp: lte_scan_earfcn_def keeps_discipline_refl)
  qed (auto simp: lte_scan_earfcn_def keeps_discipline_refl)
  show ?thesis
    using bands [OF fast_ok] bands [OF balance_ok] bands [OF band_ok] coarse_keeps_discipline fine one by blast
qed

section \<open>A steady radio\<close>

definition coarse_list :: "lte_scan \<Rightarrow> int list" where
  "coarse_list st = map (coarse_earfcns st) [0..<nof_coarse st]"

definition occupied :: "rat \<Rightarrow> (rat \<Rightarrow> int \<times> (nat \<Rightarrow> found_cell)) \<Rightarrow> srsran_earfcn list \<Rightarrow> srsran_earfcn list" where
  "occupied t air chs = filter (\<lambda>ch. channel_hit t air ch \<noteq> None) chs"

lemma occupied_simps [simp]:
  "occupied t air [] = []"
  "occupied t air (ch # chs) = (if channel_hit t air ch \<noteq> None then [ch] else []) @ occupied t air chs"
  by (simp_all add: occupied_def)

lemma search_channel_steady:
  "steady env air \<Longrightarrow> search_channel env ch st =
    (emit [Set_Freq (ch_fd ch * MHZ), Cs_Scan] st, channel_hit (cfg_psr_threshold (scan_cfg st)) air ch)"
  by (simp add: search_channel_eq channel_hit_def)

lemma length_channels_of: "length (channels_of band s e) \<le> 2000"
  by (auto simp: channels_of_def srsran_band_get_fd_band_def LTE_SCAN_MAX_EARFCN_def Let_def split: option.split)

lemma coarse_loop_steady:
  "steady env air \<Longrightarrow> \<not> stop st \<Longrightarrow> nof_coarse st + length chs \<le> 2000 \<Longrightarrow>
    coarse_list (coarse_loop env chs st) =
      coarse_list st @ map ch_id (occupied (cfg_psr_threshold (scan_cfg st)) air chs)"
proof (induction chs arbitrary: st)
  case (Cons ch chs)
  let ?h = "channel_hit (cfg_psr_threshold (scan_cfg st)) air ch"
  let ?st2 = "coarse_visit env ch st"
  have st2: "coarse_list ?st2 = coarse_list st @ (if ?h \<noteq> None then [ch_id ch] else [])" "\<not> stop ?st2"
    "scan_cfg ?st2 = scan_cfg st" "nof_coarse ?st2 + length chs \<le> 2000"
    using Cons.prems
    by (auto simp: coarse_visit_def search_channel_steady coarse_list_def LTE_SCAN_MAX_EARFCN_def emit_def Let_def
        split: option.split)
  from Cons.IH [of ?st2] Cons.prems st2 show ?case by (simp add: Let_def poll_steady)
qed simp

lemma band_pass1_steady:
  "steady env air \<Longrightarrow> \<not> stop st \<Longrightarrow> length cs + length chs \<le> 2000 \<Longrightarrow>
    snd (band_pass1 env chs cs st) = cs @ occupied (cfg_psr_threshold (scan_cfg st)) air chs \<and>
    \<not> stop (fst (band_pass1 env chs cs st))"
proof (induction chs arbitrary: st cs)
  case (Cons ch chs)
  let ?h = "channel_hit (cfg_psr_threshold (scan_cfg st)) air ch"
  let ?st2 = "emit [Set_Freq (ch_fd ch * MHZ), Cs_Scan] st"
  let ?cs = "if ?h \<noteq> None then cs @ [ch] else cs"
  have "band_visit env ch cs st = (?st2, ?cs)"
    using Cons.prems by (simp add: band_visit_eq search_channel_steady)
  with Cons.IH [of ?st2 ?cs] Cons.prems show ?case by (auto simp: Let_def poll_steady)
qed simp

lemma scan_earfcn_steady:
  assumes "steady env air" "0 \<le> cfg_psr_threshold cfg" "channel_hit (cfg_psr_threshold cfg) air ch \<noteq> None"
  shows "\<exists>tr' r. scan_earfcn env det cfg tr (ch_id ch) (ch_fd ch) = (tr', 1, Some r) \<and> res_earfcn r = ch_id ch"
proof -
  obtain k found where air: "air (ch_fd ch * MHZ) = (k, found)" by fastforce
  from assms(3) have k: "0 < k" and "\<exists>j < 3. cfg_psr_threshold cfg < fc_psr (found j)"
    by (auto simp: channel_hit_def hit_None air not_less)
  with assms(2) obtain i where i: "best_cell (cfg_psr_threshold cfg) found = Some i"
    using best_cell_None [of "cfg_psr_threshold cfg" found] by (force simp: not_less)
  obtain tr' ret out where eq: "scan_earfcn env det cfg tr (ch_id ch) (ch_fd ch) = (tr', ret, out)"
    by (metis prod_cases3)
  have "out \<noteq> None"
    using eq assms(1) k i air by (auto simp: scan_earfcn_def Let_def tuned_def split: prod.splits)
  with scan_earfcn_reported [OF eq] eq show ?thesis by (auto simp: reported_def split: option.splits)
qed

lemma band_pass2_steady:
  "steady env air \<Longrightarrow> \<not> stop st \<Longrightarrow> nof_results st \<le> 256 \<Longrightarrow> 0 \<le> cfg_psr_threshold (scan_cfg st) \<Longrightarrow>
    \<forall>ch \<in> set chs. channel_hit (cfg_psr_threshold (scan_cfg st)) air ch \<noteq> None \<Longrightarrow>
    map_option (map res_earfcn \<circ> scan_results) (band_pass2 env chs st) =
      Some (take 256 (map res_earfcn (scan_results st) @ map ch_id chs))"
proof (induction chs arbitrary: st)
  case (Cons ch chs)
  show ?case
  proof (cases "256 \<le> nof_results st")
    case True
    with Cons.prems show ?thesis by (simp add: poll_steady LTE_SCAN_MAX_RESULTS_def)
  next
    case False
    from Cons.prems(5) have "channel_hit (cfg_psr_threshold (scan_cfg st)) air ch \<noteq> None" by simp
    from scan_earfcn_steady [OF Cons.prems(1,4) this] obtain tr r where
      scan: "scan_earfcn env (detect_config st) (scan_cfg st) (rf_log st) (ch_id ch) (ch_fd ch) = (tr, 1, Some r)"
      and r: "res_earfcn r = ch_id ch"
      by blast
    let ?st2 = "st\<lparr>rf_log := tr, results := (results st)(nof_results st := r), nof_results := nof_results st + 1\<rparr>"
    have slot: "map_option (fst \<circ> count_result) (scan_into_slot env st (ch_id ch) (ch_fd ch)) = Some ?st2"
      using scan False by (simp add: scan_into_slot_def count_result_def LTE_SCAN_MAX_RESULTS_def)
    have res: "scan_results ?st2 = scan_results st @ [r]" by (auto simp: scan_results_def)
    have "band_pass2 env (ch # chs) st = band_pass2 env chs ?st2"
      using slot False Cons.prems by (auto simp: poll_steady Let_def LTE_SCAN_MAX_RESULTS_def)
    with Cons.IH [of ?st2] Cons.prems False res r show ?thesis by (simp del: take_append)
  qed
qed simp


lemma map_filter_earfcns:
  "map res_earfcn (List.map_filter (pss_report env t air) chs) = map ch_id (occupied t air chs)"
proof (induction chs)
  case (Cons ch chs)
  show ?case
  proof (cases "channel_hit t air ch")
    case None
    with Cons show ?thesis by (simp add: List.map_filter_simps pss_report_def)
  next
    case (Some c)
    with Cons show ?thesis by (simp add: List.map_filter_simps pss_report_def pss_result_def)
  qed
qed (simp add: List.map_filter_simps)


section \<open>Operators and channels\<close>

lemma map_op_ranges:
  "map (\<lambda>x. (op_earfcn_min x, op_earfcn_max x)) lte_operator_table_id =
    [(1200, 1399), (1400, 1599), (1600, 1949), (2400, 2649), (3450, 3549), (3550, 3649), (3650, 3799),
     (9210, 9359), (9360, 9509), (9510, 9649), (38650, 39049), (39050, 39649), (39050, 39649)]"
  by (simp add: lte_operator_table_id_def operator_row_def)

text \<open>The index and the entry of the band table for the five bands that the scanner knows.\<close>

lemma band_entry_values:
  assumes "i < 59"
  shows "dl_off i = map lb_dl_earfcn_offset lte_bands ! i"
    "lb_band (lte_bands ! i) = map lb_band lte_bands ! i"
    "lb_fd_low_mhz (lte_bands ! i) = map lb_fd_low_mhz lte_bands ! i"
  using assms by (simp_all add: length_lte_bands)

lemma supported_band:
  assumes "i < 58" "map lb_dl_earfcn_offset lte_bands ! i = lo" "e < map lb_dl_earfcn_offset lte_bands ! (i + 1)"
    "lo \<le> e" "map lb_fd_low_mhz lte_bands ! i = f" "map lb_band lte_bands ! i = b"
    "map lb_dl_earfcn_offset lte_bands ! (i + 1) \<le> 68936"
  shows "srsran_band_fd e = f + 1 / 10 * of_nat (e - lo) \<and> srsran_band_get_band e = b"
proof -
  have "band_entry e = i" using assms by (intro band_entry_eq) (simp_all add: band_entry_values)
  moreover have "e < 68936" using assms by simp
  ultimately show ?thesis
    using assms(1-4) by (simp add: band_fd_entry get_band_entry get_fd_def band_entry_values assms(5,6))
qed

lemma supported_bands:
  "1200 \<le> e \<Longrightarrow> e \<le> 1949 \<Longrightarrow> srsran_band_fd e = 1805 + 1 / 10 * of_nat (e - 1200) \<and> srsran_band_get_band e = 3"
  "2400 \<le> e \<Longrightarrow> e \<le> 2649 \<Longrightarrow> srsran_band_fd e = 869 + 1 / 10 * of_nat (e - 2400) \<and> srsran_band_get_band e = 5"
  "3450 \<le> e \<Longrightarrow> e \<le> 3799 \<Longrightarrow> srsran_band_fd e = 925 + 1 / 10 * of_nat (e - 3450) \<and> srsran_band_get_band e = 8"
  "9210 \<le> e \<Longrightarrow> e \<le> 9659 \<Longrightarrow> srsran_band_fd e = 758 + 1 / 10 * of_nat (e - 9210) \<and> srsran_band_get_band e = 28"
  "38650 \<le> e \<Longrightarrow> e \<le> 39649 \<Longrightarrow>
    srsran_band_fd e = 2300 + 1 / 10 * of_nat (e - 38650) \<and> srsran_band_get_band e = 40"
proof -
  note table = map_dl_offsets map_bands lte_bands_def lte_band_row_def
  show "1200 \<le> e \<Longrightarrow> e \<le> 1949 \<Longrightarrow> srsran_band_fd e = 1805 + 1 / 10 * of_nat (e - 1200) \<and> srsran_band_get_band e = 3"
    by (rule supported_band [of 2]) (simp_all add: table)
  show "2400 \<le> e \<Longrightarrow> e \<le> 2649 \<Longrightarrow> srsran_band_fd e = 869 + 1 / 10 * of_nat (e - 2400) \<and> srsran_band_get_band e = 5"
    by (rule supported_band [of 4]) (simp_all add: table)
  show "3450 \<le> e \<Longrightarrow> e \<le> 3799 \<Longrightarrow> srsran_band_fd e = 925 + 1 / 10 * of_nat (e - 3450) \<and> srsran_band_get_band e = 8"
    by (rule supported_band [of 7]) (simp_all add: table)
  show "9210 \<le> e \<Longrightarrow> e \<le> 9659 \<Longrightarrow> srsran_band_fd e = 758 + 1 / 10 * of_nat (e - 9210) \<and> srsran_band_get_band e = 28"
    by (rule supported_band [of 25]) (simp_all add: table)
  show "38650 \<le> e \<Longrightarrow> e \<le> 39649 \<Longrightarrow>
      srsran_band_fd e = 2300 + 1 / 10 * of_nat (e - 38650) \<and> srsran_band_get_band e = 40"
    by (rule supported_band [of 37]) (simp_all add: table)
qed

definition band_label :: "nat \<Rightarrow> string" where
  "band_label b = (if b = 3 then ''Band 3'' else if b = 5 then ''Band 5'' else if b = 8 then ''Band 8''
    else if b = 28 then ''Band 28'' else ''Band 40'')"

lemma earfcn_to_freq_cases:
  obtains (none) "earfcn_to_freq e = None"
    "\<not> (1200 \<le> e \<and> e \<le> 1949 \<or> 2400 \<le> e \<and> e \<le> 2649 \<or> 3450 \<le> e \<and> e \<le> 3799 \<or> 9210 \<le> e \<and> e \<le> 9659 \<or>
      38650 \<le> e \<and> e \<le> 39649)"
  | (band) n lo hi b where "e = int n" "lo \<le> n" "n \<le> hi"
      "(lo, hi, b) \<in> {(1200, 1949, 3), (2400, 2649, 5), (3450, 3799, 8), (9210, 9659, 28), (38650, 39649, 40)}"
      "earfcn_to_freq e = Some (srsran_band_fd n)" "srsran_band_get_band n = b"
proof (cases "0 \<le> e")
  case True
  then obtain n where n: "e = int n" by (metis nonneg_int_cases)
  consider "1200 \<le> n \<and> n \<le> 1949" | "2400 \<le> n \<and> n \<le> 2649" | "3450 \<le> n \<and> n \<le> 3799"
    | "9210 \<le> n \<and> n \<le> 9659" | "38650 \<le> n \<and> n \<le> 39649"
    | "\<not> (1200 \<le> n \<and> n \<le> 1949 \<or> 2400 \<le> n \<and> n \<le> 2649 \<or> 3450 \<le> n \<and> n \<le> 3799 \<or> 9210 \<le> n \<and> n \<le> 9659 \<or>
        38650 \<le> n \<and> n \<le> 39649)"
    by blast
  then show ?thesis
  proof cases
    case 1
    then show ?thesis using supported_bands(1) [of n] n
      by (intro that(2) [of n 1200 1949 3]) (simp_all add: earfcn_to_freq_def of_nat_diff)
  next
    case 2
    then show ?thesis using supported_bands(2) [of n] n
      by (intro that(2) [of n 2400 2649 5]) (simp_all add: earfcn_to_freq_def of_nat_diff)
  next
    case 3
    then show ?thesis using supported_bands(3) [of n] n
      by (intro that(2) [of n 3450 3799 8]) (simp_all add: earfcn_to_freq_def of_nat_diff)
  next
    case 4
    then show ?thesis using supported_bands(4) [of n] n
      by (intro that(2) [of n 9210 9659 28]) (simp_all add: earfcn_to_freq_def of_nat_diff)
  next
    case 5
    then show ?thesis using supported_bands(5) [of n] n
      by (intro that(2) [of n 38650 39649 40]) (simp_all add: earfcn_to_freq_def of_nat_diff)
  next
    case 6
    with n show ?thesis by (intro that(1)) (auto simp: earfcn_to_freq_def)
  qed
qed (auto simp: earfcn_to_freq_def intro!: that(1))

definition names_band :: "nat \<Rightarrow> nat \<Rightarrow> bool" where
  "names_band b n \<longleftrightarrow> (case lte_scan_lookup_operator (int n) of None \<Rightarrow> 9650 \<le> n \<and> n \<le> 9659
    | Some oper \<Rightarrow> \<not> (9650 \<le> n \<and> n \<le> 9659) \<and> op_band_name oper = band_label b \<and> op_mcc oper = 510 \<and>
        set (map op_operator_name (filter (\<lambda>x. int (op_earfcn_min x) \<le> int n \<and> int n \<le> int (op_earfcn_max x))
          lte_operator_table_id)) = {op_operator_name oper})"

lemmas operator_table =
  names_band_def lte_scan_lookup_operator_def lte_operator_table_id_def operator_row_def band_label_def

lemma operator_of_supported:
  "1200 \<le> n \<Longrightarrow> n \<le> 1949 \<Longrightarrow> names_band 3 n"
  "2400 \<le> n \<Longrightarrow> n \<le> 2649 \<Longrightarrow> names_band 5 n"
  "3450 \<le> n \<Longrightarrow> n \<le> 3799 \<Longrightarrow> names_band 8 n"
  "9210 \<le> n \<Longrightarrow> n \<le> 9659 \<Longrightarrow> names_band 28 n"
  "38650 \<le> n \<Longrightarrow> n \<le> 39649 \<Longrightarrow> names_band 40 n"
proof -
  show "names_band 3 n" if n: "1200 \<le> n" "n \<le> 1949"
  proof -
    consider "1200 \<le> n" "n \<le> 1399" | "1400 \<le> n" "n \<le> 1599" | "1600 \<le> n" "n \<le> 1949"
      using n by linarith
    then show ?thesis by cases (simp_all add: operator_table)
  qed
  show "names_band 5 n" if n: "2400 \<le> n" "n \<le> 2649"
  proof -
    consider "2400 \<le> n" "n \<le> 2649"
      using n by linarith
    then show ?thesis by cases (simp_all add: operator_table)
  qed
  show "names_band 8 n" if n: "3450 \<le> n" "n \<le> 3799"
  proof -
    consider "3450 \<le> n" "n \<le> 3549" | "3550 \<le> n" "n \<le> 3649" | "3650 \<le> n" "n \<le> 3799"
      using n by linarith
    then show ?thesis by cases (simp_all add: operator_table)
  qed
  show "names_band 28 n" if n: "9210 \<le> n" "n \<le> 9659"
  proof -
    consider "9210 \<le> n" "n \<le> 9359" | "9360 \<le> n" "n \<le> 9509" | "9510 \<le> n" "n \<le> 9649" | "9650 \<le> n" "n \<le> 9659"
      using n by linarith
    then show ?thesis by cases (simp_all add: operator_table)
  qed
  show "names_band 40 n" if n: "38650 \<le> n" "n \<le> 39649"
  proof -
    consider "38650 \<le> n" "n \<le> 39049" | "39050 \<le> n" "n \<le> 39649"
      using n by linarith
    then show ?thesis by cases (simp_all add: operator_table)
  qed
qed

text \<open>
  C31: For every number, the conversion to a frequency agrees with the band table; the table of operators knows
  exactly the convertible channels except 9650 to 9659; and what it finds names the band of the band table, the
  country code of Indonesia, and the one operator whose blocks contain the channel.
\<close>

theorem operator_table_consistent:
  "(lte_scan_lookup_operator e \<noteq> None) = (earfcn_to_freq e \<noteq> None \<and> \<not> (9650 \<le> e \<and> e \<le> 9659)) \<and>
   (case earfcn_to_freq e of None \<Rightarrow> True | Some f \<Rightarrow> f = srsran_band_fd (nat e)) \<and>
   (case lte_scan_lookup_operator e of
      None \<Rightarrow> True
    | Some oper \<Rightarrow> op_band_name oper = band_label (srsran_band_get_band (nat e)) \<and> op_mcc oper = 510 \<and>
        set (map op_operator_name (filter (\<lambda>x. int (op_earfcn_min x) \<le> e \<and> e \<le> int (op_earfcn_max x))
          lte_operator_table_id)) = {op_operator_name oper})"
proof (cases rule: earfcn_to_freq_cases [of e])
  case none
  from none(2) consider "e < 1200" | "1949 < e" "e < 2400" | "2649 < e" "e < 3450" | "3799 < e" "e < 9210"
    | "9659 < e" "e < 38650" | "39649 < e"
    by linarith
  then have "lte_scan_lookup_operator e = None"
    by cases (simp_all add: lte_scan_lookup_operator_def lte_operator_table_id_def operator_row_def)
  with none show ?thesis by simp
next
  case (band n lo hi b)
  have "names_band b n"
    using band(2-4) operator_of_supported [of n] by auto
  with band(1,5,6) show ?thesis
    by (cases "lte_scan_lookup_operator (int n)") (simp_all add: names_band_def)
qed

section \<open>Errors\<close>

text \<open>
  C37: \<open>lte_scan_earfcn\<close> does not look at the number of results. When the array is full and there is a cell on the
  channel, it writes behind the array (no result), where \<open>lte_scan_fine\<close> returns an error.
\<close>

theorem scan_earfcn_overflows:
  assumes "rf_handle st" "nof_results st = LTE_SCAN_MAX_RESULTS" "earfcn_to_freq e = Some f"
    and "steady env air" "0 \<le> cfg_psr_threshold (scan_cfg st)"
    and "channel_hit (cfg_psr_threshold (scan_cfg st)) air \<lparr>ch_id = e, ch_fd = f\<rparr> \<noteq> None"
  shows "lte_scan_earfcn env st e = None \<and> lte_scan_fine env st e cfo = Some (st, -1)"
proof -
  from scan_earfcn_steady [OF assms(4,5,6), of "detect_config st" "rf_log st"] obtain tr r where
    "scan_earfcn env (detect_config st) (scan_cfg st) (rf_log st) e f = (tr, 1, Some r)"
    by auto
  with assms(1-3) show ?thesis
    by (simp add: lte_scan_earfcn_def lte_scan_fine_def scan_into_slot_def LTE_SCAN_MAX_RESULTS_def)
qed

text \<open>
  C39: Whenever the receiver of SIB1 could be opened, decoded or not, the four sample buffers that were
  allocated for it are not freed; and a result that SIB1 named has no operator name.
\<close>

theorem sib1_leaks_buffers:
  assumes "rf_run tr s0 = Some (idle n)"
    and "alloc_buffers env SRSRAN_MAX_PORTS 0 (tr @ [Set_Srate (of_int rate)]) = (tr2, m, True)"
    and "sib1_open env prb (cell\<lparr>cell_nof_prb := prb\<rparr>) cfo tr2 = Inr tr3"
    and "prb = min max_prb (cell_nof_prb cell)" "rate = srsran_sampling_freq_hz (env_standard_rates env) prb"
    and "0 < rate" "\<bar>env_set_srate env tr - of_int rate\<bar> \<le> 1000"
    and "res_operator_name out = []"
  shows "rf_run (fst (try_sib1 env tr cell cfo max_prb out)) s0 = Some (idle (n + 4)) \<and>
    res_operator_name (snd (snd (try_sib1 env tr cell cfo max_prb out))) = []"
proof -
  have prb: "(if max_prb < cell_nof_prb cell then max_prb else cell_nof_prb cell) = prb"
    using assms(4) by simp
  have eq: "try_sib1 env tr cell cfo max_prb out = sib1_receive env tr3 out"
    using assms(2,3,6,7) unfolding try_sib1_def Let_def prb assms(5) [symmetric] by simp
  have run1: "rf_run (tr @ [Set_Srate (of_int rate)]) s0 = Some (idle (n + 0))"
    using assms(1) by (simp add: rf_simps)
  have "m = 4" and run2: "rf_run tr2 s0 = Some (idle (n + m))"
    using alloc_buffers_run [OF run1 assms(2)] by (simp_all add: SRSRAN_MAX_PORTS_def)
  with sib1_open_run [OF run2, of env prb "cell\<lparr>cell_nof_prb := prb\<rparr>" cfo] assms(3)
  have "rf_run tr3 s0 = Some (receiving (n + 4))" by simp
  from sib1_receive_run [OF this, of env out] eq
  have "rf_run (fst (try_sib1 env tr cell cfo max_prb out)) s0 = Some (idle (n + 4))" by simp
  moreover have "res_operator_name (snd (snd (try_sib1 env tr cell cfo max_prb out))) = []"
    using try_sib1_out [of env tr cell cfo max_prb out] assms(8)
    by (cases "try_sib1 env tr cell cfo max_prb out") auto
  ultimately show ?thesis by simp
qed

text \<open>
  : The three modes configure the search in the same way.
\<close>

theorem search_modes_equal:
  "set_cell_search_mode mode c = set_cell_search_mode 0 c \<and>
   set_cell_search_mode mode cell_detect_config = cell_detect_config"
  by (auto simp: set_cell_search_mode_def cell_detect_config_def cell_detect_config_balance_def)

section \<open>A concrete radio\<close>

text \<open>A radio with one strong cell at 925.2 MHz and otherwise noise, on which every call succeeds.\<close>

definition noise :: found_cell where
  "noise = \<lparr>fc_cell_id = 0, fc_cp = 0, fc_frame_type = 0, fc_peak = 0, fc_psr = 0, fc_cfo = 0\<rparr>"

definition example_air :: "rat \<Rightarrow> int \<times> (nat \<Rightarrow> found_cell)" where
  "example_air f = (1, \<lambda>j. if f = 925200000 \<and> j = 1 then noise\<lparr>fc_cell_id := 77, fc_psr := 3\<rparr> else noise)"

definition example_env :: scan_env where
  "example_env = \<lparr>env_open = (\<lambda>_. False), env_cs_init = (\<lambda>_. False), env_cs_scan = (\<lambda>tr. example_air (tuned tr)),
    env_mib_init = (\<lambda>_. False), env_mib_set_cell = (\<lambda>_. False), env_mib_decode = (\<lambda>_. (1, 6, 1)),
    env_cfo = (\<lambda>_. 0), env_set_srate = (\<lambda>_. 1920000), env_malloc_fails = (\<lambda>_. False), env_sync_init = (\<lambda>_. False),
    env_sync_set_cell = (\<lambda>_. False), env_dl_init = (\<lambda>_. False), env_dl_set_cell = (\<lambda>_. False),
    env_softbuf_init = (\<lambda>_. False), env_sync_get = (\<lambda>_. (1, 5, 0)), env_sib1 = (\<lambda>_. None), env_stop = (\<lambda>_. False),
    env_power_to_dB = (\<lambda>x. x), env_standard_rates = False\<rparr>"

definition example_scan :: lte_scan where
  "example_scan = \<lparr>rf_handle = True, results = (\<lambda>_. zero_result), nof_results = 0, coarse_earfcns = (\<lambda>_. 0),
    coarse_freqs = (\<lambda>_. 0), coarse_power = (\<lambda>_. 0), coarse_cfo = (\<lambda>_. 0), nof_coarse = 0,
    scan_cfg = default_config [] [], stop = False, g_stop_scan = True, detect_config = cell_detect_config, rf_log = []\<rparr>"

lemma example_steady: "steady example_env example_air"
  by (simp add: steady_def example_env_def)

lemma example_channels:
  "channels_of 8 3450 3453 = [\<lparr>ch_id = 3450, ch_fd = 925\<rparr>, \<lparr>ch_id = 3451, ch_fd = 9251 / 10\<rparr>,
    \<lparr>ch_id = 3452, ch_fd = 9252 / 10\<rparr>]"
proof -
  have "srsran_band_get_band 3450 = 8" "srsran_band_get_band 3453 = 8"
    using supported_bands(3) [of 3450] supported_bands(3) [of 3453] by simp_all
  then have "srsran_band_get_fd_band 8 3450 3453 2000 = Some (map (\<lambda>j. \<lparr>ch_id = int (3450 + j),
      ch_fd = srsran_band_fd (3450 + j)\<rparr>) [0..<min 2000 (3453 - 3450)])"
    using channels_between [of 3450 3453 8 2000] by simp
  then show ?thesis
    using supported_bands(3) [of 3450] supported_bands(3) [of 3451] supported_bands(3) [of 3452]
    by (simp add: channels_of_def u32_of_def LTE_SCAN_MAX_EARFCN_def upt_rec)
qed

lemma example_hits:
  "occupied 2 example_air (channels_of 8 3450 3453) = [\<lparr>ch_id = 3452, ch_fd = 9252 / 10\<rparr>]"
  by (simp add: example_channels channel_hit_def hit_def example_air_def noise_def MHZ_def)

lemma example_channels_nonempty: "channels_of 8 3450 3453 \<noteq> []"
  by (simp add: example_channels)

lemma example_config [simp]:
  "rf_handle example_scan" "cfg_psr_threshold (scan_cfg example_scan) = 2" "nof_results example_scan = 0"
  by (simp_all add: example_scan_def default_config_def)



lemma scans_keep_radio_discipline_witness:
  "keeps_discipline example_scan (fst (lte_scan_coarse example_env example_scan 8 3450 3453))"
  using scans_keep_radio_discipline [of example_scan example_env 8 3450 3453 3450 0]
  by (simp add: LTE_SCAN_MAX_RESULTS_def)

lemma scan_earfcn_overflows_witness:
  "lte_scan_earfcn example_env (example_scan\<lparr>nof_results := 256\<rparr>) 3452 = None"
  using scan_earfcn_overflows [of "example_scan\<lparr>nof_results := 256\<rparr>" 3452 "925 + 2 / 10" example_env example_air 0]
    example_steady
  by (simp add: LTE_SCAN_MAX_RESULTS_def earfcn_to_freq_def channel_hit_def hit_def example_air_def noise_def MHZ_def)

lemma sib1_leaks_buffers_witness:
  "rf_run (fst (try_sib1 example_env [] \<lparr>cell_nof_prb = 6, cell_nof_ports = 1, cell_id = 77, cell_cp = 0,
    cell_frame_type = 0\<rparr> 0 15 zero_result)) (idle 0) = Some (idle 4)"
proof -
  let ?cell = "\<lparr>cell_nof_prb = 6, cell_nof_ports = 1, cell_id = 77, cell_cp = 0, cell_frame_type = 0\<rparr>"
  let ?tr1 = "[] @ [Set_Srate (of_int 1920000)]"
  let ?tr2 = "?tr1 @ [Buf_Malloc True] @ [Buf_Malloc True] @ [Buf_Malloc True] @ [Buf_Malloc True]"
  have start: "rf_run [] (idle 0) = Some (idle 0)" by simp
  have bufs: "alloc_buffers example_env SRSRAN_MAX_PORTS 0 ?tr1 = (?tr2, 4, True)"
    by (simp add: SRSRAN_MAX_PORTS_def numeral_nat example_env_def)
  obtain tr3 where opened: "sib1_open example_env 6 (?cell\<lparr>cell_nof_prb := 6\<rparr>) 0 ?tr2 = Inr tr3"
    by (simp add: sib1_open_def example_env_def Let_def)
  have prb: "6 = min 15 (cell_nof_prb ?cell)" by simp
  have rate: "1920000 = srsran_sampling_freq_hz (env_standard_rates example_env) 6"
    by (simp add: srsran_sampling_freq_hz_def srsran_symbol_sz_def example_env_def)
  have dev: "\<bar>env_set_srate example_env [] - of_int 1920000\<bar> \<le> 1000" by (simp add: example_env_def)
  have name: "res_operator_name zero_result = []" by (simp add: zero_result_def)
  from sib1_leaks_buffers [OF start bufs opened prb rate _ dev name] show ?thesis by simp
qed

end
