(* ===== verification/Spec2Isabelle.thy ===== *)
theory Spec2Isabelle
  imports Asn1_Codecs Rlc_Am_Lte_Packing Pdcp_Nr_Link Mac_Sch_Pdu_Nr_Proofs Gtpu Bearer_Manager Timer_Properties Rlc_Um_Nr_Properties Rlc_Um_Nr_Errors Lte_Scan_Properties
begin

text \<open>
  A verification development for srsRAN 4G, a software radio suite for LTE and NR (UE, eNB, gNB and EPC over a
  common library, \<^verbatim>\<open>lib/\<close>), in the fork that adds an LTE cell scanner.

  \<^bold>\<open>The program.\<close> A packet on its way down the NR stack passes PDCP (numbering, integrity, ciphering), RLC
  (segmentation, reassembly, retransmission) and MAC (multiplexing into a transport block); control messages are
  ASN.1 encoded with packed encoding rules; towards the core network packets travel in GTP-U tunnels; a bearer manager
  maps bearers to logical channels; timers of the stack drive reordering and reassembly. The cell scanner stands
  beside the stack: it tunes a radio through the channels of a band, searches for cells, decodes what they broadcast
  and names their operators.

  \<^bold>\<open>Theories and the code they model.\<close>
  \<^item> \<open>Prelude\<close>: names for machine words, bytes as bit sequences, conversion to \<open>float\<close>, word and list lemmas.
    \<open>Int_Helpers\<close>: \<^verbatim>\<open>common/int_helpers.h\<close>. \<open>Std_Map\<close>: \<open>std::map\<close> as a sorted association list, with the locale
    \<open>ordered_store\<close> that its clients use.
  \<^item> \<open>Byte_Buffer\<close>: \<open>byte_buffer_t\<close> (\<^verbatim>\<open>common/byte_buffer.h\<close>). \<open>Circular_Buffer\<close>, \<open>Byte_Buffer_Queue\<close>: the ring of
    \<^verbatim>\<open>adt/circular_buffer.h\<close>, the locale \<open>bounded_queue\<close>, and the queue of buffers with its counters
    (\<^verbatim>\<open>upper/byte_buffer_queue.h\<close>).
  \<^item> \<open>Asn1_Bit_Ref\<close>, \<open>Asn1_Per\<close>, \<open>Asn1_Codecs\<close>: bit cursors and packed encoding rules of \<^verbatim>\<open>asn1/asn1_utils.cc\<close> and
    its header; the locale \<open>per_codec\<close> is the contract of an encoder and its decoder, interpreted for every encoding.
  \<^item> \<open>Rlc_Am_Nr_Packing\<close>, \<open>Rlc_Am_Lte_Packing\<close>: headers and status PDUs of acknowledged mode
    (\<^verbatim>\<open>rlc/rlc_am_nr_packing.cc\<close>, \<^verbatim>\<open>rlc/rlc_am_lte_packing.cc\<close>).
  \<^item> \<open>Rlc_Um_Nr_Header\<close>, \<open>Rlc_Um_Nr_Tx\<close>, \<open>Rlc_Um_Nr_Rx\<close>, \<open>Rlc_Um_Nr\<close>: the unacknowledged mode entity of NR
    (\<^verbatim>\<open>rlc/rlc_um_nr.cc\<close>, \<^verbatim>\<open>rlc/rlc_um_base.cc\<close>, \<^verbatim>\<open>rlc/rlc_common.h\<close>), over the byte buffers and the queue; proofs in
    \<open>Rlc_Um_Nr_Tx_Proofs\<close>, \<open>Rlc_Um_Nr_Rx_Proofs\<close>, \<open>Rlc_Um_Nr_Link\<close>, \<open>Rlc_Um_Nr_Properties\<close>, \<open>Rlc_Um_Nr_Errors\<close>.
  \<^item> \<open>Pdcp_Base\<close>, \<open>Pdcp_Nr\<close>: \<^verbatim>\<open>pdcp/pdcp_entity_base.cc\<close> and \<^verbatim>\<open>pdcp/pdcp_entity_nr.cc\<close>; proofs in \<open>Pdcp_Nr_Rx\<close> and
    \<open>Pdcp_Nr_Link\<close>.
  \<^item> \<open>Mac_Sch_Pdu_Nr\<close>: \<^verbatim>\<open>mac/mac_sch_pdu_nr.cc\<close>; proofs in \<open>Mac_Sch_Pdu_Nr_Proofs\<close>. \<open>Gtpu\<close>: \<^verbatim>\<open>gtpu/gtpu.cc\<close>.
    \<open>Bearer_Manager\<close>: \<^verbatim>\<open>common/bearer_manager.cc\<close>.
  \<^item> \<open>Timers\<close>: \<^verbatim>\<open>common/timers.h\<close> with the lists of \<^verbatim>\<open>adt/intrusive_list.h\<close>; proofs in \<open>Timers_Proofs\<close> and
    \<open>Timer_Properties\<close>.
  \<^item> \<open>Lte_Bands\<close>: the band table of \<^verbatim>\<open>phy/common/phy_common.c\<close>; proofs in \<open>Lte_Bands_Proofs\<close>. \<open>Lte_Scan\<close>,
    \<open>Lte_Scan_Ops\<close>: the cell scanner \<^verbatim>\<open>lib/examples/lte_scan.cc\<close>; proofs in \<open>Lte_Scan_Proofs\<close>, \<open>Lte_Scan_Radio\<close>,
    \<open>Lte_Scan_Bands\<close>, \<open>Lte_Scan_Properties\<close>.

  \<^bold>\<open>State and operations.\<close> A C++ class or struct is a record with the fields of the source; a method is a function
  from the state to the new state and its result. A failure that the code reports is a value: the option type, a
  result code, or a datatype of errors. \<open>None\<close> as the result of a function whose code returns no error stands for
  what the source leaves undefined (an access outside an array, an assertion) or, for the receiver of
  unacknowledged mode, for not returning; theorems that an operation returns are stated as \<open>= Some _\<close>. Integers are
  words of the width of the source, or naturals and integers with the conversions written out. Locks make operations
  atomic. Logging is left out where it has no effect.

  \<^bold>\<open>The environment.\<close> What is outside of \<^verbatim>\<open>src/\<close> or outside of logic is an argument: ciphering and integrity
  algorithms of PDCP, the pool of buffers (the contents of the memory that it hands out; an empty pool is modelled in
  transmission), the callbacks of timers (lists of operations), the choice when a timer of PDCP or RLC expires, the
  radio and the signal processing of the scanner (functions of all calls made so far, hence any behaviour). Facts
  about them that a theorem needs are its premises, and each such theorem is followed by a witness that meets them.

  \<^bold>\<open>What the lemmas show.\<close>
  \<^item> ASN.1: the cursor implements bit lists; every encoding is decoded to what was encoded, inside any
    message; packing returns on every input with a result code.
  \<^item> RLC packing: headers and status PDUs are read back; merging of NACKs keeps the set of missing segments;
    trimming of a status PDU keeps its promise and its bound.
  \<^item> RLC unacknowledged mode: over a channel that keeps order all SDUs are delivered; over any channel only SDUs of the
    sender are; PDUs keep to their grant; the queue is a bounded list; suspension is transparent; and inputs on
    which the code hangs, loses an octet or builds a PDU that cannot be read.
  \<^item> PDCP: an SDU is opened as it was sealed; COUNT values are recovered inside the window and used once; delivery
    is in order for every run of receptions and expiries, and the reordering timer makes progress.
  \<^item> MAC, GTP-U: what is packed is parsed, with lengths and padding; malformed input is refused or, where it is
    not, how far the parser reads.
  \<^item> Bearers and timers: both implement their abstract counterparts (a map of bearers, a list of deadlines) for every
    sequence of operations; timers expire on time; and what happens when callbacks change timers.
  \<^item> Bands and scanner: channels, bands, frequencies and operators agree; scans report only what they found, in
    order and within bounds, and keep the discipline of the radio whatever it answers; on a radio that does not
    change, exactly what each mode finds.

  \<^bold>\<open>Loops.\<close> Loops over lists and bounded indices are structural or have a measure. The loops of the receiver in
  unacknowledged mode and of the timer wheel may not end on some states; they are partial functions into
  options, and the theorems about them prove the states that are reachable to be ones where they return
  (or exhibit inputs where they do not). No fuel is used except the bounds that the code has itself (300 trials
  for SIB1).

  \<^bold>\<open>Restrictions.\<close> A COUNT of \<open>2 ^ 32 - 1\<close> is excluded where the code's sentinel would collide with it. A timer of
  unacknowledged mode is its running flag and an operation of expiry; one configured with 0 ms, which has no
  callback, is not distinguished. Floating-point numbers of the scanner and of the band table are exact rationals.

  \<^bold>\<open>Not modelled.\<close> The state machines of acknowledged mode (\<^verbatim>\<open>rlc_am_nr.cc\<close>, \<^verbatim>\<open>rlc_am_lte.cc\<close>), the LTE
  variants of RLC, PDCP and MAC PDUs, the dispatch by channel (\<^verbatim>\<open>rlc.cc\<close>, \<^verbatim>\<open>pdcp.cc\<close>): not for a reason of
  principle, they are the next components. The generated ASN.1 messages (more than half of all lines) are sequences of calls
  of the encoding rules that are modelled. NAS messages, RRC, S1AP, NGAP and the applications \<^verbatim>\<open>srsue\<close>, \<^verbatim>\<open>srsenb\<close>, \<^verbatim>\<open>srsgnb\<close>,
  \<^verbatim>\<open>srsepc\<close> are built on them. The physical layer is signal processing on samples; radio drivers, threads, sockets,
  capture files and logging are input and output.
\<close>

end
